(* ===== verification/Py_Prelude.thy ===== *)
theory Py_Prelude
  imports Main "HOL-Library.Word"
begin

text \<open>
  Shared vocabulary of the development: the exceptions the Python sources raise, results that are
  either an exception or a value, the sequencing of fallible calls, Python slices, and the
  contract of the ceiling division and rounding helpers that the sources import from
  \<^verbatim>\<open>vllm.utils.math_utils\<close> (a module that is not part of this repository, so the model takes the
  two functions as arguments and states what it needs of them as hypotheses).
\<close>

named_theorems res_simps \<open>rewriting of sequenced fallible computations\<close>
named_theorems layout_simps \<open>unfolding of address and size arithmetic\<close>

section \<open>Exceptions and results\<close>

text \<open>One constructor per exception class that the modelled code raises or lets escape.\<close>

datatype py_error =
    AssertionError
  | ValueError
  | IndexError
  | KeyError
  | TypeError
  | OverflowError
  | ZeroDivisionError
  | TimeoutError
  | RuntimeError
  | NotImplementedError
  | StopIteration

type_synonym 'a res = "py_error + 'a"

definition res_bind :: "'a res \<Rightarrow> ('a \<Rightarrow> 'b res) \<Rightarrow> 'b res" where
  "res_bind m f = (case m of Inl e \<Rightarrow> Inl e | Inr x \<Rightarrow> f x)"

text \<open>An \<^verbatim>\<open>assert\<close> or a guarded \<^verbatim>\<open>raise\<close>: fails with the exception unless the condition holds.\<close>

definition require :: "bool \<Rightarrow> py_error \<Rightarrow> unit res" where
  "require b e = (if b then Inr () else Inl e)"

lemma res_bind_simps [simp]:
  "res_bind (Inl e) f = Inl e"
  "res_bind (Inr x) f = f x"
  by (simp_all add: res_bind_def)

lemma require_simps [simp]:
  "require True e = Inr ()"
  "require False e = Inl e"
  by (simp_all add: require_def)

lemma res_bind_eq_Inr [res_simps]:
  "res_bind m f = Inr y \<longleftrightarrow> (\<exists>x. m = Inr x \<and> f x = Inr y)"
  by (cases m) auto

lemma res_bind_eq_Inl [res_simps]:
  "res_bind m f = Inl e \<longleftrightarrow> m = Inl e \<or> (\<exists>x. m = Inr x \<and> f x = Inl e)"
  by (cases m) auto

lemma require_eq_Inr [res_simps]: "require b e = Inr u \<longleftrightarrow> b"
  by (simp add: require_def)

lemma require_eq_Inl [res_simps]: "require b e = Inl e' \<longleftrightarrow> \<not> b \<and> e' = e"
  by (auto simp: require_def)

lemma require_bind_eq_Inr [res_simps]:
  "res_bind (require b e) f = Inr y \<longleftrightarrow> b \<and> f () = Inr y"
  by (simp add: require_def)

text \<open>A loop that applies a fallible function to each element, stopping at the first exception.\<close>

fun map_res :: "('a \<Rightarrow> 'b res) \<Rightarrow> 'a list \<Rightarrow> 'b list res" where
  "map_res f [] = Inr []"
| "map_res f (x # xs) = res_bind (f x) (\<lambda>y. res_bind (map_res f xs) (\<lambda>ys. Inr (y # ys)))"

lemma map_res_eq_Inr:
  "map_res f xs = Inr ys \<longleftrightarrow> length ys = length xs \<and> (\<forall>i < length xs. f (xs ! i) = Inr (ys ! i))"
proof (induction xs arbitrary: ys)
  case Nil
  then show ?case by auto
next
  case (Cons x xs)
  show ?case
  proof (cases ys)
    case Nil
    then show ?thesis by (auto simp: res_simps)
  next
    case (Cons z zs)
    then show ?thesis
      using Cons.IH by (auto simp: res_simps nth_Cons less_Suc_eq_0_disj)
  qed
qed

lemma map_res_all_Inr: "(\<And>x. x \<in> set xs \<Longrightarrow> f x = Inr (g x)) \<Longrightarrow> map_res f xs = Inr (map g xs)"
  by (induction xs) auto

lemma map_res_mem:
  "map_res f xs = Inr ys \<Longrightarrow> y \<in> set ys \<Longrightarrow> \<exists>x \<in> set xs. f x = Inr y"
  by (auto simp: map_res_eq_Inr in_set_conv_nth) (metis nth_mem)

section \<open>Lists: indexing and slices\<close>

text \<open>\<^verbatim>\<open>xs[i]\<close> for a non-negative index, and \<^verbatim>\<open>xs[i] = v\<close>: both raise out of range.\<close>

definition py_get :: "'a list \<Rightarrow> nat \<Rightarrow> 'a res" where
  "py_get xs i = (if i < length xs then Inr (xs ! i) else Inl IndexError)"

definition py_set :: "'a list \<Rightarrow> nat \<Rightarrow> 'a \<Rightarrow> 'a list res" where
  "py_set xs i v = (if i < length xs then Inr (xs[i := v]) else Inl IndexError)"

text \<open>\<^verbatim>\<open>xs[s:e]\<close> with non-negative bounds: Python clamps both ends to the length.\<close>

definition slice :: "nat \<Rightarrow> nat \<Rightarrow> 'a list \<Rightarrow> 'a list" where
  "slice s e xs = take (e - s) (drop s xs)"

text \<open>
  \<^verbatim>\<open>buf[s:e] = v\<close> on a memoryview: the clamped left side and the right side must have the same
  length, otherwise a \<^verbatim>\<open>ValueError\<close> is raised and nothing is written.
\<close>

definition slice_assign :: "nat \<Rightarrow> nat \<Rightarrow> 'a list \<Rightarrow> 'a list \<Rightarrow> 'a list res" where
  "slice_assign s e v xs =
     (if length (slice s e xs) = length v
      then Inr (take s xs @ v @ drop (s + length v) xs)
      else Inl ValueError)"

lemma length_slice [simp]: "length (slice s e xs) = min (e - s) (length xs - s)"
  by (simp add: slice_def min.commute)

lemma nth_slice: "i < e - s \<Longrightarrow> s + i < length xs \<Longrightarrow> slice s e xs ! i = xs ! (s + i)"
  by (simp add: slice_def)

lemma slice_update_in:
  "s \<le> i \<Longrightarrow> i < e \<Longrightarrow> slice s e (xs[i := v]) = (slice s e xs)[i - s := v]"
  by (simp add: slice_def drop_update_swap take_update_swap)

lemma slice_update_out: "i < s \<or> e \<le> i \<Longrightarrow> slice s e (xs[i := v]) = slice s e xs"
  by (auto simp: slice_def drop_update_swap drop_update_cancel take_update_swap)
     (metis diff_le_mono drop_update_swap le_cases take_update_cancel drop_update_cancel not_less)

lemma slice_assign_ok:
  "e \<le> length xs \<Longrightarrow> s \<le> e \<Longrightarrow> length v = e - s \<Longrightarrow>
   slice_assign s e v xs = Inr (take s xs @ v @ drop e xs)"
  by (simp add: slice_assign_def)

section \<open>Ceiling division\<close>

text \<open>Python's \<^verbatim>\<open>//\<close> on ints.\<close>

definition floordiv :: "int \<Rightarrow> int \<Rightarrow> int res" where
  "floordiv a b = (if b = 0 then Inl ZeroDivisionError else Inr (a div b))"

text \<open>
  \<open>is_cdiv cd\<close>: the documented behaviour of \<^verbatim>\<open>cdiv(a, b)\<close>, the quotient rounded up, for a positive
  divisor. \<open>is_round_up ru\<close>: the documented behaviour of \<^verbatim>\<open>round_up(x, y)\<close>, the least multiple of
  \<^verbatim>\<open>y\<close> that is not below \<^verbatim>\<open>x\<close>. \<open>cdiv_ref\<close> and \<open>round_up_ref\<close> are concrete functions that meet them.
\<close>

definition is_cdiv :: "(int \<Rightarrow> int \<Rightarrow> int) \<Rightarrow> bool" where
  "is_cdiv cd \<longleftrightarrow> (\<forall>a b. 0 < b \<longrightarrow> a \<le> cd a b * b \<and> (cd a b - 1) * b < a)"

definition is_round_up :: "(int \<Rightarrow> int \<Rightarrow> int) \<Rightarrow> bool" where
  "is_round_up ru \<longleftrightarrow> (\<forall>x m. 0 < m \<longrightarrow> m dvd ru x m \<and> x \<le> ru x m \<and> ru x m < x + m)"

definition cdiv_ref :: "int \<Rightarrow> int \<Rightarrow> int" where
  "cdiv_ref a b = - ((- a) div b)"

definition round_up_ref :: "int \<Rightarrow> int \<Rightarrow> int" where
  "round_up_ref x m = cdiv_ref x m * m"

lemma is_cdivD:
  assumes "is_cdiv cd" "0 < b"
  shows "a \<le> cd a b * b" "(cd a b - 1) * b < a"
  using assms by (auto simp: is_cdiv_def)

lemma cdiv_le_iff:
  assumes "is_cdiv cd" "0 < b"
  shows "cd a b \<le> n \<longleftrightarrow> a \<le> n * b"
proof
  assume "cd a b \<le> n"
  then have "cd a b * b \<le> n * b" using assms(2) by simp
  then show "a \<le> n * b" using is_cdivD(1)[OF assms, of a] by linarith
next
  assume "a \<le> n * b"
  then have "(cd a b - 1) * b < n * b" using is_cdivD(2)[OF assms, of a] by linarith
  then show "cd a b \<le> n" using assms(2) by simp
qed

lemma cdiv_unique: "is_cdiv cd \<Longrightarrow> 0 < b \<Longrightarrow> a \<le> n * b \<Longrightarrow> (n - 1) * b < a \<Longrightarrow> cd a b = n"
  using cdiv_le_iff[of cd b a n] cdiv_le_iff[of cd b a "n - 1"] by linarith

lemma cdiv_mono: "is_cdiv cd \<Longrightarrow> 0 < b \<Longrightarrow> a \<le> a' \<Longrightarrow> cd a b \<le> cd a' b"
  by (meson cdiv_le_iff is_cdivD(1) order_trans)

lemma cdiv_nonneg: "is_cdiv cd \<Longrightarrow> 0 < b \<Longrightarrow> 0 \<le> a \<Longrightarrow> 0 \<le> cd a b"
  using is_cdivD(1)[of cd b a] by (smt (verit) mult_neg_pos)

lemma cdiv_mult_self: "is_cdiv cd \<Longrightarrow> 0 < b \<Longrightarrow> cd (n * b) b = n"
  by (rule cdiv_unique) (auto simp: algebra_simps)

lemma cdiv_cdiv:
  assumes "is_cdiv cd" "0 < b" "0 < c"
  shows "cd (cd a c) b = cd a (b * c)"
proof -
  have "cd (cd a c) b \<le> n \<longleftrightarrow> cd a (b * c) \<le> n" for n
    using assms by (simp add: cdiv_le_iff algebra_simps)
  then show ?thesis by (meson order_antisym order_refl)
qed

lemma is_cdiv_ref: "is_cdiv cdiv_ref"
proof -
  have "a \<le> - (- a div b) * b \<and> (- (- a div b) - 1) * b < a" if "0 < b" for a b :: int
  proof -
    have eq: "b * (- a div b) = - a - (- a) mod b" by (simp add: minus_mod_eq_mult_div)
    have "0 \<le> (- a) mod b" "(- a) mod b < b" using that by simp_all
    with eq have "a \<le> - (b * (- a div b))" "- (b * (- a div b)) < a + b" by linarith+
    then show ?thesis by (simp add: algebra_simps)
  qed
  then show ?thesis by (simp add: is_cdiv_def cdiv_ref_def)
qed

lemma is_round_up_ref: "is_round_up round_up_ref"
  using is_cdiv_ref
  by (auto simp: is_round_up_def round_up_ref_def is_cdiv_def algebra_simps)

lemma is_round_upD:
  assumes "is_round_up ru" "0 < m"
  shows "m dvd ru x m" "x \<le> ru x m" "ru x m < x + m"
  using assms by (auto simp: is_round_up_def)

end
