(* ===== verification/Shm_Layout.thy ===== *)
theory Shm_Layout
  imports Py_Prelude
begin

text \<open>
  The memory of \<^verbatim>\<open>ShmRingBuffer\<close>
  (\<^verbatim>\<open>overlays/vllm/distributed/device_communicators/shm_broadcast.py\<close>): one flat shared segment
  that holds \<open>max_chunks\<close> data chunks followed by \<open>max_chunks\<close> metadata rows of one written flag
  and one flag per reader. This theory gives the constructor with its failure branches, the address
  arithmetic of \<^verbatim>\<open>get_data\<close> and \<^verbatim>\<open>get_metadata\<close>, and, as the locale \<open>ring_memory\<close>, the read-over-write
  laws the broadcast protocol of theory \<open>Shm_Protocol\<close> relies on. The interpretation at the end
  proves the laws from the address arithmetic.
\<close>

section \<open>The segment and its layout\<close>

type_synonym byte = "8 word"

record shm_layout =
  n_reader :: nat
  metadata_size :: nat
  max_chunk_bytes :: nat
  max_chunks :: nat
  total_bytes_of_buffer :: nat
  data_offset :: nat
  metadata_offset :: nat

definition ring_layout :: "nat \<Rightarrow> nat \<Rightarrow> nat \<Rightarrow> shm_layout" where
  "ring_layout nr chunk_bytes chunks =
     \<lparr> n_reader = nr,
       metadata_size = 1 + nr,
       max_chunk_bytes = chunk_bytes,
       max_chunks = chunks,
       total_bytes_of_buffer = (chunk_bytes + (1 + nr)) * chunks,
       data_offset = 0,
       metadata_offset = chunk_bytes * chunks \<rparr>"

text \<open>
  What the constructor asks the operating system: whether the shared-memory mount exists and how
  many bytes it has free, the bytes of a fresh segment of a given size (its length may exceed the
  request), and the segments that can be opened by name.
\<close>

record shm_os =
  shm_isdir :: bool
  shm_free :: nat
  shm_fresh :: "nat \<Rightarrow> byte list"
  shm_named :: "string \<rightharpoonup> byte list"

definition check_shm_free_space :: "shm_os \<Rightarrow> nat \<Rightarrow> unit res" where
  "check_shm_free_space os required_bytes =
     (if \<not> shm_isdir os then Inr ()
      else if required_bytes \<le> shm_free os then Inr ()
      else Inl RuntimeError)"

text \<open>
  A ring object: its layout, whether this process created the segment, and the segment's contents
  (absent when the handle was deserialised on another node, where the named segment does not exist).
\<close>

record ring_buffer =
  layout :: shm_layout
  is_creator :: bool
  shared_memory :: "byte list option"

definition ShmRingBuffer :: "shm_os \<Rightarrow> nat \<Rightarrow> nat \<Rightarrow> nat \<Rightarrow> string option \<Rightarrow> ring_buffer res" where
  "ShmRingBuffer os nr chunk_bytes chunks name =
     (let L = ring_layout nr chunk_bytes chunks in
      case name of
        None \<Rightarrow>
          res_bind (check_shm_free_space os (total_bytes_of_buffer L)) (\<lambda>_.
          \<comment> \<open>\<^verbatim>\<open>SharedMemory(create=True, size=0)\<close> is a \<^verbatim>\<open>ValueError\<close>\<close>
          res_bind (require (0 < total_bytes_of_buffer L) ValueError) (\<lambda>_.
          let raw = shm_fresh os (total_bytes_of_buffer L);
              buf = take (metadata_offset L) raw @ replicate (length raw - metadata_offset L) 0
          in Inr \<lparr> layout = L, is_creator = True, shared_memory = Some buf \<rparr>))
      | Some nm \<Rightarrow>
          (case shm_named os nm of
             None \<Rightarrow> Inr \<lparr> layout = L, is_creator = False, shared_memory = None \<rparr>
           | Some buf \<Rightarrow>
               res_bind (require (total_bytes_of_buffer L \<le> length buf) AssertionError) (\<lambda>_.
               Inr \<lparr> layout = L, is_creator = False, shared_memory = Some buf \<rparr>)))"

definition get_data :: "shm_layout \<Rightarrow> byte list \<Rightarrow> nat \<Rightarrow> byte list" where
  "get_data L buf current_idx =
     (let start = data_offset L + current_idx * max_chunk_bytes L;
          end = start + max_chunk_bytes L
      in slice start end buf)"

definition get_metadata :: "shm_layout \<Rightarrow> byte list \<Rightarrow> nat \<Rightarrow> byte list" where
  "get_metadata L buf current_idx =
     (let start = metadata_offset L + current_idx * metadata_size L;
          end = start + metadata_size L
      in slice start end buf)"

text \<open>
  Item assignment through the two memoryviews writes the underlying segment at the view's start
  plus the index.
\<close>

definition set_data :: "shm_layout \<Rightarrow> nat \<Rightarrow> nat \<Rightarrow> byte \<Rightarrow> byte list \<Rightarrow> byte list" where
  "set_data L current_idx j v buf = buf[data_offset L + current_idx * max_chunk_bytes L + j := v]"

definition set_metadata :: "shm_layout \<Rightarrow> nat \<Rightarrow> nat \<Rightarrow> byte \<Rightarrow> byte list \<Rightarrow> byte list" where
  "set_metadata L current_idx i v buf =
     buf[metadata_offset L + current_idx * metadata_size L + i := v]"

abbreviation flag :: "shm_layout \<Rightarrow> byte list \<Rightarrow> nat \<Rightarrow> nat \<Rightarrow> byte" where
  "flag L buf c i \<equiv> get_metadata L buf c ! i"

lemma ring_layout_simps [simp]:
  "n_reader (ring_layout nr b k) = nr"
  "metadata_size (ring_layout nr b k) = 1 + nr"
  "max_chunk_bytes (ring_layout nr b k) = b"
  "max_chunks (ring_layout nr b k) = k"
  "total_bytes_of_buffer (ring_layout nr b k) = (b + (1 + nr)) * k"
  "data_offset (ring_layout nr b k) = 0"
  "metadata_offset (ring_layout nr b k) = b * k"
  by (simp_all add: ring_layout_def)

section \<open>Address arithmetic\<close>

text \<open>Row \<open>c\<close> of a table of \<open>k\<close>-byte rows ends at or before any later row starts.\<close>

lemma row_end_le: "c < (d::nat) \<Longrightarrow> c * k + k \<le> d * k"
  by (metis Suc_leI add.commute mult_Suc mult_le_mono1)

lemma row_inj:
  assumes "i < k" "j < (k::nat)"
  shows "c * k + i = d * k + j \<longleftrightarrow> c = d \<and> i = j"
proof
  assume "c * k + i = d * k + j"
  note * = this
  then have "(c * k + i) div k = (d * k + j) div k" by simp
  with assms have "c = d" by simp
  with * show "c = d \<and> i = j" by simp
qed auto

lemma row_less: "c < d \<Longrightarrow> i < k \<Longrightarrow> c * k + i < d * (k::nat)"
  using row_end_le[of c d k] by linarith

section \<open>The memory interface of the protocol\<close>

text \<open>
  The protocol sees the segment through four operations. The laws say that flags and chunk bytes
  are independent cells.
\<close>

locale ring_memory =
  fixes flg :: "'m \<Rightarrow> nat \<Rightarrow> nat \<Rightarrow> byte"
    and set_flg :: "nat \<Rightarrow> nat \<Rightarrow> byte \<Rightarrow> 'm \<Rightarrow> 'm"
    and chunk :: "'m \<Rightarrow> nat \<Rightarrow> byte list"
    and set_chunk :: "nat \<Rightarrow> nat \<Rightarrow> byte \<Rightarrow> 'm \<Rightarrow> 'm"
    and ok :: "'m \<Rightarrow> bool"
    and nr :: nat
    and chunks :: nat
    and chunk_bytes :: nat
  assumes flg_set_flg:
      "ok m \<Longrightarrow> c < chunks \<Longrightarrow> c' < chunks \<Longrightarrow> i \<le> nr \<Longrightarrow> i' \<le> nr \<Longrightarrow>
       flg (set_flg c i v m) c' i' = (if c' = c \<and> i' = i then v else flg m c' i')"
    and chunk_set_flg:
      "ok m \<Longrightarrow> c < chunks \<Longrightarrow> c' < chunks \<Longrightarrow> i \<le> nr \<Longrightarrow> chunk (set_flg c i v m) c' = chunk m c'"
    and flg_set_chunk:
      "ok m \<Longrightarrow> c < chunks \<Longrightarrow> c' < chunks \<Longrightarrow> j < chunk_bytes \<Longrightarrow> i' \<le> nr \<Longrightarrow>
       flg (set_chunk c j v m) c' i' = flg m c' i'"
    and chunk_set_chunk:
      "ok m \<Longrightarrow> c < chunks \<Longrightarrow> c' < chunks \<Longrightarrow> j < chunk_bytes \<Longrightarrow>
       chunk (set_chunk c j v m) c' = (if c' = c then (chunk m c)[j := v] else chunk m c')"
    and ok_set_flg: "ok m \<Longrightarrow> ok (set_flg c i v m)"
    and ok_set_chunk: "ok m \<Longrightarrow> ok (set_chunk c j v m)"
    and length_chunk: "ok m \<Longrightarrow> c < chunks \<Longrightarrow> length (chunk m c) = chunk_bytes"
begin

text \<open>Clients: operations on one chunk leave every other chunk and its flags alone.\<close>

lemma set_flg_other_chunk:
  "ok m \<Longrightarrow> c < chunks \<Longrightarrow> c' < chunks \<Longrightarrow> i \<le> nr \<Longrightarrow> c' \<noteq> c \<Longrightarrow>
   (\<forall>i' \<le> nr. flg (set_flg c i v m) c' i' = flg m c' i') \<and> chunk (set_flg c i v m) c' = chunk m c'"
  by (simp add: flg_set_flg chunk_set_flg)

lemma set_chunk_other_chunk:
  "ok m \<Longrightarrow> c < chunks \<Longrightarrow> c' < chunks \<Longrightarrow> j < chunk_bytes \<Longrightarrow> c' \<noteq> c \<Longrightarrow>
   (\<forall>i' \<le> nr. flg (set_chunk c j v m) c' i' = flg m c' i')
     \<and> chunk (set_chunk c j v m) c' = chunk m c'"
  by (simp add: flg_set_chunk chunk_set_chunk)

text \<open>Storing the bytes of a message one by one leaves exactly that message in the chunk.\<close>

lemma fold_set_chunk:
  "ok m \<Longrightarrow> c < chunks \<Longrightarrow> k + length bs \<le> chunk_bytes \<Longrightarrow>
   ok (fold (\<lambda>(j, b). set_chunk c j b) (zip [k..<k + length bs] bs) m) \<and>
   chunk (fold (\<lambda>(j, b). set_chunk c j b) (zip [k..<k + length bs] bs) m) c
     = take k (chunk m c) @ bs @ drop (k + length bs) (chunk m c)"
proof (induction bs arbitrary: k m)
  case Nil
  then show ?case by simp
next
  case (Cons b bs)
  let ?m = "set_chunk c k b m"
  have k: "k < chunk_bytes" and len: "length (chunk m c) = chunk_bytes"
    using Cons.prems by (auto simp: length_chunk)
  have ok': "ok ?m" using Cons.prems by (simp add: ok_set_chunk)
  have ch: "chunk ?m c = (chunk m c)[k := b]"
    using Cons.prems k by (simp add: chunk_set_chunk)
  have upt: "[k..<k + length (b # bs)] = k # [Suc k..<Suc k + length bs]"
    using upt_conv_Cons[of k "k + length (b # bs)"] by simp
  have "take (Suc k) ((chunk m c)[k := b]) = take k (chunk m c) @ [b]"
    using k len by (simp add: take_Suc_conv_app_nth)
  moreover have "drop (Suc k + length bs) ((chunk m c)[k := b]) = drop (Suc k + length bs) (chunk m c)"
    by simp
  ultimately show ?case
    using Cons.IH[OF ok', of "Suc k"] Cons.prems unfolding upt by (simp add: ch)
qed

end

definition segment_ok :: "shm_layout \<Rightarrow> byte list \<Rightarrow> bool" where
  "segment_ok L buf \<longleftrightarrow> total_bytes_of_buffer L \<le> length buf"

lemma metadata_in_segment:
  assumes "segment_ok (ring_layout nr b k) buf" "c < k" "i \<le> nr"
  shows "b * k + c * (1 + nr) + i < length buf"
  using assms row_less[of c k i "1 + nr"] by (simp add: segment_ok_def algebra_simps)

lemma data_in_segment:
  assumes "segment_ok (ring_layout nr b k) buf" "c < k" "j < b"
  shows "c * b + j < b * k" "b * k \<le> length buf"
  using assms row_less[of c k j b] by (simp_all add: segment_ok_def algebra_simps)

lemma flag_nth:
  assumes "segment_ok (ring_layout nr b k) buf" "c < k" "i \<le> nr"
  shows "flag (ring_layout nr b k) buf c i = buf ! (b * k + c * (1 + nr) + i)"
  using metadata_in_segment[OF assms] assms(3) by (simp add: get_metadata_def Let_def nth_slice)

lemma length_get_metadata:
  assumes "segment_ok (ring_layout nr b k) buf" "c < k"
  shows "length (get_metadata (ring_layout nr b k) buf c) = 1 + nr"
  using metadata_in_segment[OF assms order_refl] by (simp add: get_metadata_def Let_def)

lemma length_get_data:
  assumes "segment_ok (ring_layout nr b k) buf" "c < k"
  shows "length (get_data (ring_layout nr b k) buf c) = b"
proof -
  have "c * b + b \<le> k * b" by (rule row_end_le[OF assms(2)])
  also have "\<dots> \<le> length buf"
    using assms(1) by (simp add: segment_ok_def algebra_simps)
  finally show ?thesis by (simp add: get_data_def Let_def)
qed

lemma segment_ok_update [simp]:
  "segment_ok L (set_metadata L' c i v buf) = segment_ok L buf"
  "segment_ok L (set_data L' c i v buf) = segment_ok L buf"
  by (simp_all add: segment_ok_def set_metadata_def set_data_def)

lemma flag_set_metadata:
  assumes ok: "segment_ok (ring_layout nr b k) buf" and "c < k" "c' < k" "i \<le> nr" "i' \<le> nr"
  shows "flag (ring_layout nr b k) (set_metadata (ring_layout nr b k) c i v buf) c' i' =
         (if c' = c \<and> i' = i then v else flag (ring_layout nr b k) buf c' i')"
proof -
  have "flag (ring_layout nr b k) (set_metadata (ring_layout nr b k) c i v buf) c' i' =
        (buf[b * k + c * (1 + nr) + i := v]) ! (b * k + c' * (1 + nr) + i')"
    using flag_nth[of nr b k "set_metadata (ring_layout nr b k) c i v buf" c' i', OF _ assms(3,5)] ok
    by (simp add: set_metadata_def segment_ok_def)
  moreover have "c * (1 + nr) + i = c' * (1 + nr) + i' \<longleftrightarrow> c = c' \<and> i = i'"
    using assms by (intro row_inj) auto
  ultimately show ?thesis
    using metadata_in_segment[OF ok] assms by (auto simp: nth_list_update flag_nth)
qed

lemma get_data_set_metadata:
  assumes "c' < k"
  shows "get_data (ring_layout nr b k) (set_metadata (ring_layout nr b k) c i v buf) c'
           = get_data (ring_layout nr b k) buf c'"
proof -
  have "c' * b + b \<le> b * k + c * (1 + nr) + i"
    using row_end_le[OF assms, of b] by (simp add: mult.commute)
  then show ?thesis by (simp add: get_data_def set_metadata_def Let_def slice_update_out)
qed

lemma flag_set_data:
  assumes ok: "segment_ok (ring_layout nr b k) buf" and "c < k" "c' < k" "j < b" "i' \<le> nr"
  shows "flag (ring_layout nr b k) (set_data (ring_layout nr b k) c j v buf) c' i'
           = flag (ring_layout nr b k) buf c' i'"
proof -
  have "c * b + j < b * k" using data_in_segment[OF ok assms(2) assms(4)] by simp
  then show ?thesis
    using assms by (simp add: flag_nth) (simp add: set_data_def)
qed

lemma get_data_set_data:
  assumes "c < k" "c' < k" "j < b"
  shows "get_data (ring_layout nr b k) (set_data (ring_layout nr b k) c j v buf) c' =
         (if c' = c then (get_data (ring_layout nr b k) buf c)[j := v]
          else get_data (ring_layout nr b k) buf c')"
proof (cases c c' rule: linorder_cases)
  case less
  then show ?thesis using row_end_le[OF less, of b] assms
    by (simp add: get_data_def set_data_def Let_def slice_update_out)
next
  case equal
  then show ?thesis using assms by (simp add: get_data_def set_data_def Let_def slice_update_in)
next
  case greater
  then show ?thesis using row_end_le[OF greater, of b] assms
    by (simp add: get_data_def set_data_def Let_def slice_update_out)
qed

interpretation seg: ring_memory
  "flag (ring_layout nr b k)" "set_metadata (ring_layout nr b k)"
  "get_data (ring_layout nr b k)" "set_data (ring_layout nr b k)"
  "segment_ok (ring_layout nr b k)" nr k b
  for nr b k
  by unfold_locales
     (simp_all add: flag_set_metadata get_data_set_metadata flag_set_data get_data_set_data
        length_get_data)

lemma ShmRingBuffer_created:
  assumes "ShmRingBuffer os nr b k None = Inr rb"
    and "total_bytes_of_buffer (ring_layout nr b k)
           \<le> length (shm_fresh os (total_bytes_of_buffer (ring_layout nr b k)))"
  shows "\<exists>buf. shared_memory rb = Some buf \<and> layout rb = ring_layout nr b k \<and> 0 < k
           \<and> segment_ok (ring_layout nr b k) buf
           \<and> (\<forall>c < k. \<forall>i \<le> nr. flag (ring_layout nr b k) buf c i = 0)"
proof -
  let ?L = "ring_layout nr b k"
  let ?raw = "shm_fresh os (total_bytes_of_buffer ?L)"
  let ?buf = "take (b * k) ?raw @ replicate (length ?raw - b * k) 0"
  have rb: "rb = \<lparr> layout = ?L, is_creator = True, shared_memory = Some ?buf \<rparr>"
    and pos: "0 < total_bytes_of_buffer ?L"
    using assms(1) by (auto simp: ShmRingBuffer_def Let_def res_simps)
  have "b * k \<le> length ?raw" using assms(2) by (simp add: algebra_simps)
  then have ok: "segment_ok ?L ?buf" using assms(2) by (simp add: segment_ok_def)
  have "flag ?L ?buf c i = 0" if "c < k" "i \<le> nr" for c i
    using metadata_in_segment[OF ok that] flag_nth[OF ok that] by (simp add: nth_append)
  with rb ok pos show ?thesis by auto
qed

end
