(* ===== verification/Shm_Protocol.thy ===== *)
theory Shm_Protocol
  imports Shm_Layout
begin

text \<open>
  The single-writer, many-reader broadcast protocol of \<^verbatim>\<open>MessageQueue.acquire_write\<close> and
  \<^verbatim>\<open>MessageQueue.acquire_read\<close> over the segment of theory \<open>Shm_Layout\<close>, as interleaved atomic
  steps: every store of a flag and every load or store of a chunk byte is a step of its own. A poll (\<^verbatim>\<open>check\<close>) that
  succeeds is one step, with the store that follows it in the writer, although the code loads the flags one
  after the other: until that store only readers change the flags of the writer's block, and they only set
  them; and of the two flags a reader polls, both changed only by the writer meanwhile, its own is cleared
  before the written flag is set. So what separate loads have seen when a poll succeeds still holds at its last
  load, which is the step of the model. The memory is sequentially
  consistent, which is what the calls of \<^verbatim>\<open>memory_fence\<close> are there to give. Polling rounds that find the
  block not ready, time-outs and cancellations change neither the segment nor the indices, so they
  are no steps.

  The fields \<open>w_pub\<close>, \<open>r_cnt\<close> and \<open>r_log\<close> are history variables: the chunk contents published
  so far, the number of blocks a reader has marked as read, and the bytes it obtained for each. No
  guard of a step reads them.
\<close>

section \<open>State and steps\<close>

datatype wpc = WPoll | WFill | WClear nat | WAdvance
datatype rpc = RPoll | RRead | RAdvance

record rd_state =
  r_idx :: nat
  r_pc :: rpc
  r_acc :: "byte list"
  r_cnt :: nat
  r_log :: "byte list list"

record sys =
  buf :: "byte list"
  w_idx :: nat
  w_pc :: wpc
  w_pub :: "byte list list"
  rds :: "nat \<Rightarrow> rd_state"

text \<open>The \<^verbatim>\<open>check\<close> closures of the two methods.\<close>

definition write_check :: "shm_layout \<Rightarrow> byte list \<Rightarrow> nat \<Rightarrow> bool" where
  "write_check L b current_idx =
     (let metadata_buffer = get_metadata L b current_idx;
          read_count = sum_list (map unat (drop 1 metadata_buffer));
          written_flag = metadata_buffer ! 0
      in \<not> (written_flag \<noteq> 0 \<and> read_count \<noteq> n_reader L))"

definition read_check :: "shm_layout \<Rightarrow> byte list \<Rightarrow> nat \<Rightarrow> nat \<Rightarrow> bool" where
  "read_check L b current_idx local_reader_rank =
     (let metadata_buffer = get_metadata L b current_idx;
          read_flag = metadata_buffer ! (local_reader_rank + 1);
          written_flag = metadata_buffer ! 0
      in \<not> (\<not> written_flag \<noteq> 0 \<or> read_flag \<noteq> 0))"

abbreviation upd_rd :: "nat \<Rightarrow> (rd_state \<Rightarrow> rd_state) \<Rightarrow> sys \<Rightarrow> sys" where
  "upd_rd r f s \<equiv> s\<lparr>rds := (rds s)(r := f (rds s r))\<rparr>"

inductive write_step :: "shm_layout \<Rightarrow> sys \<Rightarrow> sys \<Rightarrow> bool" for L where
  w_acquire: \<comment> \<open>the check succeeds; mark the block as not written\<close>
    "w_pc s = WPoll \<Longrightarrow> write_check L (buf s) (w_idx s) \<Longrightarrow>
     write_step L s (s\<lparr>buf := set_metadata L (w_idx s) 0 0 (buf s), w_pc := WFill\<rparr>)"
| w_store: \<comment> \<open>the caller writes a byte of the yielded block\<close>
    "w_pc s = WFill \<Longrightarrow> j < max_chunk_bytes L \<Longrightarrow>
     write_step L s (s\<lparr>buf := set_data L (w_idx s) j v (buf s)\<rparr>)"
| w_raise: \<comment> \<open>the caller raises: the generator is closed at its \<^verbatim>\<open>yield\<close>\<close>
    "w_pc s = WFill \<Longrightarrow> write_step L s (s\<lparr>w_pc := WPoll\<rparr>)"
| w_filled: "w_pc s = WFill \<Longrightarrow> write_step L s (s\<lparr>w_pc := WClear 1\<rparr>)"
| w_clear: \<comment> \<open>reset one reader flag\<close>
    "w_pc s = WClear i \<Longrightarrow> i < n_reader L + 1 \<Longrightarrow>
     write_step L s (s\<lparr>buf := set_metadata L (w_idx s) i 0 (buf s), w_pc := WClear (i + 1)\<rparr>)"
| w_mark: \<comment> \<open>mark the block as written\<close>
    "w_pc s = WClear i \<Longrightarrow> \<not> i < n_reader L + 1 \<Longrightarrow>
     write_step L s (s\<lparr>buf := set_metadata L (w_idx s) 0 1 (buf s), w_pc := WAdvance,
                       w_pub := w_pub s @ [get_data L (buf s) (w_idx s)]\<rparr>)"
| w_advance:
    "w_pc s = WAdvance \<Longrightarrow>
     write_step L s (s\<lparr>w_idx := (w_idx s + 1) mod max_chunks L, w_pc := WPoll\<rparr>)"

inductive read_step :: "shm_layout \<Rightarrow> nat \<Rightarrow> sys \<Rightarrow> sys \<Rightarrow> bool" for L r where
  r_acquire: \<comment> \<open>the check succeeds; yield the block\<close>
    "r_pc (rds s r) = RPoll \<Longrightarrow> read_check L (buf s) (r_idx (rds s r)) r \<Longrightarrow>
     read_step L r s (upd_rd r (\<lambda>d. d\<lparr>r_pc := RRead, r_acc := []\<rparr>) s)"
| r_load: \<comment> \<open>the caller loads the next byte of the block\<close>
    "r_pc (rds s r) = RRead \<Longrightarrow> length (r_acc (rds s r)) < max_chunk_bytes L \<Longrightarrow>
     read_step L r s
       (upd_rd r (\<lambda>d. d\<lparr>r_acc := r_acc d @ [get_data L (buf s) (r_idx d) ! length (r_acc d)]\<rparr>) s)"
| r_mark: \<comment> \<open>the \<^verbatim>\<open>finally\<close> clause: the caller is done or raised\<close>
    "r_pc (rds s r) = RRead \<Longrightarrow>
     read_step L r s
       ((upd_rd r (\<lambda>d. d\<lparr>r_pc := RAdvance, r_cnt := r_cnt d + 1, r_log := r_log d @ [r_acc d]\<rparr>) s)
          \<lparr>buf := set_metadata L (r_idx (rds s r)) (r + 1) 1 (buf s)\<rparr>)"
| r_advance:
    "r_pc (rds s r) = RAdvance \<Longrightarrow>
     read_step L r s
       (upd_rd r (\<lambda>d. d\<lparr>r_pc := RPoll, r_idx := (r_idx d + 1) mod max_chunks L\<rparr>) s)"

inductive ring_step :: "shm_layout \<Rightarrow> sys \<Rightarrow> sys \<Rightarrow> bool" for L where
  writer: "write_step L s t \<Longrightarrow> ring_step L s t"
| reader: "r < n_reader L \<Longrightarrow> read_step L r s t \<Longrightarrow> ring_step L s t"

text \<open>The writer's constructor and \<^verbatim>\<open>create_from_handle\<close> start every index at 0.\<close>

definition ring_init :: "byte list \<Rightarrow> sys" where
  "ring_init b =
     \<lparr> buf = b, w_idx = 0, w_pc = WPoll, w_pub = [],
       rds = (\<lambda>_. \<lparr> r_idx = 0, r_pc = RPoll, r_acc = [], r_cnt = 0, r_log = [] \<rparr>) \<rparr>"

inductive ring_reachable :: "shm_layout \<Rightarrow> byte list \<Rightarrow> sys \<Rightarrow> bool" for L b where
  start: "ring_reachable L b (ring_init b)"
| step: "ring_reachable L b s \<Longrightarrow> ring_step L s t \<Longrightarrow> ring_reachable L b t"


section \<open>The invariant\<close>

text \<open>
  \<open>published_slot L s m\<close>: message number \<open>m\<close> is in its slot, marked as written, and the reader
  flags of the slot say exactly which readers are past it.
\<close>

definition published_slot :: "shm_layout \<Rightarrow> sys \<Rightarrow> nat \<Rightarrow> bool" where
  "published_slot L s m \<longleftrightarrow>
     flag L (buf s) (m mod max_chunks L) 0 = 1
     \<and> (\<forall>r < n_reader L. flag L (buf s) (m mod max_chunks L) (r + 1)
                          = (if m < r_cnt (rds s r) then 1 else 0))
     \<and> get_data L (buf s) (m mod max_chunks L) = w_pub s ! m"

text \<open>The writer is between acquiring a block and publishing it.\<close>

definition w_owns :: "sys \<Rightarrow> bool" where
  "w_owns s \<longleftrightarrow> (case w_pc s of WFill \<Rightarrow> True | WClear i \<Rightarrow> True | _ \<Rightarrow> False)"

definition writer_inv :: "shm_layout \<Rightarrow> sys \<Rightarrow> bool" where
  "writer_inv L s \<longleftrightarrow>
     (let w = length (w_pub s); N = max_chunks L in
      w_idx s = (if w_pc s = WAdvance then (w - 1) mod N else w mod N)
      \<and> (w_pc s = WAdvance \<longrightarrow> 0 < w)
      \<and> (\<forall>i. w_pc s = WClear i \<longrightarrow> 1 \<le> i \<and> i \<le> n_reader L + 1
               \<and> (\<forall>i'. 1 \<le> i' \<and> i' < i \<longrightarrow> flag L (buf s) (w mod N) i' = 0)))"

definition reader_inv :: "shm_layout \<Rightarrow> sys \<Rightarrow> nat \<Rightarrow> bool" where
  "reader_inv L s r \<longleftrightarrow>
     (let w = length (w_pub s); N = max_chunks L; d = rds s r in
      r_cnt d \<le> w \<and> w \<le> r_cnt d + N
      \<and> r_idx d = (if r_pc d = RAdvance then (r_cnt d - 1) mod N else r_cnt d mod N)
      \<and> (r_pc d = RAdvance \<longrightarrow> 0 < r_cnt d)
      \<and> (r_pc d = RRead \<longrightarrow> r_cnt d < w \<and> r_acc d = take (length (r_acc d)) (w_pub s ! r_cnt d))
      \<and> length (r_log d) = r_cnt d
      \<and> (\<forall>i < r_cnt d. r_log d ! i = take (length (r_log d ! i)) (w_pub s ! i)))"

definition slots_inv :: "shm_layout \<Rightarrow> sys \<Rightarrow> bool" where
  "slots_inv L s \<longleftrightarrow>
     (let w = length (w_pub s); N = max_chunks L in
      (\<forall>m < w. w < m + N \<longrightarrow> published_slot L s m)
      \<and> (flag L (buf s) (w mod N) 0 = 0 \<and> (\<forall>r < n_reader L. w < r_cnt (rds s r) + N)
         \<or> \<not> w_owns s \<and> N \<le> w \<and> published_slot L s (w - N))
      \<and> (\<forall>c < N. w < c \<longrightarrow> flag L (buf s) c 0 = 0))"

definition ring_inv :: "shm_layout \<Rightarrow> sys \<Rightarrow> bool" where
  "ring_inv L s \<longleftrightarrow> segment_ok L (buf s) \<and> writer_inv L s \<and> slots_inv L s
     \<and> (\<forall>r < n_reader L. reader_inv L s r)"

lemmas ring_inv_defs = ring_inv_def writer_inv_def reader_inv_def slots_inv_def Let_def

lemma mod_window_le:
  assumes "m \<le> m'" "m' < m + N" "m mod N = m' mod (N::nat)"
  shows "m = m'"
proof -
  have "N dvd m' - m" using assms(1,3) by (metis mod_eq_dvd_iff_nat)
  moreover have "m' - m < N" using assms(1,2) by linarith
  ultimately have "m' - m = 0" using dvd_imp_le by fastforce
  then show ?thesis using assms(1) by simp
qed

lemma mod_window_inj:
  assumes "a \<le> m" "m < a + N" "a \<le> m'" "m' < a + N" "m mod N = m' mod (N::nat)"
  shows "m = m'"
proof (cases "m \<le> m'")
  case True
  then show ?thesis using assms by (intro mod_window_le[of m m' N]) linarith+
next
  case False
  then have "m' = m" using assms by (intro mod_window_le[of m' m N]) linarith+
  then show ?thesis ..
qed

lemma mod_window_neq: "m < w \<Longrightarrow> w < m + N \<Longrightarrow> m mod N \<noteq> w mod (N::nat)"
  using mod_window_inj[of m m N w] by auto

text \<open>The sum of the reader flags reaches the number of readers only if every flag is set.\<close>

lemma sum_flags_full:
  assumes "\<forall>i < length xs. xs ! i = 0 \<or> xs ! i = (1 :: byte)"
    and "sum_list (map unat xs) = length xs"
  shows "\<forall>i < length xs. xs ! i = 1"
proof -
  have le: "sum_list (map unat ys) \<le> length ys" if "\<forall>y \<in> set ys. y = 0 \<or> y = (1 :: byte)" for ys
    using that by (induction ys) auto
  have "\<forall>y \<in> set ys. y = 1"
    if "\<forall>y \<in> set ys. y = 0 \<or> y = (1 :: byte)" "sum_list (map unat ys) = length ys" for ys
    using that
  proof (induction ys)
    case Nil
    then show ?case by simp
  next
    case (Cons y ys)
    then show ?case using le[of ys] by auto
  qed
  moreover have "\<forall>y \<in> set xs. y = 0 \<or> y = 1" using assms(1) by (auto simp: in_set_conv_nth)
  ultimately show ?thesis using assms(2) by auto
qed


text \<open>Steps on one block leave the published slots of every other block as they are.\<close>

lemma published_slot_cong:
  assumes "w_pub t ! m = w_pub s ! m" "\<forall>r < n_reader L. (m < r_cnt (rds t r)) = (m < r_cnt (rds s r))"
    and "\<forall>i \<le> n_reader L. flag L (buf t) (m mod max_chunks L) i = flag L (buf s) (m mod max_chunks L) i"
    and "get_data L (buf t) (m mod max_chunks L) = get_data L (buf s) (m mod max_chunks L)"
  shows "published_slot L t m = published_slot L s m"
  using assms by (simp add: published_slot_def)

text \<open>Any message that a reader has not passed yet is still intact in its slot.\<close>

lemma pending_slot:
  assumes "ring_inv L s" "r < n_reader L" "r_cnt (rds s r) < length (w_pub s)"
  shows "published_slot L s (r_cnt (rds s r))"
proof (cases "length (w_pub s) < r_cnt (rds s r) + max_chunks L")
  case True
  then show ?thesis using assms by (auto simp: ring_inv_def slots_inv_def Let_def)
next
  case False
  then have "length (w_pub s) = r_cnt (rds s r) + max_chunks L"
    using assms by (auto simp: ring_inv_def reader_inv_def Let_def)
  then show ?thesis using assms by (auto simp: ring_inv_def slots_inv_def Let_def)
qed

lemma write_check_all_read:
  assumes inv: "ring_inv (ring_layout nr b k) s" and "0 < k" "r < nr"
    and ck: "write_check (ring_layout nr b k) (buf s) (length (w_pub s) mod k)"
  shows "length (w_pub s) < r_cnt (rds s r) + k"
proof -
  let ?L = "ring_layout nr b k" and ?w = "length (w_pub s)"
  have seg: "segment_ok ?L (buf s)" using inv by (simp add: ring_inv_def)
  show ?thesis
  proof (cases "flag ?L (buf s) (?w mod k) 0 = 0")
    case True
    then show ?thesis using inv assms(3)
      by (auto simp: ring_inv_def slots_inv_def Let_def published_slot_def le_mod_geq[symmetric])
  next
    case False
    then have N: "k \<le> ?w" and ps: "published_slot ?L s (?w - k)"
      using inv by (auto simp: ring_inv_def slots_inv_def Let_def)
    have md: "(?w - k) mod k = ?w mod k" using N by (simp add: le_mod_geq)
    let ?xs = "drop 1 (get_metadata ?L (buf s) (?w mod k))"
    have len: "length ?xs = nr" using length_get_metadata[OF seg, of "?w mod k"] \<open>0 < k\<close> by simp
    have nth: "?xs ! i = flag ?L (buf s) (?w mod k) (i + 1)" if "i < nr" for i
      using that len by simp
    have "\<forall>i < length ?xs. ?xs ! i = 0 \<or> ?xs ! i = 1"
      using ps md len nth by (auto simp: published_slot_def)
    moreover have "sum_list (map unat ?xs) = length ?xs"
      using ck False len by (simp add: write_check_def Let_def)
    ultimately have "?xs ! r = 1" using sum_flags_full[of ?xs] len \<open>r < nr\<close> by simp
    then have "?w - k < r_cnt (rds s r)"
      using ps md nth \<open>r < nr\<close> by (auto simp: published_slot_def split: if_splits)
    with N show ?thesis by linarith
  qed
qed

lemma read_check_pending:
  assumes inv: "ring_inv (ring_layout nr b k) s" and "0 < k" "r < nr"
    and ck: "read_check (ring_layout nr b k) (buf s) (r_cnt (rds s r) mod k) r"
  shows "r_cnt (rds s r) < length (w_pub s)"
proof (rule ccontr)
  let ?L = "ring_layout nr b k" and ?w = "length (w_pub s)"
  assume "\<not> ?thesis"
  then have eq: "r_cnt (rds s r) = ?w"
    using inv \<open>r < nr\<close> by (fastforce simp: ring_inv_def reader_inv_def Let_def)
  have one: "flag ?L (buf s) (?w mod k) 0 \<noteq> 0" and zero: "flag ?L (buf s) (?w mod k) (r + 1) = 0"
    using ck eq by (auto simp: read_check_def Let_def)
  then have N: "k \<le> ?w" and ps: "published_slot ?L s (?w - k)"
    using inv by (auto simp: ring_inv_def slots_inv_def Let_def)
  have "(?w - k) mod k = ?w mod k" using N by (simp add: le_mod_geq)
  then have "flag ?L (buf s) (?w mod k) (r + 1) = (if ?w - k < ?w then 1 else 0)"
    using ps eq \<open>r < nr\<close> by (auto simp: published_slot_def)
  with zero N \<open>0 < k\<close> show False by (simp split: if_splits)
qed


section \<open>Every step keeps the invariant\<close>

text \<open>
  A step that touches only the block the writer owns (its slot number is the number of published
  messages, modulo the ring size) keeps every published slot.
\<close>

lemma slots_frame:
  assumes inv: "ring_inv L s" and pos: "0 < max_chunks L"
    and pub: "w_pub t = w_pub s" and rd: "\<And>r. r_cnt (rds t r) = r_cnt (rds s r)"
    and other: "\<And>c i. c < max_chunks L \<Longrightarrow> c \<noteq> length (w_pub s) mod max_chunks L \<Longrightarrow>
        i \<le> n_reader L \<Longrightarrow>
        flag L (buf t) c i = flag L (buf s) c i \<and> get_data L (buf t) c = get_data L (buf s) c"
    and own: "flag L (buf t) (length (w_pub s) mod max_chunks L) 0 = 0"
    and free: "\<forall>r < n_reader L. length (w_pub s) < r_cnt (rds s r) + max_chunks L"
  shows "slots_inv L t"
proof -
  let ?w = "length (w_pub s)" and ?N = "max_chunks L"
  have old: "slots_inv L s" using inv by (simp add: ring_inv_def)
  have "published_slot L t m" if "m < ?w" "?w < m + ?N" for m
  proof -
    have "m mod ?N \<noteq> ?w mod ?N" using that by (rule mod_window_neq)
    then have "published_slot L t m = published_slot L s m"
      using pub rd other[of "m mod ?N"] pos by (intro published_slot_cong) auto
    then show ?thesis using old that by (simp add: slots_inv_def Let_def)
  qed
  moreover have "flag L (buf t) c 0 = 0" if "c < ?N" "?w < c" for c
  proof -
    have "c \<noteq> ?w mod ?N" using that mod_less[of ?w ?N] by simp
    then show ?thesis using other[of c 0] old that by (simp add: slots_inv_def Let_def)
  qed
  ultimately show ?thesis using own free pub rd by (simp add: slots_inv_def Let_def)
qed

lemma free_if_owned:
  "ring_inv L s \<Longrightarrow> w_owns s \<Longrightarrow>
   flag L (buf s) (length (w_pub s) mod max_chunks L) 0 = 0
   \<and> (\<forall>r < n_reader L. length (w_pub s) < r_cnt (rds s r) + max_chunks L)"
  by (auto simp: ring_inv_def slots_inv_def Let_def)

lemma reader_inv_frame:
  "reader_inv L s r \<Longrightarrow> w_pub t = w_pub s \<Longrightarrow> rds t r = rds s r \<Longrightarrow> reader_inv L t r"
  by (simp add: reader_inv_def)

lemma reader_inv_publish:
  assumes "reader_inv L s r" "w_pub t = w_pub s @ [x]" "rds t r = rds s r"
    and "length (w_pub s) < r_cnt (rds s r) + max_chunks L"
  shows "reader_inv L t r"
  using assms by (auto simp: reader_inv_def Let_def nth_append)

lemma write_step_inv:
  assumes "write_step (ring_layout nr b k) s t" and inv: "ring_inv (ring_layout nr b k) s" and k: "0 < k"
  shows "ring_inv (ring_layout nr b k) t"
proof -
  let ?L = "ring_layout nr b k" and ?w = "length (w_pub s)"
  have ok: "segment_ok ?L (buf s)" and wi: "writer_inv ?L s" and ri: "\<forall>r < nr. reader_inv ?L s r"
    and sl: "slots_inv ?L s"
    using inv by (simp_all add: ring_inv_def)
  have wk: "?w mod k < k" using k by simp
  note laws = seg.flg_set_flg[OF ok] seg.chunk_set_flg[OF ok] seg.flg_set_chunk[OF ok]
    seg.chunk_set_chunk[OF ok]
  from assms(1) show ?thesis
  proof cases
    case w_acquire
    have idx: "w_idx s = ?w mod k" using wi w_acquire by (simp add: writer_inv_def Let_def)
    have "slots_inv ?L t"
      using w_acquire idx wk write_check_all_read[OF inv k]
      by (intro slots_frame[OF inv]) (auto simp: laws k)
    then show ?thesis using w_acquire ok wi ri idx
      by (auto simp: ring_inv_def writer_inv_def Let_def intro: reader_inv_frame)
  next
    case (w_store j v)
    have idx: "w_idx s = ?w mod k" using wi w_store by (simp add: writer_inv_def Let_def)
    have "slots_inv ?L t"
      using w_store idx wk free_if_owned[OF inv]
      by (intro slots_frame[OF inv]) (auto simp: laws k w_owns_def)
    then show ?thesis using w_store ok wi ri idx
      by (auto simp: ring_inv_def writer_inv_def Let_def intro: reader_inv_frame)
  next
    case w_raise
    have "slots_inv ?L t"
      using w_raise free_if_owned[OF inv]
      by (intro slots_frame[OF inv]) (auto simp: k w_owns_def)
    then show ?thesis using w_raise ok wi ri
      by (auto simp: ring_inv_def writer_inv_def Let_def intro: reader_inv_frame)
  next
    case w_filled
    have "slots_inv ?L t"
      using w_filled free_if_owned[OF inv]
      by (intro slots_frame[OF inv]) (auto simp: k w_owns_def)
    then show ?thesis using w_filled ok wi ri
      by (auto simp: ring_inv_def writer_inv_def Let_def intro: reader_inv_frame)
  next
    case (w_clear i)
    have idx: "w_idx s = ?w mod k" and i: "1 \<le> i"
      and clr: "\<forall>i'. 1 \<le> i' \<and> i' < i \<longrightarrow> flag ?L (buf s) (?w mod k) i' = 0"
      using wi w_clear by (simp_all add: writer_inv_def Let_def)
    have "slots_inv ?L t"
      using w_clear idx wk i free_if_owned[OF inv]
      by (intro slots_frame[OF inv]) (auto simp: laws k w_owns_def)
    moreover have "writer_inv ?L t"
      using w_clear idx i clr wk by (auto simp: writer_inv_def Let_def laws less_Suc_eq)
    ultimately show ?thesis using w_clear ok ri
      by (auto simp: ring_inv_def intro: reader_inv_frame)
  next
    case (w_mark i)
    have idx: "w_idx s = ?w mod k" and i: "i = nr + 1"
      and clr: "\<forall>i'. 1 \<le> i' \<and> i' < i \<longrightarrow> flag ?L (buf s) (?w mod k) i' = 0"
      using wi w_mark by (auto simp: writer_inv_def Let_def)
    have free: "\<forall>r < nr. ?w < r_cnt (rds s r) + k"
      using free_if_owned[OF inv] w_mark by (simp add: w_owns_def)
    have lt: "length (w_pub t) = Suc ?w" using w_mark by simp
    have ro: "r_cnt (rds s r) \<le> ?w" if "r < nr" for r
      using ri that by (simp add: reader_inv_def Let_def)
    have new: "published_slot ?L t ?w"
      using w_mark idx wk clr i ro by (fastforce simp: published_slot_def laws nth_append)
    have old: "published_slot ?L t m" if "m < ?w" "?w < m + k" for m
    proof -
      have "m mod k \<noteq> ?w mod k" using that by (rule mod_window_neq)
      then have "published_slot ?L t m = published_slot ?L s m"
        using w_mark idx wk k that by (intro published_slot_cong) (auto simp: laws nth_append)
      then show ?thesis using sl that by (simp add: slots_inv_def Let_def)
    qed
    have all: "published_slot ?L t m" if "m < Suc ?w" "?w < m + k" for m
      using new old that less_Suc_eq by auto
    have unused: "flag ?L (buf t) c 0 = 0" if "c < k" "?w < c" for c
      using that sl w_mark idx wk by (simp add: laws slots_inv_def Let_def)
    have "slots_inv ?L t"
    proof (cases "k \<le> Suc ?w")
      case True
      then have "published_slot ?L t (Suc ?w - k)" using k by (intro all) auto
      then show ?thesis using all unused True w_mark lt
        by (auto simp: slots_inv_def Let_def w_owns_def simp del: length_append)
    next
      case False
      then show ?thesis using all unused[of "Suc ?w"] unused lt
        by (auto simp: slots_inv_def Let_def simp del: length_append)
    qed
    moreover have "writer_inv ?L t" using w_mark idx by (simp add: writer_inv_def Let_def)
    moreover have "reader_inv ?L t r" if "r < nr" for r
      using w_mark ri free that by (intro reader_inv_publish[of ?L s r t]) auto
    ultimately show ?thesis using w_mark ok by (simp add: ring_inv_def)
  next
    case w_advance
    have "slots_inv ?L t"
      using sl w_advance
      by (simp add: slots_inv_def Let_def w_owns_def published_slot_def)
    moreover have "writer_inv ?L t"
      using wi w_advance by (auto simp: writer_inv_def Let_def mod_Suc_eq)
    ultimately show ?thesis using w_advance ok ri
      by (auto simp: ring_inv_def intro: reader_inv_frame)
  qed
qed

text \<open>A reader's step that changes no flag and no counter keeps the writer's part.\<close>

lemma read_frame:
  assumes "ring_inv L s" "buf t = buf s" "w_idx t = w_idx s" "w_pc t = w_pc s" "w_pub t = w_pub s"
    and "\<And>r'. r_cnt (rds t r') = r_cnt (rds s r')" "\<And>r'. r' \<noteq> r \<Longrightarrow> rds t r' = rds s r'"
    and "r < n_reader L \<Longrightarrow> reader_inv L t r"
  shows "ring_inv L t"
proof -
  have "published_slot L t m = published_slot L s m" for m
    using assms by (intro published_slot_cong) auto
  then have "slots_inv L t" "writer_inv L t"
    using assms(1-6) by (simp_all add: ring_inv_def slots_inv_def writer_inv_def Let_def w_owns_def)
  moreover have "reader_inv L t r'" if "r' < n_reader L" for r'
    using assms that by (cases "r' = r") (auto simp: ring_inv_def intro: reader_inv_frame)
  ultimately show ?thesis using assms(1,2) by (simp add: ring_inv_def)
qed

lemma read_mark_inv:
  assumes inv: "ring_inv (ring_layout nr b k) s" and k: "0 < k" and r: "r < nr"
    and pc: "r_pc (rds s r) = RRead"
    and t: "t = (upd_rd r (\<lambda>d. d\<lparr>r_pc := RAdvance, r_cnt := r_cnt d + 1, r_log := r_log d @ [r_acc d]\<rparr>) s)
          \<lparr>buf := set_metadata (ring_layout nr b k) (r_idx (rds s r)) (r + 1) 1 (buf s)\<rparr>"
  shows "ring_inv (ring_layout nr b k) t"
proof -
  let ?L = "ring_layout nr b k" and ?w = "length (w_pub s)" and ?c = "r_cnt (rds s r)"
  have ok: "segment_ok ?L (buf s)" and wi: "writer_inv ?L s" and ri: "\<And>r. r < nr \<Longrightarrow> reader_inv ?L s r"
    and sl: "slots_inv ?L s"
    using inv by (simp_all add: ring_inv_def)
  have cw: "?c < ?w" "?w \<le> ?c + k" and idx: "r_idx (rds s r) = ?c mod k"
    using ri[OF r] pc by (auto simp: reader_inv_def Let_def)
  have ck: "?c mod k < k" using k by simp
  note laws = seg.flg_set_flg[OF ok] seg.chunk_set_flg[OF ok]
  have slot: "published_slot ?L t m" if ps: "published_slot ?L s m" and "m < ?w" "?w \<le> m + k" for m
  proof (cases "m = ?c")
    case True
    then show ?thesis using ps t idx ck r by (auto simp: published_slot_def laws)
  next
    case False
    have "m mod k \<noteq> ?c mod k"
    proof
      assume "m mod k = ?c mod k"
      then have "m = ?c"
        by (rule mod_window_inj[of "?w - k", rotated -1]) (use that cw in linarith)+
      with False show False ..
    qed
    moreover have "(m < Suc ?c) = (m < ?c)" using False by auto
    ultimately have "published_slot ?L t m = published_slot ?L s m"
      using t idx ck k r by (intro published_slot_cong) (auto simp: laws)
    then show ?thesis using ps by simp
  qed
  have "slots_inv ?L t"
  proof -
    have "\<forall>m < ?w. ?w < m + k \<longrightarrow> published_slot ?L t m"
      using slot sl by (auto simp: slots_inv_def Let_def)
    moreover have "\<forall>c < k. ?w < c \<longrightarrow> flag ?L (buf t) c 0 = 0"
      using sl t idx ck r by (simp add: slots_inv_def Let_def laws)
    moreover have "flag ?L (buf t) (?w mod k) 0 = 0 \<and> (\<forall>r < nr. ?w < r_cnt (rds t r) + k)
         \<or> \<not> w_owns t \<and> k \<le> ?w \<and> published_slot ?L t (?w - k)"
    proof -
      consider (free) "flag ?L (buf s) (?w mod k) 0 = 0" "\<forall>r < nr. ?w < r_cnt (rds s r) + k"
        | (full) "\<not> w_owns s" "k \<le> ?w" "published_slot ?L s (?w - k)"
        using sl by (auto simp: slots_inv_def Let_def)
      then show ?thesis
      proof cases
        case free
        then show ?thesis using t idx ck k r by (auto simp: laws less_SucI)
      next
        case full
        then have "published_slot ?L t (?w - k)" using k by (intro slot) auto
        then show ?thesis using full t by (simp add: w_owns_def)
      qed
    qed
    moreover have "w_pub t = w_pub s" using t by simp
    ultimately show ?thesis by (simp add: slots_inv_def Let_def)
  qed
  moreover have "writer_inv ?L t"
  proof -
    have "flag ?L (buf t) (?w mod k) i' = flag ?L (buf s) (?w mod k) i'"
      if "w_pc s = WClear i" "i' \<le> nr" for i i'
    proof -
      have "?w < ?c + k" using free_if_owned[OF inv] that r by (simp add: w_owns_def)
      with cw(1) have "?c mod k \<noteq> ?w mod k" by (intro mod_window_neq)
      then show ?thesis using t idx ck k r that by (simp add: laws)
    qed
    then show ?thesis using wi t by (fastforce simp: writer_inv_def Let_def)
  qed
  moreover have "reader_inv ?L t r'" if "r' < nr" for r'
  proof (cases "r' = r")
    case True
    have "reader_inv ?L s r" using ri r by simp
    then show ?thesis using True cw pc t
      by (auto simp: reader_inv_def Let_def nth_append less_Suc_eq)
  next
    case False
    then show ?thesis using t by (intro reader_inv_frame[OF ri[OF that]]) simp_all
  qed
  ultimately show ?thesis using ok t by (simp add: ring_inv_def)
qed

lemma read_step_inv:
  assumes "read_step (ring_layout nr b k) r s t" and inv: "ring_inv (ring_layout nr b k) s"
    and k: "0 < k" and r: "r < nr"
  shows "ring_inv (ring_layout nr b k) t"
proof -
  let ?L = "ring_layout nr b k" and ?w = "length (w_pub s)" and ?c = "r_cnt (rds s r)"
  have ri: "reader_inv ?L s r" and ok: "segment_ok ?L (buf s)" using inv r by (simp_all add: ring_inv_def)
  from assms(1) show ?thesis
  proof cases
    case r_acquire
    then have "?c < ?w"
      using read_check_pending[OF inv k r] ri by (simp add: reader_inv_def Let_def)
    then have "reader_inv ?L t r" using ri r_acquire by (auto simp: reader_inv_def Let_def)
    then show ?thesis using r_acquire by (intro read_frame[OF inv, of t r]) auto
  next
    case r_load
    then have cw: "?c < ?w" and idx: "r_idx (rds s r) = ?c mod k"
      and acc: "r_acc (rds s r) = take (length (r_acc (rds s r))) (w_pub s ! ?c)"
      using ri by (auto simp: reader_inv_def Let_def)
    have data: "get_data ?L (buf s) (?c mod k) = w_pub s ! ?c"
      using pending_slot[OF inv] r cw by (simp add: published_slot_def)
    have len: "length (r_acc (rds s r)) < length (w_pub s ! ?c)"
      using data length_get_data[OF ok, of "?c mod k"] k r_load by simp
    have "take (Suc (length (r_acc (rds s r)))) (w_pub s ! ?c)
            = r_acc (rds s r) @ [w_pub s ! ?c ! length (r_acc (rds s r))]"
      using acc len by (simp add: take_Suc_conv_app_nth)
    then have "reader_inv ?L t r"
      using ri r_load idx data by (simp add: reader_inv_def Let_def)
    then show ?thesis using r_load by (intro read_frame[OF inv, of t r]) auto
  next
    case r_mark
    then show ?thesis by (intro read_mark_inv[OF inv k r]) simp_all
  next
    case r_advance
    then have "reader_inv ?L t r" using ri by (auto simp: reader_inv_def Let_def mod_Suc_eq)
    then show ?thesis using r_advance by (intro read_frame[OF inv, of t r]) auto
  qed
qed

lemma ring_init_inv:
  assumes "segment_ok (ring_layout nr b k) seg" "0 < k"
    and "\<And>c. c < k \<Longrightarrow> flag (ring_layout nr b k) seg c 0 = 0"
  shows "ring_inv (ring_layout nr b k) (ring_init seg)"
  using assms
  by (simp add: ring_init_def ring_inv_def writer_inv_def slots_inv_def reader_inv_def)

lemma ring_reachable_inv:
  assumes "ring_reachable (ring_layout nr b k) seg s" "segment_ok (ring_layout nr b k) seg" "0 < k"
    and "\<And>c. c < k \<Longrightarrow> flag (ring_layout nr b k) seg c 0 = 0"
  shows "ring_inv (ring_layout nr b k) s"
  using assms(1)
proof (induction rule: ring_reachable.induct)
  case start
  show ?case using assms(2-4) by (rule ring_init_inv)
next
  case (step s t)
  from step.hyps(2) step.IH assms(3) show ?case
    by cases (auto intro: write_step_inv read_step_inv)
qed


section \<open>Readiness of the polls\<close>

text \<open>
  The segment every run starts from: one that the constructor of theory \<open>Shm_Layout\<close> created on an
  operating system that returns at least the requested number of bytes.
\<close>

definition fresh_ring :: "shm_os \<Rightarrow> nat \<Rightarrow> nat \<Rightarrow> nat \<Rightarrow> byte list \<Rightarrow> bool" where
  "fresh_ring os nr b k seg \<longleftrightarrow>
     (let total = total_bytes_of_buffer (ring_layout nr b k) in
      total \<le> length (shm_fresh os total)
      \<and> (case ShmRingBuffer os nr b k None of
           Inl e \<Rightarrow> False | Inr rb \<Rightarrow> shared_memory rb = Some seg))"

lemma fresh_ring_inv:
  assumes "fresh_ring os nr b k seg" "ring_reachable (ring_layout nr b k) seg s"
  shows "ring_inv (ring_layout nr b k) s" "0 < k"
proof -
  obtain rb where rb: "ShmRingBuffer os nr b k None = Inr rb" "shared_memory rb = Some seg"
    and len: "total_bytes_of_buffer (ring_layout nr b k)
           \<le> length (shm_fresh os (total_bytes_of_buffer (ring_layout nr b k)))"
    using assms(1) by (auto simp: fresh_ring_def Let_def split: sum.splits)
  from ShmRingBuffer_created[OF rb(1) len] rb(2)
  show "0 < k" "ring_inv (ring_layout nr b k) s" using ring_reachable_inv[OF assms(2)] by auto
qed

lemma reader_ready:
  assumes inv: "ring_inv (ring_layout nr b k) s" and k: "0 < k" and r: "r < nr"
  shows "read_check (ring_layout nr b k) (buf s) (r_cnt (rds s r) mod k) r
           \<longleftrightarrow> r_cnt (rds s r) < length (w_pub s)"
proof
  assume "r_cnt (rds s r) < length (w_pub s)"
  then have "published_slot (ring_layout nr b k) s (r_cnt (rds s r))"
    using pending_slot[OF inv] r by simp
  then show "read_check (ring_layout nr b k) (buf s) (r_cnt (rds s r) mod k) r"
    using r by (simp add: published_slot_def read_check_def Let_def)
qed (rule read_check_pending[OF inv k r])

lemma writer_ready:
  assumes inv: "ring_inv (ring_layout nr b k) s" and k: "0 < k"
  shows "write_check (ring_layout nr b k) (buf s) (length (w_pub s) mod k)
           \<longleftrightarrow> (\<forall>r < nr. length (w_pub s) < r_cnt (rds s r) + k)"
proof
  let ?L = "ring_layout nr b k" and ?w = "length (w_pub s)"
  assume free: "\<forall>r < nr. ?w < r_cnt (rds s r) + k"
  show "write_check ?L (buf s) (?w mod k)"
  proof (cases "flag ?L (buf s) (?w mod k) 0 = 0")
    case True
    then show ?thesis by (simp add: write_check_def Let_def)
  next
    case False
    have seg: "segment_ok ?L (buf s)" using inv by (simp add: ring_inv_def)
    have N: "k \<le> ?w" and ps: "published_slot ?L s (?w - k)"
      using inv False by (auto simp: ring_inv_def slots_inv_def Let_def)
    let ?xs = "drop 1 (get_metadata ?L (buf s) (?w mod k))"
    have len: "length ?xs = nr" using length_get_metadata[OF seg, of "?w mod k"] k by simp
    have "?xs ! i = 1" if "i < nr" for i
    proof -
      have "?w - k < r_cnt (rds s i)" using free that N by (metis less_diff_conv2)
      then show ?thesis using that len ps N by (simp add: published_slot_def le_mod_geq[symmetric])
    qed
    then have "?xs = replicate nr 1" using len by (intro nth_equalityI) auto
    then show ?thesis by (simp add: write_check_def Let_def sum_list_replicate)
  qed
qed (use write_check_all_read[OF inv k] in blast)

section \<open>A concrete run\<close>

text \<open>
  One reader, two chunks of one byte: the writer publishes a block and acquires the next one while
  the reader loads the byte of the first block and marks it. The states of the run are written out,
  so that the theorems below can be applied to states in which something has happened.
\<close>

definition demo_os :: shm_os where
  "demo_os = \<lparr> shm_isdir = True, shm_free = 100, shm_fresh = (\<lambda>n. replicate n 0),
               shm_named = Map.empty \<rparr>"

definition demo_reader :: "rpc \<Rightarrow> byte list \<Rightarrow> nat \<Rightarrow> byte list list \<Rightarrow> rd_state" where
  "demo_reader pc acc cnt lg = \<lparr> r_idx = 0, r_pc = pc, r_acc = acc, r_cnt = cnt, r_log = lg \<rparr>"

definition demo_state :: "byte list \<Rightarrow> nat \<Rightarrow> wpc \<Rightarrow> byte list list \<Rightarrow> rd_state \<Rightarrow> sys" where
  "demo_state bf i pc pub d =
     \<lparr> buf = bf, w_idx = i, w_pc = pc, w_pub = pub,
       rds = (\<lambda>_. \<lparr> r_idx = 0, r_pc = RPoll, r_acc = [], r_cnt = 0, r_log = [] \<rparr>)(0 := d) \<rparr>"

lemmas demo_simps = demo_state_def demo_reader_def write_check_def read_check_def Let_def
  get_metadata_def get_data_def set_metadata_def set_data_def slice_def eval_nat_numeral

abbreviation demo_L :: shm_layout where "demo_L \<equiv> ring_layout 1 1 2"

lemma fresh_demo: "fresh_ring demo_os 1 1 2 [0, 0, 0, 0, 0, 0]"
  by (simp add: fresh_ring_def ShmRingBuffer_def check_shm_free_space_def demo_os_def Let_def
      eval_nat_numeral)

lemma demo_init: "ring_init bf = demo_state bf 0 WPoll [] (demo_reader RPoll [] 0 [])"
  by (simp add: ring_init_def demo_state_def demo_reader_def fun_eq_iff)

lemma demo_published:
  "ring_reachable demo_L [0, 0, 0, 0, 0, 0] (demo_state [7, 0, 1, 0, 0, 0] 1 WPoll [[7]] (demo_reader RPoll [] 0 []))"
proof -
  have "ring_reachable demo_L [0, 0, 0, 0, 0, 0] (demo_state [0, 0, 0, 0, 0, 0] 0 WPoll [] (demo_reader RPoll [] 0 []))"
    using ring_reachable.start[of demo_L "[0, 0, 0, 0, 0, 0]"] by (simp add: demo_init)
  then have "ring_reachable demo_L [0, 0, 0, 0, 0, 0] (demo_state [0, 0, 0, 0, 0, 0] 0 WFill [] (demo_reader RPoll [] 0 []))"
    by (rule ring_reachable.step)
       (use w_acquire[of "demo_state [0, 0, 0, 0, 0, 0] 0 WPoll [] (demo_reader RPoll [] 0 [])" demo_L] in \<open>simp add: demo_simps ring_step.writer\<close>)
  then have "ring_reachable demo_L [0, 0, 0, 0, 0, 0] (demo_state [7, 0, 0, 0, 0, 0] 0 WFill [] (demo_reader RPoll [] 0 []))"
    by (rule ring_reachable.step)
       (use w_store[of "demo_state [0, 0, 0, 0, 0, 0] 0 WFill [] (demo_reader RPoll [] 0 [])" 0 demo_L 7] in \<open>simp add: demo_simps ring_step.writer\<close>)
  then have "ring_reachable demo_L [0, 0, 0, 0, 0, 0] (demo_state [7, 0, 0, 0, 0, 0] 0 (WClear 1) [] (demo_reader RPoll [] 0 []))"
    by (rule ring_reachable.step)
       (use w_filled[of "demo_state [7, 0, 0, 0, 0, 0] 0 WFill [] (demo_reader RPoll [] 0 [])" demo_L] in \<open>simp add: demo_simps ring_step.writer\<close>)
  then have "ring_reachable demo_L [0, 0, 0, 0, 0, 0] (demo_state [7, 0, 0, 0, 0, 0] 0 (WClear 2) [] (demo_reader RPoll [] 0 []))"
    by (rule ring_reachable.step)
       (use w_clear[of "demo_state [7, 0, 0, 0, 0, 0] 0 (WClear 1) [] (demo_reader RPoll [] 0 [])" 1 demo_L] in \<open>simp add: demo_simps ring_step.writer\<close>)
  then have "ring_reachable demo_L [0, 0, 0, 0, 0, 0] (demo_state [7, 0, 1, 0, 0, 0] 0 WAdvance [[7]] (demo_reader RPoll [] 0 []))"
    by (rule ring_reachable.step)
       (use w_mark[of "demo_state [7, 0, 0, 0, 0, 0] 0 (WClear 2) [] (demo_reader RPoll [] 0 [])" 2 demo_L] in \<open>simp add: demo_simps ring_step.writer\<close>)
  then show ?thesis
    by (rule ring_reachable.step)
       (use w_advance[of "demo_state [7, 0, 1, 0, 0, 0] 0 WAdvance [[7]] (demo_reader RPoll [] 0 [])" demo_L] in \<open>simp add: demo_simps ring_step.writer\<close>)
qed

lemma demo_overlap:
  "ring_reachable demo_L [0, 0, 0, 0, 0, 0] (demo_state [7, 0, 1, 0, 0, 0] 1 WFill [[7]] (demo_reader RRead [] 0 []))"
proof -
  note demo_published
  then have "ring_reachable demo_L [0, 0, 0, 0, 0, 0] (demo_state [7, 0, 1, 0, 0, 0] 1 WPoll [[7]] (demo_reader RRead [] 0 []))"
    by (rule ring_reachable.step)
       (use r_acquire[of "demo_state [7, 0, 1, 0, 0, 0] 1 WPoll [[7]] (demo_reader RPoll [] 0 [])" 0 demo_L] in \<open>simp add: demo_simps ring_step.reader[of 0]\<close>)
  then show ?thesis
    by (rule ring_reachable.step)
       (use w_acquire[of "demo_state [7, 0, 1, 0, 0, 0] 1 WPoll [[7]] (demo_reader RRead [] 0 [])" demo_L] in \<open>simp add: demo_simps ring_step.writer\<close>)
qed

lemma demo_consumed:
  "ring_reachable demo_L [0, 0, 0, 0, 0, 0] (demo_state [7, 0, 1, 1, 0, 0] 1 WFill [[7]] (demo_reader RAdvance [7] 1 [[7]]))"
proof -
  note demo_overlap
  then have "ring_reachable demo_L [0, 0, 0, 0, 0, 0] (demo_state [7, 0, 1, 0, 0, 0] 1 WFill [[7]] (demo_reader RRead [7] 0 []))"
    by (rule ring_reachable.step)
       (use r_load[of "demo_state [7, 0, 1, 0, 0, 0] 1 WFill [[7]] (demo_reader RRead [] 0 [])" 0 demo_L] in \<open>simp add: demo_simps ring_step.reader[of 0]\<close>)
  then show ?thesis
    by (rule ring_reachable.step)
       (use r_mark[of "demo_state [7, 0, 1, 0, 0, 0] 1 WFill [[7]] (demo_reader RRead [7] 0 [])" 0 demo_L] in \<open>simp add: demo_simps ring_step.reader[of 0]\<close>)
qed

section \<open>What the protocol guarantees\<close>



text \<open>
  C1. Broadcast order and integrity. In every reachable state, whatever the interleaving, the
  blocks a reader has consumed are the published blocks in order, none skipped and none repeated,
  and the bytes it loaded one at a time from each block are the bytes the writer published there:
  no reader ever sees a torn, stale or overwritten message.
\<close>

theorem readers_consume_published_in_order:
  assumes "fresh_ring os nr b k seg" "ring_reachable (ring_layout nr b k) seg s" "r < nr"
  shows "length (r_log (rds s r)) \<le> length (w_pub s)
    \<and> (\<forall>i < length (r_log (rds s r)).
         r_log (rds s r) ! i = take (length (r_log (rds s r) ! i)) (w_pub s ! i))"
  using fresh_ring_inv[OF assms(1,2)] assms(3) by (auto simp: ring_inv_def reader_inv_def Let_def)

theorem readers_consume_published_in_order_witness:
  "length (r_log (rds (demo_state [7, 0, 1, 1, 0, 0] 1 WFill [[7]] (demo_reader RAdvance [7] 1 [[7]])) 0)) \<le> length (w_pub (demo_state [7, 0, 1, 1, 0, 0] 1 WFill [[7]] (demo_reader RAdvance [7] 1 [[7]])))
   \<and> r_log (rds (demo_state [7, 0, 1, 1, 0, 0] 1 WFill [[7]] (demo_reader RAdvance [7] 1 [[7]])) 0) = [[7]]"
  using readers_consume_published_in_order[OF fresh_demo demo_consumed, of 0]
  by (simp add: demo_state_def demo_reader_def)

text \<open>
  C2. Exclusion. While the writer holds a block and a reader is reading one, the two blocks are
  different, so no byte a reader is loading is being stored to.
\<close>

theorem writer_and_reader_never_share_a_block:
  assumes "fresh_ring os nr b k seg" "ring_reachable (ring_layout nr b k) seg s" "r < nr"
    and "w_owns s" "r_pc (rds s r) = RRead"
  shows "w_idx s \<noteq> r_idx (rds s r)"
proof -
  have inv: "ring_inv (ring_layout nr b k) s" by (rule fresh_ring_inv(1)[OF assms(1,2)])
  then have "length (w_pub s) < r_cnt (rds s r) + k" "r_cnt (rds s r) < length (w_pub s)"
    "r_idx (rds s r) = r_cnt (rds s r) mod k" "w_idx s = length (w_pub s) mod k"
    using free_if_owned[OF inv assms(4)] assms(3-5)
    by (auto simp: ring_inv_def reader_inv_def writer_inv_def Let_def w_owns_def split: wpc.splits)
  then show ?thesis using mod_window_neq by metis
qed

theorem writer_and_reader_never_share_a_block_witness:
  "w_idx (demo_state [7, 0, 1, 0, 0, 0] 1 WFill [[7]] (demo_reader RRead [] 0 [])) \<noteq> r_idx (rds (demo_state [7, 0, 1, 0, 0, 0] 1 WFill [[7]] (demo_reader RRead [] 0 [])) 0)"
  by (rule writer_and_reader_never_share_a_block[OF fresh_demo demo_overlap])
     (simp_all add: demo_state_def demo_reader_def w_owns_def)

text \<open>
  C3. Readiness is exact. A reader's poll succeeds if and only if a block has been published that
  it has not consumed; the writer's poll succeeds if and only if every reader is less than a whole
  ring behind. In particular unread blocks are never overwritten and no reader waits for a block
  that is there.
\<close>

theorem polls_are_exact:
  assumes "fresh_ring os nr b k seg" "ring_reachable (ring_layout nr b k) seg s"
  shows "(\<forall>r < nr. r_pc (rds s r) = RPoll \<longrightarrow>
            (read_check (ring_layout nr b k) (buf s) (r_idx (rds s r)) r
               \<longleftrightarrow> r_cnt (rds s r) < length (w_pub s)))
       \<and> (w_pc s = WPoll \<longrightarrow>
            (write_check (ring_layout nr b k) (buf s) (w_idx s)
               \<longleftrightarrow> (\<forall>r < nr. length (w_pub s) < r_cnt (rds s r) + k)))"
proof -
  note inv = fresh_ring_inv[OF assms]
  show ?thesis
    using reader_ready[OF inv] writer_ready[OF inv] inv(1)
    by (auto simp: ring_inv_def reader_inv_def writer_inv_def Let_def)
qed

theorem polls_are_exact_witness:
  "read_check demo_L (buf (demo_state [7, 0, 1, 0, 0, 0] 1 WPoll [[7]] (demo_reader RPoll [] 0 []))) (r_idx (rds (demo_state [7, 0, 1, 0, 0, 0] 1 WPoll [[7]] (demo_reader RPoll [] 0 [])) 0)) 0
   \<and> write_check demo_L (buf (demo_state [7, 0, 1, 0, 0, 0] 1 WPoll [[7]] (demo_reader RPoll [] 0 []))) (w_idx (demo_state [7, 0, 1, 0, 0, 0] 1 WPoll [[7]] (demo_reader RPoll [] 0 [])))"
  using polls_are_exact[OF fresh_demo demo_published]
  by (simp add: demo_state_def demo_reader_def)

text \<open>
  C4. No deadlock. In every reachable state in which the writer is polling and finds its block not
  yet released, some reader that is behind can take a step; otherwise the writer itself can.
\<close>

theorem ring_never_deadlocks:
  assumes "fresh_ring os nr b k seg" "ring_reachable (ring_layout nr b k) seg s"
  shows "(\<exists>t. write_step (ring_layout nr b k) s t)
    \<or> (\<exists>r < nr. r_cnt (rds s r) < length (w_pub s) \<and> (\<exists>t. read_step (ring_layout nr b k) r s t))"
proof (cases "\<exists>t. write_step (ring_layout nr b k) s t")
  case False
  note inv = fresh_ring_inv[OF assms]
  have poll: "w_pc s = WPoll"
  proof (rule ccontr)
    assume "w_pc s \<noteq> WPoll"
    then show False
      using False by (cases "w_pc s") (blast intro: write_step.intros)+
  qed
  then have "\<not> write_check (ring_layout nr b k) (buf s) (length (w_pub s) mod k)"
    using False inv(1) w_acquire[OF poll]
    by (auto simp: ring_inv_def writer_inv_def Let_def poll)
  then obtain r where r: "r < nr" and behind: "r_cnt (rds s r) + k \<le> length (w_pub s)"
    using writer_ready[OF inv] by (auto simp: not_less)
  then have lt: "r_cnt (rds s r) < length (w_pub s)" using inv(2) by linarith
  have "\<exists>t. read_step (ring_layout nr b k) r s t"
  proof (cases "r_pc (rds s r)")
    case RPoll
    then have "read_check (ring_layout nr b k) (buf s) (r_idx (rds s r)) r"
      using reader_ready[OF inv r] lt inv(1) r by (auto simp: ring_inv_def reader_inv_def Let_def)
    then show ?thesis using RPoll by (blast intro: read_step.intros)
  qed (blast intro: read_step.intros)+
  with r lt show ?thesis by blast
qed simp

theorem ring_never_deadlocks_witness:
  "(\<exists>t. write_step demo_L (demo_state [7, 0, 1, 0, 0, 0] 1 WFill [[7]] (demo_reader RRead [] 0 [])) t)
   \<or> (\<exists>r < 1. r_cnt (rds (demo_state [7, 0, 1, 0, 0, 0] 1 WFill [[7]] (demo_reader RRead [] 0 [])) r) < length (w_pub (demo_state [7, 0, 1, 0, 0, 0] 1 WFill [[7]] (demo_reader RRead [] 0 [])))
        \<and> (\<exists>t. read_step demo_L r (demo_state [7, 0, 1, 0, 0, 0] 1 WFill [[7]] (demo_reader RRead [] 0 [])) t))"
  by (rule ring_never_deadlocks[OF fresh_demo demo_overlap])

end
