(* ===== verification/Shm_Message.thy ===== *)
theory Shm_Message
  imports Shm_Layout
begin

text \<open>
  \<^verbatim>\<open>MessageQueue\<close> (\<^verbatim>\<open>overlays/vllm/distributed/device_communicators/shm_broadcast.py\<close>): how an
  object becomes buffers, how the buffers are framed inside one ring chunk or sent over a socket,
  how a reader takes them apart again, and how the ranks of a process group are given their roles.
  The chunk a call works on is the one that \<^verbatim>\<open>acquire_write\<close> or \<^verbatim>\<open>acquire_read\<close> yields (theory
  \<open>Shm_Protocol\<close>). Pickle is a parameter: \<open>dump obj\<close> is the main stream and, in callback order, the
  raw out-of-band buffers the pickler offers; \<open>loads\<close> rebuilds an object.
\<close>

section \<open>Big-endian integers\<close>

fun be_bytes :: "nat \<Rightarrow> nat \<Rightarrow> byte list" where
  "be_bytes 0 v = []"
| "be_bytes (Suc n) v = be_bytes n (v div 256) @ [of_nat (v mod 256)]"

definition to_bytes_big :: "nat \<Rightarrow> nat \<Rightarrow> byte list res" where
  "to_bytes_big val sz = (if val < 256 ^ sz then Inr (be_bytes sz val) else Inl OverflowError)"

definition from_bytes_big :: "byte list \<Rightarrow> nat" where
  "from_bytes_big bs = foldl (\<lambda>a x. a * 256 + unat x) 0 bs"

lemma length_be_bytes [simp]: "length (be_bytes n v) = n"
  by (induction n arbitrary: v) auto

lemma be_bytes_numeral:
  "be_bytes (numeral k) v = be_bytes (pred_numeral k) (v div 256) @ [of_nat (v mod 256)]"
  unfolding numeral_eq_Suc[of k] by (rule be_bytes.simps(2))

lemma unat_of_nat_byte: "unat (of_nat (v mod 256) :: byte) = v mod 256"
  by (simp add: unat_of_nat)

lemma from_be_bytes: "v < 256 ^ n \<Longrightarrow> from_bytes_big (be_bytes n v) = v"
proof (induction n arbitrary: v)
  case 0
  then show ?case by (simp add: from_bytes_big_def)
next
  case (Suc n)
  have "v div 256 < 256 ^ n" using Suc.prems by (simp add: less_mult_imp_div_less mult.commute)
  then show ?case using Suc.IH[of "v div 256"]
    by (simp add: from_bytes_big_def unat_of_nat_byte div_mult_mod_eq)
qed

lemma to_bytes_big_ok:
  "to_bytes_big v n = Inr bs \<longleftrightarrow> v < 256 ^ n \<and> bs = be_bytes n v"
  by (auto simp: to_bytes_big_def)

section \<open>Enqueue\<close>

record mq =
  mq_n_local_reader :: int
  mq_n_remote_reader :: int
  mq_is_writer :: bool
  mq_is_local_reader :: bool
  mq_is_remote_reader :: bool
  mq_local_reader_rank :: int
  mq_current_idx :: int
  mq_max_chunk_bytes :: nat

text \<open>
  \<^verbatim>\<open>oob_callback\<close>: a raw buffer below 1 MiB is serialised in-line (the callback returns true), any
  other is appended to \<^verbatim>\<open>all_buffers\<close> and counted with its four length bytes.
\<close>

definition oob_inline :: "byte list \<Rightarrow> bool" where
  "oob_inline raw_buf = (length raw_buf < 1024 * 1024)"

fun oob_collect :: "byte list list \<Rightarrow> byte list list \<Rightarrow> nat \<Rightarrow> byte list list \<times> nat" where
  "oob_collect [] all_buffers total_bytes = (all_buffers, total_bytes)"
| "oob_collect (raw_buf # raws) all_buffers total_bytes =
     (if oob_inline raw_buf then oob_collect raws all_buffers total_bytes
      else oob_collect raws (all_buffers @ [raw_buf]) (total_bytes + length raw_buf + 4))"

text \<open>The loop that stores each buffer behind four bytes with its length.\<close>

fun write_buffers :: "byte list list \<Rightarrow> nat \<Rightarrow> byte list \<Rightarrow> byte list res" where
  "write_buffers [] offset buf = Inr buf"
| "write_buffers (buffer # rest) offset buf =
     (let buf_len = length buffer; buf_offset = offset + 4 in
      res_bind (to_bytes_big buf_len 4) (\<lambda>len_bytes.
      res_bind (slice_assign offset buf_offset len_bytes buf) (\<lambda>buf1.
      res_bind (slice_assign buf_offset (buf_offset + buf_len) buffer buf1) (\<lambda>buf2.
      write_buffers rest (buf_offset + buf_len) buf2))))"

definition write_frame :: "byte list list \<Rightarrow> byte list \<Rightarrow> byte list res" where
  "write_frame all_buffers buf =
     res_bind (py_set buf 0 0) (\<lambda>buf0.
     res_bind (to_bytes_big (length all_buffers) 2) (\<lambda>cnt.
     res_bind (slice_assign 1 3 cnt buf0) (\<lambda>buf1.
     write_buffers all_buffers 3 buf1)))"

text \<open>What one call of \<^verbatim>\<open>enqueue\<close> does: the chunk it leaves behind and what it sends.\<close>

record enq_effect =
  eff_chunk :: "byte list option"
  eff_local_multipart :: "byte list list option"
  eff_notified :: bool
  eff_remote_multipart :: "byte list list option"

definition enqueue ::
  "('o \<Rightarrow> byte list \<times> byte list list) \<Rightarrow> mq \<Rightarrow> byte list \<Rightarrow> 'o \<Rightarrow> enq_effect res" where
  "enqueue dump q chunk obj =
     res_bind (require (mq_is_writer q) AssertionError) (\<lambda>_.
     let (main, raws) = dump obj;
         (oob, total_bytes) = oob_collect raws [] 6;
         all_buffers = main # oob;
         remote = (if mq_n_remote_reader q > 0 then Some all_buffers else None)
     in
     if mq_n_local_reader q > 0 then
       (if total_bytes + length main \<ge> mq_max_chunk_bytes q then
          res_bind (py_set chunk 0 1) (\<lambda>c.
          Inr \<lparr> eff_chunk = Some c, eff_local_multipart = Some all_buffers, eff_notified = True,
                eff_remote_multipart = remote \<rparr>)
        else
          res_bind (write_frame all_buffers chunk) (\<lambda>c.
          Inr \<lparr> eff_chunk = Some c, eff_local_multipart = None, eff_notified = True,
                eff_remote_multipart = remote \<rparr>))
     else
       Inr \<lparr> eff_chunk = None, eff_local_multipart = None, eff_notified = False,
             eff_remote_multipart = remote \<rparr>)"

section \<open>Dequeue\<close>

fun read_buffers :: "nat \<Rightarrow> nat \<Rightarrow> byte list \<Rightarrow> byte list list" where
  "read_buffers 0 offset buf = []"
| "read_buffers (Suc n) offset buf =
     (let buf_offset = offset + 4;
          buf_len = from_bytes_big (slice offset buf_offset buf)
      in slice buf_offset (buf_offset + buf_len) buf
           # read_buffers n (buf_offset + buf_len) buf)"

definition loads_all :: "(byte list \<Rightarrow> byte list list \<Rightarrow> 'o res) \<Rightarrow> byte list list \<Rightarrow> 'o res" where
  "loads_all loads all_buffers =
     (case all_buffers of [] \<Rightarrow> Inl IndexError | main # oob \<Rightarrow> loads main oob)"

text \<open>\<^verbatim>\<open>recv\<close>: \<open>None\<close> is a poll that times out; unpacking an empty multipart is a \<^verbatim>\<open>ValueError\<close>.\<close>

definition recv :: "(byte list \<Rightarrow> byte list list \<Rightarrow> 'o res) \<Rightarrow> byte list list option \<Rightarrow> 'o res" where
  "recv loads incoming =
     (case incoming of
        None \<Rightarrow> Inl TimeoutError
      | Some [] \<Rightarrow> Inl ValueError
      | Some (main # oob) \<Rightarrow> loads main oob)"

definition dequeue ::
  "(byte list \<Rightarrow> byte list list \<Rightarrow> 'o res) \<Rightarrow> mq \<Rightarrow> byte list \<Rightarrow> byte list list option
     \<Rightarrow> byte list list option \<Rightarrow> 'o res" where
  "dequeue loads q chunk local_in remote_in =
     (if mq_is_local_reader q then
        res_bind (py_get chunk 0) (\<lambda>first.
        let overflow = (first = 1) in
        if \<not> overflow then
          (let buf_count = from_bytes_big (slice 1 3 chunk)
           in loads_all loads (read_buffers buf_count 3 chunk))
        else recv loads local_in)
      else if mq_is_remote_reader q then recv loads remote_in
      else Inl RuntimeError)"

section \<open>The frame fits and reads back\<close>

text \<open>Bytes of the framed buffers: four length bytes and the content of each.\<close>

definition framed_size :: "byte list list \<Rightarrow> nat" where
  "framed_size bs = sum_list (map (\<lambda>x. 4 + length x) bs)"

lemma framed_size_simps [simp]:
  "framed_size [] = 0"
  "framed_size (x # xs) = 4 + length x + framed_size xs"
  by (simp_all add: framed_size_def)

lemma oob_collect_eq:
  "oob_collect raws acc n =
     (acc @ filter (\<lambda>x. \<not> oob_inline x) raws, n + framed_size (filter (\<lambda>x. \<not> oob_inline x) raws))"
  by (induction raws acc n rule: oob_collect.induct) auto

fun frame_bytes :: "byte list list \<Rightarrow> byte list" where
  "frame_bytes [] = []"
| "frame_bytes (x # xs) = be_bytes 4 (length x) @ x @ frame_bytes xs"

lemma length_frame_bytes [simp]: "length (frame_bytes bs) = framed_size bs"
  by (induction bs) auto

lemma write_buffers_ok:
  assumes "\<forall>x \<in> set bs. length x < 256 ^ 4" "offset + framed_size bs \<le> length buf"
  shows "write_buffers bs offset buf =
           Inr (take offset buf @ frame_bytes bs @ drop (offset + framed_size bs) buf)"
  using assms
proof (induction bs arbitrary: offset buf)
  case Nil
  then show ?case by simp
next
  case (Cons x bs)
  let ?l = "be_bytes 4 (length x)"
  let ?b1 = "take offset buf @ ?l @ drop (offset + 4) buf"
  let ?b2 = "take (offset + 4) ?b1 @ x @ drop (offset + 4 + length x) ?b1"
  have len: "offset + (4 + length x + framed_size bs) \<le> length buf" using Cons.prems by simp
  have s1: "slice_assign offset (offset + 4) ?l buf = Inr ?b1"
    using len by (intro slice_assign_ok) auto
  have s2: "slice_assign (offset + 4) (offset + 4 + length x) x ?b1 = Inr ?b2"
    using len by (intro slice_assign_ok) auto
  have b2: "?b2 = take offset buf @ ?l @ x @ drop (offset + 4 + length x) buf"
    using len by (simp add: add.commute add.left_commute)
  have "write_buffers bs (offset + 4 + length x) ?b2 =
          Inr (take (offset + 4 + length x) ?b2 @ frame_bytes bs
               @ drop (offset + 4 + length x + framed_size bs) ?b2)"
    using Cons.prems len b2 by (intro Cons.IH) auto
  also have "take (offset + 4 + length x) ?b2 = take offset buf @ ?l @ x"
    using len unfolding b2 by simp
  also have "drop (offset + 4 + length x + framed_size bs) ?b2
               = drop (offset + 4 + length x + framed_size bs) buf"
    using len unfolding b2 by (simp add: add.commute)
  finally have "write_buffers bs (offset + 4 + length x) ?b2
      = Inr (take offset buf @ ?l @ x @ frame_bytes bs
             @ drop (offset + 4 + length x + framed_size bs) buf)" by simp
  then show ?case
    using Cons.prems(1) s1 s2
    by (simp add: Let_def to_bytes_big_def add.assoc)
qed

lemma write_frame_ok:
  assumes "length bs < 256 ^ 2" "\<forall>x \<in> set bs. length x < 256 ^ 4" "3 + framed_size bs \<le> length buf"
  shows "write_frame bs buf =
     Inr (0 # be_bytes 2 (length bs) @ frame_bytes bs @ drop (3 + framed_size bs) buf)"
proof -
  have b0: "py_set buf 0 0 = Inr (buf[0 := 0])" using assms(3) by (cases buf) (auto simp: py_set_def)
  have "slice_assign 1 3 (be_bytes 2 (length bs)) (buf[0 := 0]) =
        Inr (take 1 (buf[0 := 0]) @ be_bytes 2 (length bs) @ drop 3 (buf[0 := 0]))"
    using assms(3) by (intro slice_assign_ok) auto
  moreover have "take 1 (buf[0 := 0]) = [0]" using assms(3) by (cases buf) auto
  moreover have "drop 3 (buf[0 := 0]) = drop 3 buf" by simp
  moreover have "drop (3 + framed_size bs) (0 # be_bytes 2 (length bs) @ drop 3 buf)
      = drop (3 + framed_size bs) buf"
    by (simp add: numeral_3_eq_3 numeral_2_eq_2)
  ultimately show ?thesis
    using assms b0 write_buffers_ok[of bs 3 "0 # be_bytes 2 (length bs) @ drop 3 buf"]
    by (simp add: write_frame_def to_bytes_big_def add.commute)
qed

lemma read_frame_bytes:
  assumes "\<forall>x \<in> set bs. length x < 256 ^ 4"
  shows "read_buffers (length bs) (length pre) (pre @ frame_bytes bs @ post) = bs"
  using assms
proof (induction bs arbitrary: pre)
  case Nil
  then show ?case by simp
next
  case (Cons x bs)
  let ?l = "be_bytes 4 (length x)"
  let ?buf = "pre @ frame_bytes (x # bs) @ post"
  have "slice (length pre) (length pre + 4) ?buf = ?l" by (simp add: slice_def)
  moreover have "from_bytes_big ?l = length x" using Cons.prems by (intro from_be_bytes) simp
  moreover have "slice (length pre + 4) (length pre + 4 + length x) ?buf = x" by (simp add: slice_def)
  moreover have "read_buffers (length bs) (length pre + 4 + length x) ?buf = bs"
    using Cons.IH[of "pre @ ?l @ x"] Cons.prems by (simp add: add.assoc)
  ultimately show ?case by (simp add: Let_def)
qed


text \<open>The buffers a call frames or sends.\<close>

definition enq_buffers :: "('o \<Rightarrow> byte list \<times> byte list list) \<Rightarrow> 'o \<Rightarrow> byte list list" where
  "enq_buffers dump obj = fst (dump obj) # filter (\<lambda>x. \<not> oob_inline x) (snd (dump obj))"

lemma enqueue_eq:
  "enqueue dump q chunk obj =
     res_bind (require (mq_is_writer q) AssertionError) (\<lambda>_.
     let bs = enq_buffers dump obj;
         remote = (if mq_n_remote_reader q > 0 then Some bs else None) in
     if mq_n_local_reader q > 0 then
       (if mq_max_chunk_bytes q \<le> 2 + framed_size bs then
          res_bind (py_set chunk 0 1) (\<lambda>c.
          Inr \<lparr> eff_chunk = Some c, eff_local_multipart = Some bs, eff_notified = True,
                eff_remote_multipart = remote \<rparr>)
        else
          res_bind (write_frame bs chunk) (\<lambda>c.
          Inr \<lparr> eff_chunk = Some c, eff_local_multipart = None, eff_notified = True,
                eff_remote_multipart = remote \<rparr>))
     else Inr \<lparr> eff_chunk = None, eff_local_multipart = None, eff_notified = False,
                eff_remote_multipart = remote \<rparr>)"
  by (simp add: enqueue_def enq_buffers_def oob_collect_eq Let_def case_prod_unfold
      add.commute add.left_commute)

definition fits_wire :: "byte list list \<Rightarrow> bool" where
  "fits_wire bs \<longleftrightarrow> length bs < 256 ^ 2 \<and> (\<forall>x \<in> set bs. length x < 256 ^ 4)"

text \<open>A write that fails does so only because a count or a length does not fit its field.\<close>

lemma write_buffers_fail:
  assumes "offset + framed_size bs \<le> length buf" "\<not> (\<forall>x \<in> set bs. length x < 256 ^ 4)"
  shows "write_buffers bs offset buf = Inl OverflowError"
  using assms
proof (induction bs arbitrary: offset buf)
  case Nil
  then show ?case by simp
next
  case (Cons x bs)
  show ?case
  proof (cases "length x < 256 ^ 4")
    case True
    let ?l = "be_bytes 4 (length x)"
    let ?b1 = "take offset buf @ ?l @ drop (offset + 4) buf"
    let ?b2 = "take (offset + 4) ?b1 @ x @ drop (offset + 4 + length x) ?b1"
    have len: "offset + (4 + length x + framed_size bs) \<le> length buf" using Cons.prems by simp
    have s1: "slice_assign offset (offset + 4) ?l buf = Inr ?b1"
      using len by (intro slice_assign_ok) auto
    have s2: "slice_assign (offset + 4) (offset + 4 + length x) x ?b1 = Inr ?b2"
      using len by (intro slice_assign_ok) auto
    have "write_buffers bs (offset + 4 + length x) ?b2 = Inl OverflowError"
      using Cons.prems len True by (intro Cons.IH) auto
    then show ?thesis using True s1 s2 by (simp add: Let_def to_bytes_big_def)
  next
    case False
    then show ?thesis by (simp add: Let_def to_bytes_big_def)
  qed
qed

lemma write_frame_result:
  assumes "3 + framed_size bs \<le> length buf"
  shows "write_frame bs buf =
     (if fits_wire bs
      then Inr (0 # be_bytes 2 (length bs) @ frame_bytes bs @ drop (3 + framed_size bs) buf)
      else Inl OverflowError)"
proof (cases "fits_wire bs")
  case True
  then show ?thesis using write_frame_ok[of bs buf] assms by (simp add: fits_wire_def)
next
  case False
  have b0: "py_set buf 0 0 = Inr (buf[0 := 0])" using assms by (cases buf) (auto simp: py_set_def)
  show ?thesis
  proof (cases "length bs < 256 ^ 2")
    case True
    have "slice_assign 1 3 (be_bytes 2 (length bs)) (buf[0 := 0]) =
        Inr (take 1 (buf[0 := 0]) @ be_bytes 2 (length bs) @ drop 3 (buf[0 := 0]))"
      using assms by (intro slice_assign_ok) auto
    moreover have "write_buffers bs 3
        (take 1 (buf[0 := 0]) @ be_bytes 2 (length bs) @ drop 3 (buf[0 := 0])) = Inl OverflowError"
      using assms True False by (intro write_buffers_fail) (auto simp: fits_wire_def)
    ultimately show ?thesis using True False b0 by (simp add: write_frame_def to_bytes_big_def)
  next
    case False
    then show ?thesis using b0 \<open>\<not> fits_wire bs\<close> by (simp add: write_frame_def to_bytes_big_def)
  qed
qed

lemma dequeue_frame:
  assumes "mq_is_local_reader q" "fits_wire bs" "bs \<noteq> []"
  shows "dequeue loads q (0 # be_bytes 2 (length bs) @ frame_bytes bs @ post) li ri
           = loads (hd bs) (tl bs)"
proof -
  let ?c = "0 # be_bytes 2 (length bs) @ frame_bytes bs @ post"
  have "slice 1 3 ?c = be_bytes 2 (length bs)" by (simp add: slice_def)
  moreover have "from_bytes_big (be_bytes 2 (length bs)) = length bs"
    using assms(2) by (intro from_be_bytes) (simp add: fits_wire_def)
  moreover have "read_buffers (length bs) 3 ?c = bs"
    using read_frame_bytes[of bs "0 # be_bytes 2 (length bs)" post] assms(2)
    by (simp add: fits_wire_def numeral_3_eq_3)
  ultimately show ?thesis
    using assms(1,3) by (cases bs) (simp_all add: dequeue_def py_get_def loads_all_def)
qed

text \<open>What a call has to leave behind and send, from the size of the whole frame.\<close>

definition framed_chunk :: "byte list list \<Rightarrow> byte list \<Rightarrow> byte list" where
  "framed_chunk bs chunk = 0 # be_bytes 2 (length bs) @ frame_bytes bs @ drop (3 + framed_size bs) chunk"

definition enqueue_spec :: "mq \<Rightarrow> byte list \<Rightarrow> byte list list \<Rightarrow> enq_effect res" where
  "enqueue_spec q chunk bs =
     (let remote = (if 0 < mq_n_remote_reader q then Some bs else None) in
      if mq_n_local_reader q \<le> 0
      then Inr \<lparr> eff_chunk = None, eff_local_multipart = None, eff_notified = False, eff_remote_multipart = remote \<rparr>
      else if length chunk < 3 + framed_size bs
      then Inr \<lparr> eff_chunk = Some (chunk[0 := 1]), eff_local_multipart = Some bs, eff_notified = True, eff_remote_multipart = remote \<rparr>
      else if \<not> fits_wire bs then Inl OverflowError
      else Inr \<lparr> eff_chunk = Some (framed_chunk bs chunk), eff_local_multipart = None, eff_notified = True, eff_remote_multipart = remote \<rparr>)"

text \<open>
  C5. Framing is exact. The size test of \<^verbatim>\<open>enqueue\<close> counts six bytes of overhead where the frame has seven,
  and uses \<^verbatim>\<open>>=\<close>: together that is exact. With local readers, a writer puts its message into a chunk of the
  configured size exactly when the whole frame fits it, as the count, the buffers behind their lengths and the
  untouched rest of the chunk, which keeps its size; when it does not fit, only the overflow mark is set and the
  buffers go to the local socket. The one failure is an \<^verbatim>\<open>OverflowError\<close> for 65536 buffers or more or one of 4 GiB
  or more in a frame that fits. Without local readers no chunk is touched; remote readers always get the buffers.
\<close>

theorem enqueue_stays_in_chunk:
  assumes "mq_is_writer q" "0 < mq_max_chunk_bytes q" "length chunk = mq_max_chunk_bytes q"
  shows "enqueue dump q chunk obj = enqueue_spec q chunk (enq_buffers dump obj)
    \<and> (\<forall>bs. 3 + framed_size bs \<le> length chunk \<longrightarrow> length (framed_chunk bs chunk) = length chunk)"
proof -
  let ?bs = "enq_buffers dump obj"
  have set0: "py_set chunk 0 1 = Inr (chunk[0 := 1])" using assms by (simp add: py_set_def)
  have "enqueue dump q chunk obj = enqueue_spec q chunk ?bs"
  proof (cases "length chunk < 3 + framed_size ?bs")
    case True
    then have "mq_max_chunk_bytes q \<le> 2 + framed_size ?bs" using assms(3) by linarith
    then show ?thesis using True assms(1) set0 by (simp add: enqueue_eq enqueue_spec_def Let_def)
  next
    case False
    then have "3 + framed_size ?bs \<le> length chunk" "\<not> mq_max_chunk_bytes q \<le> 2 + framed_size ?bs" using assms(3) by linarith+
    then show ?thesis using assms(1) by (simp add: enqueue_eq enqueue_spec_def framed_chunk_def Let_def write_frame_result)
  qed
  then show ?thesis by (auto simp: framed_chunk_def)
qed

definition demo_writer :: mq where
  "demo_writer = \<lparr> mq_n_local_reader = 1, mq_n_remote_reader = 1, mq_is_writer = True,
     mq_is_local_reader = False, mq_is_remote_reader = False, mq_local_reader_rank = -1,
     mq_current_idx = 0, mq_max_chunk_bytes = 12 \<rparr>"

definition demo_local_reader :: mq where
  "demo_local_reader = demo_writer\<lparr>mq_is_writer := False, mq_is_local_reader := True\<rparr>"

text \<open>A message of five bytes fills the chunk of twelve to the last byte; one of six does not fit.\<close>

theorem enqueue_stays_in_chunk_witness:
  "map_sum id eff_chunk (enqueue (\<lambda>x. (x, [])) demo_writer [9, 9, 9, 9, 9, 9, 9, 9, 9, 9, 9, 9] [1, 2, 3, 4, 5 :: byte])
     = Inr (Some [0, 0, 1, 0, 0, 0, 5, 1, 2, 3, 4, 5])
   \<and> map_sum id eff_chunk (enqueue (\<lambda>x. (x, [])) demo_writer [9, 9, 9, 9, 9, 9, 9, 9, 9, 9, 9, 9] [1, 2, 3, 4, 5, 6 :: byte])
     = Inr (Some [1, 9, 9, 9, 9, 9, 9, 9, 9, 9, 9, 9])"
proof -
  have w: "mq_is_writer demo_writer" "0 < mq_max_chunk_bytes demo_writer"
    "length [9, 9, 9, 9, 9, 9, 9, 9, 9, 9, 9, 9 :: byte] = mq_max_chunk_bytes demo_writer"
    by (simp_all add: demo_writer_def)
  show ?thesis
    unfolding enqueue_stays_in_chunk[OF w, THEN conjunct1]
    by (simp add: demo_writer_def enq_buffers_def fits_wire_def enqueue_spec_def framed_chunk_def be_bytes_numeral)
qed

text \<open>
  C6. Round trip. Whatever a writer enqueues, every kind of reader dequeues: a local reader from the
  chunk, or, when the message was too big for the chunk, from the local socket; a remote reader from
  the remote socket. The one hypothesis on pickle is that loading what was dumped gives the object.
\<close>

theorem enqueue_dequeue_roundtrip:
  assumes "enqueue dump w chunk obj = Inr eff"
    and "length chunk = mq_max_chunk_bytes w"
    and pickle: "loads (hd (enq_buffers dump obj)) (tl (enq_buffers dump obj)) = Inr obj"
  shows "(mq_is_local_reader r \<and> mq_n_local_reader w > 0 \<longrightarrow>
            dequeue loads r (the (eff_chunk eff)) (eff_local_multipart eff) ri = Inr obj)
       \<and> (\<not> mq_is_local_reader r \<and> mq_is_remote_reader r \<and> mq_n_remote_reader w > 0 \<longrightarrow>
            dequeue loads r c li (eff_remote_multipart eff) = Inr obj)"
proof -
  let ?bs = "enq_buffers dump obj"
  have nn: "?bs \<noteq> []" by (simp add: enq_buffers_def)
  have recv: "recv loads (Some ?bs) = Inr obj"
    using pickle by (simp add: recv_def enq_buffers_def)
  have remote: "eff_remote_multipart eff = Some ?bs" if "mq_n_remote_reader w > 0"
    using assms(1) that by (auto simp: enqueue_eq Let_def res_simps split: if_splits)
  have "dequeue loads r (the (eff_chunk eff)) (eff_local_multipart eff) ri = Inr obj"
    if "mq_is_local_reader r" "mq_n_local_reader w > 0"
  proof (cases "2 + framed_size ?bs < mq_max_chunk_bytes w")
    case True
    then have "3 + framed_size ?bs \<le> length chunk" using assms(2) by linarith
    then have "fits_wire ?bs \<and> eff_chunk eff =
        Some (0 # be_bytes 2 (length ?bs) @ frame_bytes ?bs @ drop (3 + framed_size ?bs) chunk)"
      using assms(1) True that(2)
      by (auto simp: enqueue_eq Let_def res_simps write_frame_result split: if_splits)
    then show ?thesis using pickle by (simp add: dequeue_frame[OF that(1) _ nn])
  next
    case False
    then have "eff_chunk eff = Some (chunk[0 := 1]) \<and> eff_local_multipart eff = Some ?bs
        \<and> 0 < length chunk"
      using assms(1) that(2)
      by (auto simp: enqueue_eq Let_def res_simps py_set_def split: if_splits)
    then show ?thesis using that(1) recv by (simp add: dequeue_def py_get_def)
  qed
  then show ?thesis using remote recv by (simp add: dequeue_def)
qed

theorem enqueue_dequeue_roundtrip_witness:
  "dequeue (\<lambda>m oob. Inr m) demo_local_reader [0, 0, 1, 0, 0, 0, 3, 1, 2, 3, 0, 0] None None
     = Inr [1, 2, 3 :: byte]"
proof -
  let ?eff = "\<lparr> eff_chunk = Some [0, 0, 1, 0, 0, 0, 3, 1, 2, 3, 0, 0 :: byte],
    eff_local_multipart = None, eff_notified = True, eff_remote_multipart = Some [[1, 2, 3 :: byte]] \<rparr>"
  have "enqueue (\<lambda>x. (x, [])) demo_writer (replicate 12 0) [1, 2, 3 :: byte] = Inr ?eff"
    by (simp add: enqueue_eq demo_writer_def enq_buffers_def write_frame_result fits_wire_def
        be_bytes_numeral numeral_2_eq_2)
  from enqueue_dequeue_roundtrip[OF this, of "\<lambda>m oob. Inr m" demo_local_reader]
  show ?thesis by (simp add: demo_writer_def demo_local_reader_def enq_buffers_def)
qed

section \<open>Roles of the ranks\<close>

text \<open>What the constructor takes from the network: addresses, the port, the node's own IP.\<close>

record net =
  net_sub_path :: string
  net_notify_path :: string
  net_ip :: string
  net_port :: string
  net_is_ipv6 :: "string \<Rightarrow> bool"
  net_shm_name :: string

record handle =
  h_local_reader_ranks :: "nat list"
  h_buffer_handle :: "(nat \<times> nat \<times> nat \<times> string) option"
  h_local_subscribe_addr :: "string option"
  h_local_notify_addr :: "string option"
  h_remote_subscribe_addr :: "string option"
  h_remote_addr_ipv6 :: bool

definition MessageQueue ::
  "shm_os \<Rightarrow> net \<Rightarrow> int \<Rightarrow> int \<Rightarrow> nat list option \<Rightarrow> nat \<Rightarrow> nat \<Rightarrow> string option \<Rightarrow> (mq \<times> handle) res" where
  "MessageQueue os nt nreader n_local_reader ranks chunk_bytes chunks connect_ip =
     res_bind (case ranks of
         None \<Rightarrow> Inr [0..<nat n_local_reader]
       | Some rs \<Rightarrow> res_bind (require (int (length rs) = n_local_reader) AssertionError) (\<lambda>_. Inr rs))
       (\<lambda>local_reader_ranks.
     let n_remote_reader = nreader - n_local_reader in
     res_bind (if n_local_reader > 0
               then res_bind (ShmRingBuffer os (nat n_local_reader) chunk_bytes chunks None) (\<lambda>rb. Inr (Some rb))
               else Inr None) (\<lambda>ring.
     let has_local = (ring \<noteq> None);
         ip = (case connect_ip of None \<Rightarrow> net_ip nt | Some i \<Rightarrow> if i = [] then net_ip nt else i);
         v6 = net_is_ipv6 nt ip;
         host = (if v6 then ''['' @ ip @ '']'' else ip);
         h = \<lparr> h_local_reader_ranks = local_reader_ranks,
               h_buffer_handle = (if has_local
                 then Some (nat n_local_reader, chunk_bytes, chunks, net_shm_name nt) else None),
               h_local_subscribe_addr = (if has_local then Some (net_sub_path nt) else None),
               h_local_notify_addr = (if has_local then Some (net_notify_path nt) else None),
               h_remote_subscribe_addr =
                 (if n_remote_reader > 0 then Some (''tcp://'' @ host @ '':'' @ net_port nt) else None),
               h_remote_addr_ipv6 = (n_remote_reader > 0 \<and> v6) \<rparr>;
         q = \<lparr> mq_n_local_reader = n_local_reader, mq_n_remote_reader = n_remote_reader,
               mq_is_writer = True, mq_is_local_reader = False, mq_is_remote_reader = False,
               mq_local_reader_rank = -1,
               mq_current_idx = (if has_local then 0 else -1),
               mq_max_chunk_bytes = (if has_local then chunk_bytes else 0) \<rparr>
     in Inr (q, h)))"

text \<open>\<^verbatim>\<open>xs.index(x)\<close> for a member.\<close>

definition py_index :: "'a list \<Rightarrow> 'a \<Rightarrow> nat" where
  "py_index xs x = length (takeWhile (\<lambda>y. y \<noteq> x) xs)"

text \<open>
  A reader has no \<^verbatim>\<open>n_local_reader\<close> and no \<^verbatim>\<open>n_remote_reader\<close> attribute; the model puts 0 there and no
  reader operation looks at them.
\<close>

definition create_from_handle :: "shm_os \<Rightarrow> handle \<Rightarrow> nat \<Rightarrow> mq res" where
  "create_from_handle os h rank =
     (if rank \<in> set (h_local_reader_ranks h) then
        (case h_buffer_handle h of
           None \<Rightarrow> Inl AssertionError
         | Some (nr, chunk_bytes, chunks, name) \<Rightarrow>
             res_bind (ShmRingBuffer os nr chunk_bytes chunks (Some name)) (\<lambda>rb.
             res_bind (require (h_local_notify_addr h \<noteq> None) AssertionError) (\<lambda>_.
             Inr \<lparr> mq_n_local_reader = 0, mq_n_remote_reader = 0, mq_is_writer = False,
                   mq_is_local_reader = True, mq_is_remote_reader = False,
                   mq_local_reader_rank = int (py_index (h_local_reader_ranks h) rank),
                   mq_current_idx = 0, mq_max_chunk_bytes = chunk_bytes \<rparr>)))
      else
        Inr \<lparr> mq_n_local_reader = 0, mq_n_remote_reader = 0, mq_is_writer = False,
              mq_is_local_reader = False, mq_is_remote_reader = True, mq_local_reader_rank = -1,
              mq_current_idx = -1, mq_max_chunk_bytes = 0 \<rparr>)"

text \<open>
  \<open>status\<close> is what \<^verbatim>\<open>in_the_same_node_as\<close> returned; \<open>received\<close> the handle a non-writer gets from the
  broadcast. The result carries the handle the writer broadcasts.
\<close>

definition create_from_process_group ::
  "shm_os \<Rightarrow> net \<Rightarrow> nat \<Rightarrow> nat \<Rightarrow> bool list \<Rightarrow> nat \<Rightarrow> nat \<Rightarrow> nat \<Rightarrow> handle option \<Rightarrow> handle
     \<Rightarrow> (mq \<times> handle) res" where
  "create_from_process_group os nt group_rank group_world_size status writer_rank chunk_bytes chunks
      external_writer_handle received =
     (if group_rank = writer_rank then
        (case external_writer_handle of
           Some h \<Rightarrow> res_bind (create_from_handle os h group_rank) (\<lambda>q. Inr (q, h))
         | None \<Rightarrow>
             (let same_node_ranks = filter (\<lambda>i. status ! i) [0..<length status];
                  nreader = int group_world_size - 1;
                  n_local_reader = int (length same_node_ranks) - 1;
                  local_reader_ranks = filter (\<lambda>i. i \<noteq> writer_rank) same_node_ranks
              in MessageQueue os nt nreader n_local_reader (Some local_reader_ranks)
                   chunk_bytes chunks None))
      else res_bind (create_from_handle os received group_rank) (\<lambda>q. Inr (q, received)))"

lemma py_index_less: "x \<in> set xs \<Longrightarrow> py_index xs x < length xs"
  by (induction xs) (auto simp: py_index_def)

lemma nth_py_index: "x \<in> set xs \<Longrightarrow> xs ! py_index xs x = x"
  by (induction xs) (auto simp: py_index_def)

lemma py_index_inj: "x \<in> set xs \<Longrightarrow> y \<in> set xs \<Longrightarrow> py_index xs x = py_index xs y \<Longrightarrow> x = y"
  by (metis nth_py_index)

lemma length_filter_neq:
  "distinct xs \<Longrightarrow> x \<in> set xs \<Longrightarrow> Suc (length (filter (\<lambda>i. i \<noteq> x) xs)) = length xs"
proof (induction xs)
  case (Cons y ys)
  then show ?case by (cases "y = x") (auto simp: filter_id_conv intro!: arg_cong[where f = length])
qed simp

text \<open>The ranks of the writer's node, the writer left out.\<close>

abbreviation local_ranks :: "bool list \<Rightarrow> nat \<Rightarrow> nat list" where
  "local_ranks status writer \<equiv>
     filter (\<lambda>i. i \<noteq> writer) (filter (\<lambda>i. status ! i) [0..<length status])"

lemma length_local_ranks:
  assumes "writer < length status" "status ! writer"
  shows "int (length (local_ranks status writer))
           = int (length (filter (\<lambda>i. status ! i) [0..<length status])) - 1"
proof -
  have "Suc (length (local_ranks status writer)) = length (filter (\<lambda>i. status ! i) [0..<length status])"
    using assms by (intro length_filter_neq) auto
  then show ?thesis by linarith
qed

text \<open>
  Every rank gets exactly one role. When the writer's node test marks the writer itself, the
  writer's constructor passes its assertion, and with the handle it broadcasts each other rank
  becomes a local reader exactly if it is on the writer's node, and a remote reader otherwise. The
  flag indices of the local readers are distinct and below the number of readers the ring was
  created for, so no two readers share a flag of the ring, and the ring waits for no absent reader.
\<close>

lemma process_group_roles:
  assumes "length status = world" "writer < world" "status ! writer"
    and w: "create_from_process_group os nt writer world status writer b k None h0 = Inr (q, h)"
    and open_ok: "\<exists>seg. shm_named os (net_shm_name nt) = Some seg
          \<and> total_bytes_of_buffer (ring_layout (length (local_ranks status writer)) b k) \<le> length seg"
  shows "mq_n_local_reader q = int (length (local_ranks status writer))
    \<and> mq_n_local_reader q + mq_n_remote_reader q = int world - 1
    \<and> (\<forall>r < world. r \<noteq> writer \<longrightarrow>
         (\<exists>d. create_from_process_group os nt r world status writer b k None h = Inr (d, h)
            \<and> mq_is_local_reader d = (status ! r) \<and> mq_is_remote_reader d = (\<not> status ! r)
            \<and> (status ! r \<longrightarrow> 0 \<le> mq_local_reader_rank d
                 \<and> mq_local_reader_rank d < mq_n_local_reader q
                 \<and> local_ranks status writer ! nat (mq_local_reader_rank d) = r)))"
proof -
  let ?lr = "local_ranks status writer"
  let ?same = "filter (\<lambda>i. status ! i) [0..<length status]"
  have len: "int (length ?lr) = int (length ?same) - 1"
    using assms(1-3) by (intro length_local_ranks) simp_all
  have "MessageQueue os nt (int world - 1) (int (length ?lr)) (Some ?lr) b k None = Inr (q, h)"
    using w len by (simp add: create_from_process_group_def Let_def)
  then have q: "mq_n_local_reader q = int (length ?lr)"
      "mq_n_remote_reader q = int world - 1 - int (length ?lr)"
    and h: "h_local_reader_ranks h = ?lr"
      "?lr \<noteq> [] \<Longrightarrow> h_buffer_handle h = Some (length ?lr, b, k, net_shm_name nt)"
      "?lr \<noteq> [] \<Longrightarrow> h_local_notify_addr h \<noteq> None"
    by (auto simp: MessageQueue_def Let_def res_simps split: if_splits)
  have "\<exists>d. create_from_process_group os nt r world status writer b k None h = Inr (d, h)
      \<and> mq_is_local_reader d = (status ! r) \<and> mq_is_remote_reader d = (\<not> status ! r)
      \<and> (status ! r \<longrightarrow> 0 \<le> mq_local_reader_rank d \<and> mq_local_reader_rank d < mq_n_local_reader q
           \<and> ?lr ! nat (mq_local_reader_rank d) = r)"
    if "r < world" "r \<noteq> writer" for r
  proof (cases "status ! r")
    case True
    then have mem: "r \<in> set ?lr" using that assms(1) by simp
    have ne: "?lr \<noteq> []" using length_pos_if_in_set[OF mem] unfolding length_greater_0_conv .
    from open_ok obtain seg where "shm_named os (net_shm_name nt) = Some seg"
      "total_bytes_of_buffer (ring_layout (length ?lr) b k) \<le> length seg" by blast
    then show ?thesis
      using True that mem h(1) h(2,3)[OF ne] q(1) py_index_less[OF mem] nth_py_index[OF mem]
      by (auto simp: create_from_process_group_def create_from_handle_def ShmRingBuffer_def Let_def)
  next
    case False
    then have "r \<notin> set (h_local_reader_ranks h)" using h(1) by simp
    then show ?thesis using False that
      by (auto simp: create_from_process_group_def create_from_handle_def)
  qed
  with q show ?thesis by auto
qed

definition demo_net :: net where
  "demo_net = \<lparr> net_sub_path = ''s'', net_notify_path = ''n'', net_ip = ''10.0.0.1'', net_port = ''1'',
                net_is_ipv6 = (\<lambda>_. False), net_shm_name = ''seg'' \<rparr>"

definition demo_shm :: shm_os where
  "demo_shm = \<lparr> shm_isdir = True, shm_free = 100, shm_fresh = (\<lambda>n. replicate n 0),
               shm_named = [''seg'' \<mapsto> replicate 6 0] \<rparr>"

lemma process_group_roles_witness:
  "\<exists>q h. create_from_process_group demo_shm demo_net 1 3 [False, True, True] 1 1 2 None undefined = Inr (q, h)
     \<and> mq_n_local_reader q = 1 \<and> mq_n_remote_reader q = 1
     \<and> (\<exists>d. create_from_process_group demo_shm demo_net 2 3 [False, True, True] 1 1 2 None h = Inr (d, h)
            \<and> mq_is_local_reader d \<and> mq_local_reader_rank d = 0)"
proof -
  let ?st = "[False, True, True]"
  have st: "local_ranks ?st 1 = [2]" by (simp add: upt_rec)
  obtain q h where w: "create_from_process_group demo_shm demo_net 1 3 ?st 1 1 2 None undefined = Inr (q, h)"
    by (simp add: create_from_process_group_def MessageQueue_def ShmRingBuffer_def
        check_shm_free_space_def demo_shm_def demo_net_def upt_rec Let_def)
  have "\<exists>seg. shm_named demo_shm (net_shm_name demo_net) = Some seg
          \<and> total_bytes_of_buffer (ring_layout (length (local_ranks ?st 1)) 1 2) \<le> length seg"
    unfolding st by (simp add: demo_shm_def demo_net_def)
  note R = process_group_roles[OF _ _ _ w this]
  have q: "mq_n_local_reader q = 1" using R[THEN conjunct1] unfolding st by simp
  have "mq_n_remote_reader q = 1" using R[THEN conjunct2, THEN conjunct1] q by simp
  moreover obtain d where
    "create_from_process_group demo_shm demo_net 2 3 ?st 1 1 2 None h = Inr (d, h)"
    "mq_is_local_reader d" "0 \<le> mq_local_reader_rank d" "mq_local_reader_rank d < 1"
    using R[THEN conjunct2, THEN conjunct2, rule_format, of 2] q by auto
  ultimately show ?thesis using w q by force
qed

end
