(* ===== verification/Kv_Spec.thy ===== *)
theory Kv_Spec
  imports Py_Prelude
begin

text \<open>
  The KV-cache format of a layer: \<^verbatim>\<open>overlays/vllm/v1/kv_cache_interface.py\<close>. The dataclass
  hierarchy becomes records that extend one another in the way the classes do, wrapped in one
  datatype with a constructor per class; dynamic dispatch becomes case analysis on it. Theory
  \<open>Kv_Spec_Props\<close> holds the properties.

  Code of other modules is an argument: \<open>element_size\<close> is the byte width torch gives a dtype,
  \<open>cdiv\<close> and \<open>round_up\<close> come from \<^verbatim>\<open>vllm.utils.math_utils\<close>, \<open>uniform_base\<close> is
  \<^verbatim>\<open>KVCacheSpecRegistry.get_uniform_type_base_spec\<close>.
\<close>

section \<open>Quantization modes\<close>

datatype kv_quant_mode =
    NONE
  | FP8_PER_TENSOR
  | INT8_PER_TOKEN_HEAD
  | FP8_PER_TOKEN_HEAD
  | INT4_PER_TOKEN_HEAD
  | NVFP4
  | TURBOQUANT

definition is_per_token_head :: "kv_quant_mode \<Rightarrow> bool" where
  "is_per_token_head mode =
     (mode \<in> {INT8_PER_TOKEN_HEAD, FP8_PER_TOKEN_HEAD, INT4_PER_TOKEN_HEAD})"

definition is_nvfp4 :: "kv_quant_mode \<Rightarrow> bool" where
  "is_nvfp4 mode = (mode = NVFP4)"

definition is_turboquant :: "kv_quant_mode \<Rightarrow> bool" where
  "is_turboquant mode = (mode = TURBOQUANT)"

definition startswith :: "string \<Rightarrow> string \<Rightarrow> bool" where
  "startswith s p = (take (length p) s = p)"

definition get_kv_quant_mode :: "string \<Rightarrow> kv_quant_mode" where
  "get_kv_quant_mode kv_cache_dtype =
     (if kv_cache_dtype = ''int4_per_token_head'' then INT4_PER_TOKEN_HEAD
      else if kv_cache_dtype = ''int8_per_token_head'' then INT8_PER_TOKEN_HEAD
      else if kv_cache_dtype = ''fp8_per_token_head'' then FP8_PER_TOKEN_HEAD
      else if kv_cache_dtype = ''nvfp4'' then NVFP4
      else if startswith kv_cache_dtype ''turboquant_'' then TURBOQUANT
      else if kv_cache_dtype = ''nvfp4_ds_mla'' then FP8_PER_TENSOR
      else if startswith kv_cache_dtype ''fp8'' then FP8_PER_TENSOR
      else NONE)"

definition is_quantized_kv_cache :: "string \<Rightarrow> bool" where
  "is_quantized_kv_cache kv_cache_dtype = (get_kv_quant_mode kv_cache_dtype \<noteq> NONE)"

definition kv_cache_uses_per_token_head_scales :: "string \<Rightarrow> bool" where
  "kv_cache_uses_per_token_head_scales kv_cache_dtype =
     is_per_token_head (get_kv_quant_mode kv_cache_dtype)"

section \<open>What the module calls but does not contain\<close>

type_synonym dtype = string

record kv_ext =
  element_size :: "dtype \<Rightarrow> int"
  cdiv :: "int \<Rightarrow> int \<Rightarrow> int"
  round_up :: "int \<Rightarrow> int \<Rightarrow> int"

definition get_dtype_size :: "kv_ext \<Rightarrow> dtype \<Rightarrow> int" where
  "get_dtype_size E d = element_size E d"

abbreviation torch_float32 :: dtype where
  "torch_float32 \<equiv> ''float32''"

definition nvfp4_kv_cache_full_dim :: "int \<Rightarrow> int" where
  "nvfp4_kv_cache_full_dim hs = hs div 2 + hs div 16"

text \<open>The fields of \<^verbatim>\<open>VllmConfig\<close> that the module reads.\<close>

record vllm_config =
  max_model_len :: int
  decode_context_parallel_size :: int
  max_in_flight_tokens :: int
  mamba_cache_mode :: string
  max_num_encoder_input_tokens :: int

section \<open>The specs\<close>

record attention_spec =
  block_size :: int
  num_kv_heads :: int
  head_size :: int
  kv_dtype :: dtype
  quant_mode :: kv_quant_mode
  page_size_padded :: "int option"
  indexes_kv_by_block_stride :: bool

record full_attention_spec = attention_spec +
  head_size_v :: int
  sliding_window :: "int option"
  attention_chunk_size :: "int option"
  non_causal :: bool

record tq_spec = full_attention_spec +
  tq_slot_size :: int

record mla_spec = full_attention_spec +
  cache_dtype_str :: "string option"
  alignment :: "int option"
  compress_ratio :: int
  model_version :: "string option"
  non_causal_multi_token_decode :: bool

record rswa_spec = full_attention_spec +
  rswa_window :: int

record sink_spec = full_attention_spec +
  sink_len :: "int option"

record chunked_spec = attention_spec +
  chunk_size :: int

record sw_spec = attention_spec +
  window :: int
  sw_head_size_v :: "int option"

record sw_mla_spec = sw_spec +
  sw_cache_dtype_str :: "string option"
  sw_alignment :: "int option"
  sw_compress_ratio :: int
  sw_model_version :: "string option"

record mamba_spec =
  mamba_block_size :: int
  shapes :: "int list list"
  dtypes :: "dtype list"
  mamba_page_size_padded :: "int option"
  mamba_type :: string
  mamba_mode :: string
  num_speculative_blocks :: int

datatype spec =
    FullAttentionSpec full_attention_spec
  | TQFullAttentionSpec tq_spec
  | MLAAttentionSpec mla_spec
  | HiddenStateCacheSpec mla_spec
  | RSWASpec rswa_spec
  | SinkFullAttentionSpec sink_spec
  | ChunkedLocalAttentionSpec chunked_spec
  | SlidingWindowSpec sw_spec
  | SlidingWindowMLASpec sw_mla_spec
  | MambaSpec mamba_spec
  | EncoderOnlyAttentionSpec attention_spec
  | CrossAttentionSpec attention_spec
  | UniformTypeKVCacheSpecs int "(string \<times> spec) list"

section \<open>Page sizes\<close>

definition attn_real_page_size :: "kv_ext \<Rightarrow> 'a attention_spec_scheme \<Rightarrow> int" where
  "attn_real_page_size E s =
     (let head_dim = (if is_nvfp4 (quant_mode s) then nvfp4_kv_cache_full_dim (head_size s)
                      else if quant_mode s = INT4_PER_TOKEN_HEAD then head_size s div 2
                      else head_size s)
      in 2 * block_size s * num_kv_heads s * head_dim * get_dtype_size E (kv_dtype s))"

definition full_real_page_size :: "kv_ext \<Rightarrow> 'a full_attention_spec_scheme \<Rightarrow> int" where
  "full_real_page_size E s =
     (let last_dim =
        (if is_nvfp4 (quant_mode s)
         then nvfp4_kv_cache_full_dim (head_size s) + nvfp4_kv_cache_full_dim (head_size_v s)
         else if quant_mode s = INT4_PER_TOKEN_HEAD
         then head_size s div 2 + head_size_v s div 2
         else head_size s + head_size_v s)
      in block_size s * num_kv_heads s * last_dim * get_dtype_size E (kv_dtype s))"

definition tq_real_page_size :: "kv_ext \<Rightarrow> tq_spec \<Rightarrow> int" where
  "tq_real_page_size E s =
     (if tq_slot_size s > 0 then block_size s * num_kv_heads s * tq_slot_size s
      else full_real_page_size E s)"

definition mla_storage_block_size :: "mla_spec \<Rightarrow> int res" where
  "mla_storage_block_size s = floordiv (block_size s) (compress_ratio s)"

definition mla_real_page_size :: "kv_ext \<Rightarrow> mla_spec \<Rightarrow> int res" where
  "mla_real_page_size E s =
     (if cache_dtype_str s = Some ''nvfp4_ds_mla'' then Inr (block_size s * 368)
      else if cache_dtype_str s = Some ''fp8_ds_mla'' then
        (if model_version s = Some ''deepseek_v4''
         then res_bind (mla_storage_block_size s) (\<lambda>b. Inr (b * 584))
         else Inr (block_size s * 656))
      else
        (let head_dim = (if quant_mode s = INT4_PER_TOKEN_HEAD then head_size s div 2 else head_size s)
         in res_bind (mla_storage_block_size s) (\<lambda>b.
            Inr (b * num_kv_heads s * head_dim * get_dtype_size E (kv_dtype s)))))"

text \<open>
  \<^verbatim>\<open>SlidingWindowSpec.__post_init__\<close> fills \<^verbatim>\<open>head_size_v\<close>; an unset value there is a \<^verbatim>\<open>TypeError\<close>
  of the addition.
\<close>

definition sw_real_page_size :: "kv_ext \<Rightarrow> 'a sw_spec_scheme \<Rightarrow> int res" where
  "sw_real_page_size E s =
     (case sw_head_size_v s of
        None \<Rightarrow> Inl TypeError
      | Some hv \<Rightarrow>
          (if is_nvfp4 (quant_mode s)
           then Inr (block_size s * num_kv_heads s
                       * (nvfp4_kv_cache_full_dim (head_size s) + nvfp4_kv_cache_full_dim hv)
                       * get_dtype_size E (kv_dtype s))
           else Inr (block_size s * num_kv_heads s * (head_size s + hv)
                       * get_dtype_size E (kv_dtype s))))"

definition sw_mla_storage_block_size :: "sw_mla_spec \<Rightarrow> int res" where
  "sw_mla_storage_block_size s = floordiv (block_size s) (sw_compress_ratio s)"

definition sw_mla_real_page_size :: "kv_ext \<Rightarrow> sw_mla_spec \<Rightarrow> int res" where
  "sw_mla_real_page_size E s =
     (if sw_model_version s = Some ''deepseek_v4'' \<and> sw_cache_dtype_str s = Some ''fp8_ds_mla''
      then res_bind (sw_mla_storage_block_size s) (\<lambda>b. Inr (b * 584))
      else
        res_bind (require (sw_model_version s \<in> {None, Some ''deepseek_v4''}) AssertionError) (\<lambda>_.
        res_bind (sw_mla_storage_block_size s) (\<lambda>b.
        Inr (b * num_kv_heads s * head_size s * get_dtype_size E (kv_dtype s)))))"

text \<open>\<^verbatim>\<open>AttentionSpec.unpadded_page_size_bytes\<close> and \<^verbatim>\<open>page_size_bytes\<close>, over the real size of the class.\<close>

definition unpadded_page_size_bytes :: "kv_ext \<Rightarrow> 'a attention_spec_scheme \<Rightarrow> int \<Rightarrow> int" where
  "unpadded_page_size_bytes E s real =
     (if is_per_token_head (quant_mode s)
      then real + 2 * block_size s * num_kv_heads s * get_dtype_size E torch_float32
      else real)"

definition attn_page_size_bytes :: "kv_ext \<Rightarrow> 'a attention_spec_scheme \<Rightarrow> int \<Rightarrow> int res" where
  "attn_page_size_bytes E s real =
     (case page_size_padded s of
        Some p \<Rightarrow> res_bind (require (p \<ge> unpadded_page_size_bytes E s real) AssertionError) (\<lambda>_. Inr p)
      | None \<Rightarrow> Inr (unpadded_page_size_bytes E s real))"

definition mamba_page_size_bytes :: "kv_ext \<Rightarrow> mamba_spec \<Rightarrow> int res" where
  "mamba_page_size_bytes E s =
     (let page_size = sum_list (map (\<lambda>(shape, d). prod_list shape * get_dtype_size E d)
                                    (zip (shapes s) (dtypes s)))
      in case mamba_page_size_padded s of
           Some p \<Rightarrow> res_bind (require (p \<ge> page_size) AssertionError) (\<lambda>_. Inr p)
         | None \<Rightarrow> Inr page_size)"

definition sum_res :: "int list res \<Rightarrow> int res" where
  "sum_res m = res_bind m (\<lambda>xs. Inr (sum_list xs))"

fun page_size_bytes :: "kv_ext \<Rightarrow> spec \<Rightarrow> int res"
  and page_sizes :: "kv_ext \<Rightarrow> (string \<times> spec) list \<Rightarrow> int list res" where
  "page_size_bytes E (FullAttentionSpec s) = attn_page_size_bytes E s (full_real_page_size E s)"
| "page_size_bytes E (TQFullAttentionSpec s) = attn_page_size_bytes E s (tq_real_page_size E s)"
| "page_size_bytes E (MLAAttentionSpec s) = res_bind (mla_real_page_size E s) (attn_page_size_bytes E s)"
| "page_size_bytes E (HiddenStateCacheSpec s) = res_bind (mla_real_page_size E s) (attn_page_size_bytes E s)"
| "page_size_bytes E (RSWASpec s) = attn_page_size_bytes E s (full_real_page_size E s)"
| "page_size_bytes E (SinkFullAttentionSpec s) = attn_page_size_bytes E s (full_real_page_size E s)"
| "page_size_bytes E (ChunkedLocalAttentionSpec s) = attn_page_size_bytes E s (attn_real_page_size E s)"
| "page_size_bytes E (SlidingWindowSpec s) = res_bind (sw_real_page_size E s) (attn_page_size_bytes E s)"
| "page_size_bytes E (SlidingWindowMLASpec s) = res_bind (sw_mla_real_page_size E s) (attn_page_size_bytes E s)"
| "page_size_bytes E (MambaSpec s) = mamba_page_size_bytes E s"
| "page_size_bytes E (EncoderOnlyAttentionSpec s) = attn_page_size_bytes E s (attn_real_page_size E s)"
| "page_size_bytes E (CrossAttentionSpec s) = attn_page_size_bytes E s (attn_real_page_size E s)"
| "page_size_bytes E (UniformTypeKVCacheSpecs b sps) = sum_res (page_sizes E sps)"
| "page_sizes E [] = Inr []"
| "page_sizes E ((n, s) # sps) =
     res_bind (page_size_bytes E s) (\<lambda>p. res_bind (page_sizes E sps) (\<lambda>ps. Inr (p # ps)))"

section \<open>Construction: \<^verbatim>\<open>__post_init__\<close>\<close>

definition apply_alignment_padding :: "kv_ext \<Rightarrow> mla_spec \<Rightarrow> mla_spec res" where
  "apply_alignment_padding E s =
     (case alignment s of
        None \<Rightarrow> Inr s
      | Some al \<Rightarrow>
          res_bind (mla_real_page_size E s) (\<lambda>actual_page_size.
          let padded_page_size = round_up E actual_page_size al in
          if padded_page_size \<noteq> actual_page_size
          then Inr (s\<lparr>page_size_padded := Some padded_page_size\<rparr>) else Inr s))"

definition sw_apply_alignment_padding :: "kv_ext \<Rightarrow> sw_mla_spec \<Rightarrow> sw_mla_spec res" where
  "sw_apply_alignment_padding E s =
     (case sw_alignment s of
        None \<Rightarrow> Inr s
      | Some al \<Rightarrow>
          res_bind (sw_mla_real_page_size E s) (\<lambda>actual_page_size.
          let padded_page_size = round_up E actual_page_size al in
          if padded_page_size \<noteq> actual_page_size
          then Inr (s\<lparr>page_size_padded := Some padded_page_size\<rparr>) else Inr s))"

text \<open>
  \<^verbatim>\<open>FullAttentionSpec.__post_init__\<close> replaces an unset \<^verbatim>\<open>head_size_v\<close> by \<^verbatim>\<open>head_size\<close>; the records carry
  the value after that. \<^verbatim>\<open>MLAAttentionSpec.__post_init__\<close> then applies the alignment padding.
\<close>

definition mk_head_size_v :: "int \<Rightarrow> int option \<Rightarrow> int" where
  "mk_head_size_v hs hv = (case hv of None \<Rightarrow> hs | Some v \<Rightarrow> v)"

definition mk_mla :: "kv_ext \<Rightarrow> mla_spec \<Rightarrow> mla_spec res" where
  "mk_mla E s = apply_alignment_padding E s"

definition mk_sw :: "sw_spec \<Rightarrow> sw_spec" where
  "mk_sw s = s\<lparr>sw_head_size_v := Some (mk_head_size_v (head_size s) (sw_head_size_v s))\<rparr>"

definition mk_sw_mla :: "kv_ext \<Rightarrow> sw_mla_spec \<Rightarrow> sw_mla_spec res" where
  "mk_sw_mla E s = sw_apply_alignment_padding E s"

text \<open>
  \<^verbatim>\<open>copy_with_new_block_size\<close>: \<^verbatim>\<open>dataclasses.replace\<close> keeps every other field, the padded page size
  included, and runs \<^verbatim>\<open>__post_init__\<close> again.
\<close>

fun copy_with_new_block_size :: "kv_ext \<Rightarrow> int \<Rightarrow> spec \<Rightarrow> spec res" where
  "copy_with_new_block_size E b (FullAttentionSpec s) = Inr (FullAttentionSpec (s\<lparr>block_size := b\<rparr>))"
| "copy_with_new_block_size E b (TQFullAttentionSpec s) = Inr (TQFullAttentionSpec (s\<lparr>block_size := b\<rparr>))"
| "copy_with_new_block_size E b (MLAAttentionSpec s) =
     res_bind (mk_mla E (s\<lparr>block_size := b\<rparr>)) (\<lambda>t. Inr (MLAAttentionSpec t))"
| "copy_with_new_block_size E b (HiddenStateCacheSpec s) =
     res_bind (mk_mla E (s\<lparr>block_size := b\<rparr>)) (\<lambda>t. Inr (HiddenStateCacheSpec t))"
| "copy_with_new_block_size E b (RSWASpec s) = Inr (RSWASpec (s\<lparr>block_size := b\<rparr>))"
| "copy_with_new_block_size E b (SinkFullAttentionSpec s) = Inr (SinkFullAttentionSpec (s\<lparr>block_size := b\<rparr>))"
| "copy_with_new_block_size E b (ChunkedLocalAttentionSpec s) =
     Inr (ChunkedLocalAttentionSpec (s\<lparr>block_size := b\<rparr>))"
| "copy_with_new_block_size E b (SlidingWindowSpec s) = Inr (SlidingWindowSpec (mk_sw (s\<lparr>block_size := b\<rparr>)))"
| "copy_with_new_block_size E b (SlidingWindowMLASpec s) =
     res_bind (mk_sw_mla E (s\<lparr>block_size := b\<rparr>)) (\<lambda>t. Inr (SlidingWindowMLASpec t))"
| "copy_with_new_block_size E b (MambaSpec s) = Inr (MambaSpec (s\<lparr>mamba_block_size := b\<rparr>))"
| "copy_with_new_block_size E b (EncoderOnlyAttentionSpec s) =
     Inr (EncoderOnlyAttentionSpec (s\<lparr>block_size := b\<rparr>))"
| "copy_with_new_block_size E b (CrossAttentionSpec s) = Inr (CrossAttentionSpec (s\<lparr>block_size := b\<rparr>))"
| "copy_with_new_block_size E b (UniformTypeKVCacheSpecs b0 sps) = Inr (UniformTypeKVCacheSpecs b sps)"

section \<open>Memory budget and block tables\<close>

fun spec_block_size :: "spec \<Rightarrow> int" where
  "spec_block_size (FullAttentionSpec s) = block_size s"
| "spec_block_size (TQFullAttentionSpec s) = block_size s"
| "spec_block_size (MLAAttentionSpec s) = block_size s"
| "spec_block_size (HiddenStateCacheSpec s) = block_size s"
| "spec_block_size (RSWASpec s) = block_size s"
| "spec_block_size (SinkFullAttentionSpec s) = block_size s"
| "spec_block_size (ChunkedLocalAttentionSpec s) = block_size s"
| "spec_block_size (SlidingWindowSpec s) = block_size s"
| "spec_block_size (SlidingWindowMLASpec s) = block_size s"
| "spec_block_size (MambaSpec s) = mamba_block_size s"
| "spec_block_size (EncoderOnlyAttentionSpec s) = block_size s"
| "spec_block_size (CrossAttentionSpec s) = block_size s"
| "spec_block_size (UniformTypeKVCacheSpecs b sps) = b"

definition full_max_memory_usage_bytes :: "kv_ext \<Rightarrow> vllm_config \<Rightarrow> int \<Rightarrow> int \<Rightarrow> int" where
  "full_max_memory_usage_bytes E cfg bs page =
     (let mml = max_model_len cfg;
          dcp_world_size = decode_context_parallel_size cfg;
          mml' = (if dcp_world_size > 1 then cdiv E mml dcp_world_size else mml)
      in cdiv E mml' bs * page)"

definition chunked_max_admission_blocks :: "kv_ext \<Rightarrow> chunked_spec \<Rightarrow> int \<Rightarrow> int \<Rightarrow> int" where
  "chunked_max_admission_blocks E s in_flight mml =
     (let num_tokens = min (chunk_size s + in_flight) mml in cdiv E num_tokens (block_size s))"

definition sw_max_admission_blocks :: "kv_ext \<Rightarrow> 'a sw_spec_scheme \<Rightarrow> int \<Rightarrow> int \<Rightarrow> int" where
  "sw_max_admission_blocks E s in_flight mml =
     (let num_tokens = min (window s - 1 + in_flight) mml in cdiv E num_tokens (block_size s) + 1)"

definition sw_max_memory_usage_bytes ::
  "kv_ext \<Rightarrow> vllm_config \<Rightarrow> 'a sw_spec_scheme \<Rightarrow> int res \<Rightarrow> int res" where
  "sw_max_memory_usage_bytes E cfg s page =
     res_bind (require (decode_context_parallel_size cfg = 1) AssertionError) (\<lambda>_.
     res_bind page (\<lambda>p.
     Inr (sw_max_admission_blocks E s (max_in_flight_tokens cfg) (max_model_len cfg) * p)))"

definition mamba_max_memory_usage_bytes :: "kv_ext \<Rightarrow> vllm_config \<Rightarrow> mamba_spec \<Rightarrow> int res" where
  "mamba_max_memory_usage_bytes E cfg s =
     res_bind (mamba_page_size_bytes E s) (\<lambda>p.
     if mamba_cache_mode cfg = ''all''
     then Inr ((cdiv E (max_model_len cfg) (mamba_block_size s) + num_speculative_blocks s) * p)
     else if mamba_cache_mode cfg = ''align'' then Inr (p * (2 + num_speculative_blocks s))
     else Inr (p * (1 + num_speculative_blocks s)))"

text \<open>Python's \<^verbatim>\<open>max\<close> over a generator: a \<^verbatim>\<open>ValueError\<close> when it is empty.\<close>

definition max_res :: "int list res \<Rightarrow> int res" where
  "max_res m = res_bind m (\<lambda>xs. case xs of [] \<Rightarrow> Inl ValueError | y # ys \<Rightarrow> Inr (fold max ys y))"

fun max_memory_usage_bytes :: "kv_ext \<Rightarrow> vllm_config \<Rightarrow> spec \<Rightarrow> int res"
  and max_pages :: "kv_ext \<Rightarrow> vllm_config \<Rightarrow> (string \<times> spec) list \<Rightarrow> int list res" where
  "max_memory_usage_bytes E cfg (FullAttentionSpec s) =
     res_bind (page_size_bytes E (FullAttentionSpec s))
       (\<lambda>p. Inr (full_max_memory_usage_bytes E cfg (block_size s) p))"
| "max_memory_usage_bytes E cfg (TQFullAttentionSpec s) =
     res_bind (page_size_bytes E (TQFullAttentionSpec s))
       (\<lambda>p. Inr (full_max_memory_usage_bytes E cfg (block_size s) p))"
| "max_memory_usage_bytes E cfg (MLAAttentionSpec s) =
     res_bind (page_size_bytes E (MLAAttentionSpec s))
       (\<lambda>p. Inr (full_max_memory_usage_bytes E cfg (block_size s) p))"
| "max_memory_usage_bytes E cfg (HiddenStateCacheSpec s) =
     res_bind (page_size_bytes E (HiddenStateCacheSpec s))
       (\<lambda>p. Inr (full_max_memory_usage_bytes E cfg (block_size s) p))"
| "max_memory_usage_bytes E cfg (RSWASpec s) =
     res_bind (page_size_bytes E (RSWASpec s))
       (\<lambda>p. Inr (full_max_memory_usage_bytes E cfg (block_size s) p))"
| "max_memory_usage_bytes E cfg (SinkFullAttentionSpec s) =
     res_bind (page_size_bytes E (SinkFullAttentionSpec s))
       (\<lambda>p. Inr (full_max_memory_usage_bytes E cfg (block_size s) p))"
| "max_memory_usage_bytes E cfg (ChunkedLocalAttentionSpec s) =
     res_bind (page_size_bytes E (ChunkedLocalAttentionSpec s))
       (\<lambda>p. Inr (chunked_max_admission_blocks E s (max_in_flight_tokens cfg) (max_model_len cfg) * p))"
| "max_memory_usage_bytes E cfg (SlidingWindowSpec s) =
     sw_max_memory_usage_bytes E cfg s (page_size_bytes E (SlidingWindowSpec s))"
| "max_memory_usage_bytes E cfg (SlidingWindowMLASpec s) =
     sw_max_memory_usage_bytes E cfg s (page_size_bytes E (SlidingWindowMLASpec s))"
| "max_memory_usage_bytes E cfg (MambaSpec s) = mamba_max_memory_usage_bytes E cfg s"
| "max_memory_usage_bytes E cfg (EncoderOnlyAttentionSpec s) = Inr 0"
| "max_memory_usage_bytes E cfg (CrossAttentionSpec s) =
     res_bind (page_size_bytes E (CrossAttentionSpec s))
       (\<lambda>p. Inr (cdiv E (max_num_encoder_input_tokens cfg) (block_size s) * p))"
| "max_memory_usage_bytes E cfg (UniformTypeKVCacheSpecs b sps) =
     res_bind (max_res (max_pages E cfg sps)) (\<lambda>max_num_pages.
     res_bind (page_size_bytes E (UniformTypeKVCacheSpecs b sps)) (\<lambda>p. Inr (max_num_pages * p)))"
| "max_pages E cfg [] = Inr []"
| "max_pages E cfg ((n, s) # sps) =
     res_bind (max_memory_usage_bytes E cfg s) (\<lambda>u.
     res_bind (page_size_bytes E s) (\<lambda>p.
     res_bind (max_pages E cfg sps) (\<lambda>ps. Inr (cdiv E u p # ps))))"

definition max_memory_usage_pages :: "kv_ext \<Rightarrow> vllm_config \<Rightarrow> (string \<times> spec) list \<Rightarrow> int res" where
  "max_memory_usage_pages E cfg sps = max_res (max_pages E cfg sps)"

text \<open>The row length of the worker's block table.\<close>

definition max_num_blocks_per_req :: "kv_ext \<Rightarrow> vllm_config \<Rightarrow> int \<Rightarrow> spec \<Rightarrow> int res" where
  "max_num_blocks_per_req E cfg max_len sp =
     (case sp of
        MambaSpec s \<Rightarrow>
          (if mamba_cache_mode cfg = ''align''
           then Inr (cdiv E max_len (mamba_block_size s) + num_speculative_blocks s)
           else res_bind (max_memory_usage_bytes E cfg (MambaSpec s)) (\<lambda>u.
                res_bind (page_size_bytes E (MambaSpec s)) (\<lambda>p. Inr (cdiv E u p))))
      | UniformTypeKVCacheSpecs b sps \<Rightarrow> Inr (cdiv E max_len b)
      | _ \<Rightarrow> Inr (cdiv E max_len (spec_block_size sp * decode_context_parallel_size cfg)))"

section \<open>Merging the layers of a group\<close>

definition is_full :: "spec \<Rightarrow> bool" where
  "is_full sp = (case sp of FullAttentionSpec s \<Rightarrow> True | TQFullAttentionSpec s \<Rightarrow> True
     | MLAAttentionSpec s \<Rightarrow> True | HiddenStateCacheSpec s \<Rightarrow> True | RSWASpec s \<Rightarrow> True
     | SinkFullAttentionSpec s \<Rightarrow> True | _ \<Rightarrow> False)"

definition is_mla :: "spec \<Rightarrow> bool" where
  "is_mla sp = (case sp of MLAAttentionSpec s \<Rightarrow> True | HiddenStateCacheSpec s \<Rightarrow> True | _ \<Rightarrow> False)"

text \<open>The \<^verbatim>\<open>FullAttentionSpec\<close> and \<^verbatim>\<open>AttentionSpec\<close> parts of an instance of a subclass.\<close>

fun full_view :: "spec \<Rightarrow> full_attention_spec option" where
  "full_view (FullAttentionSpec s) = Some s"
| "full_view (TQFullAttentionSpec s) = Some (full_attention_spec.truncate s)"
| "full_view (MLAAttentionSpec s) = Some (full_attention_spec.truncate s)"
| "full_view (HiddenStateCacheSpec s) = Some (full_attention_spec.truncate s)"
| "full_view (RSWASpec s) = Some (full_attention_spec.truncate s)"
| "full_view (SinkFullAttentionSpec s) = Some (full_attention_spec.truncate s)"
| "full_view _ = None"

definition merge_window_sizes :: "int set \<Rightarrow> int option res" where
  "merge_window_sizes window_sizes =
     (if card window_sizes = 0 then Inr None
      else if card window_sizes = 1 then Inr (Some (Min window_sizes))
      else Inl ValueError)"

text \<open>\<^verbatim>\<open>getattr(spec, f.name) == getattr(merged, f.name)\<close> for every field of \<^verbatim>\<open>AttentionSpec\<close>.\<close>

definition same_attention_fields :: "'a attention_spec_scheme \<Rightarrow> 'b attention_spec_scheme \<Rightarrow> bool" where
  "same_attention_fields s t \<longleftrightarrow>
     block_size s = block_size t \<and> num_kv_heads s = num_kv_heads t \<and> head_size s = head_size t
     \<and> kv_dtype s = kv_dtype t \<and> quant_mode s = quant_mode t \<and> page_size_padded s = page_size_padded t
     \<and> indexes_kv_by_block_stride s = indexes_kv_by_block_stride t"

text \<open>
  The common body of \<^verbatim>\<open>FullAttentionSpec.merge\<close> and \<^verbatim>\<open>SinkFullAttentionSpec.merge\<close>: the merged
  \<^verbatim>\<open>FullAttentionSpec\<close> part, from the parts of the members.
\<close>

definition merge_full_views :: "full_attention_spec list \<Rightarrow> full_attention_spec res" where
  "merge_full_views specs =
     (let sws = set (List.map_filter sliding_window specs);
          chs = set (List.map_filter attention_chunk_size specs)
      in case specs of
           [] \<Rightarrow> Inl IndexError
         | s0 # rest \<Rightarrow>
             res_bind (merge_window_sizes sws) (\<lambda>sw.
             res_bind (merge_window_sizes chs) (\<lambda>ch.
             let merged = s0\<lparr>sliding_window := sw, attention_chunk_size := ch,
                             non_causal := (\<exists>s \<in> set specs. non_causal s)\<rparr> in
             res_bind (require (\<forall>s \<in> set specs. same_attention_fields s merged) AssertionError) (\<lambda>_.
             res_bind (require (\<not> (sw \<noteq> None \<and> ch \<noteq> None)) AssertionError) (\<lambda>_.
             Inr merged)))))"

definition full_merge :: "spec list \<Rightarrow> full_attention_spec res" where
  "full_merge specs =
     res_bind (require (\<forall>s \<in> set specs. is_full s) AssertionError) (\<lambda>_.
     res_bind (require (\<not> (\<exists>s \<in> set specs. is_mla s)) AssertionError) (\<lambda>_.
     merge_full_views (List.map_filter full_view specs)))"

text \<open>\<^verbatim>\<open>TQFullAttentionSpec.merge\<close> on TQ specs.\<close>

definition tq_merge :: "tq_spec list \<Rightarrow> tq_spec res" where
  "tq_merge specs =
     res_bind (full_merge (map TQFullAttentionSpec specs)) (\<lambda>merged.
     case specs of
       [] \<Rightarrow> Inl IndexError
     | s0 # rest \<Rightarrow>
         res_bind (require (\<forall>s \<in> set specs. tq_slot_size s = tq_slot_size s0) AssertionError) (\<lambda>_.
         Inr (full_attention_spec.extend merged \<lparr>tq_slot_size = tq_slot_size s0\<rparr>)))"

definition rswa_merge :: "rswa_spec list \<Rightarrow> rswa_spec res" where
  "rswa_merge specs =
     res_bind (require (card (rswa_window ` set specs) = 1) AssertionError) (\<lambda>_.
     res_bind (full_merge (map RSWASpec specs)) (\<lambda>base.
     Inr (full_attention_spec.extend base \<lparr>rswa_window = Min (rswa_window ` set specs)\<rparr>)))"

text \<open>
  \<^verbatim>\<open>SinkFullAttentionSpec.merge\<close> accepts any full-attention layers and reads \<^verbatim>\<open>sink_len\<close> of the first:
  on sink specs.
\<close>

definition sink_merge :: "sink_spec list \<Rightarrow> sink_spec res" where
  "sink_merge specs =
     res_bind (full_merge (map SinkFullAttentionSpec specs)) (\<lambda>merged.
     case specs of
       [] \<Rightarrow> Inl IndexError
     | s0 # rest \<Rightarrow> Inr (full_attention_spec.extend merged \<lparr>sink_len = sink_len s0\<rparr>))"

text \<open>
  \<^verbatim>\<open>MLAAttentionSpec.merge\<close>: the constructor call leaves \<^verbatim>\<open>head_size_v\<close>, the windows, \<^verbatim>\<open>non_causal\<close> and
  \<^verbatim>\<open>alignment\<close> at their defaults.
\<close>

definition mla_merge :: "kv_ext \<Rightarrow> mla_spec list \<Rightarrow> mla_spec res" where
  "mla_merge E specs =
     res_bind (require (card (cache_dtype_str ` set specs) = 1 \<and> card (compress_ratio ` set specs) = 1
        \<and> card (model_version ` set specs) = 1 \<and> card (indexes_kv_by_block_stride ` set specs) = 1)
        AssertionError) (\<lambda>_.
     case specs of
       [] \<Rightarrow> Inl IndexError
     | s0 # rest \<Rightarrow>
         res_bind (mk_mla E \<lparr> block_size = block_size s0, num_kv_heads = num_kv_heads s0,
                      head_size = head_size s0, kv_dtype = kv_dtype s0, quant_mode = quant_mode s0,
                      page_size_padded = page_size_padded s0,
                      indexes_kv_by_block_stride = indexes_kv_by_block_stride s0,
                      head_size_v = mk_head_size_v (head_size s0) None,
                      sliding_window = None, attention_chunk_size = None, non_causal = False,
                      cache_dtype_str = cache_dtype_str s0, alignment = None,
                      compress_ratio = compress_ratio s0, model_version = model_version s0,
                      non_causal_multi_token_decode =
                        (\<exists>s \<in> set specs. non_causal_multi_token_decode s) \<rparr>) (\<lambda>merged.
         res_bind (require (\<forall>s \<in> set specs. same_attention_fields s merged) AssertionError) (\<lambda>_.
         Inr merged)))"

text \<open>
  \<^verbatim>\<open>SlidingWindowMLASpec.merge\<close>: the constructor call leaves \<^verbatim>\<open>kv_quant_mode\<close>, \<^verbatim>\<open>head_size_v\<close> and
  \<^verbatim>\<open>alignment\<close> at their defaults, and no field of \<^verbatim>\<open>AttentionSpec\<close> is compared afterwards.
\<close>

definition sw_mla_merge :: "kv_ext \<Rightarrow> sw_mla_spec list \<Rightarrow> sw_mla_spec res" where
  "sw_mla_merge E specs =
     res_bind (require (card (sw_cache_dtype_str ` set specs) = 1 \<and> card (sw_compress_ratio ` set specs) = 1
        \<and> card (sw_model_version ` set specs) = 1 \<and> card (window ` set specs) = 1
        \<and> card (indexes_kv_by_block_stride ` set specs) = 1) AssertionError) (\<lambda>_.
     case specs of
       [] \<Rightarrow> Inl IndexError
     | s0 # rest \<Rightarrow>
         mk_sw_mla E \<lparr> block_size = block_size s0, num_kv_heads = num_kv_heads s0,
                   head_size = head_size s0, kv_dtype = kv_dtype s0, quant_mode = NONE,
                   page_size_padded = page_size_padded s0,
                   indexes_kv_by_block_stride = indexes_kv_by_block_stride s0,
                   window = window s0, sw_head_size_v = None,
                   sw_cache_dtype_str = sw_cache_dtype_str s0, sw_alignment = None,
                   sw_compress_ratio = sw_compress_ratio s0,
                   sw_model_version = sw_model_version s0 \<rparr>)"

text \<open>\<^verbatim>\<open>KVCacheSpec.merge\<close>, inherited by the classes without a \<^verbatim>\<open>merge\<close> of their own.\<close>

definition base_merge :: "spec list \<Rightarrow> spec res" where
  "base_merge specs =
     (case specs of
        [] \<Rightarrow> Inl IndexError
      | s0 # rest \<Rightarrow> res_bind (require (\<forall>s \<in> set rest. s = s0) AssertionError) (\<lambda>_. Inr s0))"

section \<open>Groups of layers of one type\<close>

datatype spec_class =
    C_KVCacheSpec | C_AttentionSpec | C_FullAttentionSpec | C_TQFullAttentionSpec | C_MLAAttentionSpec
  | C_HiddenStateCacheSpec | C_RSWASpec | C_SinkFullAttentionSpec | C_ChunkedLocalAttentionSpec
  | C_SlidingWindowSpec | C_SlidingWindowMLASpec | C_MambaSpec | C_EncoderOnlyAttentionSpec
  | C_CrossAttentionSpec | C_UniformTypeKVCacheSpecs

fun spec_type :: "spec \<Rightarrow> spec_class" where
  "spec_type (FullAttentionSpec s) = C_FullAttentionSpec"
| "spec_type (TQFullAttentionSpec s) = C_TQFullAttentionSpec"
| "spec_type (MLAAttentionSpec s) = C_MLAAttentionSpec"
| "spec_type (HiddenStateCacheSpec s) = C_HiddenStateCacheSpec"
| "spec_type (RSWASpec s) = C_RSWASpec"
| "spec_type (SinkFullAttentionSpec s) = C_SinkFullAttentionSpec"
| "spec_type (ChunkedLocalAttentionSpec s) = C_ChunkedLocalAttentionSpec"
| "spec_type (SlidingWindowSpec s) = C_SlidingWindowSpec"
| "spec_type (SlidingWindowMLASpec s) = C_SlidingWindowMLASpec"
| "spec_type (MambaSpec s) = C_MambaSpec"
| "spec_type (EncoderOnlyAttentionSpec s) = C_EncoderOnlyAttentionSpec"
| "spec_type (CrossAttentionSpec s) = C_CrossAttentionSpec"
| "spec_type (UniformTypeKVCacheSpecs b sps) = C_UniformTypeKVCacheSpecs"

text \<open>The base class of each class, and \<^verbatim>\<open>isinstance\<close>.\<close>

fun superclass :: "spec_class \<Rightarrow> spec_class option" where
  "superclass C_KVCacheSpec = None"
| "superclass C_AttentionSpec = Some C_KVCacheSpec"
| "superclass C_FullAttentionSpec = Some C_AttentionSpec"
| "superclass C_TQFullAttentionSpec = Some C_FullAttentionSpec"
| "superclass C_MLAAttentionSpec = Some C_FullAttentionSpec"
| "superclass C_HiddenStateCacheSpec = Some C_MLAAttentionSpec"
| "superclass C_RSWASpec = Some C_FullAttentionSpec"
| "superclass C_SinkFullAttentionSpec = Some C_FullAttentionSpec"
| "superclass C_ChunkedLocalAttentionSpec = Some C_AttentionSpec"
| "superclass C_SlidingWindowSpec = Some C_AttentionSpec"
| "superclass C_SlidingWindowMLASpec = Some C_SlidingWindowSpec"
| "superclass C_MambaSpec = Some C_KVCacheSpec"
| "superclass C_EncoderOnlyAttentionSpec = Some C_AttentionSpec"
| "superclass C_CrossAttentionSpec = Some C_AttentionSpec"
| "superclass C_UniformTypeKVCacheSpecs = Some C_KVCacheSpec"

text \<open>The hierarchy is at most four links deep, so five steps reach every ancestor.\<close>

fun subclass_within :: "nat \<Rightarrow> spec_class \<Rightarrow> spec_class \<Rightarrow> bool" where
  "subclass_within 0 c d = (c = d)"
| "subclass_within (Suc n) c d =
     (c = d \<or> (case superclass c of None \<Rightarrow> False | Some b \<Rightarrow> subclass_within n b d))"

definition isinstance :: "spec \<Rightarrow> spec_class \<Rightarrow> bool" where
  "isinstance sp c = subclass_within 5 (spec_type sp) c"

fun sw_window_of :: "spec \<Rightarrow> int option" where
  "sw_window_of (SlidingWindowSpec s) = Some (window s)"
| "sw_window_of (SlidingWindowMLASpec s) = Some (window s)"
| "sw_window_of _ = None"

text \<open>
  \<^verbatim>\<open>is_uniform_with_collection\<close>: four classes override it; the others ask the registry for the base
  class that decides.
\<close>

definition is_uniform_with_collection ::
  "(spec \<Rightarrow> spec_class option) \<Rightarrow> spec \<Rightarrow> (string \<times> spec) list \<Rightarrow> bool res" where
  "is_uniform_with_collection uniform_base sp sps =
     (case sp of
        ChunkedLocalAttentionSpec s \<Rightarrow>
          Inr (\<forall>t \<in> set (map snd sps). case t of ChunkedLocalAttentionSpec u \<Rightarrow> chunk_size u = chunk_size s
                                                | _ \<Rightarrow> False)
      | SlidingWindowSpec s \<Rightarrow>
          Inr (\<forall>t \<in> set (map snd sps). isinstance t C_SlidingWindowSpec \<and> sw_window_of t = Some (window s))
      | SlidingWindowMLASpec s \<Rightarrow>
          Inr (\<forall>t \<in> set (map snd sps). isinstance t C_SlidingWindowMLASpec \<and> sw_window_of t = Some (window s))
      | MambaSpec s \<Rightarrow>
          Inr (\<forall>t \<in> set (map snd sps). case t of
                 MambaSpec u \<Rightarrow> num_speculative_blocks u = num_speculative_blocks s | _ \<Rightarrow> False)
      | _ \<Rightarrow>
          (case uniform_base sp of
             None \<Rightarrow> Inl AssertionError
           | Some c \<Rightarrow> Inr (\<forall>t \<in> set (map snd sps). isinstance t c)))"

definition is_uniform_type :: "(spec \<Rightarrow> spec_class option) \<Rightarrow> (string \<times> spec) list \<Rightarrow> bool res" where
  "is_uniform_type uniform_base sps =
     (let block_sizes = set (map (spec_block_size \<circ> snd) sps) in
      if card block_sizes > 1 then Inr False
      else case sps of
             [] \<Rightarrow> Inl StopIteration
           | (n, first_spec) # rest \<Rightarrow> is_uniform_with_collection uniform_base first_spec sps)"

definition from_specs :: "(spec \<Rightarrow> spec_class option) \<Rightarrow> (string \<times> spec) list \<Rightarrow> spec option res" where
  "from_specs uniform_base sps =
     res_bind (is_uniform_type uniform_base sps) (\<lambda>uniform.
     if uniform
     then (case sps of
             [] \<Rightarrow> Inl StopIteration
           | (n, s) # rest \<Rightarrow> Inr (Some (UniformTypeKVCacheSpecs (spec_block_size s) sps)))
     else Inr None)"

text \<open>\<^verbatim>\<open>get_page_sizes\<close> returns the elements of a set in no fixed order: the model returns the set.\<close>

definition get_page_sizes :: "kv_ext \<Rightarrow> (string \<times> spec) list \<Rightarrow> int set res" where
  "get_page_sizes E sps = res_bind (page_sizes E sps) (\<lambda>ps. Inr (set ps))"

definition get_num_layer_tuples :: "kv_ext \<Rightarrow> (string \<times> spec) list \<Rightarrow> nat res" where
  "get_num_layer_tuples E sps =
     res_bind (page_sizes E sps) (\<lambda>ps.
     if ps = [] then Inl IndexError else Inr (Max ((\<lambda>p. count_list ps p) ` set ps)))"

section \<open>Kinds, windows and the configuration of a model\<close>

datatype spec_kind =
    FULL_ATTENTION | MLA_ATTENTION | SLIDING_WINDOW | SLIDING_WINDOW_MLA | MAMBA
  | CHUNKED_LOCAL_ATTENTION | SINK_FULL_ATTENTION | ENCODER_ONLY_ATTENTION | CROSS_ATTENTION | UNKNOWN

fun get_kv_cache_spec_kind :: "spec \<Rightarrow> spec_kind"
  and spec_kinds :: "(string \<times> spec) list \<Rightarrow> spec_kind list" where
  "get_kv_cache_spec_kind (UniformTypeKVCacheSpecs b sps) =
     (let inner_kinds = spec_kinds sps in
      case remdups inner_kinds of [k] \<Rightarrow> k | _ \<Rightarrow> UNKNOWN)"
| "get_kv_cache_spec_kind (SlidingWindowMLASpec s) = SLIDING_WINDOW_MLA"
| "get_kv_cache_spec_kind (MLAAttentionSpec s) = MLA_ATTENTION"
| "get_kv_cache_spec_kind (HiddenStateCacheSpec s) = MLA_ATTENTION"
| "get_kv_cache_spec_kind (SinkFullAttentionSpec s) = SINK_FULL_ATTENTION"
| "get_kv_cache_spec_kind (FullAttentionSpec s) = FULL_ATTENTION"
| "get_kv_cache_spec_kind (TQFullAttentionSpec s) = FULL_ATTENTION"
| "get_kv_cache_spec_kind (RSWASpec s) = FULL_ATTENTION"
| "get_kv_cache_spec_kind (ChunkedLocalAttentionSpec s) = CHUNKED_LOCAL_ATTENTION"
| "get_kv_cache_spec_kind (SlidingWindowSpec s) = SLIDING_WINDOW"
| "get_kv_cache_spec_kind (MambaSpec s) = MAMBA"
| "get_kv_cache_spec_kind (EncoderOnlyAttentionSpec s) = ENCODER_ONLY_ATTENTION"
| "get_kv_cache_spec_kind (CrossAttentionSpec s) = CROSS_ATTENTION"
| "spec_kinds [] = []"
| "spec_kinds ((n, s) # sps) = get_kv_cache_spec_kind s # spec_kinds sps"

text \<open>The windows of the members, in order; the group has one if they all agree.\<close>

fun get_kv_cache_spec_sliding_window :: "spec \<Rightarrow> int option"
  and spec_windows :: "(string \<times> spec) list \<Rightarrow> int option list" where
  "get_kv_cache_spec_sliding_window (UniformTypeKVCacheSpecs b sps) =
     (case remdups (spec_windows sps) of [w] \<Rightarrow> w | _ \<Rightarrow> None)"
| "get_kv_cache_spec_sliding_window (SlidingWindowSpec s) = Some (window s)"
| "get_kv_cache_spec_sliding_window (SlidingWindowMLASpec s) = Some (window s)"
| "get_kv_cache_spec_sliding_window _ = None"
| "spec_windows [] = []"
| "spec_windows ((n, s) # sps) = get_kv_cache_spec_sliding_window s # spec_windows sps"

record kv_cache_group_spec =
  layer_names :: "string list"
  kv_cache_spec :: spec
  is_eagle_group :: bool

record kv_cache_tensor =
  tensor_size :: int
  shared_by :: "string list"
  tensor_offset :: int
  block_stride :: int

record kv_cache_config =
  num_blocks :: int
  kv_cache_tensors :: "kv_cache_tensor list"
  kv_cache_groups :: "kv_cache_group_spec list"

definition has_mamba_layers :: "kv_cache_config \<Rightarrow> bool" where
  "has_mamba_layers cfg = (\<exists>g \<in> set (kv_cache_groups cfg). isinstance (kv_cache_spec g) C_MambaSpec)"

text \<open>The precision of an attention spec: its dtype and quantization mode.\<close>

fun precision :: "spec \<Rightarrow> (dtype \<times> kv_quant_mode) option" where
  "precision (FullAttentionSpec s) = Some (kv_dtype s, quant_mode s)"
| "precision (TQFullAttentionSpec s) = Some (kv_dtype s, quant_mode s)"
| "precision (MLAAttentionSpec s) = Some (kv_dtype s, quant_mode s)"
| "precision (HiddenStateCacheSpec s) = Some (kv_dtype s, quant_mode s)"
| "precision (RSWASpec s) = Some (kv_dtype s, quant_mode s)"
| "precision (SinkFullAttentionSpec s) = Some (kv_dtype s, quant_mode s)"
| "precision (ChunkedLocalAttentionSpec s) = Some (kv_dtype s, quant_mode s)"
| "precision (SlidingWindowSpec s) = Some (kv_dtype s, quant_mode s)"
| "precision (SlidingWindowMLASpec s) = Some (kv_dtype s, quant_mode s)"
| "precision (EncoderOnlyAttentionSpec s) = Some (kv_dtype s, quant_mode s)"
| "precision (CrossAttentionSpec s) = Some (kv_dtype s, quant_mode s)"
| "precision (MambaSpec s) = None"
| "precision (UniformTypeKVCacheSpecs b sps) = None"

definition group_specs :: "kv_cache_group_spec \<Rightarrow> spec list" where
  "group_specs g = (case kv_cache_spec g of UniformTypeKVCacheSpecs b sps \<Rightarrow> map snd sps | sp \<Rightarrow> [sp])"

definition kv_cache_precisions :: "kv_cache_config \<Rightarrow> (dtype \<times> kv_quant_mode) set" where
  "kv_cache_precisions cfg =
     set (List.map_filter precision (concat (map group_specs (kv_cache_groups cfg))))"

definition has_mixed_precision_kv_cache :: "kv_cache_config \<Rightarrow> bool" where
  "has_mixed_precision_kv_cache cfg = (card (kv_cache_precisions cfg) > 1)"

definition needs_kv_cache_zeroing :: "kv_cache_config \<Rightarrow> bool" where
  "needs_kv_cache_zeroing cfg = (has_mamba_layers cfg \<or> has_mixed_precision_kv_cache cfg)"

end
