(* ===== verification/Kv_Spec_Props.thy ===== *)
theory Kv_Spec_Props
  imports Kv_Spec
begin

text \<open>
  Properties of the KV-cache specs: page sizes and their alignment, what merging the layers of a
  group keeps, agreement between the memory budget and the block tables, admission caps, and the
  decision to zero new blocks.
\<close>

definition kv_ext_ok :: "kv_ext \<Rightarrow> bool" where
  "kv_ext_ok E \<longleftrightarrow> is_cdiv (cdiv E) \<and> is_round_up (round_up E) \<and> (\<forall>d. 0 < element_size E d)"

text \<open>A concrete instance of the imported functions, for closed examples.\<close>

definition demo_ext :: kv_ext where
  "demo_ext = \<lparr> element_size = (\<lambda>d. if d = ''float32'' then 4 else if d = ''bfloat16'' then 2 else 1),
                cdiv = cdiv_ref, round_up = round_up_ref \<rparr>"

lemma demo_ext_ok: "kv_ext_ok demo_ext"
  by (simp add: kv_ext_ok_def demo_ext_def is_cdiv_ref is_round_up_ref)

lemmas page_defs = attn_page_size_bytes_def unpadded_page_size_bytes_def is_per_token_head_def
  get_dtype_size_def

section \<open>What every merge has to keep\<close>

text \<open>
  All layers of a group are stored in the same blocks, so the merged spec must have the page size of
  each member. A merge with that law sizes a whole group correctly.
\<close>

locale layer_merge =
  fixes merge :: "'s list \<Rightarrow> 's res"
    and page :: "'s \<Rightarrow> int res"
  assumes merge_page: "merge ss = Inr m \<Longrightarrow> s \<in> set ss \<Longrightarrow> page s = page m"
begin

lemma members_agree: "merge ss = Inr m \<Longrightarrow> s \<in> set ss \<Longrightarrow> t \<in> set ss \<Longrightarrow> page s = page t"
  by (simp add: merge_page)

text \<open>The bytes of one block over all layers of the group: layers times the merged page size.\<close>

lemma group_block_bytes:
  assumes "merge ss = Inr m" "page m = Inr p"
  shows "sum_res (map_res page ss) = Inr (int (length ss) * p)"
proof -
  have "map_res page ss = Inr (map (\<lambda>_. p) ss)"
    using assms merge_page by (intro map_res_all_Inr) auto
  then show ?thesis by (simp add: sum_res_def sum_list_triv mult.commute)
qed

end

lemma card_image_1: "card (f ` set xs) = 1 \<Longrightarrow> x \<in> set xs \<Longrightarrow> y \<in> set xs \<Longrightarrow> f x = f y"
  by (metis card_1_singletonE image_eqI singletonD)

lemma same_fields_page:
  "same_attention_fields s t \<Longrightarrow> attn_page_size_bytes E s r = attn_page_size_bytes E t r"
  by (cases "page_size_padded t") (simp_all add: same_attention_fields_def page_defs)

lemma mla_real_cong:
  assumes "same_attention_fields s t" "cache_dtype_str s = cache_dtype_str t"
    "compress_ratio s = compress_ratio t" "model_version s = model_version t"
  shows "mla_real_page_size E s = mla_real_page_size E t"
  using assms
  by (simp add: mla_real_page_size_def mla_storage_block_size_def same_attention_fields_def)

lemma mla_real_padded [simp]:
  "mla_real_page_size E (s\<lparr>page_size_padded := p\<rparr>) = mla_real_page_size E s"
  by (simp add: mla_real_page_size_def mla_storage_block_size_def)

lemma mla_merge_result:
  assumes "mla_merge E ss = Inr m" "s \<in> set ss"
  shows "same_attention_fields s m" "cache_dtype_str s = cache_dtype_str m"
    "compress_ratio s = compress_ratio m" "model_version s = model_version m"
proof -
  obtain s0 rest where ss: "ss = s0 # rest"
    using assms by (cases ss) auto
  have c: "card (cache_dtype_str ` set ss) = 1" "card (compress_ratio ` set ss) = 1"
      "card (model_version ` set ss) = 1"
    and f: "\<forall>s \<in> set ss. same_attention_fields s m"
    and m: "cache_dtype_str m = cache_dtype_str s0" "compress_ratio m = compress_ratio s0"
      "model_version m = model_version s0"
    using assms(1) unfolding ss
    by (auto simp: mla_merge_def res_simps mk_mla_def apply_alignment_padding_def Let_def)
  have s0: "s0 \<in> set ss" using ss by simp
  show "same_attention_fields s m" using f assms(2) by blast
  show "cache_dtype_str s = cache_dtype_str m" "compress_ratio s = compress_ratio m"
    "model_version s = model_version m"
    using card_image_1[OF c(1) assms(2) s0] card_image_1[OF c(2) assms(2) s0]
      card_image_1[OF c(3) assms(2) s0] m by simp_all
qed

interpretation mla: layer_merge "mla_merge E" "\<lambda>s. page_size_bytes E (MLAAttentionSpec s)"
  for E
proof
  fix ss m s assume *: "mla_merge E ss = Inr m" "s \<in> set ss"
  have "mla_real_page_size E s = mla_real_page_size E m"
    by (rule mla_real_cong[OF mla_merge_result[OF *]])
  moreover have "attn_page_size_bytes E s = attn_page_size_bytes E m"
    using same_fields_page[OF mla_merge_result(1)[OF *]] by blast
  ultimately show "page_size_bytes E (MLAAttentionSpec s) = page_size_bytes E (MLAAttentionSpec m)"
    by simp
qed

interpretation base: layer_merge base_merge "page_size_bytes E"
  for E
  by unfold_locales (auto simp: base_merge_def res_simps split: list.splits)

text \<open>
  C7. Merging the MLA layers of a group keeps the page size of every layer, so the bytes that one
  block of the group occupies are the number of layers times the page size of the merged spec. This
  is the case the production model runs in.
\<close>

theorem mla_group_block_bytes:
  assumes "mla_merge E ss = Inr m" "page_size_bytes E (MLAAttentionSpec m) = Inr p"
  shows "(\<forall>s \<in> set ss. page_size_bytes E (MLAAttentionSpec s) = Inr p)
    \<and> sum_res (map_res (\<lambda>s. page_size_bytes E (MLAAttentionSpec s)) ss) = Inr (int (length ss) * p)"
  using mla.merge_page[OF assms(1)] mla.group_block_bytes[OF assms] assms(2) by simp

definition demo_mla :: "int \<Rightarrow> mla_spec" where
  "demo_mla b = \<lparr> block_size = b, num_kv_heads = 1, head_size = 576, kv_dtype = ''uint8'',
     quant_mode = FP8_PER_TENSOR, page_size_padded = None, indexes_kv_by_block_stride = False,
     head_size_v = 576, sliding_window = None, attention_chunk_size = None, non_causal = False,
     cache_dtype_str = Some ''nvfp4_ds_mla'', alignment = None, compress_ratio = 1,
     model_version = None, non_causal_multi_token_decode = False \<rparr>"

theorem mla_group_block_bytes_witness:
  "sum_res (map_res (\<lambda>s. page_size_bytes demo_ext (MLAAttentionSpec s)) [demo_mla 64, demo_mla 64])
     = Inr (2 * 23552)"
proof -
  have "mla_merge demo_ext [demo_mla 64, demo_mla 64] = Inr (demo_mla 64)"
    by (simp add: mla_merge_def demo_mla_def mk_mla_def apply_alignment_padding_def
        same_attention_fields_def mk_head_size_v_def)
  moreover have "page_size_bytes demo_ext (MLAAttentionSpec (demo_mla 64)) = Inr 23552"
    by (simp add: demo_mla_def mla_real_page_size_def page_defs)
  ultimately show ?thesis using mla_group_block_bytes[of demo_ext "[demo_mla 64, demo_mla 64]"] by simp
qed

section \<open>Alignment\<close>

text \<open>
  Alignment padding. An MLA spec constructed with an alignment and no explicit padding, in a mode
  without per-token-head scales, has a page size that is a multiple of the alignment, at least the
  bytes the records need and less than one alignment unit above them; in particular reading the page
  size does not trip the assertion.
\<close>

lemma mla_alignment_padding:
  assumes "kv_ext_ok E" "mk_mla E s = Inr t" "alignment s = Some al" "0 < al"
    and "page_size_padded s = None" "\<not> is_per_token_head (quant_mode s)"
  shows "\<exists>real p. mla_real_page_size E s = Inr real \<and> page_size_bytes E (MLAAttentionSpec t) = Inr p
           \<and> al dvd p \<and> real \<le> p \<and> p < real + al"
proof -
  obtain real where real: "mla_real_page_size E s = Inr real"
    and t: "t = (if round_up E real al \<noteq> real then s\<lparr>page_size_padded := Some (round_up E real al)\<rparr> else s)"
    using assms(2,3) by (auto simp: mk_mla_def apply_alignment_padding_def res_simps Let_def split: if_splits)
  have ru: "al dvd round_up E real al" "real \<le> round_up E real al" "round_up E real al < real + al"
    using is_round_upD[of "round_up E" al real] assms(1,4) by (simp_all add: kv_ext_ok_def)
  have "mla_real_page_size E t = Inr real"
    using real t by simp
  then have "page_size_bytes E (MLAAttentionSpec t) = Inr (round_up E real al)"
    using t ru(2) assms(5,6) by (auto simp: attn_page_size_bytes_def unpadded_page_size_bytes_def)
  with real ru show ?thesis by blast
qed

definition demo_aligned :: "int \<Rightarrow> int \<Rightarrow> mla_spec" where
  "demo_aligned b al = (demo_mla b)\<lparr>cache_dtype_str := Some ''fp8_ds_mla'', alignment := Some al\<rparr>"

lemma mla_alignment_padding_witness:
  "\<exists>real p. mla_real_page_size demo_ext (demo_aligned 1 512) = Inr real
     \<and> page_size_bytes demo_ext
         (MLAAttentionSpec ((demo_aligned 1 512)\<lparr>page_size_padded := Some 1024\<rparr>)) = Inr p
     \<and> 512 dvd p \<and> real \<le> p \<and> p < real + 512"
  by (rule mla_alignment_padding[OF demo_ext_ok])
     (simp_all add: mk_mla_def apply_alignment_padding_def demo_aligned_def demo_mla_def
       mla_real_page_size_def demo_ext_def round_up_ref_def cdiv_ref_def is_per_token_head_def)

text \<open>
  The padding ignores the per-token-head scales. With such a mode the constructor accepts a spec
  whose page size then fails the assertion of \<^verbatim>\<open>page_size_bytes\<close>: the padded size is computed from
  the bytes without the scales and compared with the bytes with them.
\<close>

theorem alignment_padding_ignores_scales:
  "\<exists>s t. mk_mla demo_ext s = Inr t \<and> alignment s = Some 512 \<and> is_per_token_head (quant_mode s)
     \<and> page_size_padded s = None \<and> page_size_bytes demo_ext (MLAAttentionSpec t) = Inl AssertionError"
proof -
  let ?s = "(demo_mla 1)\<lparr>cache_dtype_str := None, quant_mode := INT8_PER_TOKEN_HEAD,
               head_size := 509, alignment := Some 512\<rparr>"
  let ?t = "?s\<lparr>page_size_padded := Some 512\<rparr>"
  have "mk_mla demo_ext ?s = Inr ?t"
    by (simp add: mk_mla_def apply_alignment_padding_def demo_mla_def mla_real_page_size_def
        mla_storage_block_size_def floordiv_def get_dtype_size_def demo_ext_def round_up_ref_def cdiv_ref_def)
  moreover have "page_size_bytes demo_ext (MLAAttentionSpec ?t) = Inl AssertionError"
    by (simp add: demo_mla_def mla_real_page_size_def mla_storage_block_size_def floordiv_def page_defs
        demo_ext_def)
  moreover have "alignment ?s = Some 512" "is_per_token_head (quant_mode ?s)" "page_size_padded ?s = None"
    by (simp_all add: demo_mla_def is_per_token_head_def)
  ultimately show ?thesis by blast
qed

text \<open>
  Changing the block size keeps a stale padding. A spec padded at construction, copied to a block
  size whose page happens to be aligned, keeps the padded size of the old block size, and reading its
  page size fails the assertion.
\<close>

theorem copy_with_new_block_size_stale_padding:
  "\<exists>s t u. mk_mla demo_ext s = Inr t \<and> page_size_bytes demo_ext (MLAAttentionSpec t) = Inr 1024
     \<and> copy_with_new_block_size demo_ext 32 (MLAAttentionSpec t) = Inr u
     \<and> page_size_bytes demo_ext u = Inl AssertionError"
proof -
  let ?s = "demo_aligned 1 512"
  let ?t = "?s\<lparr>page_size_padded := Some 1024\<rparr>"
  let ?u = "MLAAttentionSpec (?t\<lparr>block_size := 32\<rparr>)"
  note defs = mk_mla_def apply_alignment_padding_def demo_aligned_def demo_mla_def
    mla_real_page_size_def demo_ext_def round_up_ref_def cdiv_ref_def page_defs
  have "mk_mla demo_ext ?s = Inr ?t" by (simp add: defs)
  moreover have "page_size_bytes demo_ext (MLAAttentionSpec ?t) = Inr 1024" by (simp add: defs)
  moreover have "copy_with_new_block_size demo_ext 32 (MLAAttentionSpec ?t) = Inr ?u" by (simp add: defs)
  moreover have "page_size_bytes demo_ext ?u = Inl AssertionError" by (simp add: defs)
  ultimately show ?thesis by blast
qed

section \<open>Merging full-attention layers\<close>

lemma merge_window_sizes_Inr:
  assumes "merge_window_sizes W = Inr r" "finite W"
  shows "W = (case r of None \<Rightarrow> {} | Some w \<Rightarrow> {w})"
  using assms by (auto simp: merge_window_sizes_def card_1_singleton_iff split: if_splits)

text \<open>
  Merging full-attention layers. When \<^verbatim>\<open>FullAttentionSpec.merge\<close> succeeds on plain full-attention
  specs, every member agrees with the result on all attention fields; at most one of the two window
  kinds is set in the result, and it is the window of every member that has one; the result is
  non-causal exactly if a member is; and every member whose value head size is that of the first
  layer has the page size of the result.
\<close>

lemma full_merge_contract:
  assumes "full_merge (map FullAttentionSpec ss) = Inr m" "s \<in> set ss"
  shows "same_attention_fields s m
    \<and> (sliding_window m = None \<or> attention_chunk_size m = None)
    \<and> (sliding_window s \<noteq> None \<longrightarrow> sliding_window s = sliding_window m)
    \<and> (attention_chunk_size s \<noteq> None \<longrightarrow> attention_chunk_size s = attention_chunk_size m)
    \<and> (non_causal m \<longleftrightarrow> (\<exists>t \<in> set ss. non_causal t))
    \<and> head_size_v m = head_size_v (hd ss)
    \<and> (head_size_v s = head_size_v (hd ss) \<longrightarrow>
         page_size_bytes E (FullAttentionSpec s) = page_size_bytes E (FullAttentionSpec m))"
proof -
  have mf: "List.map_filter full_view (map FullAttentionSpec ss) = ss"
    by (induction ss) (simp_all add: List.map_filter_def)
  have mv: "merge_full_views ss = Inr m"
    using assms(1) by (simp add: full_merge_def mf res_simps)
  obtain s0 rest where ss: "ss = s0 # rest" using assms(2) by (cases ss) auto
  obtain sw ch where sw: "merge_window_sizes (set (List.map_filter sliding_window ss)) = Inr sw"
    and ch: "merge_window_sizes (set (List.map_filter attention_chunk_size ss)) = Inr ch"
    and m: "m = s0\<lparr>sliding_window := sw, attention_chunk_size := ch,
                     non_causal := (\<exists>t \<in> set ss. non_causal t)\<rparr>"
    and same: "\<forall>t \<in> set ss. same_attention_fields t m" and one: "\<not> (sw \<noteq> None \<and> ch \<noteq> None)"
    using mv unfolding ss by (auto simp: merge_full_views_def res_simps Let_def)
  have mem: "x \<in> set (List.map_filter f ss) \<longleftrightarrow> (\<exists>t \<in> set ss. f t = Some x)"
    for f :: "full_attention_spec \<Rightarrow> int option" and x
    by (auto simp: List.map_filter_def image_iff)
  have w: "sliding_window s \<noteq> None \<Longrightarrow> sliding_window s = sw"
    using merge_window_sizes_Inr[OF sw] mem[of _ sliding_window] assms(2)
    by (cases "sliding_window s"; cases sw) auto
  have c: "attention_chunk_size s \<noteq> None \<Longrightarrow> attention_chunk_size s = ch"
    using merge_window_sizes_Inr[OF ch] mem[of _ attention_chunk_size] assms(2)
    by (cases "attention_chunk_size s"; cases ch) auto
  have same_s: "same_attention_fields s m" using same assms(2) by blast
  have "full_real_page_size E s = full_real_page_size E m" if "head_size_v s = head_size_v s0"
    using same_s that m by (simp add: full_real_page_size_def same_attention_fields_def)
  then have "page_size_bytes E (FullAttentionSpec s) = page_size_bytes E (FullAttentionSpec m)"
    if "head_size_v s = head_size_v s0"
    using same_fields_page[OF same_s] that by simp
  then show ?thesis using same_s w c m ss one by auto
qed

definition demo_full :: "int \<Rightarrow> full_attention_spec" where
  "demo_full hv = \<lparr> block_size = 16, num_kv_heads = 2, head_size = 128, kv_dtype = ''bfloat16'',
     quant_mode = NONE, page_size_padded = None, indexes_kv_by_block_stride = False,
     head_size_v = hv, sliding_window = None, attention_chunk_size = None, non_causal = False \<rparr>"

lemma full_merge_demo:
  "full_merge (map FullAttentionSpec [demo_full 128, demo_full hv]) = Inr (demo_full 128)"
  by (simp add: full_merge_def merge_full_views_def is_full_def is_mla_def demo_full_def
      List.map_filter_def merge_window_sizes_def same_attention_fields_def)

lemma full_merge_contract_witness:
  "same_attention_fields (demo_full 128) (demo_full 128)
   \<and> page_size_bytes demo_ext (FullAttentionSpec (demo_full 128)) = Inr 16384"
  using full_merge_contract[OF full_merge_demo[of 128], of "demo_full 128" demo_ext]
  by (simp add: demo_full_def full_real_page_size_def is_nvfp4_def page_defs demo_ext_def)

text \<open>
  The value head size is not compared. Two layers with different value head sizes merge without
  an error although their pages have different sizes: the check runs over the fields of
  \<^verbatim>\<open>AttentionSpec\<close>, and \<^verbatim>\<open>head_size_v\<close> is a field of \<^verbatim>\<open>FullAttentionSpec\<close>.
\<close>

theorem full_merge_ignores_value_head:
  "\<exists>m. full_merge (map FullAttentionSpec [demo_full 128, demo_full 64]) = Inr m
     \<and> page_size_bytes demo_ext (FullAttentionSpec m) = Inr 16384
     \<and> page_size_bytes demo_ext (FullAttentionSpec (demo_full 64)) = Inr 12288"
  using full_merge_demo[of 64]
  by (simp add: demo_full_def full_real_page_size_def is_nvfp4_def page_defs demo_ext_def)

definition demo_sw_mla :: "int \<Rightarrow> sw_mla_spec" where
  "demo_sw_mla b = \<lparr> block_size = b, num_kv_heads = 1, head_size = 512, kv_dtype = ''int8'',
     quant_mode = INT8_PER_TOKEN_HEAD, page_size_padded = None, indexes_kv_by_block_stride = False,
     window = 128, sw_head_size_v = None, sw_cache_dtype_str = None, sw_alignment = None,
     sw_compress_ratio = 1, sw_model_version = None \<rparr>"

text \<open>
  Merging sliding-window MLA layers loses the quantization mode and compares no size: the merge of
  layers with per-token-head scales has no room for the scales, and layers with different block
  sizes merge without an error.
\<close>

theorem sw_mla_merge_loses_format:
  "(\<exists>m. sw_mla_merge demo_ext [demo_sw_mla 64, demo_sw_mla 64] = Inr m \<and> quant_mode m = NONE
      \<and> page_size_bytes demo_ext (SlidingWindowMLASpec m) = Inr 32768
      \<and> page_size_bytes demo_ext (SlidingWindowMLASpec (demo_sw_mla 64)) = Inr 33280)
   \<and> (\<exists>m. sw_mla_merge demo_ext [demo_sw_mla 64, demo_sw_mla 32] = Inr m \<and> block_size m = 64)"
  by (simp add: sw_mla_merge_def demo_sw_mla_def mk_sw_mla_def sw_apply_alignment_padding_def
      sw_mla_real_page_size_def sw_mla_storage_block_size_def floordiv_def page_defs demo_ext_def)

section \<open>Budget, block tables and admission\<close>

text \<open>
  C8. Budget and block table agree under context parallelism. For every full-attention spec the
  memory budget is the row length of the worker's block table times the page size, whatever the
  decode-context-parallel size: rounding per rank and then per block gives the same count as
  rounding once by the block size times the number of ranks.
\<close>

theorem full_budget_is_table_row:
  assumes "kv_ext_ok E" "is_full sp" "0 < spec_block_size sp" "1 \<le> decode_context_parallel_size cfg"
    and "page_size_bytes E sp = Inr p"
  shows "\<exists>n. max_num_blocks_per_req E cfg (max_model_len cfg) sp = Inr n
           \<and> max_memory_usage_bytes E cfg sp = Inr (n * p)"
proof -
  let ?dcp = "decode_context_parallel_size cfg" and ?b = "spec_block_size sp"
  have cd: "is_cdiv (cdiv E)" using assms(1) by (simp add: kv_ext_ok_def)
  have "full_max_memory_usage_bytes E cfg ?b p = cdiv E (max_model_len cfg) (?b * ?dcp) * p"
  proof (cases "?dcp > 1")
    case True
    then show ?thesis using cdiv_cdiv[OF cd assms(3), of ?dcp]
      by (simp add: full_max_memory_usage_bytes_def)
  next
    case False
    then have "?dcp = 1" using assms(4) by simp
    then show ?thesis by (simp add: full_max_memory_usage_bytes_def)
  qed
  then show ?thesis
    using assms(2,5) by (cases sp) (simp_all add: is_full_def max_num_blocks_per_req_def)
qed

definition demo_cfg :: vllm_config where
  "demo_cfg = \<lparr> max_model_len = 315968, decode_context_parallel_size = 4, max_in_flight_tokens = 8192,
                mamba_cache_mode = ''none'', max_num_encoder_input_tokens = 0 \<rparr>"

theorem full_budget_is_table_row_witness:
  "\<exists>n. max_num_blocks_per_req demo_ext demo_cfg (max_model_len demo_cfg) (MLAAttentionSpec (demo_mla 64)) = Inr n
     \<and> max_memory_usage_bytes demo_ext demo_cfg (MLAAttentionSpec (demo_mla 64)) = Inr (n * 23552)"
  by (rule full_budget_is_table_row[OF demo_ext_ok])
     (simp_all add: is_full_def demo_cfg_def demo_mla_def mla_real_page_size_def page_defs)

text \<open>Blocks touched by \<open>n\<close> consecutive tokens that start at token \<open>t\<close>.\<close>

definition blocks_spanned :: "int \<Rightarrow> int \<Rightarrow> int \<Rightarrow> int" where
  "blocks_spanned bs t n = (t + n - 1) div bs - t div bs + 1"

text \<open>
  C9. The sliding-window admission cap is enough. Any run of tokens a
  request can hold at once (the last window minus one tokens and those in flight, never more than
  the model length) touches at most the cap of blocks wherever in a block it starts.
\<close>

theorem sw_admission_cap_covers_window:
  assumes "kv_ext_ok E" "0 < block_size s" "0 \<le> t" "1 \<le> n"
    and "n \<le> min (window s - 1 + in_flight) mml"
  shows "blocks_spanned (block_size s) t n \<le> sw_max_admission_blocks E s in_flight mml"
proof -
  let ?b = "block_size s" and ?N = "min (window s - 1 + in_flight) mml"
  have cd: "is_cdiv (cdiv E)" using assms(1) by (simp add: kv_ext_ok_def)
  have "n \<le> cdiv E ?N ?b * ?b" using is_cdivD(1)[OF cd assms(2), of ?N] assms(5) by linarith
  then have "t + n - 1 < t + cdiv E ?N ?b * ?b" by linarith
  then have "(t + n - 1) div ?b \<le> (t + cdiv E ?N ?b * ?b) div ?b"
    using assms(2) by (intro zdiv_mono1) auto
  also have "\<dots> = t div ?b + cdiv E ?N ?b" using assms(2) by simp
  finally show ?thesis by (simp add: blocks_spanned_def sw_max_admission_blocks_def Let_def)
qed

theorem sw_admission_cap_covers_window_witness:
  "blocks_spanned 64 63 100 \<le> sw_max_admission_blocks demo_ext (demo_sw_mla 64) 8 1000"
  using sw_admission_cap_covers_window[OF demo_ext_ok, of "demo_sw_mla 64" 63 100 8 1000]
  by (simp add: demo_sw_mla_def)


lemma fold_max_ge_init: "y \<le> fold max ys (y :: int)"
proof (induction ys arbitrary: y)
  case (Cons z ys)
  have "y \<le> max z y" by simp
  also have "\<dots> \<le> fold max ys (max z y)" by (rule Cons.IH)
  finally show ?case by simp
qed simp

lemma fold_max_ge: "x \<in> set (y # ys) \<Longrightarrow> x \<le> fold max ys (y :: int)"
proof (induction ys arbitrary: y)
  case (Cons z ys)
  then consider "x \<le> max z y" | "x \<in> set ys" by auto
  then show ?case
  proof cases
    case 1
    also have "max z y \<le> fold max ys (max z y)" by (rule fold_max_ge_init)
    finally show ?thesis by simp
  qed (use Cons.IH[of "max z y"] in simp)
qed simp

lemma max_pages_mem:
  "max_pages E cfg sps = Inr ps \<Longrightarrow> (n, s) \<in> set sps \<Longrightarrow>
   \<exists>u p. max_memory_usage_bytes E cfg s = Inr u \<and> page_size_bytes E s = Inr p \<and> cdiv E u p \<in> set ps"
proof (induction sps arbitrary: ps)
  case (Cons x sps)
  obtain n' s' where x: "x = (n', s')" by fastforce
  obtain u p ps' where "max_memory_usage_bytes E cfg s' = Inr u" "page_size_bytes E s' = Inr p"
    "max_pages E cfg sps = Inr ps'" "ps = cdiv E u p # ps'"
    using Cons.prems(1) unfolding x by (auto simp: res_simps)
  then show ?case using Cons.IH[of ps'] Cons.prems(2) x by auto
qed simp

text \<open>
  A group of one type is budgeted for its most demanding layer. The budget of the group is a
  number of pages times the bytes of a page over all layers, and that number of pages is enough for
  the budget of each single layer.
\<close>

lemma uniform_budget_covers_layers:
  assumes "kv_ext_ok E" "max_memory_usage_bytes E cfg (UniformTypeKVCacheSpecs b sps) = Inr tot"
    and "(n, s) \<in> set sps" "page_size_bytes E s = Inr p" "0 < p"
  shows "\<exists>pages group_page u. tot = pages * group_page
           \<and> page_size_bytes E (UniformTypeKVCacheSpecs b sps) = Inr group_page
           \<and> max_memory_usage_pages E cfg sps = Inr pages
           \<and> max_memory_usage_bytes E cfg s = Inr u \<and> u \<le> pages * p"
proof -
  obtain pages gp where pages: "max_res (max_pages E cfg sps) = Inr pages"
    and gp: "page_size_bytes E (UniformTypeKVCacheSpecs b sps) = Inr gp" and tot: "tot = pages * gp"
    using assms(2) by (auto simp: res_simps)
  obtain ps where ps: "max_pages E cfg sps = Inr ps"
    and mx: "(case ps of [] \<Rightarrow> Inl ValueError | y # ys \<Rightarrow> Inr (fold max ys y)) = (Inr pages :: int res)"
    using pages by (auto simp: max_res_def res_simps)
  obtain u where u: "max_memory_usage_bytes E cfg s = Inr u" and mem: "cdiv E u p \<in> set ps"
    using max_pages_mem[OF ps assms(3)] assms(4) by auto
  have "cdiv E u p \<le> pages" using mx mem fold_max_ge by (cases ps) auto
  then have "u \<le> pages * p"
    using cdiv_le_iff[of "cdiv E" p u pages] assms(1,5) by (simp add: kv_ext_ok_def)
  then show ?thesis using gp tot pages u by (auto simp: max_memory_usage_pages_def)
qed

lemma uniform_budget_covers_layers_witness:
  "\<exists>pages group_page u. (29086720 :: int) = pages * group_page
     \<and> page_size_bytes demo_ext (UniformTypeKVCacheSpecs 64 [(''a'', MLAAttentionSpec (demo_mla 64))]) = Inr group_page
     \<and> max_memory_usage_pages demo_ext demo_cfg [(''a'', MLAAttentionSpec (demo_mla 64))] = Inr pages
     \<and> max_memory_usage_bytes demo_ext demo_cfg (MLAAttentionSpec (demo_mla 64)) = Inr u \<and> u \<le> pages * 23552"
proof (rule uniform_budget_covers_layers[OF demo_ext_ok])
  show "max_memory_usage_bytes demo_ext demo_cfg
       (UniformTypeKVCacheSpecs 64 [(''a'', MLAAttentionSpec (demo_mla 64))]) = Inr 29086720"
    by (simp add: demo_mla_def mla_real_page_size_def page_defs demo_ext_def demo_cfg_def max_res_def
        sum_res_def full_max_memory_usage_bytes_def cdiv_ref_def)
  show "page_size_bytes demo_ext (MLAAttentionSpec (demo_mla 64)) = Inr 23552"
    by (simp add: demo_mla_def mla_real_page_size_def page_defs demo_ext_def)
qed simp_all

section \<open>Zeroing new blocks\<close>

text \<open>
  Zeroing is skipped only for a uniform precision. If the configuration says that new blocks need
  no zeroing, any two attention layers of any groups store their KV cache with the same dtype and
  quantization mode, and no group is a Mamba group.
\<close>

lemma no_zeroing_means_one_precision:
  assumes "\<not> needs_kv_cache_zeroing cfg"
    and "g \<in> set (kv_cache_groups cfg)" "s \<in> set (group_specs g)" "precision s = Some a"
    and "g' \<in> set (kv_cache_groups cfg)" "s' \<in> set (group_specs g')" "precision s' = Some a'"
  shows "a = a' \<and> \<not> isinstance (kv_cache_spec g) C_MambaSpec"
proof -
  have "a \<in> kv_cache_precisions cfg" "a' \<in> kv_cache_precisions cfg"
    using assms(2-7) by (force simp: kv_cache_precisions_def List.map_filter_def)+
  moreover have "finite (kv_cache_precisions cfg)" by (simp add: kv_cache_precisions_def)
  moreover have "card (kv_cache_precisions cfg) \<le> 1"
    using assms(1) by (simp add: needs_kv_cache_zeroing_def has_mixed_precision_kv_cache_def)
  ultimately have "a = a'" by (metis One_nat_def card_le_Suc0_iff_eq)
  then show ?thesis
    using assms(1,2) by (auto simp: needs_kv_cache_zeroing_def has_mamba_layers_def)
qed

definition demo_group :: "spec \<Rightarrow> kv_cache_config" where
  "demo_group sp = \<lparr> num_blocks = 8, kv_cache_tensors = [],
     kv_cache_groups = [\<lparr> layer_names = [''a''], kv_cache_spec = sp, is_eagle_group = False \<rparr>] \<rparr>"

lemma no_zeroing_means_one_precision_witness:
  "(''uint8'', FP8_PER_TENSOR) = (''uint8'', FP8_PER_TENSOR)
   \<and> \<not> isinstance (kv_cache_spec (hd (kv_cache_groups (demo_group (MLAAttentionSpec (demo_mla 64)))))) C_MambaSpec"
proof -
  let ?c = "demo_group (MLAAttentionSpec (demo_mla 64))"
  have nz: "\<not> needs_kv_cache_zeroing ?c"
    by (simp add: needs_kv_cache_zeroing_def has_mamba_layers_def has_mixed_precision_kv_cache_def
        kv_cache_precisions_def group_specs_def demo_group_def isinstance_def eval_nat_numeral
        List.map_filter_def)
  show ?thesis
    by (rule no_zeroing_means_one_precision[OF nz, of _ "MLAAttentionSpec (demo_mla 64)" _
          "hd (kv_cache_groups ?c)" "MLAAttentionSpec (demo_mla 64)"])
       (simp_all add: demo_group_def group_specs_def demo_mla_def)
qed

definition demo_mamba :: "int list list \<Rightarrow> mamba_spec" where
  "demo_mamba sh = \<lparr> mamba_block_size = 16, shapes = sh, dtypes = [''float32''], mamba_page_size_padded = None,
     mamba_type = ''mamba2'', mamba_mode = ''none'', num_speculative_blocks = 0 \<rparr>"

text \<open>
  Mamba layers inside a uniform-type group escape the zeroing test. Two Mamba layers with
  different state shapes form a uniform-type group, and a configuration with that group reports
  that it has no Mamba layers and needs no zeroing.
\<close>

theorem uniform_mamba_group_not_zeroed:
  "\<exists>g. from_specs base [(''a'', MambaSpec (demo_mamba [[2]])), (''b'', MambaSpec (demo_mamba [[4]]))] = Inr (Some g)
     \<and> \<not> needs_kv_cache_zeroing (demo_group g)"
proof -
  let ?sps = "[(''a'', MambaSpec (demo_mamba [[2]])), (''b'', MambaSpec (demo_mamba [[4]]))]"
  let ?g = "UniformTypeKVCacheSpecs 16 ?sps"
  have "from_specs base ?sps = Inr (Some ?g)"
    by (simp add: from_specs_def is_uniform_type_def is_uniform_with_collection_def demo_mamba_def
        isinstance_def)
  moreover have "kv_cache_precisions (demo_group ?g) = {}"
    by (simp add: kv_cache_precisions_def group_specs_def demo_group_def List.map_filter_simps)
  then have "\<not> needs_kv_cache_zeroing (demo_group ?g)"
    by (simp add: needs_kv_cache_zeroing_def has_mamba_layers_def has_mixed_precision_kv_cache_def
        demo_group_def isinstance_def eval_nat_numeral)
  ultimately show ?thesis by blast
qed

section \<open>Names of KV-cache dtypes\<close>

text \<open>
  Which dtype names carry per-token-head scales, and the mode of the compact GLM record. A name
  asks for per-token-head scales exactly if it is one of the three such names; \<^verbatim>\<open>nvfp4_ds_mla\<close>, unlike
  \<^verbatim>\<open>nvfp4\<close>, is handled like the fp8 MLA record.
\<close>

theorem quant_mode_of_names:
  "(kv_cache_uses_per_token_head_scales d \<longleftrightarrow>
      d \<in> {''int4_per_token_head'', ''int8_per_token_head'', ''fp8_per_token_head''})
   \<and> get_kv_quant_mode ''nvfp4_ds_mla'' = get_kv_quant_mode ''fp8_ds_mla''
   \<and> is_nvfp4 (get_kv_quant_mode d) = (d = ''nvfp4'')
   \<and> (is_turboquant (get_kv_quant_mode d) \<longleftrightarrow> startswith d ''turboquant_'')
   \<and> (is_quantized_kv_cache d \<longleftrightarrow>
        kv_cache_uses_per_token_head_scales d \<or> d = ''nvfp4'' \<or> d = ''nvfp4_ds_mla''
        \<or> startswith d ''turboquant_'' \<or> startswith d ''fp8'')"
  by (auto simp: kv_cache_uses_per_token_head_scales_def get_kv_quant_mode_def is_per_token_head_def
      is_nvfp4_def is_turboquant_def is_quantized_kv_cache_def startswith_def)

end
