(* ===== verification/Py_Float.thy ===== *)
theory Py_Float
  imports Py_Prelude "HOL-Library.Log_Nat"
begin

text \<open>
  Python floats, as far as the sources use them: IEEE binary64 values that are never negative, with
  rounding to nearest, ties to even. A finite value is kept as the rational it stands for and
  \<^verbatim>\<open>None\<close> stands for positive infinity. Subnormal numbers and overflow are part of the model.
\<close>

type_synonym pyfloat = "rat option"

definition pow2 :: "int \<Rightarrow> rat" where
  "pow2 k = (if 0 \<le> k then 2 ^ nat k else 1 / 2 ^ nat (- k))"

text \<open>The exponent of the leading bit of a positive rational.\<close>

definition ilog2 :: "rat \<Rightarrow> int" where
  "ilog2 x = (let (a, b) = quotient_of x; k = bitlen a - bitlen b in if pow2 k \<le> x then k else k - 1)"

text \<open>Rounding to the nearest integer, ties to even.\<close>

definition rne :: "rat \<Rightarrow> int" where
  "rne x = (let f = \<lfloor>x\<rfloor>; r = x - of_int f in if r < 1 / 2 \<or> r = 1 / 2 \<and> even f then f else f + 1)"

text \<open>Rounding to 53 significant bits, with the exponent bounded below by that of subnormal numbers.\<close>

definition ulp_exp :: "rat \<Rightarrow> int" where
  "ulp_exp x = max (ilog2 x - 52) (- 1074)"

definition round64 :: "rat \<Rightarrow> rat" where
  "round64 x = (if x \<le> 0 then 0 else of_int (rne (x / pow2 (ulp_exp x))) * pow2 (ulp_exp x))"

definition to_float :: "rat \<Rightarrow> pyfloat" where
  "to_float x = (let r = round64 x in if r < pow2 1024 then Some r else None)"

text \<open>
  True division of two ints is correctly rounded and raises on overflow and on a zero divisor;
  floats divide and add with one rounding each.
\<close>

definition truediv :: "int \<Rightarrow> int \<Rightarrow> pyfloat res" where
  "truediv a b = (if b = 0 then Inl ZeroDivisionError
     else case to_float (of_int a / of_int b) of None \<Rightarrow> Inl OverflowError | Some r \<Rightarrow> Inr (Some r))"

fun float_div :: "pyfloat \<Rightarrow> pyfloat \<Rightarrow> pyfloat res" where
  "float_div (Some x) (Some y) = (if y = 0 then Inl ZeroDivisionError else Inr (to_float (x / y)))"
| "float_div (Some x) None = Inr (Some 0)"
| "float_div None _ = Inr None"

fun float_add :: "pyfloat \<Rightarrow> pyfloat \<Rightarrow> pyfloat" where
  "float_add (Some x) (Some y) = to_float (x + y)"
| "float_add _ _ = None"

fun float_ge :: "pyfloat \<Rightarrow> pyfloat \<Rightarrow> bool" where
  "float_ge (Some x) (Some y) = (y \<le> x)"
| "float_ge None _ = True"
| "float_ge (Some _) None = False"

fun float_floor :: "pyfloat \<Rightarrow> int res" where
  "float_floor (Some x) = Inr \<lfloor>x\<rfloor>"
| "float_floor None = Inl OverflowError"

section \<open>Rounding is monotone\<close>

lemma pow2_powi: "pow2 k = 2 powi k"
  by (simp add: pow2_def power_int_def field_simps)

lemma pow2_pos [simp]: "0 < pow2 k"
  by (simp add: pow2_powi)

lemma pow2_neq0 [simp]: "pow2 k \<noteq> 0"
  using pow2_pos[of k] by (metis less_irrefl)

lemma pow2_add: "pow2 (a + b) = pow2 a * pow2 b"
  by (simp add: pow2_powi power_int_add)

lemma pow2_Suc: "pow2 (a + 1) = 2 * pow2 a"
  by (simp add: pow2_add) (simp add: pow2_def)

lemma pow2_strict: "a < b \<Longrightarrow> pow2 a < pow2 b"
  by (simp add: pow2_powi power_int_strict_increasing)

lemma pow2_less_iff [simp]: "pow2 a < pow2 b \<longleftrightarrow> a < b"
  using pow2_strict[of a b] pow2_strict[of b a] by (metis linorder_neqE less_asym less_irrefl)

lemma pow2_le_iff [simp]: "pow2 a \<le> pow2 b \<longleftrightarrow> a \<le> b"
  by (simp flip: linorder_not_less)

lemma pow2_nat: "0 \<le> k \<Longrightarrow> pow2 k = of_int (2 ^ nat k)"
  by (simp add: pow2_def)

lemma ilog2_unique:
  assumes "pow2 k \<le> x" "x < pow2 (k + 1)" "pow2 l \<le> x" "x < pow2 (l + 1)"
  shows "k = l"
proof -
  have "pow2 k < pow2 (l + 1)" "pow2 l < pow2 (k + 1)" using assms by linarith+
  then show ?thesis by simp
qed

lemma bitlen_pow2:
  assumes "0 < a"
  shows "pow2 (bitlen a - 1) \<le> of_int a \<and> of_int a < pow2 (bitlen a)"
proof -
  have b: "2 ^ nat (bitlen a - 1) \<le> a \<and> a < 2 ^ nat (bitlen a)" using assms by (rule bitlen_bounds)
  have "1 \<le> bitlen a" using assms by (simp add: bitlen_def floorlog_def)
  moreover have "of_int (2 ^ nat (bitlen a - 1)) \<le> (of_int a :: rat)" "(of_int a :: rat) < of_int (2 ^ nat (bitlen a))"
    using b by (metis of_int_le_iff, metis of_int_less_iff)
  ultimately show ?thesis by (simp add: pow2_def)
qed

lemma ilog2_bounds:
  assumes "0 < x"
  shows "pow2 (ilog2 x) \<le> x \<and> x < pow2 (ilog2 x + 1)"
proof -
  obtain a b where ab: "quotient_of x = (a, b)" by fastforce
  have x: "x = of_int a / of_int b" and b: "0 < b"
    using ab by (auto intro: quotient_of_div quotient_of_denom_pos)
  then have a: "0 < a" using assms by (simp add: zero_less_divide_iff)
  let ?A = "bitlen a" and ?B = "bitlen b"
  have xb: "x * of_int b = of_int a" using x b by simp
  have "x * pow2 (?B - 1) < pow2 ?A"
  proof -
    have "x * pow2 (?B - 1) \<le> x * of_int b" using bitlen_pow2[OF b] assms by (intro mult_left_mono) auto
    then show ?thesis using bitlen_pow2[OF a] xb by linarith
  qed
  moreover have "pow2 ?A = pow2 (?A - ?B + 1) * pow2 (?B - 1)" by (simp flip: pow2_add)
  ultimately have up: "x < pow2 (?A - ?B + 1)" by simp
  have "pow2 (?A - 1) < x * pow2 ?B"
  proof -
    have "x * of_int b < x * pow2 ?B" using bitlen_pow2[OF b] assms by (intro mult_strict_left_mono) auto
    then show ?thesis using bitlen_pow2[OF a] xb by linarith
  qed
  moreover have "pow2 (?A - 1) = pow2 (?A - ?B - 1) * pow2 ?B" by (simp flip: pow2_add)
  ultimately have "pow2 (?A - ?B - 1) < x" by simp
  then show ?thesis using up by (simp add: ilog2_def ab Let_def)
qed

lemma ilog2_eqI: "pow2 k \<le> x \<Longrightarrow> x < pow2 (k + 1) \<Longrightarrow> ilog2 x = k"
  using ilog2_bounds[of x] ilog2_unique[of "ilog2 x" x k] pow2_pos[of k] by (meson less_le_trans)

lemma ilog2_mono: "0 < x \<Longrightarrow> x \<le> y \<Longrightarrow> ilog2 x \<le> ilog2 y"
proof -
  assume a: "0 < x" "x \<le> y"
  then have "pow2 (ilog2 x) < pow2 (ilog2 y + 1)" using ilog2_bounds[of x] ilog2_bounds[of y] by linarith
  then show ?thesis by simp
qed

lemma rne_of_int [simp]: "rne (of_int k) = k"
  by (simp add: rne_def Let_def)

lemma floor_rat_numeral [simp]: "\<lfloor>numeral a / numeral b :: rat\<rfloor> = numeral a div numeral b"
  using floor_divide_of_int_eq[of "numeral a" "numeral b", where 'a = rat] by simp

lemma rne_range: "\<lfloor>x\<rfloor> \<le> rne x \<and> rne x \<le> \<lfloor>x\<rfloor> + 1"
  by (simp add: rne_def Let_def)

lemma rne_mono:
  assumes "x \<le> y"
  shows "rne x \<le> rne y"
proof (cases "\<lfloor>x\<rfloor> = \<lfloor>y\<rfloor>")
  case True
  then show ?thesis using assms by (auto simp: rne_def Let_def)
next
  case False
  then have "\<lfloor>x\<rfloor> + 1 \<le> \<lfloor>y\<rfloor>" using floor_mono[OF assms] by linarith
  then show ?thesis using rne_range[of x] rne_range[of y] by linarith
qed

lemma rne_ge: "of_int k \<le> x \<Longrightarrow> k \<le> rne x"
  using rne_mono[of "of_int k" x] by simp

lemma rne_le: "x \<le> of_int k \<Longrightarrow> rne x \<le> k"
  using rne_mono[of x "of_int k"] by simp

lemma round64_upper:
  assumes "0 < x"
  shows "round64 x \<le> pow2 (ulp_exp x + 53)"
proof -
  let ?e = "ulp_exp x"
  have "x < pow2 (ilog2 x + 1)" using ilog2_bounds[OF assms] by simp
  also have "\<dots> \<le> pow2 (53 + ?e)" by (simp add: ulp_exp_def)
  finally have "x / pow2 ?e \<le> of_int (2 ^ 53)" by (simp add: pow2_add field_simps) (simp add: pow2_def)
  then have "rne (x / pow2 ?e) \<le> 2 ^ 53" by (rule rne_le)
  then have "(of_int (rne (x / pow2 ?e)) :: rat) \<le> 2 ^ 53" by (metis of_int_le_iff of_int_numeral of_int_power)
  then have "of_int (rne (x / pow2 ?e)) * pow2 ?e \<le> 2 ^ 53 * pow2 ?e" by (intro mult_right_mono) (auto simp: less_imp_le)
  then show ?thesis using assms by (simp add: round64_def pow2_add) (simp add: pow2_def mult.commute)
qed

lemma round64_lower:
  assumes "0 < x" "- 1074 \<le> ilog2 x - 52"
  shows "pow2 (ulp_exp x + 52) \<le> round64 x"
proof -
  let ?e = "ulp_exp x"
  have "pow2 (?e + 52) \<le> x" using ilog2_bounds[OF assms(1)] assms(2) by (simp add: ulp_exp_def)
  then have "of_int (2 ^ 52) \<le> x / pow2 ?e" by (simp add: pow2_add field_simps) (simp add: pow2_def)
  then have "2 ^ 52 \<le> rne (x / pow2 ?e)" by (rule rne_ge)
  then have "(2 ^ 52 :: rat) \<le> of_int (rne (x / pow2 ?e))" by (metis of_int_le_iff of_int_numeral of_int_power)
  then have "2 ^ 52 * pow2 ?e \<le> of_int (rne (x / pow2 ?e)) * pow2 ?e" by (intro mult_right_mono) (auto simp: less_imp_le)
  then show ?thesis using assms by (simp add: round64_def pow2_add) (simp add: pow2_def mult.commute)
qed

lemma round64_nonneg: "0 \<le> round64 x"
proof (cases "0 < x")
  case True
  then have "0 \<le> rne (x / pow2 (ulp_exp x))" by (intro rne_ge) (simp add: less_imp_le)
  then show ?thesis using True by (simp add: round64_def less_imp_le)
qed (simp add: round64_def)

lemma round64_mono:
  assumes "x \<le> y"
  shows "round64 x \<le> round64 y"
proof (cases "0 < x")
  case False
  then show ?thesis using round64_nonneg[of y] by (simp add: round64_def)
next
  case x: True
  then have y: "0 < y" using assms by simp
  have "ulp_exp x \<le> ulp_exp y" using ilog2_mono[OF x assms] by (auto simp: ulp_exp_def)
  then consider "ulp_exp x = ulp_exp y" | "ulp_exp x < ulp_exp y" by linarith
  then show ?thesis
  proof cases
    case 1
    have "rne (x / pow2 (ulp_exp y)) \<le> rne (y / pow2 (ulp_exp y))"
      using assms by (intro rne_mono divide_right_mono) (auto simp: less_imp_le)
    then show ?thesis using x y 1 by (simp add: round64_def)
  next
    case 2
    then have "- 1074 \<le> ilog2 y - 52" by (auto simp: ulp_exp_def)
    then have "pow2 (ulp_exp y + 52) \<le> round64 y" by (rule round64_lower[OF y])
    moreover have "pow2 (ulp_exp x + 53) \<le> pow2 (ulp_exp y + 52)" using 2 by simp
    ultimately show ?thesis using round64_upper[OF x] by linarith
  qed
qed

text \<open>A value with at most 53 bits is a float and is not changed by rounding.\<close>

lemma round64_exact:
  assumes "0 < x" "x = of_int m * pow2 e" "pow2 (e + 52) \<le> x" "x < pow2 (e + 53)" "- 1074 \<le> e"
  shows "round64 x = x"
proof -
  have "ilog2 x = e + 52" using assms(3,4) by (intro ilog2_eqI) (auto simp: add.commute)
  then have "ulp_exp x = e" using assms(5) by (simp add: ulp_exp_def)
  moreover have "x / pow2 e = of_int m" using assms(2) pow2_pos[of e] by (simp add: field_simps)
  ultimately show ?thesis using assms(1,2) by (simp add: round64_def)
qed

section \<open>Rounding error\<close>

lemma rne_error: "\<bar>of_int (rne x) - x\<bar> \<le> 1 / 2"
proof -
  have "of_int \<lfloor>x\<rfloor> \<le> x" "x < of_int \<lfloor>x\<rfloor> + 1" by linarith+
  then show ?thesis by (auto simp: rne_def Let_def abs_le_iff)
qed

lemma round64_error:
  assumes "0 < x" "- 1022 \<le> ilog2 x"
  shows "\<bar>round64 x - x\<bar> \<le> x / 2 ^ 53"
proof -
  let ?e = "ulp_exp x"
  have e: "?e + 52 = ilog2 x" using assms(2) by (simp add: ulp_exp_def)
  have "\<bar>of_int (rne (x / pow2 ?e)) - x / pow2 ?e\<bar> * pow2 ?e \<le> 1 / 2 * pow2 ?e"
    by (intro mult_right_mono rne_error) (simp add: less_imp_le)
  moreover have "\<bar>of_int (rne (x / pow2 ?e)) - x / pow2 ?e\<bar> * pow2 ?e
      = \<bar>of_int (rne (x / pow2 ?e)) * pow2 ?e - x\<bar>"
    by (subst abs_mult_pos) (simp_all add: left_diff_distrib less_imp_le)
  moreover have "pow2 ?e * 2 ^ 52 \<le> x"
    using ilog2_bounds[OF assms(1)] by (simp flip: e add: pow2_add) (simp add: pow2_def)
  ultimately show ?thesis using assms(1) by (simp add: round64_def)
qed

lemma round64_between:
  assumes "pow2 (- 1022) \<le> x"
  shows "x * (1 - 1 / 2 ^ 53) \<le> round64 x \<and> round64 x \<le> x * (1 + 1 / 2 ^ 53)"
proof -
  have x: "0 < x" using assms pow2_pos[of "- 1022"] by linarith
  have "pow2 (- 1022) < pow2 (ilog2 x + 1)" using assms ilog2_bounds[OF x] by linarith
  then have "- 1022 \<le> ilog2 x" by simp
  then have "\<bar>round64 x - x\<bar> \<le> x / 2 ^ 53" by (rule round64_error[OF x])
  then have "round64 x - x \<le> x / 2 ^ 53" "x - round64 x \<le> x / 2 ^ 53" by (simp_all only: abs_le_iff) auto
  then show ?thesis by (simp add: algebra_simps)
qed

section \<open>Comparing a quotient of ints with a decimal literal\<close>

text \<open>
  A quotient with a divisor of at most \<open>2 ^ 40\<close> that is below a decimal fraction is so far below it that a
  float \<open>lo\<close> lies between them. Hence the comparison of the two floats is the exact comparison.
\<close>

lemma threshold_exact:
  assumes "0 < q" "0 < d" "d \<le> 2 ^ 40" "round64 lo = lo" "lo < round64 (of_int p / of_int q)"
    and "of_int p / of_int q - 1 / (of_int q * 2 ^ 40) \<le> lo"
  shows "round64 (of_int p / of_int q) \<le> round64 (of_int n / of_int d) \<longleftrightarrow> p * d \<le> n * q"
proof
  assume "p * d \<le> n * q"
  then have "(of_int (p * d) :: rat) \<le> of_int (n * q)" by (simp only: of_int_le_iff)
  then have "(of_int p / of_int q :: rat) \<le> of_int n / of_int d" using assms(1,2) by (simp add: field_simps)
  then show "round64 (of_int p / of_int q) \<le> round64 (of_int n / of_int d)" by (rule round64_mono)
next
  assume le: "round64 (of_int p / of_int q) \<le> round64 (of_int n / of_int d)"
  show "p * d \<le> n * q"
  proof (rule ccontr)
    assume "\<not> p * d \<le> n * q"
    then have "n * q + 1 \<le> p * d" by simp
    then have "(of_int (n * q + 1) :: rat) \<le> of_int (p * d)" by (simp only: of_int_le_iff)
    then have "of_int n / of_int d \<le> (of_int p / of_int q - 1 / (of_int q * of_int d) :: rat)"
      using assms(1,2) by (simp add: field_simps)
    also have "\<dots> \<le> of_int p / of_int q - 1 / (of_int q * 2 ^ 40)"
    proof -
      have "(of_int d :: rat) \<le> of_int (2 ^ 40)" using assms(3) by (simp only: of_int_le_iff)
      then have "(of_int q * of_int d :: rat) \<le> of_int q * 2 ^ 40" using assms(1) by simp
      then show ?thesis using assms(1,2) by (simp add: frac_le)
    qed
    also have "\<dots> \<le> lo" by (rule assms(6))
    finally have "round64 (of_int n / of_int d) \<le> lo" using round64_mono assms(4) by metis
    then show False using le assms(5) by linarith
  qed
qed

end
