(* ===== verification/Spec_Depth.thy ===== *)
theory Spec_Depth
  imports Py_Float
begin

text \<open>
  Adaptive speculative depth: the parser of the depth ladder (\<^verbatim>\<open>spec_decode/dynamic/depth_ladder.py\<close>) and
  the acceptance-length controller (\<^verbatim>\<open>spec_decode/dynamic/acceptance_length.py\<close>). Characters are the
  code points 0 to 255, so \<^verbatim>\<open>str.strip\<close> and \<^verbatim>\<open>int\<close> are modelled on Latin-1 text.
\<close>

section \<open>The depth ladder\<close>

definition code :: "char \<Rightarrow> nat" where
  "code c = of_char c"

text \<open>The white space of \<^verbatim>\<open>str.strip\<close> and the smaller set that \<^verbatim>\<open>int\<close> skips.\<close>

definition str_space :: "char \<Rightarrow> bool" where
  "str_space c = (code c \<in> {9, 10, 11, 12, 13, 28, 29, 30, 31, 32, 133, 160})"

definition int_space :: "char \<Rightarrow> bool" where
  "int_space c = (code c \<in> {9, 10, 11, 12, 13, 32, 133, 160})"

definition strip :: "(char \<Rightarrow> bool) \<Rightarrow> string \<Rightarrow> string" where
  "strip sp s = rev (dropWhile sp (rev (dropWhile sp s)))"

fun split :: "char \<Rightarrow> string \<Rightarrow> string list" where
  "split sep [] = [[]]"
| "split sep (c # cs) = (if c = sep then [] # split sep cs
     else case split sep cs of [] \<Rightarrow> [[c]] | w # ws \<Rightarrow> (c # w) # ws)"

definition is_digit :: "char \<Rightarrow> bool" where
  "is_digit c = (48 \<le> code c \<and> code c \<le> 57)"

text \<open>Decimal digits, with single underscores allowed between two digits.\<close>

fun int_digits :: "int \<Rightarrow> bool \<Rightarrow> string \<Rightarrow> int option" where
  "int_digits acc after_digit [] = (if after_digit then Some acc else None)"
| "int_digits acc after_digit (c # cs) =
     (if c = CHR ''_'' then if after_digit then int_digits acc False cs else None
      else if is_digit c then int_digits (10 * acc + int (code c - 48)) True cs
      else None)"

text \<open>Python's \<^verbatim>\<open>int\<close> on a string; \<^verbatim>\<open>None\<close> is its ValueError, also raised above 4300 digits.\<close>

definition py_int :: "string \<Rightarrow> int option" where
  "py_int s = (let t = strip int_space s;
       (sgn, ds) = (case t of c # cs \<Rightarrow> if c = CHR ''-'' then (- 1, cs) else if c = CHR ''+'' then (1, cs) else (1, t)
                    | [] \<Rightarrow> (1, t))
     in if 4300 < length (filter is_digit ds) then None
        else map_option (\<lambda>v. sgn * v) (int_digits 0 False ds))"

fun all_some :: "'a option list \<Rightarrow> 'a list option" where
  "all_some [] = Some []"
| "all_some (None # xs) = None"
| "all_some (Some x # xs) = map_option (\<lambda>ys. x # ys) (all_some xs)"

definition parse_depths :: "string \<Rightarrow> int list option" where
  "parse_depths text = map_option (\<lambda>ds. sorted_list_of_set (set ds))
     (all_some (map py_int (filter (\<lambda>tok. strip str_space tok \<noteq> []) (split CHR '','' text))))"

definition ADAPTIVE_SPEC_DEPTHS_DEFAULT :: string where
  "ADAPTIVE_SPEC_DEPTHS_DEFAULT = ''2,4,5''"

text \<open>
  The parser; \<open>env\<close> is the value of the environment variable, if it is set. The warnings of the source
  only log and are left out.
\<close>

definition parse_adaptive_spec_depth_ladder :: "string option \<Rightarrow> int \<Rightarrow> string option \<Rightarrow> int list res" where
  "parse_adaptive_spec_depth_ladder env max_num_spec_tokens raw =
     (if max_num_spec_tokens \<le> 0 then Inl ValueError
      else let text = (case raw of Some r \<Rightarrow> r | None \<Rightarrow>
                         (case env of Some e \<Rightarrow> e | None \<Rightarrow> ADAPTIVE_SPEC_DEPTHS_DEFAULT));
               depths = (case parse_depths text of Some ds \<Rightarrow> ds
                         | None \<Rightarrow> (case parse_depths ADAPTIVE_SPEC_DEPTHS_DEFAULT of Some ds \<Rightarrow> ds | None \<Rightarrow> []));
               valid = filter (\<lambda>d. 1 \<le> d \<and> d \<le> max_num_spec_tokens) depths
           in Inr (sorted_list_of_set (set valid \<union> {max_num_spec_tokens})))"

section \<open>The acceptance-length controller\<close>

record update =
  previous_num_spec_tokens :: int
  upd_num_spec_tokens :: int
  mean_num_accepted_tokens :: pyfloat
  mean_num_draft_tokens :: pyfloat
  raw_target_num_spec_tokens :: int
  acceptance_ratchet :: bool
  decision_reason :: string
  position_conditional_acceptance :: "pyfloat list"
  upd_observation_window :: int
  upd_tail_gain_23 :: pyfloat
  upd_position_4_gain :: pyfloat

record controller =
  max_num_spec_tokens :: int
  observation_window :: int
  depth_ladder :: "int list"
  num_spec_tokens :: int
  num_observation_steps :: int
  num_drafts :: int
  num_draft_tokens :: int
  num_accepted_tokens :: int
  position_eligible :: "int list"
  position_accepted :: "int list"

definition zeros :: "int \<Rightarrow> int list" where
  "zeros n = replicate (nat n) 0"

definition controller_ladder :: "int \<Rightarrow> int list option \<Rightarrow> int list" where
  "controller_ladder mx given =
     (let ladder = sorted_list_of_set (set (filter (\<lambda>d. 1 \<le> d \<and> d \<le> mx) (case given of None \<Rightarrow> [] | Some ds \<Rightarrow> ds)));
          ladder = (if ladder = [] then [1..mx] else ladder)
      in if last ladder \<noteq> mx then ladder @ [mx] else ladder)"

definition AcceptanceLengthController :: "int \<Rightarrow> int \<Rightarrow> int list option \<Rightarrow> controller res" where
  "AcceptanceLengthController mx window given =
     (if mx \<le> 0 then Inl ValueError
      else if window \<le> 0 then Inl ValueError
      else let ladder = controller_ladder mx given
           in Inr \<lparr> max_num_spec_tokens = mx, observation_window = window, depth_ladder = ladder,
                num_spec_tokens = hd ladder, num_observation_steps = 0, num_drafts = 0, num_draft_tokens = 0,
                num_accepted_tokens = 0, position_eligible = zeros mx, position_accepted = zeros mx \<rparr>)"

definition reset_window :: "controller \<Rightarrow> controller" where
  "reset_window c = c\<lparr> num_observation_steps := 0, num_drafts := 0, num_draft_tokens := 0,
     num_accepted_tokens := 0, position_eligible := zeros (max_num_spec_tokens c),
     position_accepted := zeros (max_num_spec_tokens c) \<rparr>"

text \<open>The loop over the position vectors. A bad entry raises after the entries before it were added.\<close>

fun add_positions :: "nat \<Rightarrow> (int \<times> int) list \<Rightarrow> controller \<Rightarrow> controller \<times> unit res" where
  "add_positions i [] c = (c, Inr ())"
| "add_positions i ((eligible, accepted) # rest) c =
     (if eligible < 0 \<or> accepted < 0 \<or> accepted > eligible then (c, Inl ValueError)
      else add_positions (Suc i) rest
        (c\<lparr> position_eligible := (position_eligible c)[i := position_eligible c ! i + eligible],
            position_accepted := (position_accepted c)[i := position_accepted c ! i + accepted] \<rparr>))"

definition observe_positions :: "int list option \<Rightarrow> int list option \<Rightarrow> controller \<Rightarrow> controller \<times> unit res" where
  "observe_positions eligible accepted c =
     (case (eligible, accepted) of
        (None, None) \<Rightarrow> (c, Inr ())
      | (Some es, Some as) \<Rightarrow>
          if length es \<noteq> length as then (c, Inl ValueError)
          else if max_num_spec_tokens c < int (length es) then (c, Inl ValueError)
          else add_positions 0 (zip es as) c
      | _ \<Rightarrow> (c, Inl ValueError))"

definition effective_observation_window :: "controller \<Rightarrow> int" where
  "effective_observation_window c =
     (if num_spec_tokens c = hd (depth_ladder c) then observation_window c
      else max 1 (observation_window c div 2))"

definition rate :: "int \<Rightarrow> int \<Rightarrow> pyfloat res" where
  "rate accepted eligible = (if eligible \<noteq> 0 then truediv accepted eligible else Inr (Some 0))"

definition tail_gain_23 :: "controller \<Rightarrow> pyfloat res" where
  "tail_gain_23 c = (if num_drafts c \<noteq> 0 \<and> 4 \<le> length (position_accepted c)
     then truediv (position_accepted c ! 2 + position_accepted c ! 3) (num_drafts c) else Inr (Some 0))"

definition position_4_gain :: "controller \<Rightarrow> pyfloat res" where
  "position_4_gain c = (if num_drafts c \<noteq> 0 \<and> 5 \<le> length (position_accepted c)
     then truediv (position_accepted c ! 4) (num_drafts c) else Inr (Some 0))"

text \<open>Float literals of the source.\<close>

definition lit :: "int \<Rightarrow> int \<Rightarrow> pyfloat" where
  "lit p q = to_float (of_int p / of_int q)"

text \<open>The depth decision: target depth, ratchet flag and reason.\<close>

definition head_ratio :: "pyfloat \<Rightarrow> pyfloat \<Rightarrow> pyfloat res" where
  "head_ratio mean_acc mean_draft = (if mean_draft \<noteq> Some 0 then float_div mean_acc mean_draft else Inr (Some 0))"

definition decide_ladder :: "controller \<Rightarrow> pyfloat \<Rightarrow> pyfloat \<Rightarrow> pyfloat \<Rightarrow> pyfloat \<Rightarrow> (int \<times> bool \<times> string) res" where
  "decide_ladder c mean_acc mean_draft tail p4 =
     (if num_spec_tokens c = 2 then
        res_bind (head_ratio mean_acc mean_draft) (\<lambda>h.
          Inr (if float_ge h (lit 85 100) then (4, True, ''probe_k4'') else (2, False, ''k2_baseline'')))
      else if num_spec_tokens c = 4 then
        Inr (if depth_ladder c = [2, 4, 5] \<and> float_ge tail (lit 70 100) then (5, True, ''probe_k5'')
             else if float_ge tail (lit 35 100) then (4, False, ''k4_hold'')
             else (2, False, ''k4_tail_reject''))
      else
        Inr (if float_ge p4 (lit 15 100) then (5, False, ''k5_hold'')
             else if float_ge tail (lit 35 100) then (4, False, ''k5_p4_reject'')
             else (2, False, ''k5_tail_reject'')))"

definition decide_formula :: "controller \<Rightarrow> pyfloat \<Rightarrow> (int \<times> bool \<times> string) res" where
  "decide_formula c mean_acc =
     res_bind (float_floor (float_add mean_acc (lit 3 2))) (\<lambda>f.
       let target = min (max_num_spec_tokens c) (max 1 f);
           below = filter (\<lambda>d. d \<le> target) (depth_ladder c)
       in Inr (if below = [] then hd (depth_ladder c) else fold max below (hd below), False, ''formula''))"

definition decide :: "controller \<Rightarrow> pyfloat \<Rightarrow> pyfloat \<Rightarrow> pyfloat \<Rightarrow> pyfloat \<Rightarrow> (int \<times> bool \<times> string) res" where
  "decide c mean_acc mean_draft tail p4 =
     (if depth_ladder c = [2, 4] \<or> depth_ladder c = [2, 4, 5]
      then decide_ladder c mean_acc mean_draft tail p4 else decide_formula c mean_acc)"

text \<open>The end of a window: the update, or the exception of a division, before anything is changed.\<close>

definition window_update :: "controller \<Rightarrow> update res" where
  "window_update c =
     res_bind (truediv (num_accepted_tokens c) (num_drafts c)) (\<lambda>mean_acc.
     res_bind (truediv (num_draft_tokens c) (num_drafts c)) (\<lambda>mean_draft.
     res_bind (map_res (\<lambda>(e, a). rate a e) (zip (position_eligible c) (position_accepted c))) (\<lambda>rates.
     res_bind (tail_gain_23 c) (\<lambda>tail.
     res_bind (position_4_gain c) (\<lambda>p4.
     res_bind (decide c mean_acc mean_draft tail p4) (\<lambda>(target, ratchet, reason).
       Inr \<lparr> previous_num_spec_tokens = num_spec_tokens c, upd_num_spec_tokens = target,
             mean_num_accepted_tokens = mean_acc, mean_num_draft_tokens = mean_draft,
             raw_target_num_spec_tokens = target, acceptance_ratchet = ratchet, decision_reason = reason,
             position_conditional_acceptance = rates,
             upd_observation_window = effective_observation_window c,
             upd_tail_gain_23 = tail, upd_position_4_gain = p4 \<rparr>))))))"

text \<open>
  One observation. The new state is returned with the result also when the call raises, since the
  counters are changed before the position vectors are checked.
\<close>

definition count_batch :: "controller \<Rightarrow> int \<Rightarrow> int \<Rightarrow> int \<Rightarrow> controller" where
  "count_batch c drafts draft_tokens accepted_tokens =
     c\<lparr> num_observation_steps := num_observation_steps c + 1, num_drafts := num_drafts c + drafts,
        num_draft_tokens := num_draft_tokens c + draft_tokens,
        num_accepted_tokens := num_accepted_tokens c + accepted_tokens \<rparr>"

definition close_window :: "controller \<Rightarrow> controller \<times> update option res" where
  "close_window c =
     (if num_observation_steps c < effective_observation_window c then (c, Inr None)
      else case window_update c of
             Inl e \<Rightarrow> (c, Inl e)
           | Inr u \<Rightarrow> (reset_window (c\<lparr> num_spec_tokens := upd_num_spec_tokens u \<rparr>), Inr (Some u)))"

definition observe_batch ::
  "controller \<Rightarrow> int \<Rightarrow> int \<Rightarrow> int \<Rightarrow> int list option \<Rightarrow> int list option \<Rightarrow> controller \<times> update option res" where
  "observe_batch c drafts draft_tokens accepted_tokens eligible accepted =
     (if drafts < 0 \<or> draft_tokens < 0 \<or> accepted_tokens < 0 then (c, Inl ValueError)
      else if draft_tokens < accepted_tokens then (c, Inl ValueError)
      else if drafts = 0 then
        if draft_tokens \<noteq> 0 \<or> accepted_tokens \<noteq> 0 then (c, Inl ValueError) else (c, Inr None)
      else case observe_positions eligible accepted (count_batch c drafts draft_tokens accepted_tokens) of
             (c', Inl e) \<Rightarrow> (c', Inl e)
           | (c', Inr _) \<Rightarrow> close_window c')"

end
