(* ===== verification/Cuda_Graphs.thy ===== *)
theory Cuda_Graphs
  imports Spec_Depth
begin

text \<open>
  The CUDA-graph manager of \<^verbatim>\<open>v1/worker/gpu/cudagraph_utils.py\<close>: which batch shapes get a graph, in which
  order the candidates for a batch are tried, and what \<^verbatim>\<open>dispatch\<close> answers. \<^verbatim>\<open>CUDAGraphMode\<close> and
  \<^verbatim>\<open>round_up\<close> are imported from elsewhere: the manager's mode is given by the answers of its methods, and
  the rounding function is a parameter. Graph capture itself is a sequence of calls into torch, of which
  the model keeps the trace.
\<close>

section \<open>Python's defaultdict of lists\<close>

text \<open>An association list in insertion order; reading a missing key creates an empty entry.\<close>

fun dd_append :: "'k \<Rightarrow> 'v \<Rightarrow> ('k \<times> 'v list) list \<Rightarrow> ('k \<times> 'v list) list" where
  "dd_append k v [] = [(k, [v])]"
| "dd_append k v ((k', vs) # rest) = (if k' = k then (k', vs @ [v]) # rest else (k', vs) # dd_append k v rest)"

definition dd_get :: "'k \<Rightarrow> ('k \<times> 'v list) list \<Rightarrow> 'v list" where
  "dd_get k d = (case map_of d k of None \<Rightarrow> [] | Some vs \<Rightarrow> vs)"

definition dd_touch :: "'k \<Rightarrow> ('k \<times> 'v list) list \<Rightarrow> ('k \<times> 'v list) list" where
  "dd_touch k d = (case map_of d k of None \<Rightarrow> d @ [(k, [])] | Some _ \<Rightarrow> d)"

section \<open>Descriptors and configuration\<close>

datatype cg_mode = CG_NONE | CG_PIECEWISE | CG_FULL

record batch_desc =
  desc_mode :: cg_mode
  num_tokens :: int
  num_reqs :: "int option"
  uniform_token_count :: "int option"
  num_active_loras :: int

text \<open>What the code asks of the resolved \<^verbatim>\<open>CUDAGraphMode\<close>.\<close>

record resolved_mode =
  mode_on :: bool
  decode_mode :: cg_mode
  mixed_mode :: cg_mode
  separate_routine :: bool
  has_full_cudagraphs :: bool

record spec_config =
  num_speculative_tokens_per_batch_size :: "(int \<times> int \<times> int) list option"
  adaptive_speculative_tokens_window :: "int option"

definition uses_acceptance_length_adaptation :: "spec_config \<Rightarrow> bool" where
  "uses_acceptance_length_adaptation sc \<longleftrightarrow> adaptive_speculative_tokens_window sc \<noteq> None"

record cg_config =
  max_num_reqs :: int
  cudagraph_mode :: resolved_mode
  decode_query_len :: int
  lora_capture_cases :: "int list"
  capture_sizes :: "int list"
  max_cudagraph_capture_size :: "int option"
  speculative_config :: "spec_config option"
  num_speculative_tokens :: int
  depths_env :: "string option"
  round_up :: "int \<Rightarrow> int \<Rightarrow> int"
  use_breakable_cg :: bool

definition is_compatible :: "batch_desc \<Rightarrow> int \<Rightarrow> int \<Rightarrow> int option \<Rightarrow> int \<Rightarrow> bool" where
  "is_compatible d reqs tokens uniform loras \<longleftrightarrow>
     (uniform_token_count d = None \<or> uniform_token_count d = uniform)
     \<and> (case num_reqs d of None \<Rightarrow> True | Some r \<Rightarrow> reqs \<le> r)
     \<and> tokens \<le> num_tokens d \<and> num_active_loras d = loras"

definition get_uniform_token_count :: "int \<Rightarrow> int \<Rightarrow> int \<Rightarrow> int option res" where
  "get_uniform_token_count reqs tokens max_query_len =
     res_bind (floordiv tokens reqs) (\<lambda>q.
       Inr (if max_query_len = q \<and> tokens = max_query_len * reqs then Some max_query_len else None))"

section \<open>LoRA cases\<close>

fun lora_entries :: "int list \<Rightarrow> int list \<Rightarrow> (int \<times> int) list res" where
  "lora_entries [] cases = Inr []"
| "lora_entries (n # ns) cases =
     (case dropWhile (\<lambda>c. c < n) cases of
        [] \<Rightarrow> Inl IndexError
      | c # cs \<Rightarrow> res_bind (lora_entries ns (c # cs)) (\<lambda>es. Inr ((n, c) # es)))"

definition build_lora_dispatch_map :: "cg_config \<Rightarrow> ((int \<times> int) list \<times> int) res" where
  "build_lora_dispatch_map cfg =
     (let captured = sort (filter (\<lambda>c. 0 < c) (lora_capture_cases cfg)) in
      if captured = [] then Inr ([], 0)
      else res_bind (lora_entries [1..last captured] captured) (\<lambda>m. Inr (m, last captured)))"

definition resolve_effective_loras :: "(int \<times> int) list \<times> int \<Rightarrow> int \<Rightarrow> int" where
  "resolve_effective_loras m n =
     (if n \<le> 0 \<or> fst m = [] then n
      else case map_of (fst m) n of Some c \<Rightarrow> c | None \<Rightarrow> snd m)"

section \<open>Descriptors of the capture sizes\<close>

type_synonym by_token_lora = "((int \<times> int) \<times> batch_desc list) list"
type_synonym by_mode = "(cg_mode \<times> batch_desc list) list"

definition decode_desc :: "cg_mode \<Rightarrow> int \<Rightarrow> int \<Rightarrow> int \<Rightarrow> int \<Rightarrow> batch_desc" where
  "decode_desc mode tokens reqs q loras =
     \<lparr> desc_mode = mode, num_tokens = tokens, num_reqs = Some reqs, uniform_token_count = Some q,
       num_active_loras = loras \<rparr>"

definition base_query_lens :: "cg_config \<Rightarrow> int list" where
  "base_query_lens cfg =
     (case speculative_config cfg of
        Some sc \<Rightarrow> (case num_speculative_tokens_per_batch_size sc of
          Some schedule \<Rightarrow> map (\<lambda>(_, _, n). n + (decode_query_len cfg - num_speculative_tokens cfg)) schedule
        | None \<Rightarrow> [decode_query_len cfg])
      | None \<Rightarrow> [decode_query_len cfg])"

text \<open>
  The test that skips a rounded shape; the maximal capture size may be missing, and comparing with it
  then raises.
\<close>

definition too_large :: "cg_config \<Rightarrow> int \<Rightarrow> int \<Rightarrow> bool res" where
  "too_large cfg tokens reqs =
     (if max_num_reqs cfg * decode_query_len cfg < tokens then Inr True
      else case max_cudagraph_capture_size cfg of
             None \<Rightarrow> Inl TypeError
           | Some mx \<Rightarrow> Inr (mx < tokens \<or> max_num_reqs cfg < reqs))"

fun decode_descs :: "cg_config \<Rightarrow> int \<Rightarrow> int \<Rightarrow> int list \<Rightarrow> by_token_lora \<times> by_mode \<Rightarrow> (by_token_lora \<times> by_mode) res" where
  "decode_descs cfg tokens loras [] tabs = Inr tabs"
| "decode_descs cfg tokens loras (q # qs) (tok, modes) =
     (let rounded = round_up cfg tokens q; mode = decode_mode (cudagraph_mode cfg) in
      res_bind (floordiv rounded q) (\<lambda>reqs.
      res_bind (too_large cfg rounded reqs) (\<lambda>skip.
        let d = decode_desc mode rounded reqs q loras in
        decode_descs cfg tokens loras qs
          (if skip \<or> d \<in> set (dd_get mode modes) then (tok, if skip then modes else dd_touch mode modes)
           else (dd_append (rounded, loras) d tok, dd_append mode d modes)))))"

definition mixed_desc :: "cg_config \<Rightarrow> int \<Rightarrow> int \<Rightarrow> batch_desc" where
  "mixed_desc cfg tokens loras =
     (let mode = mixed_mode (cudagraph_mode cfg) in
      \<lparr> desc_mode = mode, num_tokens = tokens,
        num_reqs = (if mode = CG_FULL then Some (min tokens (max_num_reqs cfg)) else None),
        uniform_token_count = None, num_active_loras = loras \<rparr>)"

definition size_descs :: "cg_config \<Rightarrow> int \<times> int \<Rightarrow> by_token_lora \<times> by_mode \<Rightarrow> (by_token_lora \<times> by_mode) res" where
  "size_descs cfg shape tabs =
     (let (tokens, loras) = shape; m = cudagraph_mode cfg in
      res_bind (if separate_routine m \<and> decode_mode m \<noteq> CG_NONE
                then decode_descs cfg tokens loras (base_query_lens cfg) tabs else Inr tabs) (\<lambda>(tok, modes).
        Inr (if mixed_mode m \<noteq> CG_NONE
             then (dd_append (tokens, loras) (mixed_desc cfg tokens loras) tok,
                   dd_append (mixed_mode m) (mixed_desc cfg tokens loras) modes)
             else (tok, modes))))"

fun base_descs :: "cg_config \<Rightarrow> (int \<times> int) list \<Rightarrow> by_token_lora \<times> by_mode \<Rightarrow> (by_token_lora \<times> by_mode) res" where
  "base_descs cfg [] tabs = Inr tabs"
| "base_descs cfg (shape # rest) tabs = res_bind (size_descs cfg shape tabs) (base_descs cfg rest)"

section \<open>Descriptors of the adaptive ladder\<close>

definition adaptive_spec_decode_query_lens :: "cg_config \<Rightarrow> int list res" where
  "adaptive_spec_decode_query_lens cfg =
     (case speculative_config cfg of
        None \<Rightarrow> Inr []
      | Some sc \<Rightarrow>
          if decode_query_len cfg \<le> 1 then Inr []
          else if \<not> uses_acceptance_length_adaptation sc then Inr []
          else if num_speculative_tokens cfg \<le> 0 then Inl RuntimeError
          else let s = decode_query_len cfg - num_speculative_tokens cfg in
               if s < 1 then Inl RuntimeError
               else res_bind (parse_adaptive_spec_depth_ladder (depths_env cfg) (num_speculative_tokens cfg) None) (\<lambda>ladder.
                 let lens = map (\<lambda>depth. depth + s) ladder
                 in if lens = [] then Inl RuntimeError else Inr lens))"

definition desc_key :: "batch_desc \<Rightarrow> int \<times> int option \<times> int option \<times> int" where
  "desc_key d = (num_tokens d, num_reqs d, uniform_token_count d, num_active_loras d)"

definition max_captured_reqs :: "cg_config \<Rightarrow> int" where
  "max_captured_reqs cfg = min (max_num_reqs cfg) 32"

definition shapes :: "cg_config \<Rightarrow> int list \<Rightarrow> (int \<times> int \<times> int) list" where
  "shapes cfg lens = [(q, n, l). q \<leftarrow> lens, n \<leftarrow> [1..max_captured_reqs cfg], l \<leftarrow> lora_capture_cases cfg]"

definition adaptive_skip :: "cg_config \<Rightarrow> int \<Rightarrow> bool" where
  "adaptive_skip cfg tokens \<longleftrightarrow> max_num_reqs cfg * decode_query_len cfg < tokens
     \<or> (case max_cudagraph_capture_size cfg of None \<Rightarrow> False | Some mx \<Rightarrow> mx < tokens)"

fun adaptive_descs ::
  "cg_config \<Rightarrow> (int \<times> int \<times> int) list \<Rightarrow> (int \<times> int option \<times> int option \<times> int) list \<times> by_mode \<times> by_token_lora
   \<Rightarrow> by_mode \<times> by_token_lora" where
  "adaptive_descs cfg [] (existing, modes, tok) = (modes, tok)"
| "adaptive_descs cfg ((q, n, l) # rest) (existing, modes, tok) =
     (let mode = decode_mode (cudagraph_mode cfg); d = decode_desc mode (q * n) n q l in
      if adaptive_skip cfg (q * n) \<or> desc_key d \<in> set existing
      then adaptive_descs cfg rest (existing, modes, tok)
      else adaptive_descs cfg rest (existing @ [desc_key d], dd_append mode d modes, dd_append (q * n, l) d tok))"

definition init_adaptive_spec_candidates :: "cg_config \<Rightarrow> by_mode \<Rightarrow> (by_mode \<times> by_token_lora) res" where
  "init_adaptive_spec_candidates cfg modes =
     res_bind (adaptive_spec_decode_query_lens cfg) (\<lambda>lens.
       let m = cudagraph_mode cfg; mode = decode_mode m in
       if lens = [] \<or> \<not> separate_routine m \<or> mode = CG_NONE then Inr (modes, [])
       else Inr (adaptive_descs cfg (shapes cfg lens)
                   (map desc_key (dd_get mode modes), dd_touch mode modes, [])))"

section \<open>Candidate lists\<close>

type_synonym candidates = "int \<times> int \<Rightarrow> batch_desc list option"

fun range_entries :: "by_token_lora \<Rightarrow> int list \<Rightarrow> int \<Rightarrow> int list \<Rightarrow> candidates \<Rightarrow> candidates" where
  "range_entries tok cases sz [] cand = cand"
| "range_entries tok cases sz (i # is) cand =
     range_entries tok cases sz is
       (fold (\<lambda>l c. case map_of tok (sz, l) of Some ds \<Rightarrow> c((i, l) \<mapsto> ds) | None \<Rightarrow> c) cases cand)"

fun build_ranges :: "by_token_lora \<Rightarrow> int list \<Rightarrow> int \<Rightarrow> int list \<Rightarrow> candidates \<Rightarrow> candidates" where
  "build_ranges tok cases start [] cand = cand"
| "build_ranges tok cases start (sz # szs) cand =
     build_ranges tok cases (sz + 1) szs (range_entries tok cases sz [start..sz] cand)"

definition build_candidate_ranges :: "cg_config \<Rightarrow> by_token_lora \<Rightarrow> candidates" where
  "build_candidate_ranges cfg tok =
     build_ranges tok (lora_capture_cases cfg) 0 (sorted_list_of_set (set (map (fst \<circ> fst) tok))) Map.empty"

text \<open>Extending the merged list while it is read: a base descriptor is added once, and only if it is new.\<close>

definition merge_descs :: "batch_desc list \<Rightarrow> batch_desc list \<Rightarrow> batch_desc list" where
  "merge_descs adaptive base = fold (\<lambda>d m. if d \<in> set m then m else m @ [d]) base adaptive"

definition merge_candidates :: "candidates \<Rightarrow> candidates \<Rightarrow> candidates" where
  "merge_candidates base adaptive k =
     (case adaptive k of
        None \<Rightarrow> base k
      | Some ds \<Rightarrow> Some (merge_descs ds (case base k of None \<Rightarrow> [] | Some bs \<Rightarrow> bs)))"

section \<open>Fail-closed checks\<close>

definition assert_adaptive_spec_graphs_possible :: "cg_config \<Rightarrow> unit res" where
  "assert_adaptive_spec_graphs_possible cfg =
     res_bind (adaptive_spec_decode_query_lens cfg) (\<lambda>lens. require (lens = []) RuntimeError)"

definition assert_adaptive_spec_graph_coverage :: "cg_config \<Rightarrow> by_mode \<Rightarrow> unit res" where
  "assert_adaptive_spec_graph_coverage cfg capture =
     res_bind (adaptive_spec_decode_query_lens cfg) (\<lambda>lens.
       if lens = [] then Inr ()
       else if \<not> has_full_cudagraphs (cudagraph_mode cfg) then Inl RuntimeError
       else if \<not> separate_routine (cudagraph_mode cfg) then Inr ()
       else let covered = map desc_key (dd_get CG_FULL capture) in
            require (\<forall>(q, n, l) \<in> set (shapes cfg lens). (q * n, Some n, Some q, l) \<in> set covered) RuntimeError)"

text \<open>The constructor's tables: candidate lists and the descriptors to capture per mode.\<close>

definition sort_descs :: "by_mode \<Rightarrow> by_mode" where
  "sort_descs modes = map (\<lambda>(m, ds). (m, sort_key (\<lambda>d. - num_tokens d) ds)) modes"

definition init_candidates :: "cg_config \<Rightarrow> (candidates \<times> by_mode) res" where
  "init_candidates cfg =
     (if \<not> (mode_on (cudagraph_mode cfg) \<and> capture_sizes cfg \<noteq> []) then
        res_bind (assert_adaptive_spec_graphs_possible cfg) (\<lambda>_. Inr (Map.empty, []))
      else
        res_bind (base_descs cfg [(t, l). t \<leftarrow> sort (capture_sizes cfg), l \<leftarrow> lora_capture_cases cfg] ([], [])) (\<lambda>(tok, modes).
        res_bind (init_adaptive_spec_candidates cfg modes) (\<lambda>(modes', atok).
          if tok = [] \<and> atok = [] then
            res_bind (assert_adaptive_spec_graphs_possible cfg) (\<lambda>_. Inr (Map.empty, []))
          else
            let cand = merge_candidates (build_candidate_ranges cfg tok) (build_candidate_ranges cfg atok);
                capture = sort_descs modes'
            in res_bind (assert_adaptive_spec_graph_coverage cfg capture) (\<lambda>_. Inr (cand, capture)))))"

section \<open>The manager\<close>

record cg_manager =
  config :: cg_config
  lora_map :: "(int \<times> int) list \<times> int"
  candidate_lists :: candidates
  capture_descs :: by_mode
  graphs :: "batch_desc list"
  graphs_captured :: bool

definition CudaGraphManager :: "cg_config \<Rightarrow> cg_manager res" where
  "CudaGraphManager cfg0 =
     (let cfg = cfg0\<lparr> lora_capture_cases := (if lora_capture_cases cfg0 = [] then [0] else lora_capture_cases cfg0) \<rparr> in
      res_bind (build_lora_dispatch_map cfg) (\<lambda>lm.
      res_bind (init_candidates cfg) (\<lambda>(cand, capture).
        Inr \<lparr> config = cfg, lora_map = lm, candidate_lists = cand, capture_descs = capture, graphs = [],
              graphs_captured = False \<rparr>)))"

definition needs_capture :: "cg_manager \<Rightarrow> bool" where
  "needs_capture mgr \<longleftrightarrow> 0 < length (capture_descs mgr)"

text \<open>The calls of the capture loop, in order.\<close>

datatype capture_event =
    Create batch_desc bool
  | Forward batch_desc cg_mode
  | Record batch_desc

fun capture_mode :: "bool \<Rightarrow> batch_desc list \<Rightarrow> batch_desc list \<Rightarrow> (capture_event list \<times> batch_desc list) res" where
  "capture_mode brk [] gs = Inr ([], gs)"
| "capture_mode brk (d # ds) gs =
     (if desc_mode d = CG_PIECEWISE then
        res_bind (capture_mode brk ds gs) (\<lambda>(evs, gs').
          Inr ([Create d True, Forward d CG_NONE]
               @ (if brk then [Create d False, Forward d CG_PIECEWISE] else [Forward d CG_PIECEWISE]) @ evs, gs'))
      else if d \<in> set gs then Inl AssertionError
      else res_bind (capture_mode brk ds (gs @ [d])) (\<lambda>(evs, gs').
          Inr ([Create d True, Forward d CG_NONE, Create d False, Forward d CG_NONE, Record d] @ evs, gs')))"

definition capture :: "cg_manager \<Rightarrow> (capture_event list \<times> cg_manager) res" where
  "capture mgr =
     (let brk = use_breakable_cg (config mgr) in
      res_bind (capture_mode brk (dd_get CG_PIECEWISE (capture_descs mgr)) (graphs mgr)) (\<lambda>(evs1, gs1).
      res_bind (capture_mode brk (dd_get CG_FULL (capture_descs mgr)) gs1) (\<lambda>(evs2, gs2).
        Inr (evs1 @ evs2, mgr\<lparr> graphs := gs2, graphs_captured := True \<rparr>))))"

definition dispatch :: "cg_manager \<Rightarrow> int \<Rightarrow> int \<Rightarrow> int option \<Rightarrow> int \<Rightarrow> batch_desc" where
  "dispatch mgr reqs tokens uniform loras =
     (let eff = resolve_effective_loras (lora_map mgr) loras;
          eager = \<lparr> desc_mode = CG_NONE, num_tokens = tokens, num_reqs = Some reqs,
                    uniform_token_count = None, num_active_loras = eff \<rparr>
      in if graphs_captured mgr \<and> 0 < tokens then
           case candidate_lists mgr (tokens, eff) of
             None \<Rightarrow> eager
           | Some ds \<Rightarrow> (case find (\<lambda>d. is_compatible d reqs tokens uniform eff) ds of None \<Rightarrow> eager | Some d \<Rightarrow> d)
         else eager)"

definition run_fullgraph :: "cg_manager \<Rightarrow> batch_desc \<Rightarrow> batch_desc res" where
  "run_fullgraph mgr d =
     res_bind (require (desc_mode d = CG_FULL) AssertionError) (\<lambda>_.
     res_bind (require (d \<in> set (graphs mgr)) AssertionError) (\<lambda>_. Inr d))"

end
