(* ===== verification/Spec_Depth_Props.thy ===== *)
theory Spec_Depth_Props
  imports Spec_Depth
begin

text \<open>
  Properties of the depth ladder and the acceptance-length controller: the contract of the parser, the
  invariant of the controller over every sequence of calls, the window, and the exactness of the
  floating-point thresholds.
\<close>

section \<open>The ladder\<close>

definition is_ladder :: "int \<Rightarrow> int list \<Rightarrow> bool" where
  "is_ladder mx L \<longleftrightarrow> sorted L \<and> distinct L \<and> set L \<subseteq> {1..mx} \<and> L \<noteq> [] \<and> last L = mx"

lemma sorted_le_last: "sorted L \<Longrightarrow> x \<in> set L \<Longrightarrow> x \<le> last (L :: int list)"
  by (induction L rule: rev_induct) (auto simp: sorted_append)

lemma last_sorted_max: "sorted L \<Longrightarrow> x \<in> set L \<Longrightarrow> (\<And>y. y \<in> set L \<Longrightarrow> y \<le> x) \<Longrightarrow> last L = (x :: int)"
  using sorted_le_last[of L x] last_in_set[of L] by fastforce

lemma is_ladder_sorted_list_of_set:
  assumes "finite A" "A \<subseteq> {1..mx}" "mx \<in> A"
  shows "is_ladder mx (sorted_list_of_set A)"
proof -
  have "last (sorted_list_of_set A) = mx" using assms by (intro last_sorted_max) auto
  then show ?thesis using assms by (auto simp: is_ladder_def sorted_list_of_set_eq_Nil_iff)
qed

text \<open>
  C10. The depth parser is total and keeps its promise. For a positive maximum every text gives a sorted
  ladder without duplicates, of depths from 1 to the maximum, that ends in the maximum; when the text
  is a list of ints the rungs are those of its ints that are in range, and the maximum.
\<close>

theorem ladder_contract:
  assumes "0 < mx"
  shows "\<exists>L. parse_adaptive_spec_depth_ladder env mx (Some text) = Inr L
     \<and> sorted L \<and> distinct L \<and> set L \<subseteq> {1..mx} \<and> L \<noteq> [] \<and> last L = mx
     \<and> (\<forall>ds. parse_depths text = Some ds \<longrightarrow> set L = set ds \<inter> {1..mx} \<union> {mx})
     \<and> (parse_depths text = None \<longrightarrow> set L = {2, 4, 5} \<inter> {1..mx} \<union> {mx})"
proof -
  have d: "parse_depths ADAPTIVE_SPEC_DEPTHS_DEFAULT = Some [2, 4, 5]"
    by (simp add: parse_depths_def ADAPTIVE_SPEC_DEPTHS_DEFAULT_def py_int_def strip_def str_space_def
        int_space_def code_def is_digit_def Let_def)
  let ?ds = "case parse_depths text of Some ds \<Rightarrow> ds | None \<Rightarrow> [2, 4, 5]"
  let ?A = "set (filter (\<lambda>d. 1 \<le> d \<and> d \<le> mx) ?ds) \<union> {mx}"
  define L where "L = sorted_list_of_set ?A"
  have eq: "parse_adaptive_spec_depth_ladder env mx (Some text) = Inr L"
    using assms by (cases "parse_depths text") (simp_all add: parse_adaptive_spec_depth_ladder_def Let_def L_def d
        del: filter.simps set_filter Un_insert_right)
  have lad: "is_ladder mx L"
    unfolding L_def using assms by (intro is_ladder_sorted_list_of_set) auto
  have setL: "set L = ?A" unfolding L_def by (rule set_sorted_list_of_set) simp
  have r1: "set L = set ds \<inter> {1..mx} \<union> {mx}" if "parse_depths text = Some ds" for ds
    unfolding setL that by auto
  have r2: "set L = {2, 4, 5} \<inter> {1..mx} \<union> {mx}" if "parse_depths text = None"
    unfolding setL that by auto
  show ?thesis using eq lad unfolding is_ladder_def by (intro exI[of _ L] conjI allI impI r1 r2) auto
qed

theorem ladder_contract_witness:
  "\<exists>L. parse_adaptive_spec_depth_ladder None 5 (Some '' 4, +2,,9'') = Inr L
     \<and> sorted L \<and> distinct L \<and> set L \<subseteq> {1..5} \<and> L \<noteq> [] \<and> last L = 5
     \<and> (\<forall>ds. parse_depths '' 4, +2,,9'' = Some ds \<longrightarrow> set L = set ds \<inter> {1..5} \<union> {5})
     \<and> (parse_depths '' 4, +2,,9'' = None \<longrightarrow> set L = {2, 4, 5} \<inter> {1..5} \<union> {5})"
  by (rule ladder_contract) simp

lemma parse_is_ladder:
  assumes "parse_adaptive_spec_depth_ladder env mx raw = Inr L"
  shows "0 < mx \<and> is_ladder mx L"
proof -
  have mx: "0 < mx" using assms by (auto simp: parse_adaptive_spec_depth_ladder_def split: if_splits)
  obtain A where "finite A" "L = sorted_list_of_set ({d \<in> A. 1 \<le> d \<and> d \<le> mx} \<union> {mx})"
    using assms mx by (auto simp: parse_adaptive_spec_depth_ladder_def Let_def)
  then show ?thesis using mx by (auto intro!: is_ladder_sorted_list_of_set simp del: Un_insert_right)
qed

section \<open>The invariant of the controller\<close>

definition ctrl_inv :: "controller \<Rightarrow> bool" where
  "ctrl_inv c \<longleftrightarrow> 0 < max_num_spec_tokens c \<and> 0 < observation_window c
     \<and> is_ladder (max_num_spec_tokens c) (depth_ladder c) \<and> num_spec_tokens c \<in> set (depth_ladder c)
     \<and> 0 \<le> num_observation_steps c \<and> num_observation_steps c \<le> num_drafts c
     \<and> 0 \<le> num_accepted_tokens c \<and> num_accepted_tokens c \<le> num_draft_tokens c
     \<and> length (position_eligible c) = nat (max_num_spec_tokens c)
     \<and> list_all2 (\<lambda>e a. 0 \<le> a \<and> a \<le> e) (position_eligible c) (position_accepted c)"

lemma controller_ladder_ok:
  assumes "0 < mx"
  shows "is_ladder mx (controller_ladder mx given)"
proof -
  let ?ds = "case given of None \<Rightarrow> [] | Some ds \<Rightarrow> ds"
  let ?A = "set (filter (\<lambda>d. 1 \<le> d \<and> d \<le> mx) ?ds)"
  define L where "L = (if sorted_list_of_set ?A = [] then [1..mx] else sorted_list_of_set ?A)"
  have L: "sorted L" "distinct L" "set L \<subseteq> {1..mx}" "L \<noteq> []"
    using assms by (auto simp: L_def sorted_list_of_set_eq_Nil_iff)
  have fresh: "mx \<notin> set L" if "last L \<noteq> mx"
    using that L(1,3) last_sorted_max[of L mx] by fastforce
  have le: "x \<le> mx" if "x \<in> set L" for x using that L(3) by auto
  have "controller_ladder mx given = (if last L \<noteq> mx then L @ [mx] else L)"
    unfolding controller_ladder_def Let_def L_def by (rule refl)
  then show ?thesis using L fresh le assms by (auto simp: is_ladder_def sorted_append)
qed

lemma controller_init_inv: "AcceptanceLengthController mx w given = Inr c \<Longrightarrow> ctrl_inv c"
  using controller_ladder_ok[of mx given]
  by (auto simp: AcceptanceLengthController_def Let_def ctrl_inv_def is_ladder_def zeros_def list_all2_conv_all_nth
      split: if_splits)

lemma reset_window_inv: "ctrl_inv c \<Longrightarrow> ctrl_inv (reset_window c)"
  by (auto simp: ctrl_inv_def reset_window_def zeros_def list_all2_conv_all_nth)

lemma count_batch_inv:
  "ctrl_inv c \<Longrightarrow> 1 \<le> d \<Longrightarrow> 0 \<le> a \<Longrightarrow> a \<le> t \<Longrightarrow> ctrl_inv (count_batch c d t a)"
  by (auto simp: ctrl_inv_def count_batch_def)

text \<open>Two states that differ at most in the position counters.\<close>

definition same_but_positions :: "controller \<Rightarrow> controller \<Rightarrow> bool" where
  "same_but_positions c c' \<longleftrightarrow>
     c' = c\<lparr> position_eligible := position_eligible c', position_accepted := position_accepted c' \<rparr>"

lemma add_positions_inv:
  assumes "ctrl_inv c" "i + length ps \<le> nat (max_num_spec_tokens c)"
  shows "ctrl_inv (fst (add_positions i ps c)) \<and> same_but_positions c (fst (add_positions i ps c))"
  using assms
proof (induction i ps c rule: add_positions.induct)
  case (2 i e a rest c)
  let ?c = "c\<lparr> position_eligible := (position_eligible c)[i := position_eligible c ! i + e],
            position_accepted := (position_accepted c)[i := position_accepted c ! i + a] \<rparr>"
  have "ctrl_inv ?c" if "\<not> (e < 0 \<or> a < 0 \<or> a > e)"
    using that 2(2,3) by (auto simp: ctrl_inv_def list_all2_conv_all_nth nth_list_update intro: add_mono)
  then show ?case using 2 by (auto simp: same_but_positions_def)
qed (auto simp: same_but_positions_def)

lemma observe_positions_inv:
  "ctrl_inv c \<Longrightarrow> ctrl_inv (fst (observe_positions e a c)) \<and> same_but_positions c (fst (observe_positions e a c))"
  using add_positions_inv[of c 0]
  by (auto simp: observe_positions_def same_but_positions_def split: option.splits prod.splits)


section \<open>Finite quotients and literals\<close>

lemma pow2_1000: "round64 (pow2 1000) = pow2 1000"
  by (rule round64_exact[of _ "2 ^ 52" 948]) (simp_all add: pow2_def)

lemma to_float_small:
  assumes "x \<le> pow2 1000"
  shows "to_float x = Some (round64 x)"
proof -
  have "round64 x \<le> pow2 1000" using round64_mono[OF assms] by (simp add: pow2_1000)
  moreover have "pow2 1000 < pow2 1024" by simp
  ultimately have "round64 x < pow2 1024" by linarith
  then show ?thesis by (simp add: to_float_def Let_def)
qed

lemma quotient_small: "0 \<le> a \<Longrightarrow> a \<le> 2 ^ 1000 \<Longrightarrow> 0 < b \<Longrightarrow> (of_int a / of_int b :: rat) \<le> pow2 1000"
proof -
  assume a: "0 \<le> a" "a \<le> 2 ^ 1000" "0 < b"
  have "(of_int a / of_int b :: rat) \<le> of_int a"
    using a by (simp add: divide_le_eq mult_le_cancel_left1)
  also have "\<dots> \<le> of_int (2 ^ 1000)" using a(2) by (simp only: of_int_le_iff)
  finally show ?thesis by (simp add: pow2_def)
qed

lemma truediv_small:
  "0 \<le> a \<Longrightarrow> a \<le> 2 ^ 1000 \<Longrightarrow> 0 < b \<Longrightarrow> truediv a b = Inr (Some (round64 (of_int a / of_int b)))"
  using to_float_small[OF quotient_small] by (simp add: truediv_def)

lemma round64_at:
  assumes "0 < x" "ilog2 x = k" "- 1022 \<le> k" "rne (x / pow2 (k - 52)) = m"
  shows "round64 x = of_int m * pow2 (k - 52)"
  using assms by (simp add: round64_def ulp_exp_def)

lemma ilog2_literals:
  "ilog2 (17 / 20) = - 1" "ilog2 (7 / 10) = - 1" "ilog2 (7 / 20) = - 2" "ilog2 (3 / 20) = - 3"
  by (rule ilog2_eqI; simp add: pow2_def)+

lemma round64_literals:
  "round64 (17 / 20) = 7656119366529843 / 2 ^ 53"
  "round64 (7 / 10) = 3152519739159347 / 2 ^ 52"
  "round64 (7 / 20) = 3152519739159347 / 2 ^ 53"
  "round64 (3 / 20) = 5404319552844595 / 2 ^ 55"
  by (simp_all add: round64_def ulp_exp_def ilog2_literals pow2_def rne_def Let_def)

text \<open>For each literal a float just below it, for \<open>threshold_exact\<close>.\<close>

lemma below_literals:
  "round64 (7656119366529842 / 2 ^ 53) = 7656119366529842 / 2 ^ 53"
  "round64 (3152519739159346 / 2 ^ 52) = 3152519739159346 / 2 ^ 52"
  "round64 (3152519739159346 / 2 ^ 53) = 3152519739159346 / 2 ^ 53"
  "round64 (5404319552844594 / 2 ^ 55) = 5404319552844594 / 2 ^ 55"
     apply (rule round64_exact[of _ 7656119366529842 "- 53"]; simp add: pow2_def)
    apply (rule round64_exact[of _ 6305039478318692 "- 53"]; simp add: pow2_def)
   apply (rule round64_exact[of _ 6305039478318692 "- 54"]; simp add: pow2_def)
  apply (rule round64_exact[of _ 5404319552844594 "- 55"]; simp add: pow2_def)
  done

lemma lit_eq: "0 \<le> p \<Longrightarrow> p \<le> 100 \<Longrightarrow> 0 < q \<Longrightarrow> lit p q = Some (round64 (of_int p / of_int q))"
  unfolding lit_def by (rule to_float_small, rule quotient_small) simp_all

lemma ratio_ge_lit:
  assumes "0 \<le> n" "n \<le> 2 ^ 1000" "0 < d" "d \<le> 2 ^ 40" "truediv n d = Inr r"
  shows "float_ge r (lit 70 100) \<longleftrightarrow> 7 * d \<le> 10 * n"
    and "float_ge r (lit 35 100) \<longleftrightarrow> 7 * d \<le> 20 * n"
    and "float_ge r (lit 15 100) \<longleftrightarrow> 3 * d \<le> 20 * n"
proof -
  have r: "r = Some (round64 (of_int n / of_int d))" using truediv_small assms by simp
  show "float_ge r (lit 70 100) \<longleftrightarrow> 7 * d \<le> 10 * n"
    using threshold_exact[OF _ assms(3,4) below_literals(2), of 10 7 n] r
    by (simp add: lit_eq round64_literals mult.commute)
  show "float_ge r (lit 35 100) \<longleftrightarrow> 7 * d \<le> 20 * n"
    using threshold_exact[OF _ assms(3,4) below_literals(3), of 20 7 n] r
    by (simp add: lit_eq round64_literals mult.commute)
  show "float_ge r (lit 15 100) \<longleftrightarrow> 3 * d \<le> 20 * n"
    using threshold_exact[OF _ assms(3,4) below_literals(4), of 20 3 n] r
    by (simp add: lit_eq round64_literals mult.commute)
qed

text \<open>The head ratio: a quotient of two rounded means, which may be wrong only when the exact ratio is 0.85.\<close>

lemma mean_bounds:
  assumes "0 \<le> a" "0 < n" "n \<le> 2 ^ 40"
  shows "of_int a / of_int n * (1 - 1 / 2 ^ 53) \<le> round64 (of_int a / of_int n)
    \<and> round64 (of_int a / of_int n) \<le> of_int a / of_int n * (1 + 1 / 2 ^ 53)"
proof (cases "a = 0")
  case False
  have "(1 :: rat) \<le> of_int a" using False assms(1) by simp
  moreover have "(of_int n :: rat) \<le> of_int (2 ^ 40)" using assms(3) by (simp only: of_int_le_iff)
  ultimately have "(1 / 2 ^ 40 :: rat) \<le> of_int a / of_int n" using assms(2) by (intro frac_le) auto
  moreover have "pow2 (- 1022) \<le> pow2 (- 40)" by simp
  moreover have "pow2 (- 40) = 1 / 2 ^ 40" by (simp add: pow2_def)
  ultimately have "pow2 (- 1022) \<le> of_int a / of_int n" by linarith
  then show ?thesis by (rule round64_between)
qed (simp add: round64_def)

lemma head_ratio_exact:
  assumes "0 \<le> a" "0 < t" "t \<le> 2 ^ 40" "0 < n" "n \<le> 2 ^ 40" "100 * a \<noteq> 85 * t"
  defines "A \<equiv> round64 (of_int a / of_int n)" and "T \<equiv> round64 (of_int t / of_int n)"
  shows "0 < T \<and> (round64 (17 / 20) \<le> round64 (A / T) \<longleftrightarrow> 85 * t \<le> 100 * a)"
proof -
  let ?u = "1 / 2 ^ 53 :: rat" and ?a = "of_int a / of_int n :: rat" and ?t = "of_int t / of_int n :: rat"
  have A: "?a * (1 - ?u) \<le> A" "A \<le> ?a * (1 + ?u)" using mean_bounds[of a n] assms by auto
  have T: "?t * (1 - ?u) \<le> T" "T \<le> ?t * (1 + ?u)" using mean_bounds[of t n] assms by auto
  have "0 < ?t * (1 - ?u)" using assms by simp
  then have T0: "0 < T" using T(1) by linarith
  have t40: "(of_int t :: rat) \<le> 2 ^ 40" using assms(3) by (metis of_int_le_iff of_int_numeral of_int_power)
  have up: "17 / 20 \<le> A / T" if "85 * t < 100 * a"
  proof -
    have "(of_int (85 * t + 1) :: rat) \<le> of_int (100 * a)" using that by (simp only: of_int_le_iff)
    then have "17 / 20 * of_int t * (1 + ?u) \<le> of_int a * (1 - ?u)" using t40 by simp
    then have "17 / 20 * (?t * (1 + ?u)) \<le> ?a * (1 - ?u)" using assms(4) by (simp add: field_simps)
    then have "17 / 20 * T \<le> A" using A(1) T(2) by linarith
    then show ?thesis using T0 by (simp add: field_simps)
  qed
  have lo: "A / T \<le> 7656119366529842 / 2 ^ 53" if "100 * a < 85 * t"
  proof -
    have "(of_int (100 * a + 1) :: rat) \<le> of_int (85 * t)" using that by (simp only: of_int_le_iff)
    then have "of_int a * (1 + ?u) \<le> 7656119366529842 / 2 ^ 53 * (of_int t * (1 - ?u))" using t40 by simp
    then have "?a * (1 + ?u) \<le> 7656119366529842 / 2 ^ 53 * (?t * (1 - ?u))" using assms(4) by (simp add: field_simps)
    also have "\<dots> \<le> 7656119366529842 / 2 ^ 53 * T" by (rule mult_left_mono[OF T(1)]) simp
    finally have "A \<le> 7656119366529842 / 2 ^ 53 * T" using A(2) by (meson order_trans)
    then show ?thesis using T0 by (simp add: field_simps)
  qed
  consider "85 * t < 100 * a" | "100 * a < 85 * t" using assms(6) by linarith
  then show ?thesis
  proof cases
    case 1
    then show ?thesis using T0 round64_mono[OF up] by simp
  next
    case 2
    have "round64 (A / T) < round64 (17 / 20)"
      using round64_mono[OF lo[OF 2]] unfolding below_literals(1) by (simp add: round64_literals)
    then show ?thesis using T0 2 by simp
  qed
qed

section \<open>Windows\<close>

lemma fold_max_in: "fold max xs (x :: int) \<in> set (x # xs)"
  by (induction xs arbitrary: x) (auto simp: max_def split: if_splits)

text \<open>Counts that are small enough for every division of the controller to be finite.\<close>

definition small_counts :: "controller \<Rightarrow> bool" where
  "small_counts c \<longleftrightarrow> num_draft_tokens c \<le> 2 ^ 1000 \<and> (\<forall>e \<in> set (position_eligible c). e \<le> 2 ^ 999)"

lemma position_bounds:
  "ctrl_inv c \<Longrightarrow> small_counts c \<Longrightarrow> i < length (position_accepted c) \<Longrightarrow>
   0 \<le> position_accepted c ! i \<and> position_accepted c ! i \<le> 2 ^ 999"
proof -
  assume a: "ctrl_inv c" "small_counts c" "i < length (position_accepted c)"
  then have "i < length (position_eligible c)" "0 \<le> position_accepted c ! i"
    "position_accepted c ! i \<le> position_eligible c ! i"
    by (auto simp: ctrl_inv_def list_all2_conv_all_nth)
  moreover have "position_eligible c ! i \<le> 2 ^ 999"
    using a(2) calculation(1) by (simp add: small_counts_def)
  ultimately show ?thesis by linarith
qed

lemma tail_gain_ok:
  assumes "ctrl_inv c" "small_counts c" "0 < num_drafts c"
  shows "\<exists>r. tail_gain_23 c = Inr (Some r)" and "\<exists>r. position_4_gain c = Inr (Some r)"
proof -
  have p: "0 \<le> position_accepted c ! i \<and> position_accepted c ! i \<le> 2 ^ 999"
    if "i < length (position_accepted c)" for i using position_bounds[OF assms(1,2) that] .
  have "0 \<le> position_accepted c ! 2 + position_accepted c ! 3
      \<and> position_accepted c ! 2 + position_accepted c ! 3 \<le> 2 ^ 1000" if "4 \<le> length (position_accepted c)"
    using p[of 2] p[of 3] that by simp
  then show "\<exists>r. tail_gain_23 c = Inr (Some r)"
    using truediv_small assms(3) by (simp add: tail_gain_23_def)
  have "0 \<le> position_accepted c ! 4 \<and> position_accepted c ! 4 \<le> 2 ^ 1000" if "5 \<le> length (position_accepted c)"
    using p[of 4] that by simp
  then show "\<exists>r. position_4_gain c = Inr (Some r)"
    using truediv_small assms(3) by (simp add: position_4_gain_def)
qed

lemma rates_ok:
  assumes "ctrl_inv c" "small_counts c"
  shows "\<exists>rs. map_res (\<lambda>(e, a). rate a e) (zip (position_eligible c) (position_accepted c)) = Inr rs"
proof -
  have "\<exists>r. rate a e = Inr r" if ea: "(e, a) \<in> set (zip (position_eligible c) (position_accepted c))" for e a
  proof -
    have "0 \<le> a" "a \<le> e" using ea assms(1) by (auto simp: ctrl_inv_def list_all2_iff)
    moreover have "e \<le> 2 ^ 999" using ea assms(2) by (auto simp: small_counts_def dest: set_zip_leftD)
    ultimately show ?thesis using truediv_small[of a e] by (auto simp: rate_def)
  qed
  then obtain g where "\<And>p. p \<in> set (zip (position_eligible c) (position_accepted c)) \<Longrightarrow>
      (\<lambda>(e, a). rate a e) p = Inr (g p)" by (metis (no_types, lifting) case_prodE old.prod.case surj_pair)
  then show ?thesis by (blast intro: map_res_all_Inr)
qed

lemma decide_in_ladder:
  assumes "ctrl_inv c" "decide c ma md tail p4 = Inr (target, ratchet, reason)"
  shows "target \<in> set (depth_ladder c)"
proof (cases "depth_ladder c = [2, 4] \<or> depth_ladder c = [2, 4, 5]")
  case True
  then show ?thesis using assms
    by (auto simp: decide_def decide_ladder_def res_simps ctrl_inv_def split: if_splits)
next
  case False
  let ?t = "\<lambda>f. filter (\<lambda>d. d \<le> min (max_num_spec_tokens c) (max 1 f)) (depth_ladder c)"
  obtain f where t: "target = (if ?t f = [] then hd (depth_ladder c) else fold max (?t f) (hd (?t f)))"
    using False assms(2) by (auto simp: decide_def decide_formula_def Let_def res_simps)
  have "fold max (?t f) (hd (?t f)) \<in> set (depth_ladder c)" if "?t f \<noteq> []"
    using fold_max_in[of "?t f" "hd (?t f)"] hd_in_set[OF that] by auto
  moreover have "depth_ladder c \<noteq> []" using assms(1) by (auto simp: ctrl_inv_def is_ladder_def)
  ultimately show ?thesis using t by auto
qed

lemma decide_ok:
  "(\<exists>x. ma = Some x) \<Longrightarrow> (\<exists>y. md = Some y) \<Longrightarrow> (\<exists>f. float_floor (float_add ma (lit 3 2)) = Inr f) \<Longrightarrow>
   \<exists>r. decide c ma md tail p4 = Inr r"
  by (auto simp: decide_def decide_ladder_def head_ratio_def decide_formula_def Let_def)

lemma pow2_1001: "round64 (pow2 1001) = pow2 1001" "pow2 1000 + 2 \<le> pow2 1001"
  by (rule round64_exact[of _ "2 ^ 52" 949]) (simp_all add: pow2_def)

lemma floor_mean_ok:
  assumes "x \<le> pow2 1000"
  shows "\<exists>f. float_floor (float_add (Some (round64 x)) (lit 3 2)) = Inr f"
proof -
  have "round64 x \<le> pow2 1000" using round64_mono[OF assms] by (simp only: pow2_1000)
  then have "round64 x + 3 / 2 \<le> pow2 1001" using pow2_1001(2) by linarith
  then have "round64 (round64 x + 3 / 2) \<le> pow2 1001" using round64_mono pow2_1001(1) by metis
  moreover have "pow2 1001 < pow2 1024" by simp
  ultimately have "round64 (round64 x + 3 / 2) < pow2 1024" by linarith
  moreover have "round64 (3 / 2) = 3 / 2"
    by (rule round64_exact[of _ "3 * 2 ^ 51" "- 52"]) (simp_all add: pow2_def)
  then have "lit 3 2 = Some (3 / 2)" by (simp add: lit_eq)
  ultimately show ?thesis by (simp add: to_float_def Let_def)
qed

lemma window_update_total:
  assumes "ctrl_inv c" "small_counts c" "0 < num_drafts c"
  shows "\<exists>u. window_update c = Inr u"
proof -
  have cnt: "0 \<le> num_accepted_tokens c" "num_accepted_tokens c \<le> num_draft_tokens c"
    "num_draft_tokens c \<le> 2 ^ 1000" using assms(1,2) unfolding ctrl_inv_def small_counts_def by blast+
  note a = cnt(1) order_trans[OF cnt(2,3)] and d = order_trans[OF cnt(1,2)] cnt(3)
  obtain tail p4 rates where parts: "tail_gain_23 c = Inr tail" "position_4_gain c = Inr p4"
    "map_res (\<lambda>(e, a). rate a e) (zip (position_eligible c) (position_accepted c)) = Inr rates"
    using tail_gain_ok[OF assms] rates_ok[OF assms(1,2)] by blast
  let ?ma = "Some (round64 (of_int (num_accepted_tokens c) / of_int (num_drafts c)))"
  let ?md = "Some (round64 (of_int (num_draft_tokens c) / of_int (num_drafts c)))"
  obtain r where "decide c ?ma ?md tail p4 = Inr r"
    using decide_ok[OF _ _ floor_mean_ok[OF quotient_small[OF a assms(3)]]] by blast
  then show ?thesis
    by (cases r) (simp add: window_update_def truediv_small[OF a assms(3)] truediv_small[OF d assms(3)] parts)
qed

lemma window_update_in_ladder:
  "ctrl_inv c \<Longrightarrow> window_update c = Inr u \<Longrightarrow>
   upd_num_spec_tokens u \<in> set (depth_ladder c) \<and> previous_num_spec_tokens u = num_spec_tokens c"
  by (auto simp: window_update_def res_simps dest: decide_in_ladder)

lemma close_window_inv: "ctrl_inv c \<Longrightarrow> ctrl_inv (fst (close_window c)) \<and> depth_ladder (fst (close_window c)) = depth_ladder c"
proof -
  assume c: "ctrl_inv c"
  have "ctrl_inv (reset_window (c\<lparr> num_spec_tokens := upd_num_spec_tokens u \<rparr>))" if "window_update c = Inr u" for u
    using window_update_in_ladder[OF c that] c by (intro reset_window_inv) (simp add: ctrl_inv_def)
  then show ?thesis using c by (auto simp: close_window_def reset_window_def split: sum.splits)
qed

lemma observe_batch_inv:
  assumes "ctrl_inv c"
  shows "ctrl_inv (fst (observe_batch c d t a e p)) \<and> depth_ladder (fst (observe_batch c d t a e p)) = depth_ladder c"
proof (cases "0 < d \<and> 0 \<le> a \<and> a \<le> t")
  case True
  let ?o = "observe_positions e p (count_batch c d t a)"
  have "ctrl_inv (count_batch c d t a)" using assms True by (intro count_batch_inv) auto
  then have o: "ctrl_inv (fst ?o)" "same_but_positions (count_batch c d t a) (fst ?o)"
    using observe_positions_inv by blast+
  have "depth_ladder (fst ?o) = depth_ladder (count_batch c d t a)"
    using o(2) unfolding same_but_positions_def by (metis controller.select_convs(3) controller.surjective controller.update_convs(9,10))
  then have l: "depth_ladder (fst ?o) = depth_ladder c" by (simp add: count_batch_def)
  obtain c' r where oc: "?o = (c', r)" by fastforce
  have "fst (observe_batch c d t a e p) = fst ?o \<or> fst (observe_batch c d t a e p) = fst (close_window (fst ?o))"
    using True unfolding observe_batch_def oc by (cases r) simp_all
  then show ?thesis using close_window_inv[OF o(1)] o(1) l by auto
qed (use assms in \<open>auto simp: observe_batch_def\<close>)

text \<open>A sequence of calls; the state after a call that raised is kept.\<close>

type_synonym observation = "int \<times> int \<times> int \<times> int list option \<times> int list option"

fun observe_all :: "controller \<Rightarrow> observation list \<Rightarrow> controller" where
  "observe_all c [] = c"
| "observe_all c ((d, t, a, e, p) # os) = observe_all (fst (observe_batch c d t a e p)) os"

text \<open>
  What the users of a depth controller rely on: the depths it can select are the rungs of a ladder, as
  long as its invariant holds, and every observation keeps the invariant.
\<close>

locale depth_selector =
  fixes observe :: "'c \<Rightarrow> 'o \<Rightarrow> 'c" and depth :: "'c \<Rightarrow> int" and inv :: "'c \<Rightarrow> bool" and rungs :: "int set"
  assumes observe_inv: "inv c \<Longrightarrow> inv (observe c x)"
    and depth_rung: "inv c \<Longrightarrow> depth c \<in> rungs"
begin

lemma run_inv: "inv c \<Longrightarrow> inv (foldl observe c xs)"
  by (induction xs arbitrary: c) (auto intro: observe_inv)

lemma run_depth: "inv c \<Longrightarrow> depth (foldl observe c xs) \<in> rungs"
  by (intro depth_rung run_inv)

end

fun observe1 :: "controller \<Rightarrow> observation \<Rightarrow> controller" where
  "observe1 c (d, t, a, e, p) = fst (observe_batch c d t a e p)"

lemma observe_all_foldl: "observe_all c xs = foldl observe1 c xs"
  by (induction c xs rule: observe_all.induct) auto

interpretation ctrl: depth_selector observe1 num_spec_tokens "\<lambda>c. ctrl_inv c \<and> depth_ladder c = L" "set L" for L
proof
  show "ctrl_inv (observe1 c x) \<and> depth_ladder (observe1 c x) = L" if "ctrl_inv c \<and> depth_ladder c = L" for c x
    using observe_batch_inv[of c] that by (cases x) simp
qed (auto simp: ctrl_inv_def)

lemma controller_ladder_id: "is_ladder mx L \<Longrightarrow> controller_ladder mx (Some L) = L"
proof -
  assume L: "is_ladder mx L"
  then have "filter (\<lambda>d. 1 \<le> d \<and> d \<le> mx) L = L" by (auto simp: is_ladder_def filter_id_conv)
  moreover have "sorted_list_of_set (set L) = L"
    using L by (simp add: is_ladder_def sorted_list_of_set.idem_if_sorted_distinct)
  ultimately show ?thesis using L by (simp add: controller_ladder_def is_ladder_def)
qed

text \<open>
  C11. The controller never leaves the parsed ladder. A controller built from the parser's ladder keeps
  exactly that ladder, and after any sequence of observations, raising ones included, its depth is a
  rung of it and its counters are consistent.
\<close>

theorem controller_depth_on_ladder:
  assumes "parse_adaptive_spec_depth_ladder env mx raw = Inr L"
    and "AcceptanceLengthController mx w (Some L) = Inr c0"
  shows "depth_ladder (observe_all c0 os) = L \<and> num_spec_tokens (observe_all c0 os) \<in> set L
    \<and> 0 \<le> num_accepted_tokens (observe_all c0 os)
    \<and> num_accepted_tokens (observe_all c0 os) \<le> num_draft_tokens (observe_all c0 os)
    \<and> list_all2 (\<lambda>e a. 0 \<le> a \<and> a \<le> e) (position_eligible (observe_all c0 os)) (position_accepted (observe_all c0 os))"
proof -
  have "depth_ladder c0 = L"
    using assms parse_is_ladder[OF assms(1)] controller_ladder_id
    by (auto simp: AcceptanceLengthController_def Let_def split: if_splits)
  then have inv: "ctrl_inv c0 \<and> depth_ladder c0 = L" using controller_init_inv[OF assms(2)] by simp
  show ?thesis using ctrl.run_inv[OF inv, of os] ctrl.run_depth[OF inv, of os]
    by (simp add: observe_all_foldl ctrl_inv_def)
qed

theorem controller_depth_on_ladder_witness:
  "num_spec_tokens (observe_all
      \<lparr> max_num_spec_tokens = 5, observation_window = 1, depth_ladder = [2, 4, 5], num_spec_tokens = 2,
        num_observation_steps = 0, num_drafts = 0, num_draft_tokens = 0, num_accepted_tokens = 0,
        position_eligible = [0, 0, 0, 0, 0], position_accepted = [0, 0, 0, 0, 0] \<rparr>
      [(1, 2, 2, Some [1, 1], Some [1, 1]), (1, 4, 4, Some [1, 1], None)]) \<in> set [2, 4, 5]"
proof -
  have p: "parse_adaptive_spec_depth_ladder None 5 None = Inr [2, 4, 5]"
    by (simp add: parse_adaptive_spec_depth_ladder_def parse_depths_def ADAPTIVE_SPEC_DEPTHS_DEFAULT_def py_int_def
        strip_def str_space_def int_space_def code_def is_digit_def Let_def insert_Diff_if
        del: set_filter)
  show ?thesis
    by (rule controller_depth_on_ladder[OF p, where w = 1, THEN conjunct2, THEN conjunct1])
       (simp add: AcceptanceLengthController_def controller_ladder_def Let_def zeros_def eval_nat_numeral del: set_filter)
qed

text \<open>The position counters after a valid batch.\<close>

definition valid_positions :: "controller \<Rightarrow> int list \<Rightarrow> int list \<Rightarrow> bool" where
  "valid_positions c es as \<longleftrightarrow> int (length es) \<le> max_num_spec_tokens c \<and> list_all2 (\<lambda>e a. 0 \<le> a \<and> a \<le> e) es as"

definition at_or_0 :: "int list \<Rightarrow> nat \<Rightarrow> int" where
  "at_or_0 xs i = (if i < length xs then xs ! i else 0)"

lemma add_positions_sum:
  assumes "length es = length as" "\<And>k. k < length es \<Longrightarrow> 0 \<le> as ! k \<and> as ! k \<le> es ! k"
    and "i + length es \<le> length (position_accepted c)"
  shows "snd (add_positions i (zip es as) c) = Inr ()
    \<and> length (position_accepted (fst (add_positions i (zip es as) c))) = length (position_accepted c)
    \<and> (\<forall>j < length (position_accepted c). position_accepted (fst (add_positions i (zip es as) c)) ! j
         = position_accepted c ! j + (if i \<le> j then at_or_0 as (j - i) else 0))"
  using assms
proof (induction es as arbitrary: i c rule: list_induct2)
  case (Cons e es a as)
  let ?c = "c\<lparr> position_eligible := (position_eligible c)[i := position_eligible c ! i + e],
            position_accepted := (position_accepted c)[i := position_accepted c ! i + a] \<rparr>"
  have ok: "0 \<le> a" "a \<le> e" using Cons.prems(1)[of 0] by auto
  have ks: "0 \<le> as ! k \<and> as ! k \<le> es ! k" if "k < length es" for k
    using Cons.prems(1)[of "Suc k"] that by simp
  have IH: "snd (add_positions (Suc i) (zip es as) ?c) = Inr ()
    \<and> length (position_accepted (fst (add_positions (Suc i) (zip es as) ?c))) = length (position_accepted ?c)
    \<and> (\<forall>j < length (position_accepted ?c). position_accepted (fst (add_positions (Suc i) (zip es as) ?c)) ! j
         = position_accepted ?c ! j + (if Suc i \<le> j then at_or_0 as (j - Suc i) else 0))"
    using Cons.prems(2) by (intro Cons.IH ks) simp_all
  have st: "add_positions i (zip (e # es) (a # as)) c = add_positions (Suc i) (zip es as) ?c"
    using ok by simp
  have at: "(if i \<le> j then at_or_0 (a # as) (j - i) else 0)
      = (if j = i then a else if Suc i \<le> j then at_or_0 as (j - Suc i) else 0)" for j
  proof (cases "Suc i \<le> j")
    case True
    then obtain m where "j = Suc i + m" using le_Suc_ex by blast
    then show ?thesis by (simp add: at_or_0_def)
  qed (auto simp: at_or_0_def)
  show ?case unfolding st at using IH Cons.prems(2) by (auto simp: nth_list_update)
qed (simp add: at_or_0_def)

text \<open>A valid batch, inside and at the end of a window.\<close>

lemma observe_batch_effect:
  assumes "ctrl_inv c" "1 \<le> d" "0 \<le> a" "a \<le> t" "valid_positions c es as"
    and k_def: "k = fst (observe_positions (Some es) (Some as) (count_batch c d t a))"
    and "small_counts k"
  shows "num_drafts k = num_drafts c + d \<and> num_draft_tokens k = num_draft_tokens c + t
    \<and> num_accepted_tokens k = num_accepted_tokens c + a
    \<and> (\<forall>j < length (position_accepted c). position_accepted k ! j = position_accepted c ! j + at_or_0 as j)
    \<and> (if num_observation_steps c + 1 < effective_observation_window c
       then observe_batch c d t a (Some es) (Some as) = (k, Inr None)
       else \<exists>u. window_update k = Inr u
              \<and> observe_batch c d t a (Some es) (Some as) =
                  (reset_window (k\<lparr> num_spec_tokens := upd_num_spec_tokens u \<rparr>), Inr (Some u))
              \<and> upd_num_spec_tokens u \<in> set (depth_ladder c))"
proof -
  let ?b = "count_batch c d t a"
  have b: "ctrl_inv ?b" using assms by (intro count_batch_inv) auto
  have len: "length es = length as" "length es \<le> length (position_accepted ?b)"
    and ks: "\<And>i. i < length es \<Longrightarrow> 0 \<le> as ! i \<and> as ! i \<le> es ! i"
    using assms(5) b by (auto simp: valid_positions_def list_all2_conv_all_nth ctrl_inv_def count_batch_def)
  have obs: "observe_positions (Some es) (Some as) ?b = add_positions 0 (zip es as) ?b"
    using len assms(5) by (simp add: observe_positions_def valid_positions_def count_batch_def)
  have sum: "snd (add_positions 0 (zip es as) ?b) = Inr ()"
      "\<forall>j < length (position_accepted ?b). position_accepted k ! j = position_accepted ?b ! j + at_or_0 as j"
    using add_positions_sum[OF len(1) ks, of 0 ?b] len(2) by (simp_all add: k_def obs)
  have k: "ctrl_inv k" "same_but_positions ?b k" using observe_positions_inv[OF b] by (auto simp: k_def)
  then have same: "num_drafts k = num_drafts c + d" "num_draft_tokens k = num_draft_tokens c + t"
    "num_accepted_tokens k = num_accepted_tokens c + a" "num_observation_steps k = num_observation_steps c + 1"
    "effective_observation_window k = effective_observation_window c" "depth_ladder k = depth_ladder c"
    by (cases k; simp add: same_but_positions_def count_batch_def effective_observation_window_def)+
  have ob: "observe_batch c d t a (Some es) (Some as) = close_window k"
    using assms(2-4) sum(1) by (cases "add_positions 0 (zip es as) ?b") (simp add: observe_batch_def obs k_def)
  have "0 < num_drafts k" using assms(1,2) same(1) by (auto simp: ctrl_inv_def)
  then have "\<exists>u. window_update k = Inr u" by (rule window_update_total[OF k(1) assms(7)])
  then show ?thesis using same sum(2) ob window_update_in_ladder[OF k(1)]
    by (auto simp: close_window_def count_batch_def)
qed

text \<open>
  A window of valid batches ends in exactly one decision. A valid batch before the end of the
  window only adds its counts, position by position, and returns nothing; at the end of the window it
  returns the decision taken on the full counts, with the new depth a rung of the ladder, and clears
  every counter. No exception escapes as long as the counts stay below astronomically large bounds.
\<close>

lemma observe_batch_window:
  assumes "ctrl_inv c" "1 \<le> d" "0 \<le> a" "a \<le> t" "valid_positions c es as"
  defines "k \<equiv> fst (observe_positions (Some es) (Some as) (count_batch c d t a))"
  assumes "small_counts k"
  shows "num_drafts k = num_drafts c + d \<and> num_draft_tokens k = num_draft_tokens c + t
    \<and> num_accepted_tokens k = num_accepted_tokens c + a
    \<and> (\<forall>j < length (position_accepted c). position_accepted k ! j = position_accepted c ! j + at_or_0 as j)
    \<and> (if num_observation_steps c + 1 < effective_observation_window c
       then observe_batch c d t a (Some es) (Some as) = (k, Inr None)
       else \<exists>u. window_update k = Inr u
              \<and> observe_batch c d t a (Some es) (Some as) =
                  (reset_window (k\<lparr> num_spec_tokens := upd_num_spec_tokens u \<rparr>), Inr (Some u))
              \<and> upd_num_spec_tokens u \<in> set (depth_ladder c))"
  by (rule observe_batch_effect[OF assms(1-5) meta_eq_to_obj_eq[OF k_def] assms(7)])

definition demo_ctrl :: "int \<Rightarrow> int \<Rightarrow> controller" where
  "demo_ctrl depth window = \<lparr> max_num_spec_tokens = 5, observation_window = window, depth_ladder = [2, 4, 5],
     num_spec_tokens = depth, num_observation_steps = 0, num_drafts = 0, num_draft_tokens = 0,
     num_accepted_tokens = 0, position_eligible = [0, 0, 0, 0, 0], position_accepted = [0, 0, 0, 0, 0] \<rparr>"

lemma demo_ctrl_inv: "depth \<in> {2, 4, 5} \<Longrightarrow> 0 < w \<Longrightarrow> ctrl_inv (demo_ctrl depth w)"
  by (auto simp: ctrl_inv_def demo_ctrl_def is_ladder_def)

lemma observe_batch_window_witness:
  "observe_batch (demo_ctrl 4 4) 3 12 8 (Some [3, 3, 3, 3]) (Some [3, 3, 1, 1])
   = (fst (observe_positions (Some [3, 3, 3, 3]) (Some [3, 3, 1, 1]) (count_batch (demo_ctrl 4 4) 3 12 8)), Inr None)"
  using observe_batch_window[OF demo_ctrl_inv[of 4 4], of 3 8 12 "[3, 3, 3, 3]" "[3, 3, 1, 1]"]
  by (simp add: valid_positions_def small_counts_def demo_ctrl_def effective_observation_window_def
      observe_positions_def count_batch_def)

section \<open>The production policy\<close>

text \<open>The policy of the ladders (2, 4) and (2, 4, 5) on exact ratios of the counts.\<close>

definition exact_target :: "controller \<Rightarrow> int" where
  "exact_target c =
     (let tail = position_accepted c ! 2 + position_accepted c ! 3; n = num_drafts c in
      if num_spec_tokens c = 2 then if 85 * num_draft_tokens c \<le> 100 * num_accepted_tokens c then 4 else 2
      else if num_spec_tokens c = 4 then
        if depth_ladder c = [2, 4, 5] \<and> 7 * n \<le> 10 * tail then 5
        else if 7 * n \<le> 20 * tail then 4 else 2
      else if 3 * n \<le> 20 * (position_accepted c ! 4) then 5
      else if 7 * n \<le> 20 * tail then 4 else 2)"

lemma decide_ladder_exact_head:
  assumes "0 \<le> a" "a \<le> t" "0 < n" "n \<le> 2 ^ 40" "t \<le> 2 ^ 40" "100 * a \<noteq> 85 * t"
  shows "\<exists>h. head_ratio (Some (round64 (of_int a / of_int n))) (Some (round64 (of_int t / of_int n))) = Inr h
    \<and> (float_ge h (lit 85 100) \<longleftrightarrow> 85 * t \<le> 100 * a)"
proof -
  let ?A = "round64 (of_int a / of_int n)" and ?T = "round64 (of_int t / of_int n)"
  have t: "0 < t" using assms by (cases "t = 0") auto
  have T: "0 < ?T" and iff: "round64 (17 / 20) \<le> round64 (?A / ?T) \<longleftrightarrow> 85 * t \<le> 100 * a"
    using head_ratio_exact[OF assms(1) t assms(5,3,4,6)] by auto
  have "?A \<le> ?T" using assms(2,3) by (intro round64_mono divide_right_mono) auto
  then have "?A / ?T \<le> 1" using T by simp
  also have "(1 :: rat) \<le> pow2 1000" by (simp add: pow2_def)
  finally have "to_float (?A / ?T) = Some (round64 (?A / ?T))" by (rule to_float_small)
  then show ?thesis using T iff by (simp add: head_ratio_def lit_eq)
qed

lemma ladder_positions:
  assumes "ctrl_inv c" "depth_ladder c = [2, 4] \<or> depth_ladder c = [2, 4, 5]"
  shows "4 \<le> length (position_accepted c)" "5 \<in> set (depth_ladder c) \<Longrightarrow> 5 \<le> length (position_accepted c)"
    "num_spec_tokens c \<in> {2, 4, 5}" "num_spec_tokens c = 5 \<Longrightarrow> 5 \<in> set (depth_ladder c)"
  using assms by (auto simp: ctrl_inv_def is_ladder_def dest: list_all2_lengthD)

lemma gains_exact:
  assumes "ctrl_inv c" "small_counts c" "0 < num_drafts c" "num_drafts c \<le> 2 ^ 40"
    and "4 \<le> length (position_accepted c)" "tail_gain_23 c = Inr tail" "position_4_gain c = Inr p4"
  defines "s \<equiv> position_accepted c ! 2 + position_accepted c ! 3"
  shows "float_ge tail (lit 70 100) \<longleftrightarrow> 7 * num_drafts c \<le> 10 * s"
    and "float_ge tail (lit 35 100) \<longleftrightarrow> 7 * num_drafts c \<le> 20 * s"
    and "5 \<le> length (position_accepted c) \<Longrightarrow>
         float_ge p4 (lit 15 100) \<longleftrightarrow> 3 * num_drafts c \<le> 20 * (position_accepted c ! 4)"
proof -
  note pb = position_bounds[OF assms(1,2)]
  have "(2 ^ 999 + 2 ^ 999 :: int) = 2 ^ 1000" by simp
  then have s: "0 \<le> s" "s \<le> 2 ^ 1000" using pb[of 2] pb[of 3] assms(5) unfolding s_def by linarith+
  have td: "truediv s (num_drafts c) = Inr tail" using assms(3,5,6) by (simp add: tail_gain_23_def s_def)
  show "float_ge tail (lit 70 100) \<longleftrightarrow> 7 * num_drafts c \<le> 10 * s"
    "float_ge tail (lit 35 100) \<longleftrightarrow> 7 * num_drafts c \<le> 20 * s"
    by (rule ratio_ge_lit[OF s assms(3,4) td])+
  assume l: "5 \<le> length (position_accepted c)"
  have "(2 ^ 999 :: int) \<le> 2 ^ 1000" by (rule power_increasing) simp_all
  then have p: "0 \<le> position_accepted c ! 4" "position_accepted c ! 4 \<le> 2 ^ 1000"
    using pb[of 4] l by linarith+
  have "truediv (position_accepted c ! 4) (num_drafts c) = Inr p4"
    using assms(3,7) l by (simp add: position_4_gain_def)
  then show "float_ge p4 (lit 15 100) \<longleftrightarrow> 3 * num_drafts c \<le> 20 * (position_accepted c ! 4)"
    by (rule ratio_ge_lit[OF p assms(3,4)])
qed

lemma window_decision:
  assumes "ctrl_inv c" "small_counts c" "depth_ladder c = [2, 4] \<or> depth_ladder c = [2, 4, 5]" "0 < num_drafts c"
  shows "\<exists>u tail p4 ratchet reason. window_update c = Inr u
    \<and> tail_gain_23 c = Inr tail \<and> position_4_gain c = Inr p4
    \<and> decide_ladder c (Some (round64 (of_int (num_accepted_tokens c) / of_int (num_drafts c))))
        (Some (round64 (of_int (num_draft_tokens c) / of_int (num_drafts c)))) tail p4
      = Inr (upd_num_spec_tokens u, ratchet, reason)"
proof -
  have cnt: "0 \<le> num_accepted_tokens c" "num_accepted_tokens c \<le> num_draft_tokens c"
    "num_draft_tokens c \<le> 2 ^ 1000" using assms(1,2) unfolding ctrl_inv_def small_counts_def by blast+
  obtain u where "window_update c = Inr u" using window_update_total[OF assms(1,2,4)] by blast
  then show ?thesis
    using assms(3) truediv_small[OF cnt(1) order_trans[OF cnt(2,3)] assms(4)]
      truediv_small[OF order_trans[OF cnt(1,2)] cnt(3) assms(4)]
    unfolding window_update_def decide_def res_bind_eq_Inr by auto
qed

text \<open>
  C12. The floating-point policy is the exact policy. On the production ladders, for windows of at most
  \<open>2 ^ 40\<close> drafts and draft tokens, the depth chosen with the rounded means, gains and literals is the one
  chosen with exact fractions, except that at depth 2 the ratio must not be exactly 0.85.
\<close>

theorem policy_is_exact:
  assumes "ctrl_inv c" "depth_ladder c = [2, 4] \<or> depth_ladder c = [2, 4, 5]"
    and "0 < num_drafts c" "num_drafts c \<le> 2 ^ 40" "num_draft_tokens c \<le> 2 ^ 40"
    and "small_counts c" "100 * num_accepted_tokens c \<noteq> 85 * num_draft_tokens c"
  shows "\<exists>u. window_update c = Inr u \<and> upd_num_spec_tokens u = exact_target c"
proof -
  have cnt: "0 \<le> num_accepted_tokens c" "num_accepted_tokens c \<le> num_draft_tokens c"
    using assms(1) by (auto simp: ctrl_inv_def)
  let ?ma = "Some (round64 (of_int (num_accepted_tokens c) / of_int (num_drafts c)))"
  let ?md = "Some (round64 (of_int (num_draft_tokens c) / of_int (num_drafts c)))"
  obtain u tail p4 ratchet reason where u: "window_update c = Inr u"
    and g: "tail_gain_23 c = Inr tail" "position_4_gain c = Inr p4"
    and d: "decide_ladder c ?ma ?md tail p4 = Inr (upd_num_spec_tokens u, ratchet, reason)"
    using window_decision[OF assms(1,6,2,3)] by blast
  note lp = ladder_positions[OF assms(1,2)]
  note ge = gains_exact[OF assms(1,6,3,4) lp(1) g]
  obtain h where h: "head_ratio ?ma ?md = Inr h"
    "float_ge h (lit 85 100) \<longleftrightarrow> 85 * num_draft_tokens c \<le> 100 * num_accepted_tokens c"
    using decide_ladder_exact_head[OF cnt(1,2) assms(3,4,5,7)] by blast
  have "upd_num_spec_tokens u = exact_target c"
    using d lp(2,3,4) unfolding decide_ladder_def h(1) exact_target_def
    by (auto simp: h(2) ge Let_def split: if_splits)
  then show ?thesis using u by blast
qed

definition demo_counts :: "int \<Rightarrow> int \<Rightarrow> int \<Rightarrow> int \<Rightarrow> controller" where
  "demo_counts depth drafts tokens accepted = (demo_ctrl depth 1)\<lparr> num_observation_steps := 1, num_drafts := drafts,
     num_draft_tokens := tokens, num_accepted_tokens := accepted,
     position_eligible := [10, 10, 10, 10, 0], position_accepted := [9, 8, 4, 3, 0] \<rparr>"

theorem policy_is_exact_witness:
  "\<exists>u. window_update (demo_counts 4 10 40 24) = Inr u \<and> upd_num_spec_tokens u = exact_target (demo_counts 4 10 40 24)"
  by (rule policy_is_exact)
     (simp_all add: demo_counts_def demo_ctrl_def ctrl_inv_def is_ladder_def small_counts_def)

lemma round64_means:
  "round64 (17 / 14) = 5468656690378459 / 2 ^ 52" "round64 (10 / 7) = 6433713753386423 / 2 ^ 52"
proof -
  have l: "ilog2 (17 / 14) = 0" "ilog2 (10 / 7) = 0" by (rule ilog2_eqI; simp add: pow2_def)+
  show "round64 (17 / 14) = 5468656690378459 / 2 ^ 52" "round64 (10 / 7) = 6433713753386423 / 2 ^ 52"
    by (simp_all add: round64_def ulp_exp_def l pow2_def rne_def Let_def)
qed

lemma round64_tie: "round64 (5468656690378459 / 6433713753386423) = 7656119366529842 / 2 ^ 53"
proof -
  have l: "ilog2 (5468656690378459 / 6433713753386423) = - 1" by (rule ilog2_eqI; simp add: pow2_def)
  show ?thesis by (simp add: round64_def ulp_exp_def l pow2_def rne_def Let_def)
qed

text \<open>
  The excluded case is real. With 14 drafts, 20 draft tokens and 17 accepted tokens the acceptance
  ratio is exactly 0.85, the threshold, and the exact policy probes depth 4; the controller divides two
  rounded means, gets a float below the literal and stays at depth 2.
\<close>

theorem threshold_tie_rounds_down:
  "exact_target (demo_counts 2 14 20 17) = 4
   \<and> (\<exists>u. window_update (demo_counts 2 14 20 17) = Inr u \<and> upd_num_spec_tokens u = 2)"
proof -
  let ?c = "demo_counts 2 14 20 17"
  have "ctrl_inv ?c" "small_counts ?c" "depth_ladder ?c = [2, 4] \<or> depth_ladder ?c = [2, 4, 5]" "0 < num_drafts ?c"
    by (simp_all add: demo_counts_def demo_ctrl_def ctrl_inv_def is_ladder_def small_counts_def)
  from window_decision[OF this] obtain u tail p4 ratchet reason where u: "window_update ?c = Inr u"
    and d: "decide_ladder ?c (Some (round64 (17 / 14))) (Some (round64 (10 / 7))) tail p4
      = Inr (upd_num_spec_tokens u, ratchet, reason)" by (auto simp: demo_counts_def)
  have "to_float (5468656690378459 / 6433713753386423) = Some (7656119366529842 / 2 ^ 53)"
    by (subst to_float_small) (simp_all add: round64_tie pow2_def)
  then have "head_ratio (Some (round64 (17 / 14))) (Some (round64 (10 / 7))) = Inr (Some (7656119366529842 / 2 ^ 53))"
    by (simp add: head_ratio_def round64_means)
  moreover have "num_spec_tokens ?c = 2" by (simp add: demo_counts_def demo_ctrl_def)
  ultimately have "upd_num_spec_tokens u = 2"
    using d by (simp add: decide_ladder_def lit_eq round64_literals)
  moreover have "exact_target ?c = 4" by (simp add: exact_target_def demo_counts_def demo_ctrl_def Let_def)
  ultimately show ?thesis using u by blast
qed

end
