(* ===== verification/Cuda_Graphs_Props.thy ===== *)
theory Cuda_Graphs_Props
  imports Cuda_Graphs Spec_Depth_Props
begin

text \<open>
  Properties of the CUDA-graph manager: the tables it builds are consistent, a dispatched graph was
  captured and fits the batch, and every depth of the ladder that passed the coverage check runs on a
  captured FULL graph.
\<close>

section \<open>Lemmas on the containers\<close>

lemma map_of_dd_append:
  "map_of (dd_append k v d) k' = (if k' = k then Some (dd_get k d @ [v]) else map_of d k')"
  by (induction d) (auto simp: dd_get_def)

lemma dd_get_append: "dd_get k' (dd_append k v d) = (if k' = k then dd_get k d @ [v] else dd_get k' d)"
  by (simp add: dd_get_def[of k'] map_of_dd_append)

lemma dd_get_touch [simp]: "dd_get k' (dd_touch k d) = dd_get k' d"
  by (auto simp: dd_get_def dd_touch_def map_add_def split: option.splits)

lemma dd_get_Nil [simp]: "dd_get k [] = []"
  by (simp add: dd_get_def)

lemma dd_append_neq_Nil [simp]: "dd_append k v d \<noteq> []"
  by (cases d) (auto split: prod.splits if_splits)

lemma dd_get_map_of: "x \<in> set (dd_get k d) \<Longrightarrow> map_of d k = Some (dd_get k d)"
  by (cases "map_of d k") (simp_all add: dd_get_def)

lemma dd_keys_append: "fst ` set (dd_append k v d) = insert k (fst ` set d)"
proof (induction d)
  case (Cons x d)
  then show ?case by (cases x; cases "fst x = k") (simp_all add: insert_commute)
qed simp

lemma dd_get_sort_descs: "dd_get m (sort_descs modes) = sort_key (\<lambda>d. - num_tokens d) (dd_get m modes)"
  by (induction modes) (auto simp: dd_get_def sort_descs_def)

lemma find_append_Some:
  "x \<in> set xs \<Longrightarrow> P x \<Longrightarrow> \<exists>y \<in> set xs. find P (xs @ ys) = Some y \<and> P y"
  by (induction xs) auto

lemma merge_descs_append: "merge_descs ds (A @ B) = merge_descs (merge_descs ds A) B"
  by (simp add: merge_descs_def)

lemma merge_descs_prefix: "\<exists>C. merge_descs ds bs = ds @ C \<and> set ds \<union> set bs = set (merge_descs ds bs)"
proof (induction bs rule: rev_induct)
  case (snoc b bs)
  then show ?case by (auto simp: merge_descs_def)
qed (simp add: merge_descs_def)

lemma range_entries_at:
  "range_entries tok cases sz is cand (i, l) =
     (if i \<in> set is \<and> l \<in> set cases \<and> map_of tok (sz, l) \<noteq> None then map_of tok (sz, l) else cand (i, l))"
proof (induction "is" arbitrary: cand)
  case (Cons j js)
  have inner: "fold (\<lambda>l c. case map_of tok (sz, l) of Some ds \<Rightarrow> c((j, l) \<mapsto> ds) | None \<Rightarrow> c) cases cand (i, l) =
     (if i = j \<and> l \<in> set cases \<and> map_of tok (sz, l) \<noteq> None then map_of tok (sz, l) else cand (i, l))"
    by (induction cases arbitrary: cand) (auto split: option.splits)
  show ?case unfolding range_entries.simps Cons.IH inner by auto
qed simp

lemma build_ranges_below:
  assumes "i < start" "\<forall>s \<in> set szs. start \<le> s" "sorted_wrt (<) szs"
  shows "build_ranges tok cases start szs cand (i, l) = cand (i, l)"
  using assms
proof (induction szs arbitrary: start cand)
  case (Cons s szs)
  have "build_ranges tok cases (s + 1) szs (range_entries tok cases s [start..s] cand) (i, l)
      = range_entries tok cases s [start..s] cand (i, l)"
    using Cons.prems by (intro Cons.IH) auto
  then show ?case using Cons.prems by (simp add: range_entries_at)
qed simp

lemma build_ranges_exact:
  assumes "sorted_wrt (<) szs" "k \<in> set szs" "\<forall>s \<in> set szs. start \<le> s" "l \<in> set cases" "map_of tok (k, l) = Some ds"
  shows "build_ranges tok cases start szs cand (k, l) = Some ds"
  using assms
proof (induction szs arbitrary: start cand)
  case (Cons s szs)
  show ?case
  proof (cases "k = s")
    case True
    have "build_ranges tok cases (s + 1) szs (range_entries tok cases s [start..s] cand) (s, l)
        = range_entries tok cases s [start..s] cand (s, l)"
      using Cons.prems by (intro build_ranges_below) auto
    then show ?thesis using True Cons.prems by (simp add: range_entries_at)
  next
    case False
    then show ?thesis using Cons.prems by (auto intro!: Cons.IH)
  qed
qed simp

lemma build_ranges_mem:
  "build_ranges tok cases start szs cand (i, l) = Some ds \<Longrightarrow>
   cand (i, l) = Some ds \<or> (\<exists>k. map_of tok (k, l) = Some ds)"
proof (induction szs arbitrary: start cand)
  case (Cons s szs)
  then have "range_entries tok cases s [start..s] cand (i, l) = Some ds \<or> (\<exists>k. map_of tok (k, l) = Some ds)"
    by simp
  then show ?case by (auto simp: range_entries_at split: if_splits)
qed simp

lemma candidate_ranges_exact:
  assumes "x \<in> set (dd_get (k, l) tok)" "l \<in> set (lora_capture_cases cfg)" "\<forall>k \<in> fst ` set tok. 0 \<le> fst k"
  shows "build_candidate_ranges cfg tok (k, l) = Some (dd_get (k, l) tok)"
proof -
  have m: "map_of tok (k, l) = Some (dd_get (k, l) tok)" using dd_get_map_of[OF assms(1)] .
  then have "((k, l), dd_get (k, l) tok) \<in> set tok" by (rule map_of_SomeD)
  then have "k \<in> set (map (fst \<circ> fst) tok)" by force
  then show ?thesis unfolding build_candidate_ranges_def
    using assms(2,3) m by (intro build_ranges_exact) (auto simp: strict_sorted_list_of_set)
qed

lemma candidate_ranges_mem:
  assumes "build_candidate_ranges cfg tok (i, l) = Some ds" "d \<in> set ds"
  shows "\<exists>k. d \<in> set (dd_get (k, l) tok)"
proof -
  obtain k where "map_of tok (k, l) = Some ds"
    using build_ranges_mem[OF assms(1)[unfolded build_candidate_ranges_def]] by auto
  then show ?thesis using assms(2) by (auto simp: dd_get_def intro!: exI[of _ k])
qed

section \<open>Consistency of the tables\<close>

text \<open>
  Both tables hold the same descriptors, each under its own key; decode descriptors have the decode mode
  and come first in every bucket; descriptors without a uniform token count stand under a pair of size
  and LoRA case that was handled already.
\<close>

definition decode_first :: "batch_desc list \<Rightarrow> bool" where
  "decode_first ds \<longleftrightarrow> (\<exists>A B. ds = A @ B \<and> (\<forall>d \<in> set A. uniform_token_count d \<noteq> None)
     \<and> (\<forall>d \<in> set B. uniform_token_count d = None))"

definition tables_ok :: "cg_config \<Rightarrow> (int \<times> int) set \<Rightarrow> by_token_lora \<times> by_mode \<Rightarrow> bool" where
  "tables_ok cfg handled tabs \<longleftrightarrow> (case tabs of (tok, modes) \<Rightarrow>
     (\<forall>m d. d \<in> set (dd_get m modes) \<longrightarrow> desc_mode d = m \<and> m \<noteq> CG_NONE
        \<and> d \<in> set (dd_get (num_tokens d, num_active_loras d) tok)
        \<and> (if uniform_token_count d = None then (num_tokens d, num_active_loras d) \<in> handled
           else m = decode_mode (cudagraph_mode cfg)))
     \<and> (\<forall>k d. d \<in> set (dd_get k tok) \<longrightarrow> k = (num_tokens d, num_active_loras d) \<and> d \<in> set (dd_get (desc_mode d) modes))
     \<and> (\<forall>k. decode_first (dd_get k tok)) \<and> (\<forall>m. distinct (dd_get m modes)) \<and> (\<forall>k \<in> fst ` set tok. 0 \<le> fst k))"

lemma decode_first_snoc_mixed: "decode_first ds \<Longrightarrow> uniform_token_count d = None \<Longrightarrow> decode_first (ds @ [d])"
  by (fastforce simp: decode_first_def)

lemma decode_first_snoc_decode:
  "\<forall>x \<in> set ds. uniform_token_count x \<noteq> None \<Longrightarrow> uniform_token_count d \<noteq> None \<Longrightarrow> decode_first (ds @ [d])"
  unfolding decode_first_def by (rule exI[of _ "ds @ [d]"], rule exI[of _ "[]"]) auto

lemma tables_ok_touch: "tables_ok cfg H (tok, dd_touch m modes) = tables_ok cfg H (tok, modes)"
  by (simp add: tables_ok_def)

lemma tables_ok_modeD:
  "tables_ok cfg H (tok, modes) \<Longrightarrow> d \<in> set (dd_get m modes) \<Longrightarrow> desc_mode d = m \<and> m \<noteq> CG_NONE
   \<and> d \<in> set (dd_get (num_tokens d, num_active_loras d) tok)
   \<and> (uniform_token_count d = None \<longrightarrow> (num_tokens d, num_active_loras d) \<in> H)
   \<and> (uniform_token_count d \<noteq> None \<longrightarrow> m = decode_mode (cudagraph_mode cfg))"
  by (simp add: tables_ok_def split: if_splits)

lemma tables_ok_tokD:
  "tables_ok cfg H (tok, modes) \<Longrightarrow> d \<in> set (dd_get k tok) \<Longrightarrow>
   k = (num_tokens d, num_active_loras d) \<and> d \<in> set (dd_get (desc_mode d) modes)"
  by (cases k) (simp add: tables_ok_def)

lemma tables_okI:
  assumes "\<And>m d. d \<in> set (dd_get m modes) \<Longrightarrow> desc_mode d = m \<and> m \<noteq> CG_NONE
        \<and> d \<in> set (dd_get (num_tokens d, num_active_loras d) tok)
        \<and> (uniform_token_count d = None \<longrightarrow> (num_tokens d, num_active_loras d) \<in> H)
        \<and> (uniform_token_count d \<noteq> None \<longrightarrow> m = decode_mode (cudagraph_mode cfg))"
    and "\<And>k d. d \<in> set (dd_get k tok) \<Longrightarrow> k = (num_tokens d, num_active_loras d) \<and> d \<in> set (dd_get (desc_mode d) modes)"
    and "\<And>k. decode_first (dd_get k tok)" "\<And>m. distinct (dd_get m modes)" "\<And>k. k \<in> fst ` set tok \<Longrightarrow> 0 \<le> fst k"
  shows "tables_ok cfg H (tok, modes)"
  unfolding tables_ok_def prod.case using assms by (intro conjI allI impI ballI) simp_all

lemma tables_ok_add:
  assumes "tables_ok cfg H (tok, modes)" "d \<notin> set (dd_get (desc_mode d) modes)" "desc_mode d \<noteq> CG_NONE"
    and "0 \<le> num_tokens d" "H \<subseteq> H'"
    and "if uniform_token_count d = None then (num_tokens d, num_active_loras d) \<in> H'
         else desc_mode d = decode_mode (cudagraph_mode cfg) \<and> (num_tokens d, num_active_loras d) \<notin> H"
  shows "tables_ok cfg H' (dd_append (num_tokens d, num_active_loras d) d tok, dd_append (desc_mode d) d modes)"
proof -
  have "decode_first (dd_get (num_tokens d, num_active_loras d) tok @ [d])"
  proof (cases "uniform_token_count d = None")
    case True
    then show ?thesis using assms(1) by (intro decode_first_snoc_mixed) (auto simp: tables_ok_def)
  next
    case False
    have "uniform_token_count x \<noteq> None" if "x \<in> set (dd_get (num_tokens d, num_active_loras d) tok)" for x
      using tables_ok_tokD[OF assms(1) that] tables_ok_modeD[OF assms(1), of x "desc_mode x"] assms(6) False by auto
    then show ?thesis using False by (intro decode_first_snoc_decode) auto
  qed
  note first = this
  show ?thesis
  proof (rule tables_okI, goal_cases)
    case (1 m x)
    then show ?case using tables_ok_modeD[OF assms(1), of x m] assms(3,5,6) by (auto simp: dd_get_append split: if_splits)
  next
    case (2 k x)
    then show ?case using tables_ok_tokD[OF assms(1), of x k] by (auto simp: dd_get_append split: if_splits)
  next
    case (3 k)
    then show ?case using first assms(1) by (cases k) (simp add: dd_get_append tables_ok_def)
  next
    case (4 m)
    then show ?case using assms(1,2) by (simp add: dd_get_append tables_ok_def)
  next
    case (5 k)
    then show ?case using assms(1,4) by (auto simp: dd_keys_append tables_ok_def)
  qed
qed

lemma tables_ok_mono:
  assumes "tables_ok cfg H (tok, modes)" "H \<subseteq> H'"
  shows "tables_ok cfg H' (tok, modes)"
proof (rule tables_okI, goal_cases)
  case (1 m d)
  then show ?case using tables_ok_modeD[OF assms(1) 1] assms(2) by blast
next
  case (2 k d)
  then show ?case by (rule tables_ok_tokD[OF assms(1)])
qed (use assms(1) in \<open>auto simp: tables_ok_def\<close>)

lemma decode_descs_ok:
  assumes "is_round_up (round_up cfg)" "0 \<le> t" "decode_mode (cudagraph_mode cfg) \<noteq> CG_NONE"
    and "(t, l) \<notin> H" "\<forall>(t', l') \<in> H. t' \<le> t"
  shows "decode_descs cfg t l qs tabs = Inr tabs' \<Longrightarrow> \<forall>q \<in> set qs. 0 < q \<Longrightarrow> tables_ok cfg H tabs \<Longrightarrow> tables_ok cfg H tabs'"
  using assms
proof (induction cfg t l qs tabs rule: decode_descs.induct)
  case (2 cfg t l q qs tok modes)
  let ?mode = "decode_mode (cudagraph_mode cfg)" and ?r = "round_up cfg t q"
  obtain reqs skip where fd: "floordiv ?r q = Inr reqs" and tl: "too_large cfg ?r reqs = Inr skip"
    using 2(2) by (auto simp: res_simps Let_def)
  let ?d = "decode_desc ?mode ?r reqs q l"
  let ?next = "if skip \<or> ?d \<in> set (dd_get ?mode modes) then (tok, if skip then modes else dd_touch ?mode modes)
           else (dd_append (?r, l) ?d tok, dd_append ?mode ?d modes)"
  have rec: "decode_descs cfg t l qs ?next = Inr tabs'" using 2(2) fd tl by (simp add: Let_def)
  have "0 < q" using 2(3) by simp
  then have r: "t \<le> ?r" using 2(5) by (simp add: is_round_up_def)
  have notH: "(?r, l) \<notin> H" using r 2(8,9) by fastforce
  have "tables_ok cfg H ?next"
  proof (cases "skip \<or> ?d \<in> set (dd_get ?mode modes)")
    case True
    then show ?thesis using 2(4) by (auto simp: tables_ok_touch)
  next
    case False
    then have "tables_ok cfg H (dd_append (num_tokens ?d, num_active_loras ?d) ?d tok, dd_append (desc_mode ?d) ?d modes)"
      using 2(4,6,7) r notH by (intro tables_ok_add[of cfg H]) (auto simp: decode_desc_def)
    then show ?thesis using False by (simp add: decode_desc_def)
  qed
  then show ?case using 2(1)[OF refl refl refl rec] 2(3,5-9) by simp
qed simp

lemma size_descs_ok:
  assumes "is_round_up (round_up cfg)" "0 \<le> t" "\<forall>q \<in> set (base_query_lens cfg). 0 < q"
    and "(t, l) \<notin> H" "\<forall>(t', l') \<in> H. t' \<le> t" "tables_ok cfg H tabs" "size_descs cfg (t, l) tabs = Inr tabs'"
  shows "tables_ok cfg (insert (t, l) H) tabs'"
proof -
  let ?m = "cudagraph_mode cfg" and ?d = "mixed_desc cfg t l"
  obtain tok modes where
    dec: "(if separate_routine ?m \<and> decode_mode ?m \<noteq> CG_NONE then decode_descs cfg t l (base_query_lens cfg) tabs else Inr tabs) = Inr (tok, modes)"
    and t': "tabs' = (if mixed_mode ?m \<noteq> CG_NONE then (dd_append (t, l) ?d tok, dd_append (mixed_mode ?m) ?d modes) else (tok, modes))"
    using assms(7) by (auto simp: size_descs_def Let_def res_bind_eq_Inr)
  have ok: "tables_ok cfg H (tok, modes)"
    using dec decode_descs_ok[OF assms(1,2) _ assms(4,5) _ assms(3,6)] assms(6) by (auto split: if_splits)
  have d: "num_tokens ?d = t" "num_active_loras ?d = l" "desc_mode ?d = mixed_mode ?m" "uniform_token_count ?d = None"
    by (simp_all add: mixed_desc_def Let_def)
  show ?thesis
  proof (cases "mixed_mode ?m = CG_NONE")
    case True
    then show ?thesis using ok t' by (auto intro: tables_ok_mono)
  next
    case False
    have "?d \<notin> set (dd_get (mixed_mode ?m) modes)" using tables_ok_modeD[OF ok, of ?d] d assms(4) by auto
    then have "tables_ok cfg (insert (t, l) H) (dd_append (num_tokens ?d, num_active_loras ?d) ?d tok, dd_append (desc_mode ?d) ?d modes)"
      using False assms(2) d ok by (intro tables_ok_add) auto
    then show ?thesis using False t' d by simp
  qed
qed

lemma base_descs_ok:
  assumes "is_round_up (round_up cfg)" "\<forall>q \<in> set (base_query_lens cfg). 0 < q"
  shows "base_descs cfg shs tabs = Inr tabs' \<Longrightarrow> sorted (map fst shs) \<Longrightarrow> distinct shs \<Longrightarrow> \<forall>(t, l) \<in> set shs. 0 \<le> t \<Longrightarrow>
    H \<inter> set shs = {} \<Longrightarrow> \<forall>(t', l') \<in> H. \<forall>(t, l) \<in> set shs. t' \<le> t \<Longrightarrow> tables_ok cfg H tabs \<Longrightarrow>
    tables_ok cfg (H \<union> set shs) tabs'"
proof (induction shs arbitrary: H tabs)
  case (Cons sh shs)
  obtain t l where sh: "sh = (t, l)" by fastforce
  obtain tabs1 where s1: "size_descs cfg (t, l) tabs = Inr tabs1" and s2: "base_descs cfg shs tabs1 = Inr tabs'"
    using Cons.prems(1) by (auto simp: res_simps sh)
  have "tables_ok cfg (insert (t, l) H) tabs1"
    using Cons.prems(2-) s1 sh by (intro size_descs_ok[OF assms(1) _ assms(2)]) auto
  then have "tables_ok cfg (insert (t, l) H \<union> set shs) tabs'"
    using Cons.prems(2-6) sh by (intro Cons.IH[OF s2]) auto
  then show ?case by (simp add: sh)
qed simp

section \<open>Descriptors of the ladder\<close>

definition adaptive_ok :: "cg_mode \<Rightarrow> by_mode \<Rightarrow> by_mode \<Rightarrow> by_token_lora \<Rightarrow> bool" where
  "adaptive_ok mode modes0 modes tok \<longleftrightarrow>
     (\<forall>m d. d \<in> set (dd_get m modes) \<longleftrightarrow>
        d \<in> set (dd_get m modes0) \<or> m = mode \<and> d \<in> set (dd_get (num_tokens d, num_active_loras d) tok))
     \<and> (\<forall>k d. d \<in> set (dd_get k tok) \<longrightarrow> k = (num_tokens d, num_active_loras d) \<and> desc_mode d = mode
          \<and> uniform_token_count d \<noteq> None)
     \<and> (\<forall>m. distinct (dd_get m modes)) \<and> (\<forall>k \<in> fst ` set tok. 0 \<le> fst k)"

lemma adaptive_descs_ok:
  assumes "adaptive_descs cfg shs (existing, modes, tok) = (modes', tok')"
    and "\<forall>(q, n, l) \<in> set shs. 0 \<le> q * n" "mode = decode_mode (cudagraph_mode cfg)"
    and "set existing = desc_key ` set (dd_get mode modes)" "adaptive_ok mode modes0 modes tok"
  shows "adaptive_ok mode modes0 modes' tok'"
  using assms
proof (induction shs arbitrary: existing modes tok)
  case (Cons sh shs)
  obtain q n l where sh: "sh = (q, n, l)" by (cases sh)
  let ?d = "decode_desc mode (q * n) n q l"
  show ?case
  proof (cases "adaptive_skip cfg (q * n) \<or> desc_key ?d \<in> set existing")
    case True
    then show ?thesis using Cons sh by (auto simp: Let_def)
  next
    case False
    have new: "?d \<notin> set (dd_get mode modes)" using False Cons.prems(4) by auto
    have d: "num_tokens ?d = q * n" "num_active_loras ?d = l" "desc_mode ?d = mode" "uniform_token_count ?d = Some q"
      by (simp_all add: decode_desc_def)
    have "adaptive_ok mode modes0 (dd_append mode ?d modes) (dd_append (q * n, l) ?d tok)"
      using Cons.prems(2,5) new d sh unfolding adaptive_ok_def
      by (intro conjI) (auto simp: dd_get_append dd_keys_append)
    moreover have "set (existing @ [desc_key ?d]) = desc_key ` set (dd_get mode (dd_append mode ?d modes))"
      using Cons.prems(4) by (simp add: dd_get_append)
    moreover have "adaptive_descs cfg shs (existing @ [desc_key ?d], dd_append mode ?d modes, dd_append (q * n, l) ?d tok)
        = (modes', tok')" using Cons.prems(1,3) False sh by (simp add: Let_def)
    ultimately show ?thesis using Cons.IH[OF _ _ Cons.prems(3)] Cons.prems(2) by auto
  qed
qed (simp add: adaptive_ok_def)

lemma adaptive_lens:
  assumes "adaptive_spec_decode_query_lens cfg = Inr lens" "lens \<noteq> []"
  shows "\<exists>L. parse_adaptive_spec_depth_ladder (depths_env cfg) (num_speculative_tokens cfg) None = Inr L
    \<and> lens = map (\<lambda>d. d + (decode_query_len cfg - num_speculative_tokens cfg)) L
    \<and> 1 \<le> decode_query_len cfg - num_speculative_tokens cfg"
  using assms by (auto simp: adaptive_spec_decode_query_lens_def Let_def res_simps split: option.splits if_splits)

lemma adaptive_lens_pos: "adaptive_spec_decode_query_lens cfg = Inr lens \<Longrightarrow> q \<in> set lens \<Longrightarrow> 2 \<le> q"
proof -
  assume a: "adaptive_spec_decode_query_lens cfg = Inr lens" "q \<in> set lens"
  then obtain L where "parse_adaptive_spec_depth_ladder (depths_env cfg) (num_speculative_tokens cfg) None = Inr L"
    "lens = map (\<lambda>d. d + (decode_query_len cfg - num_speculative_tokens cfg)) L"
    "1 \<le> decode_query_len cfg - num_speculative_tokens cfg" using adaptive_lens by fastforce
  then show ?thesis using a(2) parse_is_ladder by (fastforce simp: is_ladder_def)
qed

lemma init_adaptive_ok:
  assumes "init_adaptive_spec_candidates cfg modes = Inr (modes', atok)" "tables_ok cfg H (tok, modes)"
  shows "adaptive_ok (decode_mode (cudagraph_mode cfg)) modes modes' atok
    \<and> (\<forall>k d. d \<in> set (dd_get k atok) \<longrightarrow> desc_mode d \<noteq> CG_NONE)"
proof -
  let ?mode = "decode_mode (cudagraph_mode cfg)"
  obtain lens where lens: "adaptive_spec_decode_query_lens cfg = Inr lens"
    using assms(1) by (auto simp: init_adaptive_spec_candidates_def res_simps)
  have dist: "\<forall>m. distinct (dd_get m modes)" using assms(2) by (simp add: tables_ok_def)
  have base: "adaptive_ok ?mode modes modes []" "adaptive_ok ?mode modes (dd_touch ?mode modes) []"
    using dist by (auto simp: adaptive_ok_def)
  show ?thesis
  proof (cases "lens = [] \<or> \<not> separate_routine (cudagraph_mode cfg) \<or> ?mode = CG_NONE")
    case True
    then show ?thesis using assms(1) lens base(1) by (auto simp: init_adaptive_spec_candidates_def Let_def)
  next
    case False
    have "adaptive_ok ?mode modes modes' atok"
    proof (rule adaptive_descs_ok[OF _ _ refl _ base(2)])
      show "adaptive_descs cfg (shapes cfg lens) (map desc_key (dd_get ?mode modes), dd_touch ?mode modes, []) = (modes', atok)"
        using assms(1) lens False by (simp add: init_adaptive_spec_candidates_def Let_def)
      show "\<forall>(q, n, l) \<in> set (shapes cfg lens). 0 \<le> q * n"
        using adaptive_lens_pos[OF lens] by (force simp: shapes_def)
    qed simp
    then show ?thesis using False by (auto simp: adaptive_ok_def)
  qed
qed

section \<open>The tables of a constructed manager\<close>

text \<open>
  What the configuration is assumed to be: \<^verbatim>\<open>round_up\<close> rounds up, query lengths and capture sizes are
  positive, and neither the capture sizes nor the LoRA cases are repeated.
\<close>

definition good_config :: "cg_config \<Rightarrow> bool" where
  "good_config cfg \<longleftrightarrow> is_round_up (round_up cfg) \<and> (\<forall>q \<in> set (base_query_lens cfg). 0 < q)
     \<and> (\<forall>t \<in> set (capture_sizes cfg). 0 < t) \<and> distinct (capture_sizes cfg) \<and> distinct (lora_capture_cases cfg)"

definition manager_ok :: "cg_config \<Rightarrow> candidates \<Rightarrow> by_mode \<Rightarrow> bool" where
  "manager_ok cfg cand cap \<longleftrightarrow>
     (\<forall>m d. d \<in> set (dd_get m cap) \<longrightarrow> desc_mode d = m \<and> m \<noteq> CG_NONE)
     \<and> (\<forall>m. distinct (dd_get m cap))
     \<and> (\<forall>i l ds d. cand (i, l) = Some ds \<longrightarrow> d \<in> set ds \<longrightarrow> d \<in> set (dd_get (desc_mode d) cap))
     \<and> (\<forall>m d. d \<in> set (dd_get m cap) \<longrightarrow> uniform_token_count d \<noteq> None \<longrightarrow>
          num_active_loras d \<in> set (lora_capture_cases cfg) \<longrightarrow>
          (\<exists>A B. cand (num_tokens d, num_active_loras d) = Some (A @ B) \<and> d \<in> set A
             \<and> (\<forall>x \<in> set A. desc_mode x = decode_mode (cudagraph_mode cfg))))"

lemma manager_okD:
  assumes "manager_ok cfg cand cap"
  shows "d \<in> set (dd_get m cap) \<Longrightarrow> desc_mode d = m \<and> m \<noteq> CG_NONE" and "distinct (dd_get m cap)"
    and "cand (i, l) = Some ds \<Longrightarrow> d \<in> set ds \<Longrightarrow> d \<in> set (dd_get (desc_mode d) cap)"
    and "d \<in> set (dd_get m cap) \<Longrightarrow> uniform_token_count d \<noteq> None \<Longrightarrow>
      num_active_loras d \<in> set (lora_capture_cases cfg) \<Longrightarrow>
      \<exists>A B. cand (num_tokens d, num_active_loras d) = Some (A @ B) \<and> d \<in> set A
        \<and> (\<forall>x \<in> set A. desc_mode x = decode_mode (cudagraph_mode cfg))"
  using assms unfolding manager_ok_def by blast+

lemma sorted_product: "sorted ts \<Longrightarrow> sorted (map fst [(t, l). t \<leftarrow> ts, l \<leftarrow> ls])"
  by (induction ts) (auto simp: sorted_append comp_def map_replicate_const)

lemma distinct_product: "distinct ts \<Longrightarrow> distinct ls \<Longrightarrow> distinct [(t, l). t \<leftarrow> ts, l \<leftarrow> ls]"
  by (induction ts) (auto simp: distinct_map inj_on_def)

lemma base_tables_ok:
  assumes "good_config cfg"
    and "base_descs cfg [(t, l). t \<leftarrow> sort (capture_sizes cfg), l \<leftarrow> lora_capture_cases cfg] ([], []) = Inr (tok, modes)"
  shows "\<exists>H. tables_ok cfg H (tok, modes)"
proof -
  let ?shs = "[(t, l). t \<leftarrow> sort (capture_sizes cfg), l \<leftarrow> lora_capture_cases cfg]"
  have "tables_ok cfg {} ([], [])"
    by (rule tables_okI) (auto simp: decode_first_def)
  then have "tables_ok cfg ({} \<union> set ?shs) (tok, modes)"
    using assms unfolding good_config_def
    by (intro base_descs_ok[OF _ _ assms(2)] sorted_product distinct_product) (auto simp: less_imp_le)
  then show ?thesis by blast
qed

lemma merge_candidates_mem:
  assumes "merge_candidates base ad k = Some ds" "d \<in> set ds"
  shows "(\<exists>bs. base k = Some bs \<and> d \<in> set bs) \<or> (\<exists>as. ad k = Some as \<and> d \<in> set as)"
proof (cases "ad k")
  case (Some as)
  have "set as \<union> set (case base k of None \<Rightarrow> [] | Some bs \<Rightarrow> bs) = set ds"
    using assms(1) Some merge_descs_prefix[of as "case base k of None \<Rightarrow> [] | Some bs \<Rightarrow> bs"] by (auto simp: merge_candidates_def)
  then show ?thesis using assms(2) Some by (cases "base k") auto
qed (use assms in \<open>auto simp: merge_candidates_def\<close>)

text \<open>A descriptor of the ladder's table, or in the decode part of a base bucket, is reached first.\<close>

lemma merge_candidates_adaptive:
  assumes "ad k = Some as"
  shows "\<exists>B. merge_candidates base ad k = Some (as @ B)"
  using merge_descs_prefix[of as] assms by (fastforce simp: merge_candidates_def)

lemma merge_candidates_base:
  assumes "base k = Some (A0 @ B0)" "d \<in> set A0"
  shows "\<exists>A B. merge_candidates base ad k = Some (A @ B) \<and> d \<in> set A
    \<and> set A \<subseteq> set A0 \<union> (case ad k of None \<Rightarrow> {} | Some as \<Rightarrow> set as)"
proof (cases "ad k")
  case None
  then show ?thesis using assms by (auto simp: merge_candidates_def)
next
  case (Some as)
  obtain C where C: "merge_descs (merge_descs as A0) B0 = merge_descs as A0 @ C" using merge_descs_prefix by metis
  have "set as \<union> set A0 = set (merge_descs as A0)" using merge_descs_prefix by metis
  then show ?thesis using assms Some C by (auto simp: merge_candidates_def merge_descs_append)
qed

lemma manager_tables_ok:
  assumes "tables_ok cfg H (tok, modes)" "adaptive_ok (decode_mode (cudagraph_mode cfg)) modes modes' atok"
    and "\<forall>k d. d \<in> set (dd_get k atok) \<longrightarrow> desc_mode d \<noteq> CG_NONE"
  shows "manager_ok cfg (merge_candidates (build_candidate_ranges cfg tok) (build_candidate_ranges cfg atok)) (sort_descs modes')"
    (is "manager_ok cfg ?cand ?cap")
proof -
  let ?mode = "decode_mode (cudagraph_mode cfg)"
  have in_modes: "d \<in> set (dd_get m modes') \<longleftrightarrow> d \<in> set (dd_get m modes)
      \<or> m = ?mode \<and> d \<in> set (dd_get (num_tokens d, num_active_loras d) atok)" for m d
    using assms(2) by (simp add: adaptive_ok_def)
  have in_atok: "k = (num_tokens d, num_active_loras d) \<and> desc_mode d = ?mode" if "d \<in> set (dd_get k atok)" for k d
    using assms(2) that by (cases k) (auto simp: adaptive_ok_def)
  have akeys: "\<forall>k \<in> fst ` set atok. 0 \<le> fst k" using assms(2) unfolding adaptive_ok_def by (elim conjE)
  have cap: "set (dd_get m ?cap) = set (dd_get m modes')" for m by (simp add: dd_get_sort_descs)
  have c1: "desc_mode d = m \<and> m \<noteq> CG_NONE" if "d \<in> set (dd_get m modes')" for m d
  proof (cases "d \<in> set (dd_get m modes)")
    case True
    then show ?thesis using tables_ok_modeD[OF assms(1)] by blast
  next
    case False
    then have "m = ?mode" "d \<in> set (dd_get (num_tokens d, num_active_loras d) atok)" using that in_modes by blast+
    then show ?thesis using in_atok assms(3) by metis
  qed
  have c2: "distinct (dd_get m ?cap)" for m
    using assms(2) by (simp add: dd_get_sort_descs adaptive_ok_def)
  have c3: "d \<in> set (dd_get (desc_mode d) modes')" if "?cand (i, l) = Some ds" "d \<in> set ds" for i l ds d
    using merge_candidates_mem[OF that]
  proof (elim disjE exE conjE)
    fix bs assume "build_candidate_ranges cfg tok (i, l) = Some bs" "d \<in> set bs"
    then obtain k where "d \<in> set (dd_get (k, l) tok)" using candidate_ranges_mem by blast
    then show ?thesis using tables_ok_tokD[OF assms(1)] in_modes by blast
  next
    fix as assume "build_candidate_ranges cfg atok (i, l) = Some as" "d \<in> set as"
    then obtain k where "d \<in> set (dd_get (k, l) atok)" using candidate_ranges_mem by blast
    then show ?thesis using in_atok in_modes by metis
  qed
  have c4: "\<exists>A B. ?cand (num_tokens d, num_active_loras d) = Some (A @ B) \<and> d \<in> set A \<and> (\<forall>x \<in> set A. desc_mode x = ?mode)"
    if d: "d \<in> set (dd_get m modes')" and u: "uniform_token_count d \<noteq> None"
      and l: "num_active_loras d \<in> set (lora_capture_cases cfg)" for m d
  proof -
    let ?k = "(num_tokens d, num_active_loras d)"
    have as_mode: "\<forall>x \<in> (case build_candidate_ranges cfg atok ?k of None \<Rightarrow> {} | Some as \<Rightarrow> set as). desc_mode x = ?mode"
      using candidate_ranges_mem[of cfg atok] in_atok by (force split: option.splits)
    show ?thesis
    proof (cases "d \<in> set (dd_get ?k atok)")
      case True
      then have "build_candidate_ranges cfg atok ?k = Some (dd_get ?k atok)"
        using l akeys by (rule candidate_ranges_exact)
      then obtain B where "?cand ?k = Some (dd_get ?k atok @ B)" using merge_candidates_adaptive by blast
      moreover have "\<forall>x \<in> set (dd_get ?k atok). desc_mode x = ?mode" using in_atok by blast
      ultimately show ?thesis using True by blast
    next
      case False
      then have dm: "d \<in> set (dd_get m modes)" using d in_modes by blast
      then have dt: "d \<in> set (dd_get ?k tok)" using tables_ok_modeD[OF assms(1)] by blast
      have "decode_first (dd_get ?k tok)" using assms(1) by (simp add: tables_ok_def)
      then obtain A B where AB: "dd_get ?k tok = A @ B" "\<forall>x \<in> set A. uniform_token_count x \<noteq> None"
        "\<forall>x \<in> set B. uniform_token_count x = None"
        unfolding decode_first_def by blast
      have "build_candidate_ranges cfg tok ?k = Some (A @ B)"
        using candidate_ranges_exact[OF dt l] assms(1) AB(1) by (simp add: tables_ok_def)
      moreover have "d \<in> set A" using dt AB u by auto
      moreover have modeA: "desc_mode x = ?mode" if "x \<in> set A" for x
        using tables_ok_tokD[OF assms(1), of x ?k] tables_ok_modeD[OF assms(1), of x "desc_mode x"] AB that by auto
      ultimately obtain A' B' where "?cand ?k = Some (A' @ B')" "d \<in> set A'" "set A' \<subseteq> set A
          \<union> (case build_candidate_ranges cfg atok ?k of None \<Rightarrow> {} | Some as \<Rightarrow> set as)"
        using merge_candidates_base[of "build_candidate_ranges cfg tok" ?k A B d] by blast
      then show ?thesis using as_mode modeA by (intro exI[of _ A'] exI[of _ B']) (simp add: subset_iff, blast)
    qed
  qed
  show ?thesis unfolding manager_ok_def cap using c1 c2 c3 c4 by blast
qed

lemma manager_init_ok:
  assumes "good_config cfg" "init_candidates cfg = Inr (cand, cap)"
  shows "manager_ok cfg cand cap"
proof -
  have empty: "manager_ok cfg Map.empty []" by (simp add: manager_ok_def)
  show ?thesis
  proof (cases "mode_on (cudagraph_mode cfg) \<and> capture_sizes cfg \<noteq> []")
    case False
    then show ?thesis using assms(2) empty by (auto simp: init_candidates_def res_simps)
  next
    case True
    obtain tok modes modes' atok where b: "base_descs cfg [(t, l). t \<leftarrow> sort (capture_sizes cfg), l \<leftarrow> lora_capture_cases cfg] ([], []) = Inr (tok, modes)"
      and a: "init_adaptive_spec_candidates cfg modes = Inr (modes', atok)"
      and r: "(cand = Map.empty \<and> cap = []) \<or>
        (cand = merge_candidates (build_candidate_ranges cfg tok) (build_candidate_ranges cfg atok) \<and> cap = sort_descs modes')"
      using assms(2) True by (auto simp: init_candidates_def res_simps Let_def split: if_splits)
    obtain H where "tables_ok cfg H (tok, modes)" using base_tables_ok[OF assms(1) b] by blast
    then show ?thesis using manager_tables_ok init_adaptive_ok[OF a] r empty by metis
  qed
qed

definition with_lora_default :: "cg_config \<Rightarrow> cg_config" where
  "with_lora_default cfg = cfg\<lparr> lora_capture_cases := (if lora_capture_cases cfg = [] then [0] else lora_capture_cases cfg) \<rparr>"

lemma manager_created:
  assumes "CudaGraphManager cfg = Inr mgr" "good_config cfg"
  shows "manager_ok (config mgr) (candidate_lists mgr) (capture_descs mgr)" and "config mgr = with_lora_default cfg"
    and "graphs mgr = []" "\<not> graphs_captured mgr"
    and "init_candidates (config mgr) = Inr (candidate_lists mgr, capture_descs mgr)"
    and "build_lora_dispatch_map (config mgr) = Inr (lora_map mgr)"
proof -
  show c: "config mgr = with_lora_default cfg" "graphs mgr = []" "\<not> graphs_captured mgr"
    and i: "init_candidates (config mgr) = Inr (candidate_lists mgr, capture_descs mgr)"
    and "build_lora_dispatch_map (config mgr) = Inr (lora_map mgr)"
    using assms(1) by (auto simp: CudaGraphManager_def with_lora_default_def Let_def res_simps)
  have "base_query_lens (with_lora_default cfg) = base_query_lens cfg"
    by (simp add: base_query_lens_def with_lora_default_def split: option.splits)
  then have "good_config (config mgr)" using assms(2) c(1) by (auto simp: good_config_def with_lora_default_def)
  then show "manager_ok (config mgr) (candidate_lists mgr) (capture_descs mgr)" using i by (rule manager_init_ok)
qed

section \<open>Capture\<close>

lemma capture_mode_piecewise:
  "\<forall>d \<in> set ds. desc_mode d = CG_PIECEWISE \<Longrightarrow> \<exists>evs. capture_mode brk ds gs = Inr (evs, gs)"
  by (induction ds) auto

lemma capture_mode_full:
  "\<forall>d \<in> set ds. desc_mode d \<noteq> CG_PIECEWISE \<Longrightarrow> distinct ds \<Longrightarrow> set ds \<inter> set gs = {} \<Longrightarrow>
   \<exists>evs. capture_mode brk ds gs = Inr (evs, gs @ ds)"
proof (induction ds arbitrary: gs)
  case (Cons d ds)
  obtain evs where "capture_mode brk ds (gs @ [d]) = Inr (evs, (gs @ [d]) @ ds)"
    using Cons.IH[of "gs @ [d]"] Cons.prems by auto
  then show ?case using Cons.prems by simp
qed simp

lemma capture_ok:
  assumes "manager_ok cfg cand (capture_descs mgr)" "graphs mgr = []"
  shows "\<exists>evs. capture mgr = Inr (evs, mgr\<lparr> graphs := dd_get CG_FULL (capture_descs mgr), graphs_captured := True \<rparr>)"
proof -
  let ?P = "dd_get CG_PIECEWISE (capture_descs mgr)" and ?F = "dd_get CG_FULL (capture_descs mgr)"
  have m: "\<forall>d \<in> set ?P. desc_mode d = CG_PIECEWISE" "\<forall>d \<in> set ?F. desc_mode d \<noteq> CG_PIECEWISE" "distinct ?F"
    using assms(1) unfolding manager_ok_def by fastforce+
  obtain e1 where e1: "capture_mode (use_breakable_cg (config mgr)) ?P [] = Inr (e1, [])"
    using capture_mode_piecewise[OF m(1)] by blast
  obtain e2 where e2: "capture_mode (use_breakable_cg (config mgr)) ?F [] = Inr (e2, ?F)"
    using capture_mode_full[OF m(2,3), of "[]"] by auto
  show ?thesis using e1 e2 assms(2) by (simp add: capture_def Let_def)
qed

section \<open>Dispatch\<close>

lemma dispatch_cases:
  assumes "desc_mode (dispatch mgr reqs tokens uniform l) \<noteq> CG_NONE"
  shows "\<exists>ds. candidate_lists mgr (tokens, resolve_effective_loras (lora_map mgr) l) = Some ds
    \<and> dispatch mgr reqs tokens uniform l \<in> set ds
    \<and> is_compatible (dispatch mgr reqs tokens uniform l) reqs tokens uniform (resolve_effective_loras (lora_map mgr) l)"
proof -
  let ?e = "resolve_effective_loras (lora_map mgr) l"
  obtain ds where ds: "candidate_lists mgr (tokens, ?e) = Some ds" "graphs_captured mgr" "0 < tokens"
    using assms by (cases "candidate_lists mgr (tokens, ?e)") (auto simp: dispatch_def Let_def split: if_splits)
  then obtain y where y: "find (\<lambda>d. is_compatible d reqs tokens uniform ?e) ds = Some y"
    using assms by (cases "find (\<lambda>d. is_compatible d reqs tokens uniform ?e) ds") (auto simp: dispatch_def Let_def)
  then have "y \<in> set ds" "is_compatible y reqs tokens uniform ?e" by (auto simp: find_Some_iff)
  then show ?thesis using ds y by (simp add: dispatch_def Let_def)
qed

lemma dispatch_found:
  assumes "graphs_captured mgr" "0 < tokens" "e = resolve_effective_loras (lora_map mgr) l"
    and "candidate_lists mgr (tokens, e) = Some (A @ B)" "x \<in> set A" "is_compatible x reqs tokens uniform e"
  shows "dispatch mgr reqs tokens uniform l \<in> set A
    \<and> is_compatible (dispatch mgr reqs tokens uniform l) reqs tokens uniform e"
proof -
  obtain y where "y \<in> set A" "find (\<lambda>d. is_compatible d reqs tokens uniform e) (A @ B) = Some y"
    "is_compatible y reqs tokens uniform e"
    using find_append_Some[of x A "\<lambda>d. is_compatible d reqs tokens uniform e" B] assms(5,6) by blast
  then show ?thesis using assms(1-4) by (simp add: dispatch_def Let_def)
qed

lemma captured_manager:
  assumes "CudaGraphManager cfg = Inr mgr0" "good_config cfg" "capture mgr0 = Inr (evs, mgr)"
  shows "mgr = mgr0\<lparr> graphs := dd_get CG_FULL (capture_descs mgr0), graphs_captured := True \<rparr>"
  using capture_ok[OF manager_created(1,3)[OF assms(1,2)]] assms(3) by auto

definition demo_graph_config :: "cg_mode \<Rightarrow> bool \<Rightarrow> int list \<Rightarrow> string \<Rightarrow> cg_config" where
  "demo_graph_config mixed separate sizes depths =
     \<lparr> max_num_reqs = 2,
       cudagraph_mode = \<lparr> mode_on = True, decode_mode = CG_FULL, mixed_mode = mixed, separate_routine = separate,
                           has_full_cudagraphs = True \<rparr>,
       decode_query_len = 6, lora_capture_cases = [], capture_sizes = sizes, max_cudagraph_capture_size = Some 12,
       speculative_config = Some \<lparr> num_speculative_tokens_per_batch_size = None,
                                   adaptive_speculative_tokens_window = Some 8 \<rparr>,
       num_speculative_tokens = 5, depths_env = Some depths, round_up = round_up_ref, use_breakable_cg = False \<rparr>"

abbreviation demo_cfg_graphs :: cg_config where
  "demo_cfg_graphs \<equiv> demo_graph_config CG_PIECEWISE True [6, 12] ''2,4,5''"

text \<open>The manager of a configuration whose construction succeeds, and the manager after capture.\<close>

definition built :: "cg_config \<Rightarrow> cg_manager" where
  "built cfg = projr (CudaGraphManager cfg)"

definition captured :: "cg_config \<Rightarrow> capture_event list \<times> cg_manager" where
  "captured cfg = projr (capture (built cfg))"

lemma projr_eq: "\<not> isl r \<Longrightarrow> r = Inr (projr r)"
  by simp

lemma demo_built: "CudaGraphManager demo_cfg_graphs = Inr (built demo_cfg_graphs)"
  unfolding built_def by (rule projr_eq) code_simp

lemma demo_captured: "capture (built demo_cfg_graphs) = Inr (fst (captured demo_cfg_graphs), snd (captured demo_cfg_graphs))"
  unfolding captured_def prod.collapse by (rule projr_eq) code_simp

lemma demo_good: "good_config demo_cfg_graphs"
  by (simp add: good_config_def demo_graph_config_def is_round_up_ref base_query_lens_def)

text \<open>
  C14. A dispatched graph was captured and fits. If \<^verbatim>\<open>dispatch\<close> answers with anything but eager execution,
  the descriptor was captured in its mode, has at least the requests and tokens of the batch, its
  uniform token count and its LoRA case; for a FULL descriptor the replay does not fail.
\<close>

theorem dispatch_sound:
  assumes "CudaGraphManager cfg = Inr mgr0" "good_config cfg" "capture mgr0 = Inr (evs, mgr)"
    and "dispatch mgr reqs tokens uniform l = d" "desc_mode d \<noteq> CG_NONE"
  shows "tokens \<le> num_tokens d \<and> (\<forall>r. num_reqs d = Some r \<longrightarrow> reqs \<le> r)
    \<and> (\<forall>q. uniform_token_count d = Some q \<longrightarrow> uniform = Some q)
    \<and> num_active_loras d = resolve_effective_loras (lora_map mgr) l
    \<and> d \<in> set (dd_get (desc_mode d) (capture_descs mgr))
    \<and> (desc_mode d = CG_FULL \<longrightarrow> run_fullgraph mgr d = Inr d)"
proof -
  have mgr: "mgr = mgr0\<lparr> graphs := dd_get CG_FULL (capture_descs mgr0), graphs_captured := True \<rparr>"
    using captured_manager[OF assms(1-3)] .
  have "d \<in> set (dd_get (desc_mode d) (capture_descs mgr0))" if "candidate_lists mgr0 (i, k) = Some ds" "d \<in> set ds" for i k ds
    using manager_okD(3)[OF manager_created(1)[OF assms(1,2)] that] .
  then show ?thesis using dispatch_cases[of mgr reqs tokens uniform l] assms(4,5) mgr
    by (auto simp: run_fullgraph_def is_compatible_def split: option.splits)
qed

theorem dispatch_sound_witness:
  "4 \<le> num_tokens (dispatch (snd (captured demo_cfg_graphs)) 1 4 None 0)"
  by (rule dispatch_sound[OF demo_built demo_good demo_captured refl, THEN conjunct1]) code_simp

text \<open>
  Capturing never trips over a duplicate. For a manager that was constructed, the capture loop runs
  to its end without its assertion, and the graphs it records are exactly the FULL descriptors, each once.
\<close>

lemma capture_records_full_descs:
  assumes "CudaGraphManager cfg = Inr mgr0" "good_config cfg"
  shows "\<exists>evs mgr. capture mgr0 = Inr (evs, mgr) \<and> graphs mgr = dd_get CG_FULL (capture_descs mgr0)
    \<and> distinct (graphs mgr) \<and> graphs_captured mgr"
proof -
  have "distinct (dd_get CG_FULL (capture_descs mgr0))"
    using manager_created(1)[OF assms] by (simp add: manager_ok_def)
  then show ?thesis using capture_ok[OF manager_created(1,3)[OF assms]] by auto
qed

lemma capture_records_full_descs_witness:
  "\<exists>evs mgr. capture (built demo_cfg_graphs) = Inr (evs, mgr)
    \<and> graphs mgr = dd_get CG_FULL (capture_descs (built demo_cfg_graphs)) \<and> distinct (graphs mgr) \<and> graphs_captured mgr"
  by (rule capture_records_full_descs[OF demo_built demo_good])

section \<open>The ladder runs on FULL graphs\<close>

lemma shapes_mem: "(q, n, l) \<in> set (shapes cfg lens) \<longleftrightarrow>
  q \<in> set lens \<and> 1 \<le> n \<and> n \<le> max_captured_reqs cfg \<and> l \<in> set (lora_capture_cases cfg)"
  by (force simp: shapes_def)

lemma coverage_checked:
  assumes "init_candidates cfg = Inr (cand, cap)" "adaptive_spec_decode_query_lens cfg = Inr lens" "lens \<noteq> []"
    and "separate_routine (cudagraph_mode cfg)" "(q, n, l) \<in> set (shapes cfg lens)"
  shows "\<exists>d \<in> set (dd_get CG_FULL cap). desc_key d = (q * n, Some n, Some q, l)"
proof -
  have "assert_adaptive_spec_graph_coverage cfg cap = Inr ()"
    using assms(1-3) unfolding init_candidates_def assert_adaptive_spec_graphs_possible_def
    by (auto simp: res_simps Let_def split: if_splits)
  then have "\<forall>(q, n, l) \<in> set (shapes cfg lens). (q * n, Some n, Some q, l) \<in> desc_key ` set (dd_get CG_FULL cap)"
    using assms(2-4) by (auto simp: assert_adaptive_spec_graph_coverage_def res_simps Let_def split: if_splits)
  then have "(q * n, Some n, Some q, l) \<in> desc_key ` set (dd_get CG_FULL cap)" using assms(5) by blast
  then show ?thesis by (metis imageE)
qed

lemma ladder_dispatch:
  assumes "CudaGraphManager cfg = Inr mgr0" "good_config cfg" "capture mgr0 = Inr (evs, mgr)"
    and "speculative_config cfg = Some sc" "uses_acceptance_length_adaptation sc" "1 < decode_query_len cfg"
    and "separate_routine (cudagraph_mode cfg)"
    and "parse_adaptive_spec_depth_ladder (depths_env cfg) (num_speculative_tokens cfg) None = Inr L" "depth \<in> set L"
    and "1 \<le> n" "n \<le> min (max_num_reqs cfg) 32"
    and "resolve_effective_loras (lora_map mgr) l \<in> set (lora_capture_cases (config mgr))"
    and "q = depth + (decode_query_len cfg - num_speculative_tokens cfg)"
  shows "desc_mode (dispatch mgr n (q * n) (Some q) l) = CG_FULL
    \<and> dispatch mgr n (q * n) (Some q) l \<in> set (graphs mgr)
    \<and> is_compatible (dispatch mgr n (q * n) (Some q) l) n (q * n) (Some q) (resolve_effective_loras (lora_map mgr) l)"
proof -
  let ?e = "resolve_effective_loras (lora_map mgr) l"
  note mk = manager_created[OF assms(1,2)]
  have mgr: "mgr = mgr0\<lparr> graphs := dd_get CG_FULL (capture_descs mgr0), graphs_captured := True \<rparr>"
    using captured_manager[OF assms(1-3)] .
  have fields: "speculative_config (config mgr0) = speculative_config cfg" "decode_query_len (config mgr0) = decode_query_len cfg"
    "num_speculative_tokens (config mgr0) = num_speculative_tokens cfg" "depths_env (config mgr0) = depths_env cfg"
    "cudagraph_mode (config mgr0) = cudagraph_mode cfg" "max_num_reqs (config mgr0) = max_num_reqs cfg"
    by (simp_all add: mk(2) with_lora_default_def)
  have L: "0 < num_speculative_tokens cfg" "is_ladder (num_speculative_tokens cfg) L" using parse_is_ladder[OF assms(8)] by auto
  have "\<exists>lens. adaptive_spec_decode_query_lens (config mgr0) = Inr lens"
    using mk(5) unfolding init_candidates_def init_adaptive_spec_candidates_def assert_adaptive_spec_graphs_possible_def
    by (auto simp: res_simps Let_def split: if_splits)
  then have lens: "adaptive_spec_decode_query_lens (config mgr0) =
      Inr (map (\<lambda>d. d + (decode_query_len cfg - num_speculative_tokens cfg)) L)" (is "_ = Inr ?lens")
    using assms(4-6,8) L by (auto simp: adaptive_spec_decode_query_lens_def fields Let_def is_ladder_def split: if_splits)
  have mem: "(q, n, ?e) \<in> set (shapes (config mgr0) ?lens)"
    using assms(9-13) mgr by (auto simp: shapes_mem max_captured_reqs_def fields)
  have sep: "?lens \<noteq> []" "separate_routine (cudagraph_mode (config mgr0))" using assms(7,9) fields by auto
  obtain d where d: "d \<in> set (dd_get CG_FULL (capture_descs mgr0))" "desc_key d = (q * n, Some n, Some q, ?e)"
    using coverage_checked[OF mk(5) lens sep mem] by blast
  then obtain A B where AB: "candidate_lists mgr0 (q * n, ?e) = Some (A @ B)" "d \<in> set A"
    "\<forall>x \<in> set A. desc_mode x = decode_mode (cudagraph_mode (config mgr0))"
    using manager_okD(4)[OF mk(1) d(1)] assms(12) mgr by (auto simp: desc_key_def)
  have full: "decode_mode (cudagraph_mode (config mgr0)) = CG_FULL"
    using manager_okD(1)[OF mk(1) d(1)] AB(2,3) by metis
  have "2 \<le> q" using adaptive_lens_pos[OF lens, of q] assms(9,13) by auto
  then have "0 < q * n" using assms(10) by simp
  moreover have "is_compatible d n (q * n) (Some q) ?e" using d(2) by (simp add: is_compatible_def desc_key_def)
  ultimately have r: "dispatch mgr n (q * n) (Some q) l \<in> set A"
      "is_compatible (dispatch mgr n (q * n) (Some q) l) n (q * n) (Some q) ?e"
    using dispatch_found[of mgr "q * n" ?e l A B d n "Some q"] AB(1,2) mgr by auto
  moreover have "x \<in> set (dd_get (desc_mode x) (capture_descs mgr0))" if "x \<in> set A" for x
    using manager_okD(3)[OF mk(1) AB(1)] that by simp
  ultimately show ?thesis using AB(3) full mgr by fastforce
qed

text \<open>
  An exact graph can be hidden by a larger one. With ladder \<^verbatim>\<open>5\<close>, at most two requests and a capture
  size of 6, the graph for one request of six tokens is captured, but a batch of that shape is
  dispatched to the graph for two requests and twelve tokens: the base path captured the exact shape, so
  the ladder's table has only the larger bucket, whose range covers it and which is tried first.
\<close>

theorem exact_graph_shadowed:
  "let mgr = snd (captured (demo_graph_config CG_NONE True [6] ''5'')); exact = decode_desc CG_FULL 6 1 6 0 in
   \<not> isl (CudaGraphManager (demo_graph_config CG_NONE True [6] ''5'')) \<and> exact \<in> set (graphs mgr)
   \<and> is_compatible exact 1 6 (Some 6) 0 \<and> dispatch mgr 1 6 (Some 6) 0 = decode_desc CG_FULL 12 2 6 0"
  by code_simp

text \<open>
  The coverage check is vacuous without a separate decode routine. A manager with FULL graphs for all
  batches and a capture size of 2 is constructed although adaptive depth is on, and the verification
  batch of one request at depth 5 then runs eagerly.
\<close>

theorem coverage_open_without_separate_routine:
  "\<not> isl (CudaGraphManager (demo_graph_config CG_FULL False [2] ''5''))
   \<and> desc_mode (dispatch (snd (captured (demo_graph_config CG_FULL False [2] ''5''))) 1 6 (Some 6) 0) = CG_NONE"
  by code_simp

section \<open>LoRA cases\<close>

lemma dropWhile_dropWhile_less:
  "m \<le> n \<Longrightarrow> dropWhile (\<lambda>c. c < (n :: int)) (dropWhile (\<lambda>c. c < m) cs) = dropWhile (\<lambda>c. c < n) cs"
  by (induction cs) auto

lemma lora_entries_ok:
  assumes "\<forall>n \<in> set ns. \<exists>c \<in> set cs. n \<le> c" "sorted ns" "distinct ns"
  shows "\<exists>es. lora_entries ns cs = Inr es \<and> (\<forall>n. map_of es n =
    (if n \<in> set ns then Some (hd (dropWhile (\<lambda>c. c < n) cs)) else None))"
  using assms
proof (induction ns arbitrary: cs)
  case (Cons n ns)
  let ?cs = "dropWhile (\<lambda>c. c < n) cs"
  have ne: "?cs \<noteq> []" using Cons.prems(1) by (auto simp: dropWhile_eq_Nil_conv not_less)
  have later: "dropWhile (\<lambda>c. c < m) ?cs = dropWhile (\<lambda>c. c < m) cs" if "m \<in> set ns" for m
    using that Cons.prems(2) by (intro dropWhile_dropWhile_less) auto
  have "\<exists>c \<in> set ?cs. m \<le> c" if m: "m \<in> set ns" for m
  proof -
    have "dropWhile (\<lambda>c. c < m) cs \<noteq> []" using Cons.prems(1) m by (auto simp: dropWhile_eq_Nil_conv not_less)
    then show ?thesis using later[OF m] by (metis dropWhile_eq_Nil_conv not_less)
  qed
  then obtain es where es: "lora_entries ns ?cs = Inr es"
    "\<forall>n. map_of es n = (if n \<in> set ns then Some (hd (dropWhile (\<lambda>c. c < n) ?cs)) else None)"
    using Cons.IH[of ?cs] Cons.prems(2,3) by auto
  obtain c rest where c: "?cs = c # rest" using ne by (cases ?cs) auto
  have "lora_entries (n # ns) cs = Inr ((n, c) # es)" using es(1) c by simp
  then show ?case using es(2) c later Cons.prems(3) by auto
qed simp

lemma hd_dropWhile_least:
  "sorted cs \<Longrightarrow> \<exists>c \<in> set cs. (n :: int) \<le> c \<Longrightarrow>
   hd (dropWhile (\<lambda>c. c < n) cs) \<in> set cs \<and> n \<le> hd (dropWhile (\<lambda>c. c < n) cs)
   \<and> (\<forall>c \<in> set cs. n \<le> c \<longrightarrow> hd (dropWhile (\<lambda>c. c < n) cs) \<le> c)"
  by (induction cs) auto

text \<open>
  Active LoRA counts go to the smallest captured case that serves them. The dispatch map is always
  built; with captured cases for LoRA, a count up to the largest case is mapped to the least case not
  below it, and a larger count to the largest case.
\<close>

theorem lora_case_is_least:
  "\<exists>m. build_lora_dispatch_map cfg = Inr m \<and>
     (let P = {c \<in> set (lora_capture_cases cfg). 0 < c} in
      P = {} \<and> resolve_effective_loras m n = n
      \<or> n \<le> 0 \<and> resolve_effective_loras m n = n
      \<or> P \<noteq> {} \<and> Max P < n \<and> resolve_effective_loras m n = Max P
      \<or> P \<noteq> {} \<and> 0 < n \<and> n \<le> Max P \<and> resolve_effective_loras m n = Min {c \<in> P. n \<le> c})"
proof -
  let ?P = "{c \<in> set (lora_capture_cases cfg). 0 < c}"
  let ?cs = "sort (filter (\<lambda>c. 0 < c) (lora_capture_cases cfg))"
  have P: "set ?cs = ?P" "finite ?P" by auto
  show ?thesis
  proof (cases "?cs = []")
    case True
    then have "?P = {}" using P(1) by simp
    then show ?thesis using True by (auto simp: build_lora_dispatch_map_def Let_def resolve_effective_loras_def)
  next
    case False
    then have ne: "?P \<noteq> {}" using P(1) by (metis set_empty)
    have last: "last ?cs = Max ?P"
    proof (rule Max_eqI[symmetric])
      show "y \<le> last ?cs" if "y \<in> ?P" for y using that P(1) by (intro sorted_le_last) auto
      show "last ?cs \<in> ?P" using last_in_set[OF False] P(1) by blast
    qed simp
    have mem: "Max ?P \<in> set ?cs" using Max_in[OF P(2) ne] P(1) by simp
    then have "\<forall>n \<in> set [1..last ?cs]. \<exists>c \<in> set ?cs. n \<le> c" unfolding last by auto
    then obtain es where es: "lora_entries [1..last ?cs] ?cs = Inr es"
      "\<forall>n. map_of es n = (if n \<in> set [1..last ?cs] then Some (hd (dropWhile (\<lambda>c. c < n) ?cs)) else None)"
      using lora_entries_ok[of "[1..last ?cs]" ?cs] by auto
    have map: "build_lora_dispatch_map cfg = Inr (es, Max ?P)"
      using es(1) False last by (simp add: build_lora_dispatch_map_def Let_def)
    have pos: "0 < Max ?P" using Max_in[OF P(2) ne] by simp
    then have "map_of es 1 \<noteq> None" using es(2) last by simp
    then have es_ne: "es \<noteq> []" by auto
    have least: "resolve_effective_loras (es, Max ?P) n = Min {c \<in> ?P. n \<le> c}" if n: "0 < n" "n \<le> Max ?P"
    proof -
      have "\<exists>c \<in> set ?cs. n \<le> c" using mem n by blast
      from hd_dropWhile_least[OF sorted_sort this]
      have "Min {c \<in> ?P. n \<le> c} = hd (dropWhile (\<lambda>c. c < n) ?cs)" using P by (intro Min_eqI) auto
      then show ?thesis using n es(2) es_ne last by (simp add: resolve_effective_loras_def)
    qed
    have big: "resolve_effective_loras (es, Max ?P) n = Max ?P" if "Max ?P < n"
      using that es(2) es_ne last pos by (simp add: resolve_effective_loras_def)
    have low: "resolve_effective_loras (es, Max ?P) n = n" if "n \<le> 0" using that by (simp add: resolve_effective_loras_def)
    consider "n \<le> 0" | "Max ?P < n" | "0 < n" "n \<le> Max ?P" by linarith
    then show ?thesis unfolding Let_def using map ne by cases (blast dest: low, blast dest: big, blast dest: least)
  qed
qed

end
