(* ===== verification/Sched_Prefill.thy ===== *)
theory Sched_Prefill
  imports Complex_Main Py_Prelude "HOL-Library.Product_Lexorder"
begin

text \<open>
  Parts of the scheduler (\<^verbatim>\<open>v1/core/sched/scheduler.py\<close>) that decide what a step may do: the selection of
  long prefills and the ageing of their turns, the block-aligned split of a prefill chunk, and the fence
  that delays the return of blocks while a step in flight may still write them. A finite float such as an
  arrival time is kept as a rational; only its order matters.
\<close>

datatype request_status =
    WAITING | WAITING_FOR_STRUCTURED_OUTPUT_GRAMMAR | WAITING_FOR_REMOTE_KVS | WAITING_FOR_STREAMING_REQ
  | RUNNING | PREEMPTED | FINISHED_STOPPED | FINISHED_LENGTH_CAPPED | FINISHED_ABORTED | FINISHED_ERROR

record request =
  request_id :: string
  status :: request_status
  num_tokens :: int
  num_prompt_tokens :: int
  num_computed_tokens :: int
  is_prefill_chunk :: bool
  arrival_time :: rat
  shared_prefix_boundary :: int

section \<open>Selection of long prefills\<close>

record scheduler =
  enable_decode_aware_prefill :: bool
  long_prefill_token_threshold :: int
  max_long_prefills_per_step :: int
  max_num_running_reqs :: int
  running :: "request list"
  waiting :: "request list"
  skipped_waiting :: "request list"
  request_ids :: "string list"
  long_prefill_last_scheduled :: "string \<Rightarrow> int option"
  long_prefill_wasted_turns :: int
  current_step :: int
  paused_all :: bool

definition is_long_prefill_request :: "scheduler \<Rightarrow> request \<Rightarrow> bool" where
  "is_long_prefill_request s r =
     (if num_prompt_tokens r \<le> long_prefill_token_threshold s then False
      else if status r = RUNNING then is_prefill_chunk r
      else status r = WAITING \<or> status r = PREEMPTED)"

fun collect_waiting :: "scheduler \<Rightarrow> string set \<Rightarrow> request list \<Rightarrow> request list" where
  "collect_waiting s seen [] = []"
| "collect_waiting s seen (r # rs) =
     (if request_id r \<in> seen then collect_waiting s seen rs
      else if is_long_prefill_request s r then r # collect_waiting s (insert (request_id r) seen) rs
      else collect_waiting s seen rs)"

definition last_step :: "(string \<Rightarrow> int option) \<Rightarrow> request \<Rightarrow> int" where
  "last_step m r = (case m (request_id r) of None \<Rightarrow> - 1 | Some k \<Rightarrow> k)"

definition by_age :: "(string \<Rightarrow> int option) \<Rightarrow> request list \<Rightarrow> request list" where
  "by_age m rs = sort_key (\<lambda>r. (last_step m r, arrival_time r)) rs"

text \<open>The slice \<^verbatim>\<open>xs[:k]\<close>; a negative bound counts from the end.\<close>

definition py_take :: "int \<Rightarrow> 'a list \<Rightarrow> 'a list" where
  "py_take k xs = (if 0 \<le> k then take (nat k) xs else take (nat (int (length xs) + k)) xs)"

definition select_long_prefill_request_ids :: "scheduler \<Rightarrow> string set \<times> scheduler" where
  "select_long_prefill_request_ids s =
     (if \<not> enable_decode_aware_prefill s then ({}, s)
      else
        let running_candidates = filter (is_long_prefill_request s) (running s);
            waiting_candidates = collect_waiting s (request_id ` set running_candidates) (waiting s @ skipped_waiting s);
            m = (\<lambda>i. if i \<in> set (request_ids s) then long_prefill_last_scheduled s i else None);
            admittable = max 0 (max_num_running_reqs s - int (length (running s)));
            keep = request_id ` set (py_take admittable (by_age m waiting_candidates));
            candidates = (if 0 < admittable \<and> waiting_candidates \<noteq> []
                          then running_candidates @ filter (\<lambda>r. request_id r \<in> keep) waiting_candidates
                          else running_candidates)
        in (request_id ` set (py_take (max_long_prefills_per_step s) (by_age m candidates)),
            s\<lparr> long_prefill_last_scheduled := m \<rparr>))"

definition debit_unused_long_prefill_turns :: "scheduler \<Rightarrow> string set \<Rightarrow> string set \<Rightarrow> bool \<Rightarrow> scheduler" where
  "debit_unused_long_prefill_turns s selected scheduled defer_prefills =
     (if \<not> enable_decode_aware_prefill s \<or> selected = {} then s
      else if defer_prefills \<or> paused_all s then s
      else s\<lparr> long_prefill_wasted_turns := long_prefill_wasted_turns s + int (card (selected - scheduled)),
              long_prefill_last_scheduled :=
                (\<lambda>i. if i \<in> selected - scheduled then Some (current_step s) else long_prefill_last_scheduled s i) \<rparr>)"

text \<open>
  The long-prefill bookkeeping of one step: the step counter, the selection, the mark of the selected
  requests that were scheduled from the running queue, and the ageing of the others. Which of them are
  scheduled is up to the token and block budgets, an input of the model.
\<close>

definition mark_scheduled :: "scheduler \<Rightarrow> string set \<Rightarrow> scheduler" where
  "mark_scheduled s ids = s\<lparr> long_prefill_last_scheduled :=
     (\<lambda>i. if i \<in> ids then Some (current_step s) else long_prefill_last_scheduled s i) \<rparr>"

definition long_prefill_turn :: "scheduler \<Rightarrow> string set \<Rightarrow> string set \<times> scheduler" where
  "long_prefill_turn s scheduled =
     (let s1 = s\<lparr> current_step := current_step s + 1 \<rparr>;
          (selected, s2) = select_long_prefill_request_ids s1;
          s3 = mark_scheduled s2 (selected \<inter> scheduled)
      in (selected, debit_unused_long_prefill_turns s3 selected scheduled False))"

fun long_prefill_turns :: "scheduler \<Rightarrow> string set list \<Rightarrow> string set list \<times> scheduler" where
  "long_prefill_turns s [] = ([], s)"
| "long_prefill_turns s (sch # schs) =
     (let (sel, s') = long_prefill_turn s sch; (sels, s'') = long_prefill_turns s' schs in (sel # sels, s''))"

section \<open>The block-aligned split of a prefill chunk\<close>

record split_config =
  block_size :: int
  hash_block_size :: int
  max_num_scheduled_tokens :: int
  long_prefill_threshold :: int
  use_eagle :: bool
  mamba_partial_cache_hit :: bool

definition last_cache_position :: "split_config \<Rightarrow> request \<Rightarrow> int" where
  "last_cache_position cfg r =
     (let p = num_tokens r - num_tokens r mod block_size cfg
      in if use_eagle cfg then max (p - block_size cfg) 0 else p)"

definition aligned_chunk_end :: "split_config \<Rightarrow> int \<Rightarrow> int \<Rightarrow> int \<Rightarrow> int" where
  "aligned_chunk_end cfg start prefill_end ending =
     (if ending < prefill_end then
        let max_prefill_tokens = (if 0 < long_prefill_threshold cfg
              then min (max_num_scheduled_tokens cfg) (long_prefill_threshold cfg) else max_num_scheduled_tokens cfg);
            aligned_end = ending div block_size cfg * block_size cfg
        in if start < aligned_end \<or> block_size cfg \<le> max_prefill_tokens then aligned_end else ending
      else ending)"

definition mandatory_stops :: "split_config \<Rightarrow> request \<Rightarrow> int \<Rightarrow> int \<Rightarrow> int list" where
  "mandatory_stops cfg r start ending =
     (let bs = block_size cfg;
          tail_boundary = (if mamba_partial_cache_hit cfg
            then num_prompt_tokens r div hash_block_size cfg * hash_block_size cfg else 0)
      in [if start mod bs \<noteq> 0 then (start div bs + 1) * bs else 0,
          last_cache_position cfg r,
          if last_cache_position cfg r < tail_boundary \<and> tail_boundary < num_prompt_tokens r then tail_boundary else 0,
          if start < shared_prefix_boundary r \<and> shared_prefix_boundary r < ending
          then start + (shared_prefix_boundary r - start) div bs * bs else 0])"

text \<open>The earliest stop strictly inside the chunk, or its end.\<close>

definition first_stop :: "int \<Rightarrow> int list \<Rightarrow> int \<Rightarrow> int" where
  "first_stop start stops ending =
     (let inside = filter (\<lambda>s. start < s \<and> s < ending) stops
      in if inside = [] then ending else fold min inside (hd inside))"

definition mamba_block_aligned_split :: "split_config \<Rightarrow> request \<Rightarrow> int \<Rightarrow> int \<Rightarrow> int \<Rightarrow> int" where
  "mamba_block_aligned_split cfg r num_new_tokens num_new_local_computed_tokens num_external_computed_tokens =
     (let start = num_computed_tokens r + num_new_local_computed_tokens + num_external_computed_tokens;
          prefill_end = max (num_prompt_tokens r) (num_tokens r - 1)
      in if prefill_end \<le> start then num_new_tokens
         else let ending = aligned_chunk_end cfg start prefill_end (start + num_new_tokens);
                  ending' = first_stop start (mandatory_stops cfg r start ending) ending
              in max (ending' - start) 0)"

section \<open>Deferred frees\<close>

text \<open>
  The two step counters and the queue of blocks that wait for a step to be processed. The block pool is
  represented by the calls that return blocks to it, each with the number of processed steps at that time.
\<close>

record 'b fence_state =
  defer_block_free :: bool
  sched_step_seq :: int
  processed_step_seq :: int
  deferred_frees :: "(int \<times> 'b list) list"
  pool_calls :: "(int \<times> 'b list) list"

definition free_blocks :: "'b list \<Rightarrow> 'b fence_state \<Rightarrow> 'b fence_state" where
  "free_blocks bs s = s\<lparr> pool_calls := pool_calls s @ [(processed_step_seq s, bs)] \<rparr>"

text \<open>
  The request's pinned partial-tail blocks, the batches of blocks that the coordinator returns when it frees
  the request at once, and the blocks it pops, in allocation order, when the return is deferred.
\<close>

definition free_request_blocks :: "int \<Rightarrow> 'b list \<Rightarrow> 'b list list \<Rightarrow> 'b list \<Rightarrow> 'b fence_state \<Rightarrow> 'b fence_state" where
  "free_request_blocks last_sched_seq pins batches popped s =
     (if \<not> defer_block_free s \<or> last_sched_seq \<le> processed_step_seq s
      then fold free_blocks batches (if pins \<noteq> [] then free_blocks pins s else s)
      else let blocks = pins @ popped in
        if blocks \<noteq> [] then s\<lparr> deferred_frees := deferred_frees s @ [(sched_step_seq s, blocks)] \<rparr>
        else s)"

definition free_cow_retained_blocks :: "'b list \<Rightarrow> int \<Rightarrow> 'b fence_state \<Rightarrow> 'b fence_state" where
  "free_cow_retained_blocks blocks fence_seq s =
     (if \<not> defer_block_free s \<or> fence_seq \<le> processed_step_seq s then free_blocks blocks s
      else s\<lparr> deferred_frees := deferred_frees s @ [(fence_seq, rev blocks)] \<rparr>)"

fun drain :: "(int \<times> 'b list) list \<Rightarrow> 'b fence_state \<Rightarrow> 'b fence_state" where
  "drain [] s = s\<lparr> deferred_frees := [] \<rparr>"
| "drain ((fence, blocks) # rest) s =
     (if processed_step_seq s < fence then s\<lparr> deferred_frees := (fence, blocks) # rest \<rparr>
      else drain rest (free_blocks (rev blocks) s))"

definition drain_deferred_frees :: "'b fence_state \<Rightarrow> 'b fence_state" where
  "drain_deferred_frees s = drain (deferred_frees s) s"

definition schedule_fence :: "int \<Rightarrow> 'b fence_state \<Rightarrow> 'b fence_state" where
  "schedule_fence total_num_scheduled_tokens s =
     (if defer_block_free s \<and> 0 < total_num_scheduled_tokens then s\<lparr> sched_step_seq := sched_step_seq s + 1 \<rparr> else s)"

definition process_fence :: "int \<Rightarrow> 'b fence_state \<Rightarrow> 'b fence_state" where
  "process_fence total_num_scheduled_tokens s =
     (if defer_block_free s \<and> 0 < total_num_scheduled_tokens
      then drain_deferred_frees (s\<lparr> processed_step_seq := processed_step_seq s + 1 \<rparr>) else s)"

end
