(* ===== verification/Kv_Manager.thy ===== *)
theory Kv_Manager
  imports Kv_Spec Spec_Depth Sched_Prefill
begin

text \<open>
  The KV-cache manager (\<^verbatim>\<open>overlays/dspark-ring/kv_cache_manager.py\<close>): prefix-cache lookup with the ring
  trim, slot allocation, release, pinned partial tails and the views of a request's block table.

  The manager delegates to a coordinator, its block pool and its single-type managers, which belong to
  other modules. They are the argument \<open>K\<close>, a record of functions on an abstract state \<open>'c\<close>; what the
  properties need of them is stated there. Exceptions raised inside those modules are left out. A KV block is
  a shared object in the source; the model passes the attributes the manager reads.
\<close>

section \<open>Blocks\<close>

record 'h kv_block =
  block_id :: int
  block_hash :: "'h option"
  block_hash_num_tokens :: "int option"
  is_null :: bool

type_synonym 'h groups = "'h kv_block list list"

text \<open>
  \<^verbatim>\<open>KVCacheBlocks\<close>: the manager's pre-constructed object without blocks is kept apart, because the code
  tests for it by identity.
\<close>

datatype 'h kv_cache_blocks = EmptyKVCacheBlocks nat | KVCacheBlocks "'h groups"

fun blocks :: "'h kv_cache_blocks \<Rightarrow> 'h groups" where
  "blocks (EmptyKVCacheBlocks n) = replicate n []"
| "blocks (KVCacheBlocks gs) = gs"

definition add_blocks :: "'h kv_cache_blocks \<Rightarrow> 'h kv_cache_blocks \<Rightarrow> 'h kv_cache_blocks" where
  "add_blocks a b = KVCacheBlocks (map (\<lambda>(x, y). x @ y) (zip (blocks a) (blocks b)))"

definition get_block_ids :: "bool \<Rightarrow> 'h kv_cache_blocks \<Rightarrow> int list list option" where
  "get_block_ids allow_none b =
     (if allow_none \<and> (\<forall>g \<in> set (blocks b). length g = 0) then None
      else Some (map (map block_id) (blocks b)))"

definition get_unhashed_block_ids :: "'h kv_cache_blocks \<Rightarrow> int list res" where
  "get_unhashed_block_ids b =
     res_bind (require (length (blocks b) = 1) AssertionError)
       (\<lambda>_. Inr (map block_id (filter (\<lambda>x. block_hash x = None) (blocks b ! 0))))"

definition get_unhashed_block_ids_all_groups :: "'h kv_cache_blocks \<Rightarrow> int list list" where
  "get_unhashed_block_ids_all_groups b =
     map (\<lambda>g. map block_id (filter (\<lambda>x. block_hash x = None \<and> \<not> is_null x) g)) (blocks b)"

definition new_empty :: "'h kv_cache_blocks \<Rightarrow> 'h kv_cache_blocks" where
  "new_empty b = KVCacheBlocks (replicate (length (blocks b)) [])"

section \<open>Requests, events and what the manager calls\<close>

record 'h kv_request = request +
  block_hashes :: "'h list"
  skip_reading_prefix_cache :: bool
  num_in_flight_tokens :: int
  num_preemptions :: int
  kv_cache_report_mode :: "string option"

text \<open>A stored-block event has a group and two annotations; \<open>'e\<close> stands for the rest of an event.\<close>

datatype 'e kv_event =
    BlockStored "int option" "spec_kind option" "int option" 'e
  | OtherEvent 'e

record ('c, 'h, 'e) coordinator =
  find_longest_cache_hit :: "'h list \<Rightarrow> int \<Rightarrow> 'c \<Rightarrow> 'h groups \<times> int \<times> int"
  find_longest_cache_hit_per_group :: "'h list \<Rightarrow> int \<Rightarrow> 'c \<Rightarrow> 'h groups \<times> int list"
  is_hybrid_coordinator :: bool
  full_attention_group_id :: "nat option"
  get_num_blocks_to_allocate ::
    "string \<Rightarrow> int \<Rightarrow> 'h groups \<Rightarrow> int \<Rightarrow> int \<Rightarrow> int \<Rightarrow> int \<Rightarrow> bool \<Rightarrow> 'c \<Rightarrow> int"
  coord_remove_skipped_blocks :: "string \<Rightarrow> int \<Rightarrow> int option \<Rightarrow> 'c \<Rightarrow> 'c"
  allocate_new_computed_blocks :: "string \<Rightarrow> 'h groups \<Rightarrow> int \<Rightarrow> int \<Rightarrow> 'c \<Rightarrow> 'c"
  allocate_new_blocks :: "string \<Rightarrow> int \<Rightarrow> int \<Rightarrow> int \<Rightarrow> 'c \<Rightarrow> 'h groups \<times> 'c"
  coord_cache_blocks :: "'h kv_request \<Rightarrow> int \<Rightarrow> 'c \<Rightarrow> 'c"
  coord_free :: "string \<Rightarrow> 'c \<Rightarrow> 'c"
  coord_pop_blocks_for_free :: "string \<Rightarrow> 'c \<Rightarrow> 'h kv_block list \<times> 'c"
  coord_get_blocks :: "string \<Rightarrow> 'c \<Rightarrow> 'h groups"
  coord_new_step_starts :: "'c \<Rightarrow> 'c"
  pool_get_num_free_blocks :: "'c \<Rightarrow> int"
  pool_free_blocks :: "'h kv_block list \<Rightarrow> 'c \<Rightarrow> 'c"
  pool_touch :: "'h kv_block list \<Rightarrow> 'c \<Rightarrow> 'c"
  pool_evict_blocks :: "int set \<Rightarrow> 'c \<Rightarrow> 'c"
  pool_reset_prefix_cache :: "'c \<Rightarrow> bool \<times> 'c"
  pool_emit_cached_block_events :: "'h kv_request \<Rightarrow> int \<Rightarrow> int \<Rightarrow> nat \<Rightarrow> 'c \<Rightarrow> 'c"
  pool_take_events :: "'c \<Rightarrow> 'e kv_event list \<times> 'c"
  num_managers :: nat
  mgr_block_size :: "nat \<Rightarrow> int"
  mgr_records_new_block_ids :: "nat \<Rightarrow> bool"
  mgr_req_to_blocks :: "nat \<Rightarrow> string \<Rightarrow> 'c \<Rightarrow> 'h kv_block list"
  mgr_extend_new_block_ids :: "nat \<Rightarrow> int list \<Rightarrow> 'c \<Rightarrow> 'c"
  mgr_take_new_block_ids :: "nat \<Rightarrow> 'c \<Rightarrow> int list \<times> 'c"
  mgr_take_pending_cow_copies :: "nat \<Rightarrow> 'c \<Rightarrow> ('h kv_block \<times> 'h kv_block) list \<times> 'c"
  mgr_take_pending_partial_tail_offloads :: "nat \<Rightarrow> 'c \<Rightarrow> (string \<times> int \<times> 'h kv_block \<times> int) list \<times> 'c"

section \<open>The ring trim\<close>

definition int_or_raise :: "string \<Rightarrow> int res" where
  "int_or_raise s = (case py_int s of None \<Rightarrow> Inl ValueError | Some v \<Rightarrow> Inr v)"

text \<open>\<open>env\<close> is the process environment. An unset and an empty ring variable both switch the trim off.\<close>

definition dspark_ring_cache_trim :: "(string \<Rightarrow> string option) \<Rightarrow> int res" where
  "dspark_ring_cache_trim env =
     (case env ''VLLM_DSPARK_CACHE_TRIM'' of
        Some v \<Rightarrow> res_bind (int_or_raise v) (\<lambda>i. Inr (max 0 i))
      | None \<Rightarrow>
          (case env ''VLLM_DSPARK_DRAFT_RING'' of
             Some (c # cs) \<Rightarrow>
               (case env ''VLLM_DSPARK_DRAFT_WINDOW'' of
                  None \<Rightarrow> int_or_raise ''1024''
                | Some [] \<Rightarrow> Inr 0
                | Some w \<Rightarrow> int_or_raise w)
           | _ \<Rightarrow> Inr 0))"

section \<open>The manager\<close>

text \<open>
  \<^verbatim>\<open>PrefixCacheStats\<close> is kept as the calls made on it: the recorded lookups and the reset flag.
\<close>

record prefix_cache_stats =
  recorded :: "(int \<times> int \<times> bool) list"
  stats_reset :: bool

definition new_prefix_cache_stats :: prefix_cache_stats where
  "new_prefix_cache_stats = \<lparr> recorded = [], stats_reset = False \<rparr>"

record ('c, 'h) kv_manager =
  km_max_model_len :: int
  enable_caching :: bool
  enable_kv_cache_events :: bool
  log_stats :: bool
  prefix_cache_stats :: "prefix_cache_stats option"
  coord :: 'c
  num_kv_cache_groups :: nat
  km_config :: kv_cache_config
  watermark_blocks :: int
  kv_cache_event_metadata :: "(spec_kind \<times> int option) list"
  partial_tail_pins :: "string \<Rightarrow> 'h kv_block list option"

text \<open>
  \<^verbatim>\<open>int(watermark * num_blocks)\<close>. The watermark is a float that may be negative, \<^verbatim>\<open>None\<close> is infinity;
  the number of blocks is a count.
\<close>

definition blocks_of_watermark :: "rat option \<Rightarrow> int \<Rightarrow> int res" where
  "blocks_of_watermark w n =
     (case to_float (of_int n) of
        None \<Rightarrow> Inl OverflowError
      | Some y \<Rightarrow>
          (case w of
             None \<Rightarrow> Inl (if y = 0 then ValueError else OverflowError)
           | Some x \<Rightarrow> float_floor (to_float (x * y))))"

definition KVCacheManager ::
  "(int \<Rightarrow> 'c) \<Rightarrow> kv_cache_config \<Rightarrow> int \<Rightarrow> int option \<Rightarrow> bool \<Rightarrow> bool \<Rightarrow> bool \<Rightarrow> rat option
   \<Rightarrow> ('c, 'h) kv_manager res" where
  "KVCacheManager get_kv_cache_coordinator config max_len max_in_flight caching stats events watermark =
     (let in_flight = (case max_in_flight of None \<Rightarrow> max_len | Some n \<Rightarrow> n) in
      res_bind (require (case watermark of None \<Rightarrow> True | Some w \<Rightarrow> 0 \<le> w) AssertionError) (\<lambda>_.
      res_bind (blocks_of_watermark watermark (num_blocks config)) (\<lambda>wb.
      Inr \<lparr> km_max_model_len = max_len, enable_caching = caching, enable_kv_cache_events = events,
            log_stats = stats,
            prefix_cache_stats = (if stats then Some new_prefix_cache_stats else None),
            coord = get_kv_cache_coordinator in_flight,
            num_kv_cache_groups = length (kv_cache_groups config),
            km_config = config,
            watermark_blocks = wb,
            kv_cache_event_metadata =
              map (\<lambda>g. (get_kv_cache_spec_kind (kv_cache_spec g), get_kv_cache_spec_sliding_window (kv_cache_spec g)))
                (kv_cache_groups config),
            partial_tail_pins = (\<lambda>_. None) \<rparr>)))"

abbreviation empty_kv_cache_blocks :: "('c, 'h) kv_manager \<Rightarrow> 'h kv_cache_blocks" where
  "empty_kv_cache_blocks m \<equiv> EmptyKVCacheBlocks (num_kv_cache_groups m)"

definition create_kv_cache_blocks :: "('c, 'h) kv_manager \<Rightarrow> 'h groups \<Rightarrow> 'h kv_cache_blocks" where
  "create_kv_cache_blocks m gs = (if \<exists>g \<in> set gs. g \<noteq> [] then KVCacheBlocks gs else empty_kv_cache_blocks m)"

definition make_prefix_cache_stats :: "('c, 'h) kv_manager \<Rightarrow> prefix_cache_stats option \<times> ('c, 'h) kv_manager" where
  "make_prefix_cache_stats m =
     (if \<not> log_stats m then (None, m)
      else (prefix_cache_stats m, m\<lparr> prefix_cache_stats := Some new_prefix_cache_stats \<rparr>))"

definition prefix_cache_lookup_enabled :: "('c, 'h) kv_manager \<Rightarrow> 'h kv_request \<Rightarrow> bool" where
  "prefix_cache_lookup_enabled m r = (enable_caching m \<and> \<not> skip_reading_prefix_cache r)"

definition record_prefix_cache_stats ::
  "('c, 'h) kv_manager \<Rightarrow> 'h kv_request \<Rightarrow> int \<Rightarrow> ('c, 'h) kv_manager res" where
  "record_prefix_cache_stats m r num_hits =
     (if \<not> log_stats m \<or> \<not> prefix_cache_lookup_enabled m r then Inr m
      else case prefix_cache_stats m of
        None \<Rightarrow> Inl AssertionError
      | Some st \<Rightarrow> Inr (m\<lparr> prefix_cache_stats :=
          Some (st\<lparr> recorded := recorded st @ [(num_tokens r, num_hits, 0 < num_preemptions r)] \<rparr>) \<rparr>))"

section \<open>Prefix-cache lookup\<close>

text \<open>The events for the reused blocks, one call per group that has some.\<close>

fun emit_reused ::
  "('c, 'h, 'e) coordinator \<Rightarrow> 'h kv_request \<Rightarrow> nat \<Rightarrow> 'h groups \<Rightarrow> ('c, 'h) kv_manager
   \<Rightarrow> unit res \<times> ('c, 'h) kv_manager" where
  "emit_reused K r i [] m = (Inr (), m)"
| "emit_reused K r i (g # gs) m =
     (if 0 < length g
      then (case py_get (kv_cache_groups (km_config m)) i of
              Inl e \<Rightarrow> (Inl e, m)
            | Inr grp \<Rightarrow> emit_reused K r (i + 1) gs
                (m\<lparr> coord := pool_emit_cached_block_events K r (int (length g))
                      (spec_block_size (kv_cache_spec grp)) i (coord m) \<rparr>))
      else emit_reused K r (i + 1) gs m)"

definition max_cache_hit_length :: "int \<Rightarrow> 'h kv_request \<Rightarrow> int" where
  "max_cache_hit_length trim r =
     (if 0 < trim then max 0 (num_tokens r - 1 - trim) else num_tokens r - 1)"

definition get_computed_blocks ::
  "('c, 'h, 'e) coordinator \<Rightarrow> (string \<Rightarrow> string option) \<Rightarrow> 'h kv_request \<Rightarrow> ('c, 'h) kv_manager
   \<Rightarrow> ('h kv_cache_blocks \<times> int \<times> int) res \<times> ('c, 'h) kv_manager" where
  "get_computed_blocks K env r m =
     (if \<not> prefix_cache_lookup_enabled m r then (Inr (empty_kv_cache_blocks m, 0, 0), m)
      else case dspark_ring_cache_trim env of
        Inl e \<Rightarrow> (Inl e, m)
      | Inr trim \<Rightarrow>
          (let (computed_blocks, num_new_computed_tokens, num_uncached) =
                 find_longest_cache_hit K (block_hashes r) (max_cache_hit_length trim r) (coord m);
               (e, m') =
                 (if 0 < num_new_computed_tokens \<and> enable_kv_cache_events m
                     \<and> (case kv_cache_report_mode r of None \<Rightarrow> ''incremental'' | Some s \<Rightarrow> s) = ''full''
                  then emit_reused K r 0 computed_blocks m else (Inr (), m));
               shared_prefix_boundary = (if num_uncached \<noteq> 0 then num_new_computed_tokens + num_uncached else 0)
           in (res_bind e (\<lambda>_. Inr (create_kv_cache_blocks m' computed_blocks, num_new_computed_tokens,
                                    shared_prefix_boundary)), m')))"

text \<open>
  The lookup for a request with a KV connector. The order of the tests is the code's; an index beyond the
  per-group hits, and the minimum of no hits, raise.
\<close>

definition get_computed_blocks_for_connector ::
  "('c, 'h, 'e) coordinator \<Rightarrow> (string \<Rightarrow> string option) \<Rightarrow> 'h kv_request \<Rightarrow> ('c, 'h) kv_manager
   \<Rightarrow> ('h kv_cache_blocks \<times> int \<times> int \<times> bool) res \<times> ('c, 'h) kv_manager" where
  "get_computed_blocks_for_connector K env r m =
     (let reconciled = (let (x, m') = get_computed_blocks K env r m
                        in (res_bind x (\<lambda>(b, n, s). Inr (b, n, s, False)), m'))
      in case (if has_mamba_layers (km_config m) \<and> is_hybrid_coordinator K then full_attention_group_id K else None) of
           None \<Rightarrow> reconciled
         | Some fa \<Rightarrow>
             if \<not> prefix_cache_lookup_enabled m r then (Inr (empty_kv_cache_blocks m, 0, 0, False), m)
             else let (computed, hits) =
                        find_longest_cache_hit_per_group K (block_hashes r) (num_tokens r - 1) (coord m)
                  in if hits \<noteq> [] \<and> length hits \<le> fa then (Inl IndexError, m)
                     else if \<exists>h \<in> set hits. hits ! fa < h then reconciled
                     else (res_bind (py_get hits fa) (\<lambda>num_local.
                             Inr (create_kv_cache_blocks m computed, num_local, 0, fold min hits (hd hits) < num_local)), m))"

section \<open>Slot allocation\<close>

record 'h slot_args =
  num_new_tokens :: int
  num_new_computed_tokens :: int
  new_computed_blocks :: "'h kv_cache_blocks option"
  num_lookahead_tokens :: int
  num_external_computed_tokens :: int
  delay_cache_blocks :: bool
  num_encoder_tokens :: int
  full_sequence_must_fit :: bool
  reserved_blocks :: int
  has_scheduled_reqs :: bool

definition new_computed_block_list :: "('c, 'h) kv_manager \<Rightarrow> 'h slot_args \<Rightarrow> 'h groups" where
  "new_computed_block_list m a =
     (case new_computed_blocks a of Some b \<Rightarrow> blocks b | None \<Rightarrow> blocks (empty_kv_cache_blocks m))"

text \<open>
  Whether that tuple is the manager's empty one. With no groups at all every empty tuple is the same object.
\<close>

definition is_empty_tuple :: "('c, 'h) kv_manager \<Rightarrow> 'h slot_args \<Rightarrow> bool" where
  "is_empty_tuple m a =
     (case new_computed_blocks a of
        None \<Rightarrow> True
      | Some (EmptyKVCacheBlocks n) \<Rightarrow> True
      | Some (KVCacheBlocks gs) \<Rightarrow> gs = [] \<and> num_kv_cache_groups m = 0)"

definition num_local_computed_tokens :: "'h kv_request \<Rightarrow> 'h slot_args \<Rightarrow> int" where
  "num_local_computed_tokens r a = num_computed_tokens r + num_new_computed_tokens a"

definition total_computed_tokens :: "('c, 'h) kv_manager \<Rightarrow> 'h kv_request \<Rightarrow> 'h slot_args \<Rightarrow> int" where
  "total_computed_tokens m r a =
     min (num_local_computed_tokens r a + num_external_computed_tokens a) (km_max_model_len m)"

definition applied_watermark :: "('c, 'h) kv_manager \<Rightarrow> 'h kv_request \<Rightarrow> 'h slot_args \<Rightarrow> int" where
  "applied_watermark m r a =
     (if has_scheduled_reqs a \<and> status r \<in> {WAITING, PREEMPTED} then watermark_blocks m else 0)"

definition full_sequence_fits ::
  "('c, 'h, 'e) coordinator \<Rightarrow> ('c, 'h) kv_manager \<Rightarrow> 'h kv_request \<Rightarrow> 'h slot_args \<Rightarrow> bool" where
  "full_sequence_fits K m r a =
     (let full_num_tokens = min (num_tokens r) (km_max_model_len m)
      in get_num_blocks_to_allocate K (request_id r) full_num_tokens (new_computed_block_list m a)
           (num_encoder_tokens a) (total_computed_tokens m r a) (num_local_computed_tokens r a)
           full_num_tokens True (coord m)
         + applied_watermark m r a \<le> pool_get_num_free_blocks K (coord m))"

definition num_tokens_main_model :: "('c, 'h) kv_manager \<Rightarrow> 'h kv_request \<Rightarrow> 'h slot_args \<Rightarrow> int" where
  "num_tokens_main_model m r a = total_computed_tokens m r a + num_new_tokens a"

definition num_tokens_need_slot :: "('c, 'h) kv_manager \<Rightarrow> 'h kv_request \<Rightarrow> 'h slot_args \<Rightarrow> int" where
  "num_tokens_need_slot m r a = min (num_tokens_main_model m r a + num_lookahead_tokens a) (km_max_model_len m)"

definition skip_blocks ::
  "('c, 'h, 'e) coordinator \<Rightarrow> ('c, 'h) kv_manager \<Rightarrow> 'h kv_request \<Rightarrow> 'h slot_args \<Rightarrow> 'c" where
  "skip_blocks K m r a =
     coord_remove_skipped_blocks K (request_id r) (max 0 (total_computed_tokens m r a - num_in_flight_tokens r))
       (Some (num_prompt_tokens r)) (coord m)"

definition blocks_needed ::
  "('c, 'h, 'e) coordinator \<Rightarrow> ('c, 'h) kv_manager \<Rightarrow> 'h kv_request \<Rightarrow> 'h slot_args \<Rightarrow> 'c \<Rightarrow> int" where
  "blocks_needed K m r a c =
     get_num_blocks_to_allocate K (request_id r) (num_tokens_need_slot m r a) (new_computed_block_list m a)
       (num_encoder_tokens a) (num_local_computed_tokens r a + num_external_computed_tokens a)
       (num_local_computed_tokens r a) (num_tokens_main_model m r a) False c"

definition place_computed ::
  "('c, 'h, 'e) coordinator \<Rightarrow> ('c, 'h) kv_manager \<Rightarrow> 'h kv_request \<Rightarrow> 'h slot_args \<Rightarrow> 'c \<Rightarrow> 'c" where
  "place_computed K m r a c =
     (if \<not> is_empty_tuple m a \<or> 0 < num_external_computed_tokens a
      then allocate_new_computed_blocks K (request_id r) (new_computed_block_list m a)
             (num_local_computed_tokens r a) (num_external_computed_tokens a) c
      else c)"

definition num_tokens_to_cache :: "('c, 'h) kv_manager \<Rightarrow> 'h kv_request \<Rightarrow> 'h slot_args \<Rightarrow> int" where
  "num_tokens_to_cache m r a = min (total_computed_tokens m r a + num_new_tokens a) (num_tokens r)"

definition commit_slots ::
  "('c, 'h, 'e) coordinator \<Rightarrow> ('c, 'h) kv_manager \<Rightarrow> 'h kv_request \<Rightarrow> 'h slot_args \<Rightarrow> 'c
   \<Rightarrow> 'h kv_cache_blocks \<times> ('c, 'h) kv_manager" where
  "commit_slots K m r a c =
     (let (new_blocks, c') = allocate_new_blocks K (request_id r) (num_tokens_need_slot m r a)
            (num_tokens_main_model m r a) (num_encoder_tokens a) (place_computed K m r a c)
      in if \<not> enable_caching m \<or> delay_cache_blocks a
         then (create_kv_cache_blocks m new_blocks, m\<lparr> coord := c' \<rparr>)
         else (create_kv_cache_blocks m new_blocks,
               m\<lparr> coord := coord_cache_blocks K r (num_tokens_to_cache m r a) c' \<rparr>))"

definition allocate_slots ::
  "('c, 'h, 'e) coordinator \<Rightarrow> 'h kv_request \<Rightarrow> 'h slot_args \<Rightarrow> ('c, 'h) kv_manager
   \<Rightarrow> 'h kv_cache_blocks option res \<times> ('c, 'h) kv_manager" where
  "allocate_slots K r a m =
     (if num_new_tokens a = 0 \<and> num_external_computed_tokens a = 0 then (Inl ValueError, m)
      else if full_sequence_must_fit a \<and> \<not> full_sequence_fits K m r a then (Inr None, m)
      else
        let c = skip_blocks K m r a;
            available_blocks = pool_get_num_free_blocks K c - reserved_blocks a;
            required_blocks = blocks_needed K m r a c + applied_watermark m r a
        in if available_blocks < required_blocks then (Inr None, m\<lparr> coord := c \<rparr>)
           else let (b, m') = commit_slots K m r a c in (Inr (Some b), m'))"

section \<open>Release\<close>

definition pop_pins :: "string \<Rightarrow> ('c, 'h) kv_manager \<Rightarrow> 'h kv_block list \<times> ('c, 'h) kv_manager" where
  "pop_pins req m =
     (case partial_tail_pins m req of None \<Rightarrow> [] | Some bs \<Rightarrow> bs,
      m\<lparr> partial_tail_pins := (partial_tail_pins m)(req := None) \<rparr>)"

definition free_kv :: "('c, 'h, 'e) coordinator \<Rightarrow> 'h kv_request \<Rightarrow> ('c, 'h) kv_manager \<Rightarrow> ('c, 'h) kv_manager" where
  "free_kv K r m =
     (let (pins, m1) = pop_pins (request_id r) m;
          c = (if pins \<noteq> [] then pool_free_blocks K pins (coord m1) else coord m1)
      in m1\<lparr> coord := coord_free K (request_id r) c \<rparr>)"

definition remove_skipped_blocks ::
  "('c, 'h, 'e) coordinator \<Rightarrow> string \<Rightarrow> int \<Rightarrow> int option \<Rightarrow> ('c, 'h) kv_manager \<Rightarrow> ('c, 'h) kv_manager" where
  "remove_skipped_blocks K req n p m = m\<lparr> coord := coord_remove_skipped_blocks K req n p (coord m) \<rparr>"

definition pop_blocks_for_free ::
  "('c, 'h, 'e) coordinator \<Rightarrow> 'h kv_request \<Rightarrow> ('c, 'h) kv_manager \<Rightarrow> 'h kv_block list \<times> ('c, 'h) kv_manager" where
  "pop_blocks_for_free K r m =
     (let (bs, c) = coord_pop_blocks_for_free K (request_id r) (coord m);
          (pins, m1) = pop_pins (request_id r) (m\<lparr> coord := c \<rparr>)
      in (if pins \<noteq> [] then pins @ bs else bs, m1))"

definition evict_blocks :: "('c, 'h, 'e) coordinator \<Rightarrow> int set \<Rightarrow> ('c, 'h) kv_manager \<Rightarrow> ('c, 'h) kv_manager" where
  "evict_blocks K ids m = m\<lparr> coord := pool_evict_blocks K ids (coord m) \<rparr>"

definition reset_prefix_cache ::
  "('c, 'h, 'e) coordinator \<Rightarrow> ('c, 'h) kv_manager \<Rightarrow> bool res \<times> ('c, 'h) kv_manager" where
  "reset_prefix_cache K m =
     (let (done_reset, c) = pool_reset_prefix_cache K (coord m); m' = m\<lparr> coord := c \<rparr>
      in if \<not> done_reset then (Inr False, m')
         else if log_stats m
         then (case prefix_cache_stats m of
                 None \<Rightarrow> (Inl AssertionError, m')
               | Some st \<Rightarrow> (Inr True, m'\<lparr> prefix_cache_stats := Some (st\<lparr> stats_reset := True \<rparr>) \<rparr>))
         else (Inr True, m'))"

section \<open>Events\<close>

fun annotate_event :: "(spec_kind \<times> int option) list \<Rightarrow> 'e kv_event \<Rightarrow> 'e kv_event" where
  "annotate_event meta (OtherEvent e) = OtherEvent e"
| "annotate_event meta (BlockStored None k w e) = BlockStored None k w e"
| "annotate_event meta (BlockStored (Some i) k w e) =
     (if i < 0 \<or> int (length meta) \<le> i then BlockStored (Some i) k w e
      else BlockStored (Some i) (Some (fst (meta ! nat i))) (snd (meta ! nat i)) e)"

definition take_events ::
  "('c, 'h, 'e) coordinator \<Rightarrow> ('c, 'h) kv_manager \<Rightarrow> 'e kv_event list \<times> ('c, 'h) kv_manager" where
  "take_events K m =
     (let (evs, c) = pool_take_events K (coord m)
      in (map (annotate_event (kv_cache_event_metadata m)) evs, m\<lparr> coord := c \<rparr>))"

section \<open>Views of a block table\<close>

text \<open>\<^verbatim>\<open>xs[s:e]\<close> for arbitrary ints: negative bounds count from the end, and both are clamped.\<close>

definition py_bound :: "'a list \<Rightarrow> int \<Rightarrow> nat" where
  "py_bound xs i = (if i < 0 then nat (int (length xs) + i) else min (nat i) (length xs))"

definition py_slice :: "int \<Rightarrow> int \<Rightarrow> 'a list \<Rightarrow> 'a list" where
  "py_slice s e xs = slice (py_bound xs s) (py_bound xs e) xs"

definition get_blocks ::
  "('c, 'h, 'e) coordinator \<Rightarrow> string \<Rightarrow> ('c, 'h) kv_manager \<Rightarrow> 'h kv_cache_blocks" where
  "get_blocks K req m = create_kv_cache_blocks m (coord_get_blocks K req (coord m))"

definition table_block_ids :: "('c, 'h, 'e) coordinator \<Rightarrow> string \<Rightarrow> ('c, 'h) kv_manager \<Rightarrow> int list list" where
  "table_block_ids K req m = map (map block_id) (blocks (get_blocks K req m))"

definition clip_ids :: "(int \<Rightarrow> int \<Rightarrow> int) \<Rightarrow> int \<Rightarrow> kv_cache_group_spec \<times> int list \<Rightarrow> int list" where
  "clip_ids cd n g_ids =
     (let sp = kv_cache_spec (fst g_ids) in
      if \<not> isinstance sp C_AttentionSpec \<or> isinstance sp C_CrossAttentionSpec \<or> isinstance sp C_EncoderOnlyAttentionSpec
      then snd g_ids
      else py_slice 0 (cd n (spec_block_size sp)) (snd g_ids))"

definition get_block_ids_for_computed_tokens ::
  "(int \<Rightarrow> int \<Rightarrow> int) \<Rightarrow> ('c, 'h, 'e) coordinator \<Rightarrow> string \<Rightarrow> int \<Rightarrow> ('c, 'h) kv_manager \<Rightarrow> int list list" where
  "get_block_ids_for_computed_tokens cd K req n m =
     map (clip_ids cd n) (zip (kv_cache_groups (km_config m)) (table_block_ids K req m))"

definition group_cached_tokens :: "'h kv_block list \<Rightarrow> int" where
  "group_cached_tokens bs =
     fold (\<lambda>b n. max n (case block_hash_num_tokens b of None \<Rightarrow> 0 | Some k \<Rightarrow> k)) bs 0"

fun estimate_loop :: "(kv_cache_group_spec \<times> 'h kv_block list) list \<Rightarrow> int option \<Rightarrow> int option" where
  "estimate_loop [] acc = acc"
| "estimate_loop ((g, bs) # rest) acc =
     (if isinstance (kv_cache_spec g) C_CrossAttentionSpec \<or> isinstance (kv_cache_spec g) C_EncoderOnlyAttentionSpec
      then estimate_loop rest acc
      else estimate_loop rest (Some (case acc of None \<Rightarrow> group_cached_tokens bs
                                     | Some n \<Rightarrow> min n (group_cached_tokens bs))))"

definition estimate_cached_tokens ::
  "('c, 'h, 'e) coordinator \<Rightarrow> 'h kv_request \<Rightarrow> ('c, 'h) kv_manager \<Rightarrow> int" where
  "estimate_cached_tokens K r m =
     (case estimate_loop (zip (kv_cache_groups (km_config m)) (blocks (get_blocks K (request_id r) m))) None of
        None \<Rightarrow> 0 | Some n \<Rightarrow> n)"

definition cache_blocks ::
  "('c, 'h, 'e) coordinator \<Rightarrow> 'h kv_request \<Rightarrow> int \<Rightarrow> ('c, 'h) kv_manager \<Rightarrow> ('c, 'h) kv_manager" where
  "cache_blocks K r n m = (if enable_caching m then m\<lparr> coord := coord_cache_blocks K r n (coord m) \<rparr> else m)"

text \<open>
  \<^verbatim>\<open>zip(..., strict=True)\<close> raises only when one side ends before the other, after the pairs before it.
\<close>

fun truncate_groups :: "int \<Rightarrow> 'h groups \<Rightarrow> int list \<Rightarrow> 'h groups res" where
  "truncate_groups n [] [] = Inr []"
| "truncate_groups n (g # gs) (bs # bss) =
     (if bs = 0 then Inl ZeroDivisionError
      else if n mod bs \<noteq> 0 then Inl AssertionError
      else if int (length g) < n div bs then Inl AssertionError
      else res_bind (truncate_groups n gs bss) (\<lambda>ts. Inr (py_slice 0 (n div bs) g # ts)))"
| "truncate_groups n _ _ = Inl ValueError"

definition truncate_computed_blocks ::
  "('c, 'h, 'e) coordinator \<Rightarrow> 'h kv_cache_blocks \<Rightarrow> int \<Rightarrow> ('c, 'h) kv_manager \<Rightarrow> 'h kv_cache_blocks res" where
  "truncate_computed_blocks K b n m =
     res_bind (truncate_groups n (blocks b) (map (mgr_block_size K) [0..<num_managers K]))
       (\<lambda>ts. Inr (create_kv_cache_blocks m ts))"

section \<open>Zeroing, copies and partial tails\<close>

text \<open>Each of the next operations visits the single-type managers in order.\<close>

fun take_ids_loop :: "('c, 'h, 'e) coordinator \<Rightarrow> nat list \<Rightarrow> 'c \<Rightarrow> int list \<times> 'c" where
  "take_ids_loop K [] c = ([], c)"
| "take_ids_loop K (i # is) c =
     (let (ids, c1) = mgr_take_new_block_ids K i c; (rest, c2) = take_ids_loop K is c1 in (ids @ rest, c2))"

definition take_new_block_ids ::
  "('c, 'h, 'e) coordinator \<Rightarrow> ('c, 'h) kv_manager \<Rightarrow> int list \<times> ('c, 'h) kv_manager" where
  "take_new_block_ids K m =
     (let (ids, c) = take_ids_loop K [0..<num_managers K] (coord m) in (ids, m\<lparr> coord := c \<rparr>))"

definition get_zeroing_block_ids_in_range ::
  "(int \<Rightarrow> int \<Rightarrow> int) \<Rightarrow> ('c, 'h, 'e) coordinator \<Rightarrow> string \<Rightarrow> int \<Rightarrow> int \<Rightarrow> ('c, 'h) kv_manager \<Rightarrow> int list res" where
  "get_zeroing_block_ids_in_range cd K req start_token end_token m =
     res_bind (map_res (\<lambda>i. res_bind (floordiv start_token (mgr_block_size K i)) (\<lambda>start_idx.
         Inr (map block_id (py_slice start_idx (cd end_token (mgr_block_size K i)) (mgr_req_to_blocks K i req (coord m))))))
       (filter (mgr_records_new_block_ids K) [0..<num_managers K]))
     (\<lambda>idss. Inr (concat idss))"

fun record_zeroing_loop ::
  "('c, 'h, 'e) coordinator \<Rightarrow> string \<Rightarrow> int \<Rightarrow> nat list \<Rightarrow> 'c \<Rightarrow> unit res \<times> 'c" where
  "record_zeroing_loop K req start [] c = (Inr (), c)"
| "record_zeroing_loop K req start (i # is) c =
     (if \<not> mgr_records_new_block_ids K i then record_zeroing_loop K req start is c
      else if mgr_block_size K i = 0 then (Inl ZeroDivisionError, c)
      else if start mod mgr_block_size K i \<noteq> 0 then (Inl AssertionError, c)
      else let bs = mgr_req_to_blocks K i req c in
           record_zeroing_loop K req start is
             (mgr_extend_new_block_ids K i
               (map block_id (py_slice (start div mgr_block_size K i) (int (length bs)) bs)) c))"

definition record_blocks_for_zeroing ::
  "('c, 'h, 'e) coordinator \<Rightarrow> string \<Rightarrow> int \<Rightarrow> ('c, 'h) kv_manager \<Rightarrow> unit res \<times> ('c, 'h) kv_manager" where
  "record_blocks_for_zeroing K req start_token m =
     (let (e, c) = record_zeroing_loop K req start_token [0..<num_managers K] (coord m) in (e, m\<lparr> coord := c \<rparr>))"

fun take_copies_loop ::
  "('c, 'h, 'e) coordinator \<Rightarrow> nat list \<Rightarrow> 'c \<Rightarrow> ('h kv_block \<times> 'h kv_block) list \<times> 'c" where
  "take_copies_loop K [] c = ([], c)"
| "take_copies_loop K (i # is) c =
     (let (ps, c1) = mgr_take_pending_cow_copies K i c; (rest, c2) = take_copies_loop K is c1 in (ps @ rest, c2))"

definition take_kv_cache_block_copies ::
  "('c, 'h, 'e) coordinator \<Rightarrow> ('c, 'h) kv_manager
   \<Rightarrow> ((int \<times> int) list \<times> 'h kv_block list) \<times> ('c, 'h) kv_manager" where
  "take_kv_cache_block_copies K m =
     (let (pending, c) = take_copies_loop K [0..<num_managers K] (coord m)
      in ((map (\<lambda>(s, d). (block_id s, block_id d)) pending, concat (map (\<lambda>(s, d). [s, d]) pending)),
          m\<lparr> coord := c \<rparr>))"

type_synonym offloads = "string \<Rightarrow> (int \<times> int \<times> int) list option"

definition setdefault_append :: "('k \<Rightarrow> 'v list option) \<Rightarrow> 'k \<Rightarrow> 'v \<Rightarrow> 'k \<Rightarrow> 'v list option" where
  "setdefault_append d k v = d(k \<mapsto> (case d k of None \<Rightarrow> [] | Some vs \<Rightarrow> vs) @ [v])"

fun hand_off ::
  "('c, 'h, 'e) coordinator \<Rightarrow> (string \<times> int \<times> 'h kv_block \<times> int) list \<Rightarrow> offloads \<times> ('c, 'h) kv_manager
   \<Rightarrow> offloads \<times> ('c, 'h) kv_manager" where
  "hand_off K [] om = om"
| "hand_off K ((req, g, b, t) # hs) (offs, m) =
     hand_off K hs (setdefault_append offs req (g, block_id b, t),
       m\<lparr> coord := pool_touch K [b] (coord m),
          partial_tail_pins := setdefault_append (partial_tail_pins m) req b \<rparr>)"

fun offload_loop ::
  "('c, 'h, 'e) coordinator \<Rightarrow> nat list \<Rightarrow> offloads \<times> ('c, 'h) kv_manager \<Rightarrow> offloads \<times> ('c, 'h) kv_manager" where
  "offload_loop K [] om = om"
| "offload_loop K (i # is) (offs, m) =
     (let (hs, c) = mgr_take_pending_partial_tail_offloads K i (coord m)
      in offload_loop K is (hand_off K hs (offs, m\<lparr> coord := c \<rparr>)))"

definition take_partial_tail_offloads ::
  "('c, 'h, 'e) coordinator \<Rightarrow> ('c, 'h) kv_manager \<Rightarrow> offloads \<times> ('c, 'h) kv_manager" where
  "take_partial_tail_offloads K m = offload_loop K [0..<num_managers K] (\<lambda>_. None, m)"

definition new_step_starts :: "('c, 'h, 'e) coordinator \<Rightarrow> ('c, 'h) kv_manager \<Rightarrow> ('c, 'h) kv_manager" where
  "new_step_starts K m = m\<lparr> coord := coord_new_step_starts K (coord m) \<rparr>"

end
