(* ===== verification/Kv_Manager_Props.thy ===== *)
theory Kv_Manager_Props
  imports Kv_Manager "HOL-Library.Multiset"
begin

text \<open>
  Properties of the KV-cache manager: the ring trim, admission, the pins on partial tails and the views of the
  block table.
\<close>

section \<open>Lookup\<close>

text \<open>
  What the lookup relies on: the coordinator returns one list of blocks per group of the configuration, and a
  hit of at most the maximum length it was given, never a negative one.
\<close>

definition bounded_hits :: "('c, 'h, 'e) coordinator \<Rightarrow> kv_cache_config \<Rightarrow> bool" where
  "bounded_hits K cfg \<longleftrightarrow> (\<forall>hs n c. length (fst (find_longest_cache_hit K hs n c)) = length (kv_cache_groups cfg)
     \<and> (0 \<le> n \<longrightarrow> 0 \<le> fst (snd (find_longest_cache_hit K hs n c)) \<and> fst (snd (find_longest_cache_hit K hs n c)) \<le> n))"

lemma emit_reused_ok:
  assumes "i + length gs \<le> length (kv_cache_groups (km_config m))"
  shows "fst (emit_reused K r i gs m) = Inr () \<and> (\<exists>c. snd (emit_reused K r i gs m) = m\<lparr> coord := c \<rparr>)"
  using assms
proof (induction K r i gs m rule: emit_reused.induct)
  case (1 K r i m)
  show ?case by (simp add: exI[of _ "coord m"])
next
  case (2 K r i g gs m)
  have i: "i < length (kv_cache_groups (km_config m))" using 2(3) by simp
  show ?case
  proof (cases "g = []")
    case False
    then have "fst (emit_reused K r i (g # gs) m) = Inr () \<and>
        (\<exists>c. snd (emit_reused K r i (g # gs) m) = (m\<lparr> coord := pool_emit_cached_block_events K r (int (length g))
           (spec_block_size (kv_cache_spec (kv_cache_groups (km_config m) ! i))) i (coord m) \<rparr>)\<lparr> coord := c \<rparr>)"
      using 2(1)[of "kv_cache_groups (km_config m) ! i"] 2(3) i by (simp add: py_get_def)
    then show ?thesis by auto
  qed (use 2(2,3) in simp)
qed

lemma max_cache_hit_length_bounds:
  assumes "1 \<le> num_tokens r"
  shows "0 \<le> max_cache_hit_length trim r"
    "max_cache_hit_length trim r + min (max 0 trim) (num_tokens r - 1) + 1 = num_tokens r"
  using assms by (auto simp: max_cache_hit_length_def max_def min_def)

text \<open>
  C19. A prefix-cache hit leaves the draft ring its window. Whenever the trim can be read from the
  environment, the lookup returns, changes nothing but the coordinator's state, and the tokens that remain
  to be computed are at least the trim and the last token, or the whole request when it is shorter.
\<close>

theorem lookup_leaves_ring_window:
  assumes "bounded_hits K (km_config m)" "dspark_ring_cache_trim env = Inr trim" "1 \<le> num_tokens r"
  shows "\<exists>b n s c. get_computed_blocks K env r m = (Inr (b, n, s), m\<lparr> coord := c \<rparr>)
    \<and> 0 \<le> n \<and> n + min (max 0 trim) (num_tokens r - 1) + 1 \<le> num_tokens r"
proof (cases "prefix_cache_lookup_enabled m r")
  case False
  then have "get_computed_blocks K env r m = (Inr (empty_kv_cache_blocks m, 0, 0), m\<lparr> coord := coord m \<rparr>)"
    by (simp add: get_computed_blocks_def)
  then show ?thesis
    by (intro exI[of _ "empty_kv_cache_blocks m"] exI[of _ 0] exI[of _ "coord m"]) (use assms(3) in auto)
next
  case True
  obtain gs n u where f: "find_longest_cache_hit K (block_hashes r) (max_cache_hit_length trim r) (coord m) = (gs, n, u)"
    by (metis prod_cases3)
  note b = max_cache_hit_length_bounds[OF assms(3), of trim]
  have n: "0 \<le> n" "n \<le> max_cache_hit_length trim r" and len: "length gs = length (kv_cache_groups (km_config m))"
    using assms(1) b(1) f unfolding bounded_hits_def by (metis fst_conv snd_conv)+
  obtain c where em: "emit_reused K r 0 gs m = (Inr (), m\<lparr> coord := c \<rparr>)"
    using emit_reused_ok[of 0 gs m K r] len by (metis le_refl plus_nat.add_0 prod.collapse)
  let ?full = "0 < n \<and> enable_kv_cache_events m
    \<and> (case kv_cache_report_mode r of None \<Rightarrow> ''incremental'' | Some s \<Rightarrow> s) = ''full''"
  let ?m = "m\<lparr> coord := if ?full then c else coord m \<rparr>"
  have e: "(if ?full then emit_reused K r 0 gs m else (Inr (), m)) = (Inr (), ?m)"
    by (cases ?full) (simp_all only: em if_True if_False, simp_all)
  have "get_computed_blocks K env r m = (Inr (create_kv_cache_blocks ?m gs, n, if u \<noteq> 0 then n + u else 0), ?m)"
    by (simp only: get_computed_blocks_def Let_def assms(2) f True sum.case prod.case not_True_eq_False if_False e
        res_bind_simps)
  then show ?thesis using n b(2)
    by (intro exI[of _ "create_kv_cache_blocks ?m gs"] exI[of _ n] exI[of _ "if u \<noteq> 0 then n + u else 0"]
        exI[of _ "if ?full then c else coord m"] conjI) linarith+
qed

section \<open>Slot allocation\<close>

text \<open>
  What admission relies on: placing the computed blocks and allocating the new ones takes at most the number
  of free blocks that was announced for the same request and token counts, also when there is nothing to place, and
  entering blocks into the prefix cache does not take free ones.
\<close>

definition announced_allocation :: "('c, 'h, 'e) coordinator \<Rightarrow> bool" where
  "announced_allocation K \<longleftrightarrow>
     (\<forall>q n gs enc loc ext main c.
        let need = get_num_blocks_to_allocate K q n gs enc (loc + ext) loc main False c in
        pool_get_num_free_blocks K c - need
          \<le> pool_get_num_free_blocks K (snd (allocate_new_blocks K q n main enc (allocate_new_computed_blocks K q gs loc ext c)))
        \<and> ((\<forall>g \<in> set gs. g = []) \<and> ext \<le> 0 \<longrightarrow> pool_get_num_free_blocks K c - need
          \<le> pool_get_num_free_blocks K (snd (allocate_new_blocks K q n main enc c))))
     \<and> (\<forall>r n c. pool_get_num_free_blocks K c \<le> pool_get_num_free_blocks K (coord_cache_blocks K r n c))"

lemma empty_tuple_groups: "is_empty_tuple m a \<Longrightarrow> g \<in> set (new_computed_block_list m a) \<Longrightarrow> g = []"
  by (auto simp: is_empty_tuple_def new_computed_block_list_def split: option.splits kv_cache_blocks.splits)

lemma place_and_allocate_free:
  assumes "announced_allocation K"
  shows "pool_get_num_free_blocks K c - blocks_needed K m r a c
    \<le> pool_get_num_free_blocks K (snd (allocate_new_blocks K (request_id r) (num_tokens_need_slot m r a)
         (num_tokens_main_model m r a) (num_encoder_tokens a) (place_computed K m r a c)))"
  using assms empty_tuple_groups[of m a]
  unfolding announced_allocation_def place_computed_def blocks_needed_def Let_def by (auto simp: not_less)

lemma commit_slots_cases:
  assumes "commit_slots K m r a c = (b, m')"
  shows "m' = m\<lparr> coord := coord m' \<rparr> \<and> (\<exists>n s c'. n \<le> num_tokens r \<and> s \<le> km_max_model_len m
    \<and> c' = snd (allocate_new_blocks K (request_id r) s (num_tokens_main_model m r a) (num_encoder_tokens a) (place_computed K m r a c))
    \<and> coord m' = (if enable_caching m \<and> \<not> delay_cache_blocks a then coord_cache_blocks K r n c' else c'))"
proof -
  have n: "num_tokens_to_cache m r a \<le> num_tokens r" "num_tokens_need_slot m r a \<le> km_max_model_len m"
    by (simp_all add: num_tokens_to_cache_def num_tokens_need_slot_def)
  have "m' = m\<lparr> coord := coord m' \<rparr> \<and> coord m' = (let c' = snd (allocate_new_blocks K (request_id r) (num_tokens_need_slot m r a)
      (num_tokens_main_model m r a) (num_encoder_tokens a) (place_computed K m r a c))
    in if enable_caching m \<and> \<not> delay_cache_blocks a then coord_cache_blocks K r (num_tokens_to_cache m r a) c' else c')"
    using assms by (auto simp: commit_slots_def Let_def split: prod.splits if_splits)
  then show ?thesis using n unfolding Let_def by blast
qed

lemma commit_slots_free:
  assumes "announced_allocation K" "commit_slots K m r a c = (b, m')"
  shows "pool_get_num_free_blocks K c - blocks_needed K m r a c \<le> pool_get_num_free_blocks K (coord m')"
proof -
  obtain bs c' where p: "allocate_new_blocks K (request_id r) (num_tokens_need_slot m r a)
      (num_tokens_main_model m r a) (num_encoder_tokens a) (place_computed K m r a c) = (bs, c')" by fastforce
  have c': "pool_get_num_free_blocks K c - blocks_needed K m r a c \<le> pool_get_num_free_blocks K c'"
    using place_and_allocate_free[OF assms(1), of c m r a] p by simp
  have "coord m' = c' \<or> coord m' = coord_cache_blocks K r (num_tokens_to_cache m r a) c'"
    using assms(2) p by (auto simp: commit_slots_def split: if_splits)
  moreover have "pool_get_num_free_blocks K c' \<le> pool_get_num_free_blocks K (coord_cache_blocks K r (num_tokens_to_cache m r a) c')"
    using assms(1) unfolding announced_allocation_def by blast
  ultimately show ?thesis using c' by auto
qed

text \<open>The three ways in which a call with tokens to compute or to load ends.\<close>

lemma allocate_slots_cases:
  assumes "num_new_tokens a \<noteq> 0 \<or> num_external_computed_tokens a \<noteq> 0" "c = skip_blocks K m r a"
  obtains (full) "full_sequence_must_fit a" "\<not> full_sequence_fits K m r a" "allocate_slots K r a m = (Inr None, m)"
  | (short) "pool_get_num_free_blocks K c < blocks_needed K m r a c + applied_watermark m r a + reserved_blocks a"
      "allocate_slots K r a m = (Inr None, m\<lparr> coord := c \<rparr>)"
  | (given) b m' where "blocks_needed K m r a c + applied_watermark m r a + reserved_blocks a \<le> pool_get_num_free_blocks K c"
      "commit_slots K m r a c = (b, m')" "allocate_slots K r a m = (Inr (Some b), m')"
proof -
  obtain b m' where cm: "commit_slots K m r a c = (b, m')" by fastforce
  have ne: "(num_new_tokens a = 0 \<and> num_external_computed_tokens a = 0) = False" using assms(1) by blast
  consider "full_sequence_must_fit a \<and> \<not> full_sequence_fits K m r a"
    | "(full_sequence_must_fit a \<and> \<not> full_sequence_fits K m r a) = False"
      "(pool_get_num_free_blocks K c - reserved_blocks a < blocks_needed K m r a c + applied_watermark m r a) = True"
    | "(full_sequence_must_fit a \<and> \<not> full_sequence_fits K m r a) = False"
      "(pool_get_num_free_blocks K c - reserved_blocks a < blocks_needed K m r a c + applied_watermark m r a) = False"
    by blast
  then show thesis
  proof cases
    case 1
    then have "allocate_slots K r a m = (Inr None, m)"
      by (simp only: allocate_slots_def Let_def ne if_False simp_thms if_True)
    then show thesis using full 1 by blast
  next
    case 2
    then have "allocate_slots K r a m = (Inr None, m\<lparr> coord := c \<rparr>)"
      by (simp only: allocate_slots_def Let_def ne if_False assms(2)[symmetric] if_True)
    moreover have "pool_get_num_free_blocks K c < blocks_needed K m r a c + applied_watermark m r a + reserved_blocks a"
      using 2(2) by simp
    ultimately show thesis using short by blast
  next
    case 3
    then have "allocate_slots K r a m = (Inr (Some b), m')"
      by (simp only: allocate_slots_def Let_def ne if_False assms(2)[symmetric] cm prod.case)
    moreover have "blocks_needed K m r a c + applied_watermark m r a + reserved_blocks a \<le> pool_get_num_free_blocks K c"
      using 3(2) by simp
    ultimately show thesis using given cm by blast
  qed
qed

text \<open>
  C20. Admission keeps the reserve. With tokens to compute or to load, \<^verbatim>\<open>allocate_slots\<close> never raises. When it
  gives blocks, the blocks reserved for other sequences and the watermark are still free afterwards, at most the
  request's own tokens were entered into the prefix cache, and never more slots than the model length were
  asked for. When it gives none, either the full sequence did not fit and nothing has changed, or the
  announced number of blocks did not fit and only blocks that attention no longer reads were dropped.
\<close>

theorem allocate_slots_keeps_reserve:
  assumes "announced_allocation K" "num_new_tokens a \<noteq> 0 \<or> num_external_computed_tokens a \<noteq> 0"
    and "c = skip_blocks K m r a"
  shows "(\<exists>b m'. allocate_slots K r a m = (Inr (Some b), m') \<and> m' = m\<lparr> coord := coord m' \<rparr>
        \<and> reserved_blocks a + applied_watermark m r a \<le> pool_get_num_free_blocks K (coord m')
        \<and> (\<exists>n s c'. n \<le> num_tokens r \<and> s \<le> km_max_model_len m
            \<and> c' = snd (allocate_new_blocks K (request_id r) s (num_tokens_main_model m r a) (num_encoder_tokens a) (place_computed K m r a c))
            \<and> coord m' = (if enable_caching m \<and> \<not> delay_cache_blocks a then coord_cache_blocks K r n c' else c')))
    \<or> allocate_slots K r a m = (Inr None, m) \<and> full_sequence_must_fit a \<and> \<not> full_sequence_fits K m r a
    \<or> allocate_slots K r a m = (Inr None, m\<lparr> coord := c \<rparr>)
       \<and> pool_get_num_free_blocks K c < blocks_needed K m r a c + applied_watermark m r a + reserved_blocks a"
  using assms(2,3)
proof (cases rule: allocate_slots_cases)
  case (given b m')
  have "reserved_blocks a + applied_watermark m r a \<le> pool_get_num_free_blocks K (coord m')"
    using given(1) commit_slots_free[OF assms(1) given(2)] by linarith
  then show ?thesis using given(3) commit_slots_cases[OF given(2)] by blast
qed blast+

section \<open>A concrete coordinator\<close>

text \<open>
  A coordinator over a pool of free blocks, counted: a hit is the maximum length asked for, slots cost one block
  per sixteen tokens beyond those already given. It meets what the properties above rely on.
\<close>

record demo_pool =
  free_count :: int
  given_tokens :: int
  pending :: "(string \<times> int \<times> nat kv_block \<times> int) list"

definition demo_block :: "int \<Rightarrow> nat kv_block" where
  "demo_block i = \<lparr> block_id = i, block_hash = None, block_hash_num_tokens = None, is_null = False \<rparr>"

definition demo_need :: "int \<Rightarrow> demo_pool \<Rightarrow> int" where
  "demo_need n c = max 0 (n div 16 - given_tokens c div 16)"

definition demo_coord :: "(demo_pool, nat, unit) coordinator" where
  "demo_coord = \<lparr> find_longest_cache_hit = (\<lambda>hs n c. ([[], []], max 0 n, 0)),
     find_longest_cache_hit_per_group = (\<lambda>hs n c. ([[demo_block 1], [demo_block 2]], [n, n])),
     is_hybrid_coordinator = True, full_attention_group_id = Some 0,
     get_num_blocks_to_allocate = (\<lambda>q n gs enc tot loc main cap c. demo_need n c),
     coord_remove_skipped_blocks = (\<lambda>q n p c. c),
     allocate_new_computed_blocks = (\<lambda>q gs loc ext c. c),
     allocate_new_blocks = (\<lambda>q n main enc c. ([[demo_block n], []],
        c\<lparr> free_count := free_count c - demo_need n c, given_tokens := max n (given_tokens c) \<rparr>)),
     coord_cache_blocks = (\<lambda>r n c. c), coord_free = (\<lambda>q c. c), coord_pop_blocks_for_free = (\<lambda>q c. ([demo_block 9], c)),
     coord_get_blocks = (\<lambda>q c. []), coord_new_step_starts = (\<lambda>c. c), pool_get_num_free_blocks = free_count,
     pool_free_blocks = (\<lambda>bs c. c), pool_touch = (\<lambda>bs c. c), pool_evict_blocks = (\<lambda>ids c. c),
     pool_reset_prefix_cache = (\<lambda>c. (True, c)), pool_emit_cached_block_events = (\<lambda>r n b g c. c),
     pool_take_events = (\<lambda>c. ([], c)), num_managers = 1, mgr_block_size = (\<lambda>i. 16),
     mgr_records_new_block_ids = (\<lambda>i. False), mgr_req_to_blocks = (\<lambda>i q c. []), mgr_extend_new_block_ids = (\<lambda>i ids c. c),
     mgr_take_new_block_ids = (\<lambda>i c. ([], c)), mgr_take_pending_cow_copies = (\<lambda>i c. ([], c)),
     mgr_take_pending_partial_tail_offloads = (\<lambda>i c. (pending c, c\<lparr> pending := [] \<rparr>)) \<rparr>"

definition demo_group :: "spec \<Rightarrow> kv_cache_group_spec" where
  "demo_group sp = \<lparr> layer_names = [], kv_cache_spec = sp, is_eagle_group = False \<rparr>"

definition demo_full :: spec where
  "demo_full = FullAttentionSpec \<lparr> attention_spec.block_size = 16, num_kv_heads = 1, head_size = 64, kv_dtype = ''float16'',
     quant_mode = NONE, page_size_padded = None, indexes_kv_by_block_stride = False, head_size_v = 64,
     sliding_window = None, attention_chunk_size = None, non_causal = False \<rparr>"

definition demo_mamba :: spec where
  "demo_mamba = MambaSpec \<lparr> mamba_block_size = 16, shapes = [], dtypes = [], mamba_page_size_padded = None,
     mamba_type = ''mamba2'', mamba_mode = ''align'', num_speculative_blocks = 0 \<rparr>"

definition demo_config :: kv_cache_config where
  "demo_config = \<lparr> num_blocks = 100, kv_cache_tensors = [], kv_cache_groups = [demo_group demo_full, demo_group demo_mamba] \<rparr>"

definition demo_manager :: "(demo_pool, nat) kv_manager" where
  "demo_manager = \<lparr> km_max_model_len = 4096, enable_caching = True, enable_kv_cache_events = False, log_stats = False,
     prefix_cache_stats = None,
     coord = \<lparr> free_count = 100, given_tokens = 0, pending = [(''r'', 1, demo_block 7, 30)] \<rparr>,
     num_kv_cache_groups = 2, km_config = demo_config, watermark_blocks = 5, kv_cache_event_metadata = [],
     partial_tail_pins = (\<lambda>_. None) \<rparr>"

definition demo_kv_request :: "nat kv_request" where
  "demo_kv_request = \<lparr> request_id = ''r'', status = WAITING, num_tokens = 2000, num_prompt_tokens = 2000,
     num_computed_tokens = 0, is_prefill_chunk = True, arrival_time = 0, shared_prefix_boundary = 0,
     block_hashes = [], skip_reading_prefix_cache = False, num_in_flight_tokens = 0, num_preemptions = 0,
     kv_cache_report_mode = None \<rparr>"

definition demo_args :: "int \<Rightarrow> nat slot_args" where
  "demo_args n = \<lparr> num_new_tokens = n, num_new_computed_tokens = 0, new_computed_blocks = None, num_lookahead_tokens = 0,
     num_external_computed_tokens = 0, delay_cache_blocks = False, num_encoder_tokens = 0,
     full_sequence_must_fit = False, reserved_blocks = 10, has_scheduled_reqs = True \<rparr>"

definition ring_env :: "string \<Rightarrow> string option" where
  "ring_env v = (if v = ''VLLM_DSPARK_DRAFT_RING'' then Some ''1'' else None)"

lemma ring_env_trim: "dspark_ring_cache_trim ring_env = Inr 1024"
  by code_simp

lemma demo_bounded: "bounded_hits demo_coord demo_config"
  by (simp add: bounded_hits_def demo_coord_def demo_config_def)

lemma demo_announced: "announced_allocation demo_coord"
  by (simp add: announced_allocation_def demo_coord_def)

theorem lookup_leaves_ring_window_witness:
  "\<exists>b n s c. get_computed_blocks demo_coord ring_env demo_kv_request demo_manager = (Inr (b, n, s), demo_manager\<lparr> coord := c \<rparr>)
     \<and> 0 \<le> n \<and> n + 1024 + 1 \<le> 2000"
proof -
  have m: "km_config demo_manager = demo_config" "num_tokens demo_kv_request = 2000"
    by (simp_all add: demo_manager_def demo_kv_request_def)
  from lookup_leaves_ring_window[of demo_coord demo_manager ring_env 1024 demo_kv_request, unfolded m,
      OF demo_bounded ring_env_trim] show ?thesis by simp
qed

theorem allocate_slots_keeps_reserve_witness:
  "(\<exists>b m'. allocate_slots demo_coord demo_kv_request (demo_args 300) demo_manager = (Inr (Some b), m')
      \<and> 15 \<le> free_count (coord m'))
   \<and> fst (allocate_slots demo_coord demo_kv_request (demo_args 1400) demo_manager) = Inr None"
proof
  show "fst (allocate_slots demo_coord demo_kv_request (demo_args 1400) demo_manager) = Inr None" by code_simp
  have "fst (allocate_slots demo_coord demo_kv_request (demo_args 300) demo_manager) \<noteq> Inr None" by code_simp
  moreover have "num_new_tokens (demo_args 300) \<noteq> 0" by (simp add: demo_args_def)
  moreover have "reserved_blocks (demo_args 300) + applied_watermark demo_manager demo_kv_request (demo_args 300) = 15"
    by code_simp
  moreover have "pool_get_num_free_blocks demo_coord = free_count" by (simp add: demo_coord_def)
  ultimately show "\<exists>b m'. allocate_slots demo_coord demo_kv_request (demo_args 300) demo_manager = (Inr (Some b), m')
      \<and> 15 \<le> free_count (coord m')"
    using allocate_slots_keeps_reserve[OF demo_announced _ refl, where a = "demo_args 300" and m = demo_manager and r = demo_kv_request]
    by (metis fst_conv)
qed

text \<open>
  The lookup for a KV connector does not apply the ring trim. With the ring on and a trim of 1024 tokens,
  a request of 2000 tokens on a hybrid model whose groups agree is given 1999 computed tokens through the connector,
  where the plain lookup gives 975: one token is recomputed and the ring window stays empty.
\<close>

lemma connector_lookup_skips_ring_trim:
  "dspark_ring_cache_trim ring_env = Inr 1024 \<and> bounded_hits demo_coord (km_config demo_manager)
   \<and> map_sum id (fst \<circ> snd) (fst (get_computed_blocks demo_coord ring_env demo_kv_request demo_manager)) = Inr 975
   \<and> map_sum id (fst \<circ> snd) (fst (get_computed_blocks_for_connector demo_coord ring_env demo_kv_request demo_manager)) = Inr 1999"
proof (intro conjI)
  show "bounded_hits demo_coord (km_config demo_manager)" using demo_bounded by (simp add: demo_manager_def)
qed (rule ring_env_trim, code_simp, code_simp)

section \<open>Pinned partial tails\<close>

text \<open>
  The coordinator with a log beside its state: the blocks that were touched, those that the manager returned
  to the pool itself, and those that the coordinator popped for a deferred release. The manager's operations
  run on it unchanged.
\<close>

datatype 'h pool_event = Touched "'h kv_block list" | Freed "'h kv_block list" | Popped "'h kv_block list"

definition on_fst :: "('c \<Rightarrow> 'c) \<Rightarrow> 'c \<times> 'l \<Rightarrow> 'c \<times> 'l" where
  "on_fst f s = (f (fst s), snd s)"

definition on_fst' :: "('c \<Rightarrow> 'a \<times> 'c) \<Rightarrow> 'c \<times> 'l \<Rightarrow> 'a \<times> 'c \<times> 'l" where
  "on_fst' f s = (fst (f (fst s)), snd (f (fst s)), snd s)"

definition logged :: "('c, 'h, 'e) coordinator \<Rightarrow> ('c \<times> 'h pool_event list, 'h, 'e) coordinator" where
  "logged K = \<lparr> find_longest_cache_hit = (\<lambda>hs n s. find_longest_cache_hit K hs n (fst s)),
     find_longest_cache_hit_per_group = (\<lambda>hs n s. find_longest_cache_hit_per_group K hs n (fst s)),
     is_hybrid_coordinator = is_hybrid_coordinator K, full_attention_group_id = full_attention_group_id K,
     get_num_blocks_to_allocate = (\<lambda>q n gs e t l mn cap s. get_num_blocks_to_allocate K q n gs e t l mn cap (fst s)),
     coord_remove_skipped_blocks = (\<lambda>q n p. on_fst (coord_remove_skipped_blocks K q n p)),
     allocate_new_computed_blocks = (\<lambda>q gs l e. on_fst (allocate_new_computed_blocks K q gs l e)),
     allocate_new_blocks = (\<lambda>q n mn e. on_fst' (allocate_new_blocks K q n mn e)),
     coord_cache_blocks = (\<lambda>r n. on_fst (coord_cache_blocks K r n)), coord_free = (\<lambda>q. on_fst (coord_free K q)),
     coord_pop_blocks_for_free = (\<lambda>q s. let (bs, c) = coord_pop_blocks_for_free K q (fst s) in (bs, c, snd s @ [Popped bs])),
     coord_get_blocks = (\<lambda>q s. coord_get_blocks K q (fst s)), coord_new_step_starts = on_fst (coord_new_step_starts K),
     pool_get_num_free_blocks = (\<lambda>s. pool_get_num_free_blocks K (fst s)),
     pool_free_blocks = (\<lambda>bs s. (pool_free_blocks K bs (fst s), snd s @ [Freed bs])),
     pool_touch = (\<lambda>bs s. (pool_touch K bs (fst s), snd s @ [Touched bs])),
     pool_evict_blocks = (\<lambda>ids. on_fst (pool_evict_blocks K ids)),
     pool_reset_prefix_cache = on_fst' (pool_reset_prefix_cache K),
     pool_emit_cached_block_events = (\<lambda>r n b g. on_fst (pool_emit_cached_block_events K r n b g)),
     pool_take_events = on_fst' (pool_take_events K), num_managers = num_managers K, mgr_block_size = mgr_block_size K,
     mgr_records_new_block_ids = mgr_records_new_block_ids K,
     mgr_req_to_blocks = (\<lambda>i q s. mgr_req_to_blocks K i q (fst s)),
     mgr_extend_new_block_ids = (\<lambda>i ids. on_fst (mgr_extend_new_block_ids K i ids)),
     mgr_take_new_block_ids = (\<lambda>i. on_fst' (mgr_take_new_block_ids K i)),
     mgr_take_pending_cow_copies = (\<lambda>i. on_fst' (mgr_take_pending_cow_copies K i)),
     mgr_take_pending_partial_tail_offloads = (\<lambda>i. on_fst' (mgr_take_pending_partial_tail_offloads K i)) \<rparr>"

datatype 'h manager_op =
    Lookup "string \<Rightarrow> string option" "'h kv_request"
  | Allocate "'h kv_request" "'h slot_args"
  | Cache "'h kv_request" int
  | Offload
  | Release "'h kv_request"
  | Pop "'h kv_request"
  | NewStep

text \<open>One operation: the blocks it hands to its caller for a later release, and the manager after it.\<close>

fun run_op :: "('c, 'h, 'e) coordinator \<Rightarrow> 'h manager_op \<Rightarrow> ('c, 'h) kv_manager \<Rightarrow> 'h kv_block list \<times> ('c, 'h) kv_manager" where
  "run_op K (Lookup env r) m = ([], snd (get_computed_blocks K env r m))"
| "run_op K (Allocate r a) m = ([], snd (allocate_slots K r a m))"
| "run_op K (Cache r n) m = ([], cache_blocks K r n m)"
| "run_op K Offload m = ([], snd (take_partial_tail_offloads K m))"
| "run_op K (Release r) m = ([], free_kv K r m)"
| "run_op K (Pop r) m = pop_blocks_for_free K r m"
| "run_op K NewStep m = ([], new_step_starts K m)"

fun run_ops :: "('c, 'h, 'e) coordinator \<Rightarrow> 'h manager_op list \<Rightarrow> ('c, 'h) kv_manager \<Rightarrow> 'h kv_block list \<times> ('c, 'h) kv_manager" where
  "run_ops K [] m = ([], m)"
| "run_ops K (x # xs) m = (let (bs, m1) = run_op K x m; (bs', m2) = run_ops K xs m1 in (bs @ bs', m2))"

definition touched :: "'h pool_event list \<Rightarrow> 'h kv_block multiset" where
  "touched l = mset (concat (map (\<lambda>e. case e of Touched bs \<Rightarrow> bs | _ \<Rightarrow> []) l))"

definition freed :: "'h pool_event list \<Rightarrow> 'h kv_block multiset" where
  "freed l = mset (concat (map (\<lambda>e. case e of Freed bs \<Rightarrow> bs | _ \<Rightarrow> []) l))"

definition popped :: "'h pool_event list \<Rightarrow> 'h kv_block multiset" where
  "popped l = mset (concat (map (\<lambda>e. case e of Popped bs \<Rightarrow> bs | _ \<Rightarrow> []) l))"

lemma log_append [simp]:
  "touched (l @ l') = touched l + touched l'" "freed (l @ l') = freed l + freed l'" "popped (l @ l') = popped l + popped l'"
  by (simp_all add: touched_def freed_def popped_def)

lemma log_single [simp]:
  "touched [] = {#}" "touched [Touched bs] = mset bs" "touched [Freed bs] = {#}" "touched [Popped bs] = {#}"
  "freed [] = {#}" "freed [Touched bs] = {#}" "freed [Freed bs] = mset bs" "freed [Popped bs] = {#}"
  "popped [] = {#}" "popped [Touched bs] = {#}" "popped [Freed bs] = {#}" "popped [Popped bs] = mset bs"
  by (simp_all add: touched_def freed_def popped_def)

definition pinned :: "(string \<Rightarrow> 'h kv_block list option) \<Rightarrow> 'h kv_block multiset" where
  "pinned d = (\<Sum>q \<in> dom d. mset (the (d q)))"

lemma pinned_remove:
  assumes "finite (dom d)"
  shows "pinned d = mset (case d q of None \<Rightarrow> [] | Some bs \<Rightarrow> bs) + pinned (d(q := None))"
proof (cases "d q")
  case None
  then have "d(q := None) = d" by auto
  then show ?thesis using None by simp
next
  case (Some bs)
  have e: "(\<Sum>k \<in> dom d - {q}. mset (the ((d(q := None)) k))) = (\<Sum>k \<in> dom d - {q}. mset (the (d k)))"
    by (rule sum.cong) auto
  have "q \<in> dom d" using Some by auto
  from sum.remove[OF assms this, of "\<lambda>k. mset (the (d k))"] show ?thesis using Some e by (simp add: pinned_def)
qed

lemma pinned_append:
  assumes "finite (dom d)"
  shows "pinned (setdefault_append d q b) = pinned d + {#b#}" "finite (dom (setdefault_append d q b))"
proof -
  let ?d = "setdefault_append d q b"
  have d: "?d q = Some ((case d q of None \<Rightarrow> [] | Some bs \<Rightarrow> bs) @ [b])" "?d(q := None) = d(q := None)"
    by (simp_all add: setdefault_append_def)
  show f: "finite (dom ?d)" using assms by (simp add: setdefault_append_def)
  show "pinned ?d = pinned d + {#b#}"
    unfolding pinned_remove[OF f, of q] pinned_remove[OF assms, of q] d by simp
qed

text \<open>The accounts of a manager on the logged coordinator, with the blocks handed out so far.\<close>

definition balanced :: "'h kv_block list \<Rightarrow> ('c \<times> 'h pool_event list, 'h) kv_manager \<Rightarrow> bool" where
  "balanced out m \<longleftrightarrow> finite (dom (partial_tail_pins m))
     \<and> touched (snd (coord m)) + popped (snd (coord m))
       = freed (snd (coord m)) + mset out + pinned (partial_tail_pins m)"

text \<open>Operations that do not concern pins leave the log and the pins as they are.\<close>

definition same_pins :: "('c \<times> 'h pool_event list, 'h) kv_manager \<Rightarrow> ('c \<times> 'h pool_event list, 'h) kv_manager \<Rightarrow> bool" where
  "same_pins m m' \<longleftrightarrow> partial_tail_pins m' = partial_tail_pins m \<and> snd (coord m') = snd (coord m)"

lemma same_pins_balanced: "same_pins m m' \<Longrightarrow> balanced out m \<Longrightarrow> balanced out m'"
  by (simp add: same_pins_def balanced_def)

lemma snd_on_fst [simp]: "snd (on_fst f s) = snd s" "snd (snd (on_fst' g s)) = snd s"
  by (simp_all add: on_fst_def on_fst'_def)

lemma emit_reused_same: "same_pins m (snd (emit_reused (logged K) r i gs m))"
proof (induction gs arbitrary: i m)
  case (Cons g gs)
  show ?case
  proof (cases "py_get (kv_cache_groups (km_config m)) i")
    case (Inr grp)
    have "same_pins m (snd (emit_reused (logged K) r (i + 1) gs (m\<lparr> coord := on_fst f (coord m) \<rparr>)))" for f
      using Cons.IH[of "m\<lparr> coord := on_fst f (coord m) \<rparr>" "i + 1"] by (simp add: same_pins_def)
    then show ?thesis using Inr Cons.IH[of m "i + 1"] by (simp add: logged_def)
  qed (use Cons.IH[of m "i + 1"] in \<open>simp add: same_pins_def\<close>)
qed (simp add: same_pins_def)

lemma lookup_state:
  "snd (get_computed_blocks K env r m) = m \<or> (\<exists>gs. snd (get_computed_blocks K env r m) = snd (emit_reused K r 0 gs m))"
  by (cases "dspark_ring_cache_trim env")
     (auto simp only: get_computed_blocks_def Let_def case_prod_beta sum.case snd_conv if_True if_False split: if_split)

lemma lookup_same: "same_pins m (snd (get_computed_blocks (logged K) env r m))"
  using lookup_state[of "logged K" env r m] emit_reused_same[of m K r 0] by (auto simp: same_pins_def)

lemma place_computed_log [simp]: "snd (place_computed (logged K) m r a c) = snd c"
  by (simp add: place_computed_def logged_def)

lemma allocate_same: "same_pins m (snd (allocate_slots (logged K) r a m))"
proof -
  have al: "snd (snd (allocate_new_blocks (logged K) q n mn e c)) = snd c"
    and ca: "snd (coord_cache_blocks (logged K) r n c) = snd c" for q n mn e c
    by (simp_all add: logged_def)
  have sk: "snd (skip_blocks (logged K) m r a) = snd (coord m)" by (simp add: skip_blocks_def logged_def)
  have "same_pins m (snd (commit_slots (logged K) m r a (skip_blocks (logged K) m r a)))"
    by (simp add: commit_slots_def same_pins_def al ca sk split: prod.split) (metis al place_computed_log sk snd_conv)
  then show ?thesis
    by (cases "commit_slots (logged K) m r a (skip_blocks (logged K) m r a)")
       (simp add: allocate_slots_def Let_def same_pins_def sk)
qed

lemma hand_off_balanced:
  "balanced out m \<Longrightarrow> balanced out (snd (hand_off (logged K) hs (offs, m)))"
proof (induction hs arbitrary: offs m)
  case (Cons h hs)
  obtain q g b t where h: "h = (q, g, b, t)" by (cases h)
  have f: "finite (dom (partial_tail_pins m))" using Cons.prems by (simp add: balanced_def)
  let ?m = "m\<lparr> coord := pool_touch (logged K) [b] (coord m), partial_tail_pins := setdefault_append (partial_tail_pins m) q b \<rparr>"
  have "snd (coord ?m) = snd (coord m) @ [Touched [b]]" by (simp add: logged_def)
  then have "balanced out ?m" using Cons.prems pinned_append[OF f, of q b] by (simp add: balanced_def)
  then show ?case using Cons.IH h by simp
qed simp

lemma offload_balanced:
  "balanced out m \<Longrightarrow> balanced out (snd (offload_loop (logged K) is (offs, m)))"
proof (induction "is" arbitrary: offs m)
  case (Cons i "is")
  obtain hs c where t: "mgr_take_pending_partial_tail_offloads (logged K) i (coord m) = (hs, c)" by (metis surj_pair)
  then have "snd c = snd (coord m)" by (auto simp: logged_def on_fst'_def)
  then have "balanced out (m\<lparr> coord := c \<rparr>)" using Cons.prems by (simp add: balanced_def)
  then have "balanced out (snd (hand_off (logged K) hs (offs, m\<lparr> coord := c \<rparr>)))" by (rule hand_off_balanced)
  then show ?case using Cons.IH t by (cases "hand_off (logged K) hs (offs, m\<lparr> coord := c \<rparr>)") simp
qed simp

lemma release_balanced:
  assumes "balanced out m"
  shows "balanced out (free_kv (logged K) r m)"
proof -
  have f: "finite (dom (partial_tail_pins m))" using assms by (simp add: balanced_def)
  show ?thesis using assms pinned_remove[OF f, of "request_id r"]
    by (auto simp: balanced_def free_kv_def pop_pins_def Let_def logged_def on_fst_def split: option.splits)
qed

lemma pop_balanced:
  assumes "balanced out m" "pop_blocks_for_free (logged K) r m = (bs, m')"
  shows "balanced (out @ bs) m'"
proof -
  have f: "finite (dom (partial_tail_pins m))" using assms(1) by (simp add: balanced_def)
  show ?thesis using assms pinned_remove[OF f, of "request_id r"]
    by (auto simp: balanced_def pop_blocks_for_free_def pop_pins_def Let_def logged_def
        split: option.splits prod.splits if_splits)
qed

lemma run_op_balanced:
  assumes "balanced out m" "run_op (logged K) x m = (bs, m')"
  shows "balanced (out @ bs) m'"
proof (cases x)
  case (Lookup env r)
  then show ?thesis using assms same_pins_balanced[OF lookup_same] by auto
next
  case (Allocate r a)
  then show ?thesis using assms same_pins_balanced[OF allocate_same] by auto
next
  case (Cache r n)
  then show ?thesis using assms by (auto simp: balanced_def cache_blocks_def logged_def)
next
  case Offload
  then show ?thesis using assms offload_balanced by (auto simp: take_partial_tail_offloads_def)
next
  case (Release r)
  then show ?thesis using assms release_balanced by auto
next
  case (Pop r)
  then show ?thesis using assms pop_balanced by auto
next
  case NewStep
  then show ?thesis using assms by (auto simp: balanced_def new_step_starts_def logged_def)
qed

lemma run_ops_balanced:
  "balanced out m \<Longrightarrow> run_ops (logged K) xs m = (bs, m') \<Longrightarrow> balanced (out @ bs) m'"
proof (induction xs arbitrary: out m bs m')
  case (Cons x xs)
  obtain b1 m1 where x: "run_op (logged K) x m = (b1, m1)" by fastforce
  obtain b2 m2 where xs: "run_ops (logged K) xs m1 = (b2, m2)" by fastforce
  from Cons.IH[OF run_op_balanced[OF Cons.prems(1) x] xs] show ?case using Cons.prems(2) x xs by simp
qed simp

text \<open>
  C21. Every pin is released exactly once. Whatever the coordinator and the block pool do, after any sequence of
  lookups, allocations, partial-tail hand-offs and releases, the blocks the manager has touched for
  hand-offs and the blocks the coordinator has popped are, with multiplicity, those it has returned to the pool, those it
  has handed to its caller for a deferred release and those that are still pinned; when no request has pins
  left, nothing is lost and nothing is returned twice.
\<close>

theorem pins_are_released_once:
  assumes "partial_tail_pins m = (\<lambda>_. None)" "snd (coord m) = []" "run_ops (logged K) xs m = (bs, m')"
  shows "finite (dom (partial_tail_pins m'))
    \<and> touched (snd (coord m')) + popped (snd (coord m')) = freed (snd (coord m')) + mset bs + pinned (partial_tail_pins m')"
proof -
  have "balanced [] m" using assms(1,2) by (simp add: balanced_def pinned_def)
  from run_ops_balanced[OF this assms(3)] show ?thesis by (simp add: balanced_def)
qed

definition demo_logged :: "(demo_pool \<times> nat pool_event list, nat) kv_manager" where
  "demo_logged = \<lparr> km_max_model_len = 4096, enable_caching = True, enable_kv_cache_events = False, log_stats = False,
     prefix_cache_stats = None,
     coord = (\<lparr> free_count = 100, given_tokens = 0, pending = [(''r'', 1, demo_block 7, 30), (''s'', 1, demo_block 8, 30)] \<rparr>, []),
     num_kv_cache_groups = 2, km_config = demo_config, watermark_blocks = 5, kv_cache_event_metadata = [],
     partial_tail_pins = (\<lambda>_. None) \<rparr>"

theorem pins_are_released_once_witness:
  "fst (run_ops (logged demo_coord) [Offload, Pop demo_kv_request] demo_logged) = [demo_block 7, demo_block 9]
   \<and> pinned (partial_tail_pins (snd (run_ops (logged demo_coord) [Offload, Pop demo_kv_request] demo_logged))) = {#demo_block 8#}"
proof -
  let ?xs = "[Offload, Pop demo_kv_request]"
  obtain bs m' where r: "run_ops (logged demo_coord) ?xs demo_logged = (bs, m')" by fastforce
  have bs: "fst (run_ops (logged demo_coord) ?xs demo_logged) = [demo_block 7, demo_block 9]" by code_simp
  have l: "snd (coord (snd (run_ops (logged demo_coord) ?xs demo_logged)))
      = [Touched [demo_block 7], Touched [demo_block 8], Popped [demo_block 9]]" by code_simp
  have lt: "touched (snd (coord m')) = {#demo_block 7, demo_block 8#}" "freed (snd (coord m')) = {#}"
    "popped (snd (coord m')) = {#demo_block 9#}" using l r by (simp_all add: touched_def freed_def popped_def)
  have m: "partial_tail_pins demo_logged = (\<lambda>_. None)" "snd (coord demo_logged) = []" by (simp_all add: demo_logged_def)
  from pins_are_released_once[OF m r] have "{#demo_block 7, demo_block 8#} + {#demo_block 9#}
      = mset [demo_block 7, demo_block 9] + pinned (partial_tail_pins m')" using bs r lt by simp
  then have "pinned (partial_tail_pins m') = {#demo_block 8#}" by (simp add: add_mset_commute)
  then show ?thesis using bs r by simp
qed

section \<open>Views of a block table\<close>

lemma py_slice_prefix: "0 \<le> e \<Longrightarrow> py_slice 0 e xs = take (nat e) xs"
  by (simp add: py_slice_def py_bound_def slice_def min_def)

lemma filter_below: "filter (\<lambda>j. j < k) [0..<n] = [0..<min k n]"
proof (induction n)
  case (Suc n)
  show ?case
  proof (cases "n < k")
    case True
    then have "min k (Suc n) = Suc n" "min k n = n" by simp_all
    then show ?thesis using Suc True by simp
  qed (use Suc in \<open>simp add: min_def\<close>)
qed simp

lemma take_as_filter:
  assumes "\<And>j. P j \<longleftrightarrow> j < k"
  shows "take k xs = map (nth xs) (filter P [0..<length xs])"
  unfolding assms filter_below by (rule nth_equalityI) simp_all

lemma below_cdiv_iff:
  assumes "is_cdiv cd" "0 < bs"
  shows "int j * bs < n \<longleftrightarrow> j < nat (cd n bs)"
  using cdiv_le_iff[OF assms, of n "int j"] by linarith

lemma attention_classes:
  "isinstance sp C_CrossAttentionSpec \<longleftrightarrow> spec_type sp = C_CrossAttentionSpec"
  "isinstance sp C_EncoderOnlyAttentionSpec \<longleftrightarrow> spec_type sp = C_EncoderOnlyAttentionSpec"
  by (cases sp; simp add: isinstance_def eval_nat_numeral)+

text \<open>
  The clipped table holds exactly the blocks with computed tokens. For every group, the table that
  \<^verbatim>\<open>get_block_ids_for_computed_tokens\<close> returns is the group's table for groups without per-token blocks, and
  otherwise the blocks whose first token position is below the number of computed tokens, in order.
\<close>

lemma clipped_table_covers_computed_tokens:
  assumes "is_cdiv cd" "0 \<le> n" "\<forall>g \<in> set (kv_cache_groups (km_config m)). 0 < spec_block_size (kv_cache_spec g)"
    and "i < length (kv_cache_groups (km_config m))" "i < length (table_block_ids K req m)"
  defines "sp \<equiv> kv_cache_spec (kv_cache_groups (km_config m) ! i)"
    and "ids \<equiv> table_block_ids K req m ! i"
  shows "get_block_ids_for_computed_tokens cd K req n m ! i =
    (if isinstance sp C_AttentionSpec \<and> spec_type sp \<notin> {C_CrossAttentionSpec, C_EncoderOnlyAttentionSpec}
     then map (nth ids) (filter (\<lambda>j. int j * spec_block_size sp < n) [0..<length ids]) else ids)"
proof -
  have bs: "0 < spec_block_size sp" using assms(3,4) by (simp add: sp_def)
  have "get_block_ids_for_computed_tokens cd K req n m ! i = clip_ids cd n (kv_cache_groups (km_config m) ! i, ids)"
    using assms(4,5) by (simp add: get_block_ids_for_computed_tokens_def ids_def)
  also have "\<dots> = (if isinstance sp C_AttentionSpec \<and> spec_type sp \<notin> {C_CrossAttentionSpec, C_EncoderOnlyAttentionSpec}
     then take (nat (cd n (spec_block_size sp))) ids else ids)"
    using cdiv_nonneg[OF assms(1) bs assms(2)]
    by (simp add: clip_ids_def Let_def attention_classes sp_def[symmetric] py_slice_prefix)
  also have "take (nat (cd n (spec_block_size sp))) ids
      = map (nth ids) (filter (\<lambda>j. int j * spec_block_size sp < n) [0..<length ids])"
    by (rule take_as_filter) (rule below_cdiv_iff[OF assms(1) bs])
  finally show ?thesis .
qed

text \<open>What one group has cached: the largest token count of a hashed block, at least zero.\<close>

lemma fold_max_Max:
  "fold (\<lambda>b n. max n (f b :: int)) bs a = Max (insert a (f ` set bs))"
proof (induction bs arbitrary: a)
  case (Cons b bs)
  have "fold (\<lambda>b n. max n (f b)) (b # bs) a = Max (insert (max a (f b)) (f ` set bs))" using Cons by simp
  also have "\<dots> = Max (insert a (insert (f b) (f ` set bs)))"
    by (cases "set bs = {}") (simp_all add: max.assoc)
  finally show ?case by simp
qed simp

lemma Min_insert_min: "finite S \<Longrightarrow> Min (insert (min a b) S) = Min (insert (a :: int) (insert b S))"
  by (cases "S = {}") (simp_all add: min.assoc)

lemma fold_min_Min: "estimate_loop ps (Some a) = Some (Min (insert a ((\<lambda>p. group_cached_tokens (snd p)) `
    set (filter (\<lambda>p. spec_type (kv_cache_spec (fst p)) \<notin> {C_CrossAttentionSpec, C_EncoderOnlyAttentionSpec}) ps))))"
proof (induction ps arbitrary: a)
  case (Cons p ps)
  obtain g bs where p: "p = (g, bs)" by (cases p)
  show ?case by (simp add: Cons p attention_classes Min_insert_min del: set_filter)
qed simp

lemma estimate_loop_None:
  "estimate_loop ps None =
     (let qs = filter (\<lambda>p. spec_type (kv_cache_spec (fst p)) \<notin> {C_CrossAttentionSpec, C_EncoderOnlyAttentionSpec}) ps
      in if qs = [] then None else Some (Min ((\<lambda>p. group_cached_tokens (snd p)) ` set qs)))"
proof (induction ps)
  case (Cons p ps)
  obtain g bs where p: "p = (g, bs)" by (cases p)
  show ?case using Cons by (auto simp: p attention_classes fold_min_Min Let_def)
qed simp

text \<open>
  The estimate of cached tokens is what every group can serve: the least, over the groups that take part in
  prefix caching, of the largest token count a hashed block of the group covers; zero when there is no
  such group.
\<close>

theorem estimate_is_least_group:
  fixes K :: "('c, 'h, 'e) coordinator"
  defines "qs \<equiv> \<lambda>r m. filter (\<lambda>p. spec_type (kv_cache_spec (fst p)) \<notin> {C_CrossAttentionSpec, C_EncoderOnlyAttentionSpec})
      (zip (kv_cache_groups (km_config m)) (blocks (get_blocks K (request_id r) m)))"
  shows "estimate_cached_tokens K r m =
    (if qs r m = [] then 0
     else Min ((\<lambda>p. Max (insert 0 ((\<lambda>b. case block_hash_num_tokens b of None \<Rightarrow> 0 | Some k \<Rightarrow> k) ` set (snd p)))) ` set (qs r m)))"
  by (simp add: estimate_cached_tokens_def estimate_loop_None Let_def qs_def group_cached_tokens_def fold_max_Max)

lemma clipped_table_covers_computed_tokens_witness:
  "get_block_ids_for_computed_tokens cdiv_ref (demo_coord\<lparr> coord_get_blocks := (\<lambda>q c. [map demo_block [5, 6, 7], [demo_block 8]]) \<rparr>)
     ''r'' 20 demo_manager ! 0 = [5, 6]"
proof -
  let ?K = "demo_coord\<lparr> coord_get_blocks := (\<lambda>q c. [map demo_block [5, 6, 7], [demo_block 8]]) \<rparr>"
  have t: "table_block_ids ?K ''r'' demo_manager = [[5, 6, 7], [8]]" by code_simp
  have g: "kv_cache_groups (km_config demo_manager) = [demo_group demo_full, demo_group demo_mamba]"
    by (simp add: demo_manager_def demo_config_def)
  have b: "spec_block_size demo_full = 16" "spec_block_size demo_mamba = 16" "isinstance demo_full C_AttentionSpec"
    "spec_type demo_full = C_FullAttentionSpec" "kv_cache_spec (demo_group sp) = sp" for sp
    by (simp_all add: demo_full_def demo_mamba_def isinstance_def eval_nat_numeral demo_group_def)
  have "get_block_ids_for_computed_tokens cdiv_ref ?K ''r'' 20 demo_manager ! 0
      = map (nth [5, 6, 7]) (filter (\<lambda>j. int j * 16 < 20) [0..<length [5 :: int, 6, 7]])"
    by (subst clipped_table_covers_computed_tokens) (simp_all only: t, simp_all add: is_cdiv_ref g b)
  then show ?thesis by (simp add: upt_rec)
qed

end
