(* ===== verification/Sched_Prefill_Props.thy ===== *)
theory Sched_Prefill_Props
  imports Sched_Prefill
begin

text \<open>
  Properties of the long-prefill gate, the chunk split and the fence of the scheduler.
\<close>

section \<open>The selection\<close>

lemma set_by_age [simp]: "set (by_age m rs) = set rs"
  by (simp add: by_age_def)

lemma py_take_subset: "set (py_take k xs) \<subseteq> set xs"
  by (simp add: py_take_def set_take_subset)

lemma length_py_take: "0 \<le> k \<Longrightarrow> length (py_take k xs) \<le> nat k"
  by (simp add: py_take_def)

lemma collect_waiting_ids:
  "r \<in> set (collect_waiting s seen rs) \<Longrightarrow> r \<in> set rs \<and> request_id r \<notin> seen \<and> is_long_prefill_request s r"
  by (induction s seen rs rule: collect_waiting.induct) (auto split: if_splits)

lemma collect_waiting_distinct: "distinct (map request_id (collect_waiting s seen rs))"
  by (induction s seen rs rule: collect_waiting.induct) (auto dest: collect_waiting_ids)

lemma card_ids_take: "card (request_id ` set (py_take k xs)) \<le> nat k" if "0 \<le> k"
proof -
  have "card (request_id ` set (py_take k xs)) \<le> length (py_take k xs)"
    by (rule order_trans[OF card_image_le card_length]) simp
  then show ?thesis using length_py_take[OF that, of xs] by linarith
qed

text \<open>The candidates of the selection, with the ages it uses.\<close>

definition running_long :: "scheduler \<Rightarrow> request list" where
  "running_long s = filter (is_long_prefill_request s) (running s)"

definition waiting_long :: "scheduler \<Rightarrow> request list" where
  "waiting_long s = collect_waiting s (request_id ` set (running_long s)) (waiting s @ skipped_waiting s)"

definition active_steps :: "scheduler \<Rightarrow> string \<Rightarrow> int option" where
  "active_steps s i = (if i \<in> set (request_ids s) then long_prefill_last_scheduled s i else None)"

definition slots :: "scheduler \<Rightarrow> int" where
  "slots s = max 0 (max_num_running_reqs s - int (length (running s)))"

definition kept :: "scheduler \<Rightarrow> request list" where
  "kept s = filter (\<lambda>r. request_id r \<in> request_id ` set (py_take (slots s) (by_age (active_steps s) (waiting_long s)))) (waiting_long s)"

definition long_candidates :: "scheduler \<Rightarrow> request list" where
  "long_candidates s = (if 0 < slots s \<and> waiting_long s \<noteq> [] then running_long s @ kept s else running_long s)"

lemma select_eq:
  "enable_decode_aware_prefill s \<Longrightarrow> select_long_prefill_request_ids s =
     (request_id ` set (py_take (max_long_prefills_per_step s) (by_age (active_steps s) (long_candidates s))),
      s\<lparr> long_prefill_last_scheduled := active_steps s \<rparr>)"
  by (simp add: select_long_prefill_request_ids_def Let_def long_candidates_def running_long_def waiting_long_def
      kept_def slots_def active_steps_def[abs_def])

lemma kept_ids: "card (request_id ` set (kept s)) \<le> nat (slots s)"
proof -
  have "request_id ` set (kept s) \<subseteq> request_id ` set (py_take (slots s) (by_age (active_steps s) (waiting_long s)))"
    by (auto simp: kept_def)
  then have "card (request_id ` set (kept s)) \<le> card (request_id ` set (py_take (slots s) (by_age (active_steps s) (waiting_long s))))"
    by (intro card_mono) auto
  also have "\<dots> \<le> nat (slots s)" by (rule card_ids_take) (simp add: slots_def)
  finally show ?thesis .
qed

text \<open>
  C15. The long-prefill gate keeps its limits. At most \<^verbatim>\<open>max_long_prefills_per_step\<close> requests are selected,
  each a running or waiting long prefill; the selected waiting requests are at most as many as there are
  free sequence slots, so none is selected when the running queue is full.
\<close>

theorem selection_limits:
  assumes "0 \<le> max_long_prefills_per_step s"
  shows "card (fst (select_long_prefill_request_ids s)) \<le> nat (max_long_prefills_per_step s)
    \<and> (\<forall>i \<in> fst (select_long_prefill_request_ids s). \<exists>r \<in> set (running s) \<union> set (waiting s) \<union> set (skipped_waiting s).
          request_id r = i \<and> is_long_prefill_request s r)
    \<and> card (fst (select_long_prefill_request_ids s) - request_id ` set (running_long s))
        \<le> nat (max 0 (max_num_running_reqs s - int (length (running s))))"
proof (cases "enable_decode_aware_prefill s")
  case True
  let ?sel = "request_id ` set (py_take (max_long_prefills_per_step s) (by_age (active_steps s) (long_candidates s)))"
  have sub: "set (py_take (max_long_prefills_per_step s) (by_age (active_steps s) (long_candidates s))) \<subseteq> set (long_candidates s)"
    using py_take_subset by fastforce
  have long: "r \<in> set (running s) \<union> set (waiting s) \<union> set (skipped_waiting s) \<and> is_long_prefill_request s r"
    if "r \<in> set (long_candidates s)" for r
    using that by (auto simp: long_candidates_def running_long_def kept_def waiting_long_def
        dest!: collect_waiting_ids split: if_splits)
  have w: "?sel - request_id ` set (running_long s) \<subseteq> (if 0 < slots s then request_id ` set (kept s) else {})"
    using sub by (auto simp: long_candidates_def split: if_splits)
  have "card (?sel - request_id ` set (running_long s)) \<le> nat (slots s)"
  proof (cases "0 < slots s")
    case True
    then have "card (?sel - request_id ` set (running_long s)) \<le> card (request_id ` set (kept s))"
      using w by (intro card_mono) auto
    then show ?thesis using kept_ids[of s] by linarith
  next
    case False
    then have "?sel - request_id ` set (running_long s) = {}" using w by simp
    then show ?thesis by (simp only: card.empty)
  qed
  then show ?thesis using True card_ids_take[OF assms] sub long
    by (auto simp: select_eq slots_def)
qed (simp add: select_long_prefill_request_ids_def)

definition demo_request :: "string \<Rightarrow> request_status \<Rightarrow> rat \<Rightarrow> request" where
  "demo_request i st t = \<lparr> request_id = i, status = st, num_tokens = 100, num_prompt_tokens = 100, num_computed_tokens = 0,
     is_prefill_chunk = True, arrival_time = t, shared_prefix_boundary = 0 \<rparr>"

definition demo_sched :: scheduler where
  "demo_sched = \<lparr> enable_decode_aware_prefill = True, long_prefill_token_threshold = 10, max_long_prefills_per_step = 1,
     max_num_running_reqs = 2, running = [demo_request ''a'' RUNNING 1, demo_request ''b'' RUNNING 2],
     waiting = [demo_request ''c'' WAITING 0], skipped_waiting = [], request_ids = [''a'', ''b'', ''c''],
     long_prefill_last_scheduled = (\<lambda>_. None), long_prefill_wasted_turns = 0, current_step = 0, paused_all = False \<rparr>"

theorem selection_limits_witness:
  "card (fst (select_long_prefill_request_ids demo_sched)) \<le> nat (max_long_prefills_per_step demo_sched)"
  by (rule selection_limits[THEN conjunct1]) (simp add: demo_sched_def)

section \<open>The turn rotates\<close>

text \<open>
  At full capacity only running requests are candidates. A turn then changes only the step counter, the
  wasted-turn counter and the ages of the selected requests, which become the current step.
\<close>

definition full_capacity :: "scheduler \<Rightarrow> bool" where
  "full_capacity s \<longleftrightarrow> enable_decode_aware_prefill s \<and> 1 \<le> max_long_prefills_per_step s \<and> \<not> paused_all s
     \<and> max_num_running_reqs s \<le> int (length (running s))
     \<and> request_id ` set (running_long s) \<subseteq> set (request_ids s)"

definition age :: "scheduler \<Rightarrow> string \<Rightarrow> int" where
  "age s i = (case long_prefill_last_scheduled s i of None \<Rightarrow> - 1 | Some k \<Rightarrow> k)"

lemma turn_full_capacity:
  assumes "full_capacity s" "long_prefill_turn s sch = (sel, s')"
  shows "sel = request_id ` set (py_take (max_long_prefills_per_step s) (by_age (active_steps s) (running_long s)))"
    and "full_capacity s'" "running_long s' = running_long s" "current_step s' = current_step s + 1"
    and "\<And>i. i \<in> set (request_ids s) \<Longrightarrow> age s' i = (if i \<in> sel then current_step s + 1 else age s i)"
    and "request_ids s' = request_ids s"
proof -
  let ?s1 = "s\<lparr> current_step := current_step s + 1 \<rparr>"
  have same: "is_long_prefill_request ?s1 = is_long_prefill_request s"
    by (simp add: is_long_prefill_request_def[abs_def] fun_eq_iff)
  have "long_candidates ?s1 = running_long s" "active_steps ?s1 = active_steps s"
    using assms(1) by (auto simp: long_candidates_def slots_def running_long_def same full_capacity_def active_steps_def[abs_def])
  then have selq: "select_long_prefill_request_ids ?s1 =
      (request_id ` set (py_take (max_long_prefills_per_step s) (by_age (active_steps s) (running_long s))),
       ?s1\<lparr> long_prefill_last_scheduled := active_steps s \<rparr>)"
    using assms(1) by (simp add: select_eq full_capacity_def)
  then show sel: "sel = request_id ` set (py_take (max_long_prefills_per_step s) (by_age (active_steps s) (running_long s)))"
    using assms(2) by (simp add: long_prefill_turn_def Let_def)
  have s': "s' = debit_unused_long_prefill_turns (mark_scheduled (?s1\<lparr> long_prefill_last_scheduled := active_steps s \<rparr>)
      (sel \<inter> sch)) sel sch False" using assms(2) selq by (auto simp: long_prefill_turn_def Let_def)
  have fields: "enable_decode_aware_prefill s' = enable_decode_aware_prefill s" "running s' = running s"
    "max_long_prefills_per_step s' = max_long_prefills_per_step s" "paused_all s' = paused_all s"
    "max_num_running_reqs s' = max_num_running_reqs s" "request_ids s' = request_ids s"
    "long_prefill_token_threshold s' = long_prefill_token_threshold s" "current_step s' = current_step s + 1"
    by (simp_all add: s' debit_unused_long_prefill_turns_def mark_scheduled_def)
  then show rl: "running_long s' = running_long s"
    by (simp add: running_long_def is_long_prefill_request_def[abs_def])
  show "full_capacity s'" "current_step s' = current_step s + 1" "request_ids s' = request_ids s"
    using assms(1) fields rl by (simp_all add: full_capacity_def)
  show "age s' i = (if i \<in> sel then current_step s + 1 else age s i)" if "i \<in> set (request_ids s)" for i
    using that assms(1) by (auto simp: s' age_def debit_unused_long_prefill_turns_def mark_scheduled_def
        active_steps_def full_capacity_def)
qed

text \<open>As long as some candidate is older than all others, the turn goes to one of the oldest.\<close>

lemma oldest_selected:
  assumes "full_capacity s" "long_prefill_turn s sch = (sel, s')" "U \<subseteq> request_id ` set (running_long s)" "U \<noteq> {}"
    and "\<And>i. i \<in> U \<Longrightarrow> age s i \<le> t" "\<And>i. i \<in> request_id ` set (running_long s) - U \<Longrightarrow> t < age s i"
  shows "sel \<inter> U \<noteq> {}"
proof -
  let ?o = "by_age (active_steps s) (running_long s)"
  have age: "last_step (active_steps s) r = age s (request_id r)" if "r \<in> set (running_long s)" for r
    using that assms(1) by (auto simp: last_step_def active_steps_def age_def full_capacity_def)
  obtain u where u: "u \<in> set (running_long s)" "request_id u \<in> U" using assms(3,4) by blast
  then have ne: "?o \<noteq> []" by (metis empty_iff list.set(1) set_by_age)
  then obtain r rest where o: "?o = r # rest" by (cases ?o) auto
  then have r: "r \<in> set (running_long s)" by (metis list.set_intros(1) set_by_age)
  have "sorted (map (\<lambda>r. (last_step (active_steps s) r, arrival_time r)) ?o)"
    by (simp add: by_age_def)
  then have "\<forall>x \<in> set ?o. (last_step (active_steps s) r, arrival_time r) \<le> (last_step (active_steps s) x, arrival_time x)"
    by (auto simp: o)
  then have "last_step (active_steps s) r \<le> last_step (active_steps s) u"
    using u(1) by (force simp: less_eq_prod_def)
  then have "age s (request_id r) \<le> t" using age[OF r] age[OF u(1)] assms(5)[OF u(2)] by linarith
  then have "request_id r \<in> U" using assms(6)[of "request_id r"] r by (metis DiffI image_eqI not_le)
  moreover have "r \<in> set (py_take (max_long_prefills_per_step s) ?o)"
    using assms(1) o by (auto simp: py_take_def full_capacity_def take_Cons' nat_eq_iff)
  then have "request_id r \<in> sel" using turn_full_capacity(1)[OF assms(1,2)] by blast
  ultimately show ?thesis by blast
qed

lemma rotation:
  assumes "full_capacity s" "U \<subseteq> request_id ` set (running_long s)" "t \<le> current_step s"
    and "\<And>i. i \<in> U \<Longrightarrow> age s i \<le> t" "\<And>i. i \<in> request_id ` set (running_long s) - U \<Longrightarrow> t < age s i"
    and "long_prefill_turns s schs = (sels, s')" "card U \<le> length schs" "i \<in> U"
  shows "\<exists>sel \<in> set sels. i \<in> sel"
  using assms
proof (induction schs arbitrary: s U sels)
  case Nil
  moreover have "finite U" using Nil(2) by (rule finite_subset) simp
  ultimately show ?case by auto
next
  case (Cons sch schs)
  obtain sel s1 where t1: "long_prefill_turn s sch = (sel, s1)" by fastforce
  obtain sels' where t2: "long_prefill_turns s1 schs = (sels', s')" and sels: "sels = sel # sels'"
    using Cons.prems(6) t1 by (auto simp: Let_def split: prod.splits)
  note turn = turn_full_capacity[OF Cons.prems(1) t1]
  have ids: "request_id ` set (running_long s) \<subseteq> set (request_ids s)" using Cons.prems(1) by (simp add: full_capacity_def)
  have fin: "finite U" using Cons.prems(2) by (rule finite_subset) simp
  have hit: "sel \<inter> U \<noteq> {}"
    using oldest_selected[OF Cons.prems(1) t1 Cons.prems(2) _ Cons.prems(4,5)] Cons.prems(8) by blast
  show ?case
  proof (cases "i \<in> sel")
    case False
    have "\<exists>sel \<in> set sels'. i \<in> sel"
    proof (rule Cons.IH[OF turn(2) _ _ _ _ t2])
      show "U - sel \<subseteq> request_id ` set (running_long s1)" using Cons.prems(2) turn(3) by auto
      show "t \<le> current_step s1" using Cons.prems(3) turn(4) by simp
      show "age s1 j \<le> t" if "j \<in> U - sel" for j
      proof -
        have "j \<in> set (request_ids s)" using that Cons.prems(2) ids by blast
        then show ?thesis using that turn(5)[of j] Cons.prems(4)[of j] by simp
      qed
      show "t < age s1 j" if "j \<in> request_id ` set (running_long s1) - (U - sel)" for j
        using that turn(3) turn(5)[of j] Cons.prems(3) Cons.prems(5)[of j] ids by (cases "j \<in> sel") auto
      have "U - sel \<subset> U" using hit by blast
      then have "card (U - sel) < card U" using fin by (intro psubset_card_mono)
      then show "card (U - sel) \<le> length schs" using Cons.prems(7) by simp
      show "i \<in> U - sel" using Cons.prems(8) False by blast
    qed
    then show ?thesis using sels by simp
  qed (use sels in simp)
qed

text \<open>
  C16. The long-prefill turn rotates. With the running queue full, n long prefills running and no age in the
  future, each of them is selected within n steps, whichever of the selected ones the budgets let run:
  a turn that produced no work is charged like one that did.
\<close>

theorem long_prefill_turn_rotates:
  assumes "enable_decode_aware_prefill s" "1 \<le> max_long_prefills_per_step s" "\<not> paused_all s"
    and "max_num_running_reqs s \<le> int (length (running s))"
    and "\<forall>r \<in> set (running s). request_id r \<in> set (request_ids s)"
    and "\<forall>i k. long_prefill_last_scheduled s i = Some k \<longrightarrow> k \<le> current_step s" "0 \<le> current_step s"
    and "r \<in> set (running s)" "is_long_prefill_request s r"
    and "length schs = length (filter (is_long_prefill_request s) (running s))"
  shows "\<exists>sel \<in> set (fst (long_prefill_turns s schs)). request_id r \<in> sel"
proof (rule rotation[of s _ "current_step s"])
  let ?U = "request_id ` set (running_long s)"
  show "full_capacity s" using assms(1-5) by (auto simp: full_capacity_def running_long_def)
  show "?U \<subseteq> ?U" "current_step s \<le> current_step s" by simp_all
  show "age s i \<le> current_step s" for i using assms(6,7) by (auto simp: age_def split: option.splits)
  show "current_step s < age s i" if "i \<in> ?U - ?U" for i using that by simp
  show "long_prefill_turns s schs = (fst (long_prefill_turns s schs), snd (long_prefill_turns s schs))" by simp
  have "card ?U \<le> length (running_long s)" by (rule order_trans[OF card_image_le card_length]) simp
  then show "card ?U \<le> length schs" using assms(10) by (simp add: running_long_def)
  show "request_id r \<in> ?U" using assms(8,9) by (simp add: running_long_def)
qed

theorem long_prefill_turn_rotates_witness:
  "\<exists>sel \<in> set (fst (long_prefill_turns demo_sched [{}, {''a''}])). request_id (demo_request ''b'' RUNNING 2) \<in> sel"
  by (rule long_prefill_turn_rotates)
     (simp_all add: demo_sched_def demo_request_def is_long_prefill_request_def)

section \<open>The chunk split\<close>

lemma fold_min_in: "fold min xs (x :: int) \<in> set (x # xs)"
  by (induction xs arbitrary: x) (auto simp: min_def split: if_splits)

lemma fold_min_le_init: "fold min xs (x :: int) \<le> x"
proof (induction xs arbitrary: x)
  case (Cons y xs)
  have "fold min xs (min y x) \<le> min y x" by (rule Cons.IH)
  then show ?case by simp
qed simp

lemma fold_min_le: "y \<in> set (x # xs) \<Longrightarrow> fold min xs (x :: int) \<le> y"
proof (induction xs arbitrary: x)
  case (Cons z xs)
  then consider "min z x \<le> y" | "y \<in> set xs" by auto
  then show ?case
  proof cases
    case 1
    then have "fold min xs (min z x) \<le> y" using fold_min_le_init[of xs "min z x"] by (rule order_trans[rotated])
    then show ?thesis by simp
  qed (use Cons.IH[of "min z x"] in simp)
qed simp

text \<open>The end of the chunk before the mandatory stops, and the stop that is chosen.\<close>

definition max_prefill_tokens :: "split_config \<Rightarrow> int" where
  "max_prefill_tokens cfg = (if 0 < long_prefill_threshold cfg
     then min (max_num_scheduled_tokens cfg) (long_prefill_threshold cfg) else max_num_scheduled_tokens cfg)"

lemma aligned_chunk_end_cases:
  assumes "0 < block_size cfg"
  shows "aligned_chunk_end cfg start pe e \<le> e"
    and "pe \<le> aligned_chunk_end cfg start pe e \<or> block_size cfg dvd aligned_chunk_end cfg start pe e
      \<or> max_prefill_tokens cfg < block_size cfg \<and> aligned_chunk_end cfg start pe e div block_size cfg * block_size cfg \<le> start"
proof -
  have "e div block_size cfg * block_size cfg \<le> e" using assms by (metis div_mult_mod_eq le_add_same_cancel1 pos_mod_sign)
  then show "aligned_chunk_end cfg start pe e \<le> e" by (simp add: aligned_chunk_end_def Let_def)
  show "pe \<le> aligned_chunk_end cfg start pe e \<or> block_size cfg dvd aligned_chunk_end cfg start pe e
      \<or> max_prefill_tokens cfg < block_size cfg \<and> aligned_chunk_end cfg start pe e div block_size cfg * block_size cfg \<le> start"
    by (auto simp: aligned_chunk_end_def Let_def max_prefill_tokens_def)
qed

lemma first_stop_cases:
  shows "first_stop start stops e = e \<or> first_stop start stops e \<in> set stops \<and> start < first_stop start stops e"
    and "first_stop start stops e \<le> e"
    and "x \<in> set stops \<Longrightarrow> start < x \<Longrightarrow> first_stop start stops e \<le> x \<or> e \<le> x"
proof -
  let ?I = "filter (\<lambda>s. start < s \<and> s < e) stops" and ?f = "first_stop start stops e"
  have f: "?f = (if ?I = [] then e else fold min ?I (hd ?I))" by (simp add: first_stop_def Let_def)
  have mem: "?f \<in> set ?I" if "?I \<noteq> []"
    using that fold_min_in[of ?I "hd ?I"] hd_in_set[OF that] unfolding f by auto
  show "?f = e \<or> ?f \<in> set stops \<and> start < ?f" "?f \<le> e"
    using mem f by (cases "?I = []"; force)+
  show "?f \<le> x \<or> e \<le> x" if "x \<in> set stops" "start < x"
  proof (cases "x < e")
    case True
    then have x: "x \<in> set ?I" using that by simp
    then have "fold min ?I (hd ?I) \<le> x" by (intro fold_min_le) simp
    then show ?thesis using f x by (metis empty_iff list.set(1))
  qed simp
qed

lemma mandatory_stop_cases:
  assumes "f \<in> set (mandatory_stops cfg r start ending)"
  shows "f = (start div block_size cfg + 1) * block_size cfg \<or> f = last_cache_position cfg r \<or> f = 0
    \<or> mamba_partial_cache_hit cfg \<and> f = num_prompt_tokens r div hash_block_size cfg * hash_block_size cfg
    \<or> f = start + (shared_prefix_boundary r - start) div block_size cfg * block_size cfg"
proof -
  let ?tb = "if mamba_partial_cache_hit cfg then num_prompt_tokens r div hash_block_size cfg * hash_block_size cfg else 0"
  consider "f = (if start mod block_size cfg \<noteq> 0 then (start div block_size cfg + 1) * block_size cfg else 0)"
    | "f = last_cache_position cfg r" | "f = (if last_cache_position cfg r < ?tb \<and> ?tb < num_prompt_tokens r then ?tb else 0)"
    | "f = (if start < shared_prefix_boundary r \<and> shared_prefix_boundary r < ending
         then start + (shared_prefix_boundary r - start) div block_size cfg * block_size cfg else 0)"
    using assms unfolding mandatory_stops_def Let_def list.set by blast
  then show ?thesis by cases (metis (full_types))+
qed

text \<open>
  C17. A prefill chunk ends where Mamba state can be kept. During prefill the split never grows a chunk, never
  runs past the next block boundary when it starts inside a block, nor past the last cacheable position, nor past
  the prompt's partial-tail boundary when that is to be registered, nor past the block-floored junction of a shared
  prefix that ends before the prefill; and a chunk that is not empty ends at a block boundary, at the end
  of the prefill, at the tail boundary, or inside a block that is wider than any chunk.
\<close>

theorem split_ends_where_state_is_kept:
  assumes "0 < block_size cfg" "0 \<le> n"
    and "start = num_computed_tokens r + local + ext" "start < max (num_prompt_tokens r) (num_tokens r - 1)"
    and "len = mamba_block_aligned_split cfg r n local ext"
  defines "tail \<equiv> num_prompt_tokens r div hash_block_size cfg * hash_block_size cfg"
    and "junction \<equiv> start + (shared_prefix_boundary r - start) div block_size cfg * block_size cfg"
  shows "0 \<le> len \<and> len \<le> n
    \<and> (start mod block_size cfg \<noteq> 0 \<longrightarrow> start + len \<le> (start div block_size cfg + 1) * block_size cfg)
    \<and> (start < last_cache_position cfg r \<longrightarrow> start + len \<le> last_cache_position cfg r)
    \<and> (mamba_partial_cache_hit cfg \<and> start < tail \<and> last_cache_position cfg r < tail \<and> tail < num_prompt_tokens r
         \<longrightarrow> start + len \<le> tail)
    \<and> (start < junction \<and> shared_prefix_boundary r < max (num_prompt_tokens r) (num_tokens r - 1) \<longrightarrow> start + len \<le> junction)
    \<and> (0 < len \<longrightarrow> block_size cfg dvd start + len
         \<or> max (num_prompt_tokens r) (num_tokens r - 1) \<le> start + len
         \<or> mamba_partial_cache_hit cfg \<and> start + len = tail
         \<or> max_prefill_tokens cfg < block_size cfg \<and> (start + len) div block_size cfg * block_size cfg \<le> start)"
proof -
  let ?bs = "block_size cfg" and ?pe = "max (num_prompt_tokens r) (num_tokens r - 1)"
  let ?e = "aligned_chunk_end cfg start ?pe (start + n)"
  let ?stops = "mandatory_stops cfg r start ?e"
  let ?f = "first_stop start ?stops ?e"
  have "(?pe \<le> start) = False" using assms(4) leD by blast
  then have len: "len = max (?f - start) 0"
    unfolding assms(5) mamba_block_aligned_split_def Let_def assms(3)[symmetric] by (simp only: if_False)
  note al = aligned_chunk_end_cases[OF assms(1), where start = start and pe = ?pe and e = "start + n"]
  note fs = first_stop_cases[where start = start and stops = ?stops and e = ?e]
  have nb: "(start div ?bs + 1) * ?bs \<in> set ?stops" if "start mod ?bs \<noteq> 0" using that by (simp add: mandatory_stops_def Let_def)
  have nb_gt: "start < (start div ?bs + 1) * ?bs" using assms(1)
    by (simp add: distrib_right) (metis add.commute add_strict_left_mono div_mult_mod_eq pos_mod_bound)
  have b1: "start + len \<le> (start div ?bs + 1) * ?bs" if "start mod ?bs \<noteq> 0"
    using fs(3)[OF nb[OF that] nb_gt] fs(2) nb_gt len by linarith
  have lc: "last_cache_position cfg r \<in> set ?stops" by (simp add: mandatory_stops_def Let_def)
  have b2: "start + len \<le> last_cache_position cfg r" if "start < last_cache_position cfg r"
    using fs(3)[OF lc that] fs(2) that len by linarith
  have b2': "start + len \<le> tail"
    if t: "mamba_partial_cache_hit cfg" "start < tail" "last_cache_position cfg r < tail" "tail < num_prompt_tokens r"
  proof -
    have "tail \<in> set ?stops" using t by (simp add: mandatory_stops_def Let_def tail_def)
    then show ?thesis using fs(3)[of tail] fs(2) t(2) len by linarith
  qed
  have b3: "?bs dvd ?f \<or> mamba_partial_cache_hit cfg \<and> ?f = tail" if m: "?f \<in> set ?stops" "start < ?f"
  proof -
    consider "?f = (start div ?bs + 1) * ?bs" | "?f = last_cache_position cfg r" | "?f = 0"
      | "mamba_partial_cache_hit cfg" "?f = tail" | "?f = start + (shared_prefix_boundary r - start) div ?bs * ?bs"
      using mandatory_stop_cases[OF m(1)] unfolding tail_def by blast
    then show ?thesis
    proof cases
      case 2
      have "?bs dvd last_cache_position cfg r"
        by (auto simp: last_cache_position_def Let_def max_def dvd_minus_mod intro!: dvd_diff)
      then show ?thesis using 2 by simp
    next
      case 5
      let ?k = "(shared_prefix_boundary r - start) div ?bs"
      have "0 < ?k * ?bs" using 5 m(2) by linarith
      then have "1 \<le> ?k" using assms(1) by (simp add: zero_less_mult_iff)
      then have "start + ?bs \<le> ?f" using 5 mult_right_mono[of 1 ?k ?bs] assms(1) by simp
      moreover have "(start div ?bs + 1) * ?bs < start + ?bs" if "start mod ?bs \<noteq> 0"
        using that assms(1) by (simp add: distrib_right) (metis div_mult_mod_eq less_add_same_cancel1 order_le_imp_less_or_eq pos_mod_sign)
      ultimately have "start mod ?bs = 0" using fs(3)[OF nb nb_gt] fs(2) by fastforce
      then show ?thesis using 5 by (simp add: dvd_eq_mod_eq_0)
    qed simp_all
  qed
  have b4: "?bs dvd start + len \<or> ?pe \<le> start + len \<or> mamba_partial_cache_hit cfg \<and> start + len = tail
      \<or> max_prefill_tokens cfg < ?bs \<and> (start + len) div ?bs * ?bs \<le> start" if "0 < len"
  proof -
    have e: "start + len = ?f" using that len by linarith
    show ?thesis unfolding e
    proof (cases "?f = ?e")
      case True
      show "?bs dvd ?f \<or> ?pe \<le> ?f \<or> mamba_partial_cache_hit cfg \<and> ?f = tail
          \<or> max_prefill_tokens cfg < ?bs \<and> ?f div ?bs * ?bs \<le> start" unfolding True using al(2) by blast
    qed (use fs(1) b3 in blast)
  qed
  have b5: "start + len \<le> junction" if j: "start < junction" "shared_prefix_boundary r < ?pe"
  proof (cases "shared_prefix_boundary r < ?e")
    case True
    have "0 \<le> (shared_prefix_boundary r - start) mod ?bs" using assms(1) by simp
    then have "junction \<le> shared_prefix_boundary r"
      using div_mult_mod_eq[of "shared_prefix_boundary r - start" ?bs] unfolding junction_def by linarith
    then have "start < shared_prefix_boundary r" using j(1) by linarith
    then have "junction \<in> set ?stops" using True by (simp add: mandatory_stops_def Let_def junction_def)
    then show ?thesis using fs(3)[of junction] fs(2) j(1) len \<open>junction \<le> _\<close> True by linarith
  next
    case False
    let ?k = "(shared_prefix_boundary r - start) div ?bs"
    have e: "?e \<le> shared_prefix_boundary r" "\<not> ?pe \<le> ?e" using False j(2) by linarith+
    have k: "1 \<le> ?k" using j(1) assms(1) unfolding junction_def by (simp add: zero_less_mult_iff)
    then have wide: "start + ?bs \<le> junction" using mult_right_mono[of 1 ?k ?bs] assms(1) unfolding junction_def by simp
    show ?thesis
    proof (cases "start mod ?bs = 0")
      case False
      have "(start div ?bs + 1) * ?bs \<le> start + ?bs" using assms(1)
        by (simp add: distrib_right) (metis div_mult_mod_eq le_add_same_cancel1 pos_mod_sign)
      then show ?thesis using b1[OF False] wide by linarith
    next
      case True
      have "?f \<le> junction"
        using al(2)
      proof (elim disjE conjE)
        assume d: "?bs dvd ?e"
        obtain a where a: "start = a * ?bs" using True by (metis dvd_div_mult_self mod_0_imp_dvd)
        obtain b where b: "?e = b * ?bs" using d by (metis dvd_div_mult_self)
        have "(b - a) * ?bs \<le> shared_prefix_boundary r - start" using e(1) a b by (simp add: left_diff_distrib)
        then have "(b - a) * ?bs div ?bs \<le> ?k" using assms(1) by (rule zdiv_mono1)
        then have "b - a \<le> ?k" using assms(1) by simp
        then have "(b - a) * ?bs \<le> ?k * ?bs" using assms(1) by (intro mult_right_mono) simp_all
        then have "?e \<le> junction" using a b unfolding junction_def by (simp add: left_diff_distrib)
        then show ?thesis using fs(2) by linarith
      next
        assume "?e div ?bs * ?bs \<le> start"
        moreover have "?e < ?e div ?bs * ?bs + ?bs"
          using assms(1) div_mult_mod_eq[of ?e ?bs] pos_mod_bound[of ?bs ?e] by linarith
        ultimately show ?thesis using fs(2) wide by linarith
      qed (use e(2) in blast)
      then show ?thesis using len j(1) by linarith
    qed
  qed
  have "0 \<le> len" "len \<le> n" using len fs(2) al(1) assms(2) by linarith+
  then show ?thesis using b1 b2 b2' b4 b5 by blast
qed

definition demo_split :: split_config where
  "demo_split = \<lparr> block_size = 16, hash_block_size = 4, max_num_scheduled_tokens = 64, long_prefill_threshold = 0,
     use_eagle = False, mamba_partial_cache_hit = True \<rparr>"

text \<open>The last chunk of a prompt of thirty tokens stops at the tail boundary.\<close>

definition tail_request :: request where
  "tail_request = (demo_request ''a'' WAITING 16)\<lparr> num_prompt_tokens := 30, num_tokens := 30, num_computed_tokens := 16 \<rparr>"

theorem split_ends_where_state_is_kept_witness:
  "mamba_block_aligned_split demo_split tail_request 14 0 0 = 12
   \<and> 16 + mamba_block_aligned_split demo_split tail_request 14 0 0 \<le> 30 div 4 * 4"
proof -
  have "mamba_block_aligned_split demo_split tail_request 14 0 0 = 12" by code_simp
  moreover have "16 + mamba_block_aligned_split demo_split tail_request 14 0 0 \<le> 30 div 4 * 4"
  proof -
    have "last_cache_position demo_split tail_request = 16" by code_simp
    moreover have "hash_block_size demo_split = 4" "mamba_partial_cache_hit demo_split" "num_prompt_tokens tail_request = 30"
      by (simp_all add: demo_split_def tail_request_def)
    moreover have "0 < block_size demo_split" "(0::int) \<le> 14" "16 = num_computed_tokens tail_request + 0 + 0"
      "16 < max (num_prompt_tokens tail_request) (num_tokens tail_request - 1)"
      by (simp_all add: demo_split_def tail_request_def)
    note split_ends_where_state_is_kept[OF this refl, THEN conjunct2, THEN conjunct2, THEN conjunct2, THEN conjunct2, THEN conjunct1]
    ultimately show ?thesis by simp
  qed
  ultimately show ?thesis by simp
qed

section \<open>The fence\<close>

text \<open>
  Steps of the fence: a step is scheduled, a step is processed (in order, so never more than were scheduled), a
  request's blocks are released and copy-on-write retentions are released. \<open>wb b\<close> is the number of the last
  scheduled step that may still write block \<open>b\<close>; a request's blocks are written at most by the last step
  that scheduled it, retained copies at most by the next non-empty step.
\<close>

inductive fence_step :: "('b \<Rightarrow> int) \<Rightarrow> 'b fence_state \<Rightarrow> 'b fence_state \<Rightarrow> bool" for wb where
  schedule: "fence_step wb s (schedule_fence n s)"
| process: "n \<le> 0 \<or> processed_step_seq s < sched_step_seq s \<Longrightarrow> fence_step wb s (process_fence n s)"
| release: "last_sched \<le> sched_step_seq s \<Longrightarrow> \<forall>b \<in> set (pins @ concat batches @ popped). wb b \<le> last_sched \<Longrightarrow>
    fence_step wb s (free_request_blocks last_sched pins batches popped s)"
| release_cow: "\<forall>b \<in> set bs. wb b \<le> sched_step_seq s + 1 \<Longrightarrow>
    fence_step wb s (free_cow_retained_blocks bs (sched_step_seq s + 1) s)"

definition fence_inv :: "('b \<Rightarrow> int) \<Rightarrow> 'b fence_state \<Rightarrow> bool" where
  "fence_inv wb s \<longleftrightarrow> defer_block_free s \<and> processed_step_seq s \<le> sched_step_seq s
     \<and> (\<forall>(f, bs) \<in> set (deferred_frees s). f \<le> sched_step_seq s + 1 \<and> (\<forall>b \<in> set bs. wb b \<le> f))
     \<and> (\<forall>(p, bs) \<in> set (pool_calls s). \<forall>b \<in> set bs. wb b \<le> p)
     \<and> (deferred_frees s \<noteq> [] \<longrightarrow> processed_step_seq s < fst (hd (deferred_frees s)))"

lemma free_blocks_inv: "fence_inv wb s \<Longrightarrow> \<forall>b \<in> set bs. wb b \<le> processed_step_seq s \<Longrightarrow> fence_inv wb (free_blocks bs s)"
  by (auto simp: fence_inv_def free_blocks_def)

lemma fold_free_blocks_inv:
  "fence_inv wb s \<Longrightarrow> \<forall>b \<in> set (concat bss). wb b \<le> processed_step_seq s \<Longrightarrow> fence_inv wb (fold free_blocks bss s)"
proof (induction bss arbitrary: s)
  case (Cons bs bss)
  have "processed_step_seq (free_blocks bs s) = processed_step_seq s" by (simp add: free_blocks_def)
  then show ?case using Cons by (auto intro!: Cons.IH free_blocks_inv)
qed simp

text \<open>Draining keeps everything but the queue and the calls, which get the satisfied entries at its front.\<close>

lemma drain_inv:
  assumes "defer_block_free s" "processed_step_seq s \<le> sched_step_seq s"
    and "\<forall>(f, bs) \<in> set q. f \<le> sched_step_seq s + 1 \<and> (\<forall>b \<in> set bs. wb b \<le> f)"
    and "\<forall>(p, bs) \<in> set (pool_calls s). \<forall>b \<in> set bs. wb b \<le> p"
  shows "fence_inv wb (drain q s)"
  using assms
proof (induction q s rule: drain.induct)
  case (2 f bs q s)
  show ?case
  proof (cases "processed_step_seq s < f")
    case False
    have "fence_inv wb (drain q (free_blocks (rev bs) s))"
      using 2(2-5) False by (intro 2(1)) (auto simp: free_blocks_def)
    then show ?thesis using False by simp
  qed (use 2(2-5) in \<open>auto simp: fence_inv_def\<close>)
qed (auto simp: fence_inv_def)

lemma fence_step_inv:
  assumes "fence_step wb s s'" "fence_inv wb s"
  shows "fence_inv wb s'"
  using assms(1)
proof (cases rule: fence_step.cases)
  case (schedule n)
  then show ?thesis using assms(2) by (auto simp: fence_inv_def schedule_fence_def)
next
  case (process n)
  show ?thesis
  proof (cases "0 < n")
    case True
    let ?s = "s\<lparr> processed_step_seq := processed_step_seq s + 1 \<rparr>"
    have "fence_inv wb (drain (deferred_frees ?s) ?s)"
      using assms(2) process(2) True by (intro drain_inv) (auto simp: fence_inv_def)
    then show ?thesis using process(1) True assms(2) by (simp add: process_fence_def drain_deferred_frees_def fence_inv_def)
  qed (use process assms(2) in \<open>simp add: process_fence_def\<close>)
next
  case (release last_sched pins batches popped)
  show ?thesis
  proof (cases "last_sched \<le> processed_step_seq s")
    case True
    let ?t = "if pins \<noteq> [] then free_blocks pins s else s"
    have le: "wb b \<le> processed_step_seq s" if "b \<in> set (pins @ concat batches @ popped)" for b
      using release(3) True that by (meson order_trans)
    then have t: "fence_inv wb ?t" using assms(2) by (auto intro: free_blocks_inv)
    have p: "processed_step_seq ?t = processed_step_seq s" by (simp add: free_blocks_def)
    have "fence_inv wb (fold free_blocks batches ?t)"
      by (rule fold_free_blocks_inv[OF t]) (simp only: p, use le in simp)
    then show ?thesis using True release(1) by (simp add: free_request_blocks_def)
  next
    case False
    have "\<forall>b \<in> set (pins @ popped). wb b \<le> sched_step_seq s" using release(2,3) by (auto intro: order_trans)
    then show ?thesis using assms(2) release(1,2) False
      by (cases "deferred_frees s") (force simp: free_request_blocks_def fence_inv_def Let_def)+
  qed
next
  case (release_cow bs)
  then show ?thesis using assms(2)
    by (cases "deferred_frees s") (force simp: free_cow_retained_blocks_def fence_inv_def)+
qed

definition fence_init :: "'b fence_state" where
  "fence_init = \<lparr> defer_block_free = True, sched_step_seq = 0, processed_step_seq = 0, deferred_frees = [], pool_calls = [] \<rparr>"

lemma fence_reachable_inv: "(fence_step wb)\<^sup>*\<^sup>* fence_init s \<Longrightarrow> fence_inv wb s"
proof (induction rule: rtranclp_induct)
  case base
  then show ?case by (simp add: fence_init_def fence_inv_def)
qed (rule fence_step_inv)

text \<open>
  C18. No block returns to the pool while a step in flight may write it. In every run with deferred frees,
  whenever blocks are handed to the block pool, every step that may write one of them has been processed;
  and what is still deferred waits for a step that has not been processed.
\<close>

theorem blocks_return_after_their_writers:
  assumes "(fence_step wb)\<^sup>*\<^sup>* fence_init s"
  shows "(\<forall>(p, bs) \<in> set (pool_calls s). \<forall>b \<in> set bs. wb b \<le> p)
    \<and> (deferred_frees s \<noteq> [] \<longrightarrow> processed_step_seq s < fst (hd (deferred_frees s)))
    \<and> processed_step_seq s \<le> sched_step_seq s"
  using fence_reachable_inv[OF assms] by (simp add: fence_inv_def)

theorem blocks_return_after_their_writers_witness:
  "let s = process_fence 1 (free_request_blocks 1 [7 :: nat] [[8, 6], [9]] [6, 8, 9] (schedule_fence 5 fence_init)) in
   pool_calls s = [(1, [9, 8, 6, 7])] \<and> (\<forall>(p, bs) \<in> set (pool_calls s). \<forall>b \<in> set bs. (\<lambda>_. 1 :: int) b \<le> p)"
proof -
  let ?wb = "\<lambda>_ :: nat. 1 :: int"
  let ?a = "schedule_fence 5 fence_init :: nat fence_state"
  let ?b = "free_request_blocks 1 [7] [[8, 6], [9]] [6, 8, 9] ?a"
  have "fence_step ?wb fence_init ?a" by (rule fence_step.schedule)
  moreover have "fence_step ?wb ?a ?b" by (rule fence_step.release) (simp_all add: schedule_fence_def fence_init_def)
  moreover have "fence_step ?wb ?b (process_fence 1 ?b)"
    by (rule fence_step.process) (simp add: free_request_blocks_def schedule_fence_def fence_init_def)
  ultimately have "(fence_step ?wb)\<^sup>*\<^sup>* fence_init (process_fence 1 ?b)"
    by (intro rtranclp.rtrancl_into_rtrancl[OF rtranclp.rtrancl_into_rtrancl[OF r_into_rtranclp]])
  from blocks_return_after_their_writers[OF this]
  have "\<forall>(p, bs) \<in> set (pool_calls (process_fence 1 ?b)). \<forall>b \<in> set bs. ?wb b \<le> p" by blast
  moreover have "pool_calls (process_fence 1 ?b) = [(1, [9, 8, 6, 7])]"
    by (simp add: process_fence_def drain_deferred_frees_def free_request_blocks_def schedule_fence_def fence_init_def
        free_blocks_def)
  ultimately show ?thesis unfolding Let_def by blast
qed

end
