(* ===== verification/Sched_Accept.thy ===== *)
theory Sched_Accept
  imports Kv_Manager
begin

text \<open>
  How the scheduler (\<^verbatim>\<open>v1/core/sched/scheduler.py\<close>) accounts for requests in flight, preemption and
  verified drafts: preemption and the bookkeeping after a step is scheduled, the first part of
  \<^verbatim>\<open>update_from_output\<close> for each request, the feed of the acceptance-length controller and the
  instrumentation window. Request queue, encoder cache and the test for finished requests belong to other
  modules and are arguments.
\<close>

section \<open>Requests in flight\<close>

text \<open>
  An item of multimodal input: its identity, its place in the prompt and how many embeddings it has, in total
  and, by \<^verbatim>\<open>get_embeds_indices_in_range\<close>, in a range of its tokens.
\<close>

record mm_feature =
  mm_identifier :: string
  mm_offset :: int
  mm_length :: int
  num_embeds :: int
  embeds_in_range :: "int \<Rightarrow> int \<Rightarrow> int \<times> int"

record 'h sched_request = "'h kv_request" +
  num_stale_output_tokens :: int
  num_output_placeholders :: int
  drop_stale_output :: bool
  last_sched_seq :: int
  spec_token_ids :: "int list"
  use_structured_output :: bool
  priority :: int
  max_tokens :: int
  next_decode_eligible_step :: int
  has_encoder_inputs :: bool
  mm_features :: "mm_feature list"

record ('x, 'q, 'h) sched_ext =
  encoder_cache_free :: "'h sched_request \<Rightarrow> 'x \<Rightarrow> 'x"
  prepend_request :: "'h sched_request \<Rightarrow> 'q \<Rightarrow> 'q"
  status_is_finished :: "request_status \<Rightarrow> bool"

record ('c, 'x, 'q, 'h) sched_state =
  kv_manager :: "('c, 'h) kv_manager"
  fence :: "'h kv_block fence_state"
  encoder_cache :: 'x
  waiting_queue :: 'q
  requests :: "string \<Rightarrow> 'h sched_request option"
  inflight_prefills :: "string set"
  finished_req_ids :: "string set"
  reset_preempted_req_ids :: "string set"
  re_block_ids :: "string \<Rightarrow> int list option"

text \<open>\<^verbatim>\<open>_free_request_blocks\<close> on the KV-cache manager: at once, or popped and queued behind the fence.\<close>

definition release_request_blocks ::
  "('c, 'h, 'e) coordinator \<Rightarrow> 'h sched_request \<Rightarrow> ('c, 'x, 'q, 'h) sched_state \<Rightarrow> ('c, 'x, 'q, 'h) sched_state" where
  "release_request_blocks K r s =
     (if \<not> defer_block_free (fence s) \<or> last_sched_seq r \<le> processed_step_seq (fence s)
      then s\<lparr> kv_manager := free_kv K (kv_request.truncate r) (kv_manager s) \<rparr>
      else let (bs, m) = pop_blocks_for_free K (kv_request.truncate r) (kv_manager s) in
        if bs \<noteq> [] then s\<lparr> kv_manager := m,
            fence := (fence s)\<lparr> deferred_frees := deferred_frees (fence s) @ [(sched_step_seq (fence s), bs)] \<rparr> \<rparr>
        else s\<lparr> kv_manager := m \<rparr>)"

text \<open>The fields of a preempted request.\<close>

definition preempted :: "bool \<Rightarrow> 'h sched_request \<Rightarrow> 'h sched_request" where
  "preempted dropping r = r\<lparr> status := PREEMPTED, num_computed_tokens := 0, spec_token_ids := [],
     drop_stale_output := dropping \<or> drop_stale_output r \<and> 0 < num_stale_output_tokens r,
     num_stale_output_tokens := num_in_flight_tokens r, num_output_placeholders := 0,
     num_preemptions := num_preemptions r + 1 \<rparr>"

definition preempt_request ::
  "('c, 'h, 'e) coordinator \<Rightarrow> ('x, 'q, 'h) sched_ext \<Rightarrow> 'h sched_request \<Rightarrow> bool
   \<Rightarrow> ('c, 'x, 'q, 'h) sched_state \<Rightarrow> ('c, 'x, 'q, 'h) sched_state res" where
  "preempt_request K X r dropping s =
     res_bind (require (status r = RUNNING) AssertionError) (\<lambda>_.
       let s1 = release_request_blocks K r s; r' = preempted dropping r in
       Inr (s1\<lparr> encoder_cache := encoder_cache_free X r (encoder_cache s1),
                inflight_prefills := inflight_prefills s1 - {request_id r},
                requests := (requests s1)(request_id r \<mapsto> r'),
                waiting_queue := prepend_request X r' (waiting_queue s1),
                reset_preempted_req_ids := insert (request_id r) (reset_preempted_req_ids s1) \<rparr>))"

text \<open>The fields of a request after a step of \<open>n\<close> tokens was scheduled for it.\<close>

definition scheduled :: "'b fence_state \<Rightarrow> int \<Rightarrow> 'h sched_request \<Rightarrow> 'h sched_request" where
  "scheduled f n r = r\<lparr> num_computed_tokens := num_computed_tokens r + n,
     num_in_flight_tokens := num_in_flight_tokens r + n,
     last_sched_seq := (if defer_block_free f then sched_step_seq f else last_sched_seq r),
     is_prefill_chunk := num_computed_tokens r + n < num_tokens r + num_output_placeholders r \<rparr>"

fun advance_requests ::
  "(string \<times> int) list \<Rightarrow> bool \<Rightarrow> ('c, 'x, 'q, 'h) sched_state \<Rightarrow> (bool \<times> ('c, 'x, 'q, 'h) sched_state) res" where
  "advance_requests [] structured s = Inr (structured, s)"
| "advance_requests ((q, n) # rest) structured s =
     (case requests s q of
        None \<Rightarrow> Inl KeyError
      | Some r \<Rightarrow>
          let r' = scheduled (fence s) n r in
          advance_requests rest (structured \<or> use_structured_output r' \<and> \<not> is_prefill_chunk r')
            (s\<lparr> requests := (requests s)(q \<mapsto> r'),
                inflight_prefills := (if is_prefill_chunk r' then inflight_prefills s
                                      else inflight_prefills s - {request_id r'}) \<rparr>))"

text \<open>
  The snapshot for routed experts is taken only when they are returned; \<open>gid\<close> is the attention group then.
\<close>

definition snapshot_block_ids ::
  "('c, 'h, 'e) coordinator \<Rightarrow> nat \<Rightarrow> string list \<Rightarrow> ('c, 'x, 'q, 'h) sched_state
   \<Rightarrow> (string \<Rightarrow> int list option) res" where
  "snapshot_block_ids K gid ids s =
     res_bind (map_res (\<lambda>q. res_bind (py_get (table_block_ids K q (kv_manager s)) gid) (\<lambda>bs. Inr (q, bs))) ids)
       (\<lambda>new. Inr (re_block_ids s ++ map_of (rev new)))"

definition update_after_schedule ::
  "('c, 'h, 'e) coordinator \<Rightarrow> nat option \<Rightarrow> (string \<times> int) list \<Rightarrow> bool \<Rightarrow> ('c, 'x, 'q, 'h) sched_state
   \<Rightarrow> (bool \<times> ('c, 'x, 'q, 'h) sched_state) res" where
  "update_after_schedule K gid num_scheduled_tokens structured s =
     res_bind (advance_requests num_scheduled_tokens structured s) (\<lambda>(b, s1).
     res_bind (case gid of None \<Rightarrow> Inr (re_block_ids s1)
               | Some g \<Rightarrow> snapshot_block_ids K g (map fst num_scheduled_tokens) s1) (\<lambda>snap.
     Inr (b, s1\<lparr> re_block_ids := snap, finished_req_ids := {}, reset_preempted_req_ids := {} \<rparr>)))"

section \<open>Verified drafts\<close>

text \<open>
  The share of a step's output that belongs to a request: whether it is stale, and the request with its tokens
  in flight drained.
\<close>

definition drain_output :: "int \<Rightarrow> 'h sched_request \<Rightarrow> (bool \<times> 'h sched_request) res" where
  "drain_output n r =
     res_bind (require (0 < n) AssertionError) (\<lambda>_.
       let r1 = r\<lparr> num_in_flight_tokens := num_in_flight_tokens r - n \<rparr> in
       if 0 < num_stale_output_tokens r1
       then let r2 = r1\<lparr> num_stale_output_tokens := num_stale_output_tokens r1 - n \<rparr> in
            res_bind (require (0 \<le> num_stale_output_tokens r2) AssertionError) (\<lambda>_. Inr (True, r2))
       else Inr (False, r1))"

text \<open>
  The loop over the draft positions, from position 1: it stops at the first one that was not drafted.
\<close>

fun count_positions :: "nat list \<Rightarrow> int \<Rightarrow> int \<Rightarrow> int list \<times> int list \<Rightarrow> int list \<times> int list" where
  "count_positions [] draft accepted ea = ea"
| "count_positions (pos # rest) draft accepted (es, as) =
     (if draft < int pos then (es, as)
      else count_positions rest draft accepted
        (if pos = 1 \<or> int pos - 1 \<le> accepted then es[pos - 1 := es ! (pos - 1) + 1] else es,
         if int pos \<le> accepted then as[pos - 1 := as ! (pos - 1) + 1] else as))"

abbreviation positions :: "nat \<Rightarrow> nat list" where
  "positions num_positions \<equiv> [1..<num_positions + 1]"

record step_stats =
  adaptive_num_drafts :: int
  adaptive_num_draft_tokens :: int
  adaptive_num_accepted_tokens :: int
  adaptive_positions :: "int list \<times> int list"
  mtp_samples :: "(int \<times> int \<times> int \<times> int) list"

definition step_stats_init :: "nat \<Rightarrow> step_stats" where
  "step_stats_init num_positions = \<lparr> adaptive_num_drafts = 0, adaptive_num_draft_tokens = 0,
     adaptive_num_accepted_tokens = 0,
     adaptive_positions = (replicate num_positions 0, replicate num_positions 0), mtp_samples = [] \<rparr>"

record sched_params =
  num_sampled_tokens_per_step :: int
  has_controller :: bool
  mtp_num_positions :: nat

definition count_sample :: "sched_params \<Rightarrow> int \<Rightarrow> int \<Rightarrow> int \<Rightarrow> step_stats \<Rightarrow> step_stats" where
  "count_sample P draft accepted computed st =
     (let st1 = st\<lparr> mtp_samples := mtp_samples st @ [(draft, accepted, computed, num_sampled_tokens_per_step P + accepted)] \<rparr> in
      if has_controller P
      then st1\<lparr> adaptive_num_drafts := adaptive_num_drafts st1 + 1,
                adaptive_num_draft_tokens := adaptive_num_draft_tokens st1 + draft,
                adaptive_num_accepted_tokens := adaptive_num_accepted_tokens st1 + accepted,
                adaptive_positions := count_positions (positions (mtp_num_positions P)) draft accepted (adaptive_positions st1) \<rparr>
      else st1)"

text \<open>What a step's output holds for one scheduled request.\<close>

record output_share =
  num_tokens_scheduled :: int
  kv_load_failed :: bool
  in_runner_batch :: bool
  generated_token_ids :: "int list"
  scheduled_spec_token_ids :: "int list"

definition verify_drafts ::
  "sched_params \<Rightarrow> output_share \<Rightarrow> bool \<Rightarrow> 'h sched_request \<Rightarrow> step_stats \<Rightarrow> 'h sched_request \<times> step_stats" where
  "verify_drafts P out stale r st =
     (if scheduled_spec_token_ids out \<noteq> [] \<and> (generated_token_ids out \<noteq> [] \<or> num_sampled_tokens_per_step P = 0)
      then let draft = int (length (scheduled_spec_token_ids out));
               accepted = max (int (length (generated_token_ids out)) - num_sampled_tokens_per_step P) 0;
               rejected = draft - accepted
           in if stale then (r, st)
              else let r1 = (if 0 < num_computed_tokens r then r\<lparr> num_computed_tokens := num_computed_tokens r - rejected \<rparr> else r);
                       r2 = (if 0 < num_output_placeholders r1
                             then r1\<lparr> num_output_placeholders := num_output_placeholders r1 - rejected \<rparr> else r1)
                   in (r2, count_sample P draft accepted (num_computed_tokens r) st)
      else (r, st))"

text \<open>The body of the loop for one request, up to its drafts: every \<^verbatim>\<open>continue\<close> leaves the drained request.\<close>

definition process_share ::
  "('x, 'q, 'h) sched_ext \<Rightarrow> sched_params \<Rightarrow> output_share \<Rightarrow> 'h sched_request option \<Rightarrow> step_stats
   \<Rightarrow> ('h sched_request option \<times> step_stats) res" where
  "process_share X P out ro st =
     res_bind (require (0 < num_tokens_scheduled out) AssertionError) (\<lambda>_.
     case ro of
       None \<Rightarrow> Inr (None, st)
     | Some r \<Rightarrow>
         res_bind (drain_output (num_tokens_scheduled out) r) (\<lambda>(stale, r1).
           if kv_load_failed out then Inr (Some r1, st)
           else if status_is_finished X (status r1) then Inr (Some r1, st)
           else if stale \<and> drop_stale_output r1 then Inr (Some r1, st)
           else if \<not> in_runner_batch out then Inr (Some r1, st)
           else let (r2, st2) = verify_drafts P out stale r1 st in Inr (Some r2, st2)))"

fun process_shares ::
  "('x, 'q, 'h) sched_ext \<Rightarrow> sched_params \<Rightarrow> (string \<times> output_share) list \<Rightarrow> (string \<Rightarrow> 'h sched_request option)
   \<Rightarrow> step_stats \<Rightarrow> ((string \<Rightarrow> 'h sched_request option) \<times> step_stats) res" where
  "process_shares X P [] rs st = Inr (rs, st)"
| "process_shares X P ((q, out) # rest) rs st =
     res_bind (process_share X P out (rs q) st) (\<lambda>(ro, st'). process_shares X P rest (rs(q := ro)) st')"

text \<open>The depth of the next step, and the observation after the loop.\<close>

definition num_spec_tokens_to_schedule :: "int \<Rightarrow> controller option \<Rightarrow> int list option \<Rightarrow> nat \<Rightarrow> int res" where
  "num_spec_tokens_to_schedule static_num ctrl lookup num_scheduled =
     (let n = (case ctrl of Some c \<Rightarrow> num_spec_tokens c | None \<Rightarrow> static_num)
      in case lookup of
           Some ls \<Rightarrow> if 0 < num_scheduled then res_bind (py_get ls num_scheduled) (\<lambda>k. Inr (min n k)) else Inr n
         | None \<Rightarrow> Inr n)"

definition active_num_spec_tokens :: "int \<Rightarrow> int \<Rightarrow> int" where
  "active_num_spec_tokens static_num to_schedule = (if to_schedule \<noteq> 0 then to_schedule else static_num)"

definition observe_step :: "controller \<Rightarrow> step_stats \<Rightarrow> controller \<times> update option res" where
  "observe_step c st = observe_batch c (adaptive_num_drafts st) (adaptive_num_draft_tokens st)
     (adaptive_num_accepted_tokens st) (Some (fst (adaptive_positions st))) (Some (snd (adaptive_positions st)))"

section \<open>The instrumentation window\<close>

definition lower_ascii :: "string \<Rightarrow> string" where
  "lower_ascii s = map (\<lambda>c. if 65 \<le> code c \<and> code c \<le> 90 then char_of (code c + 32) else c) s"

definition mtp_instrument_enabled :: "(string \<Rightarrow> string option) \<Rightarrow> bool" where
  "mtp_instrument_enabled env =
     (lower_ascii (strip str_space (case env ''VLLM_MTP_INSTRUMENT'' of None \<Rightarrow> ''0'' | Some v \<Rightarrow> v))
        \<notin> {'''', ''0'', ''false'', ''no'', ''off''})"

definition mtp_instrument_window :: "(string \<Rightarrow> string option) \<Rightarrow> int" where
  "mtp_instrument_window env =
     (case py_int (case env ''VLLM_MTP_INSTRUMENT_WINDOW'' of None \<Rightarrow> ''32'' | Some v \<Rightarrow> v) of
        None \<Rightarrow> 32 | Some n \<Rightarrow> max 1 n)"

record mtp_window =
  win_steps :: int
  win_batches :: int
  win_draft_tokens :: int
  win_accepted_tokens :: int
  win_output_tokens :: int
  win_started_ns :: int
  win_context :: "(int \<times> int) option"
  win_positions :: "int list \<times> int list"
  win_selected_k :: "int \<Rightarrow> int option"
  win_active_k_first :: "int option"

definition reset_mtp_window :: "nat \<Rightarrow> mtp_window" where
  "reset_mtp_window num_positions = \<lparr> win_steps = 0, win_batches = 0, win_draft_tokens = 0, win_accepted_tokens = 0,
     win_output_tokens = 0, win_started_ns = 0, win_context = None,
     win_positions = (replicate num_positions 0, replicate num_positions 0), win_selected_k = (\<lambda>_. None),
     win_active_k_first = None \<rparr>"

definition bump :: "int \<Rightarrow> (int \<Rightarrow> int option) \<Rightarrow> int \<Rightarrow> int option" where
  "bump k d = d(k \<mapsto> (case d k of None \<Rightarrow> 0 | Some n \<Rightarrow> n) + 1)"

fun add_sample :: "nat \<Rightarrow> int \<times> int \<times> int \<times> int \<Rightarrow> mtp_window \<Rightarrow> mtp_window" where
  "add_sample num_positions (draft, accepted, context, out) w =
     w\<lparr> win_draft_tokens := win_draft_tokens w + draft, win_accepted_tokens := win_accepted_tokens w + accepted,
        win_output_tokens := win_output_tokens w + out,
        win_context := (case win_context w of None \<Rightarrow> Some (context, context)
                        | Some (lo, hi) \<Rightarrow> Some (min lo context, max hi context)),
        win_positions := count_positions (positions num_positions) draft accepted (win_positions w) \<rparr>"

definition accumulate_step :: "nat \<Rightarrow> int \<Rightarrow> (int \<times> int \<times> int \<times> int) list \<Rightarrow> int \<Rightarrow> mtp_window \<Rightarrow> mtp_window" where
  "accumulate_step num_positions now samples active w =
     (let w1 = w\<lparr> win_steps := win_steps w + 1,
                 win_active_k_first := (case win_active_k_first w of None \<Rightarrow> Some active | Some k \<Rightarrow> Some k),
                 win_selected_k := bump active (win_selected_k w) \<rparr>
      in if samples = [] then w1
         else fold (add_sample num_positions) samples
           (w1\<lparr> win_started_ns := (if win_started_ns w1 = 0 then now else win_started_ns w1),
                win_batches := win_batches w1 + int (length samples) \<rparr>))"

record mtp_record =
  rec_window_index :: int
  rec_configured_max_k :: int
  rec_depth_ladder :: "int list"
  rec_adaptive_enabled :: bool
  rec_active_k :: int
  rec_active_k_at_window_start :: "int option"
  rec_controller_previous_k :: "int option"
  rec_controller_next_k :: "int option"
  rec_decision_reason :: string
  rec_controller_window :: "int option"
  rec_acceptance_ratchet :: "bool option"
  rec_verification_steps :: int
  rec_draft_batches :: int
  rec_drafts_attempted :: int
  rec_drafts_accepted :: int
  rec_acceptance_ratio :: pyfloat
  rec_mean_attempted_per_batch :: pyfloat
  rec_mean_accepted_per_batch :: pyfloat
  rec_position_eligible :: "int list"
  rec_position_accepted :: "int list"
  rec_position_conditional_acceptance :: "pyfloat list"
  rec_position_unconditional_gain :: "pyfloat list"
  rec_tail_gain_23 :: pyfloat
  rec_position_4_gain :: pyfloat
  rec_controller_tail_gain_23 :: "pyfloat option"
  rec_controller_position_4_gain :: "pyfloat option"
  rec_output_tokens_emitted :: int
  rec_window_elapsed_ms :: pyfloat
  rec_context_tokens :: "(int \<times> int) option"
  rec_selected_k_window :: "int \<Rightarrow> int option"
  rec_selected_k_run :: "int \<Rightarrow> int option"

definition elapsed_ms :: "int \<Rightarrow> mtp_window \<Rightarrow> pyfloat res" where
  "elapsed_ms now w =
     (if win_started_ns w = 0 then Inr (Some 0)
      else case to_float (of_int (now - win_started_ns w)) of
             None \<Rightarrow> Inl OverflowError
           | Some t \<Rightarrow> float_div (Some t) (Some 1000000))"

record mtp_state =
  mtp_enabled :: bool
  mtp_window_size :: int
  mtp_positions :: nat
  mtp_configured_k :: int
  mtp_ladder :: "int list"
  mtp_adaptive :: bool
  mtp_window_index :: int
  mtp_selected_k_run :: "int \<Rightarrow> int option"
  mtp_window :: mtp_window

definition window_record :: "mtp_state \<Rightarrow> int \<Rightarrow> int \<Rightarrow> update option \<Rightarrow> mtp_record res" where
  "window_record m now active upd =
     (let w = mtp_window m; n = win_batches w; (es, as) = win_positions w in
      res_bind (rate (win_accepted_tokens w) (win_draft_tokens w)) (\<lambda>ratio.
      res_bind (rate (win_draft_tokens w) n) (\<lambda>attempted.
      res_bind (rate (win_accepted_tokens w) n) (\<lambda>accepted.
      res_bind (map_res (\<lambda>(a, e). rate a e) (zip as es)) (\<lambda>conditional.
      res_bind (map_res (\<lambda>a. rate a n) as) (\<lambda>gains.
      res_bind (if n \<noteq> 0 \<and> 4 \<le> mtp_positions m then truediv (as ! 2 + as ! 3) n else Inr (Some 0)) (\<lambda>tail.
      res_bind (if n \<noteq> 0 \<and> 5 \<le> mtp_positions m then truediv (as ! 4) n else Inr (Some 0)) (\<lambda>p4.
      res_bind (elapsed_ms now w) (\<lambda>ms.
      Inr \<lparr> rec_window_index = mtp_window_index m, rec_configured_max_k = mtp_configured_k m,
            rec_depth_ladder = mtp_ladder m, rec_adaptive_enabled = mtp_adaptive m, rec_active_k = active,
            rec_active_k_at_window_start = win_active_k_first w,
            rec_controller_previous_k = map_option previous_num_spec_tokens upd,
            rec_controller_next_k = map_option upd_num_spec_tokens upd,
            rec_decision_reason = (case upd of Some u \<Rightarrow> decision_reason u
              | None \<Rightarrow> if mtp_adaptive m then ''no_decision'' else ''fixed''),
            rec_controller_window = map_option upd_observation_window upd,
            rec_acceptance_ratchet = map_option acceptance_ratchet upd,
            rec_verification_steps = win_steps w, rec_draft_batches = n,
            rec_drafts_attempted = win_draft_tokens w, rec_drafts_accepted = win_accepted_tokens w,
            rec_acceptance_ratio = ratio, rec_mean_attempted_per_batch = attempted,
            rec_mean_accepted_per_batch = accepted, rec_position_eligible = es, rec_position_accepted = as,
            rec_position_conditional_acceptance = conditional, rec_position_unconditional_gain = gains,
            rec_tail_gain_23 = tail, rec_position_4_gain = p4,
            rec_controller_tail_gain_23 = map_option upd_tail_gain_23 upd,
            rec_controller_position_4_gain = map_option upd_position_4_gain upd,
            rec_output_tokens_emitted = win_output_tokens w, rec_window_elapsed_ms = ms,
            rec_context_tokens = win_context w, rec_selected_k_window = win_selected_k w,
            rec_selected_k_run = mtp_selected_k_run m \<rparr>)))))))))"

definition record_mtp_instrumentation ::
  "int \<Rightarrow> int \<Rightarrow> (int \<times> int \<times> int \<times> int) list \<Rightarrow> update option \<Rightarrow> int \<Rightarrow> mtp_state
   \<Rightarrow> mtp_record option res \<times> mtp_state" where
  "record_mtp_instrumentation now_start now_end samples upd active m =
     (if \<not> mtp_enabled m then (Inr None, m)
      else let m1 = m\<lparr> mtp_window := accumulate_step (mtp_positions m) now_start samples active (mtp_window m),
                      mtp_selected_k_run := bump active (mtp_selected_k_run m) \<rparr>
           in if win_steps (mtp_window m1) < mtp_window_size m1 then (Inr None, m1)
              else case window_record m1 now_end active upd of
                     Inl e \<Rightarrow> (Inl e, m1)
                   | Inr rec \<Rightarrow> (Inr (Some rec), m1\<lparr> mtp_window_index := mtp_window_index m1 + 1,
                                              mtp_window := reset_mtp_window (mtp_positions m1) \<rparr>))"

end
