(* ===== verification/Sched_Accept_Props.thy ===== *)
theory Sched_Accept_Props
  imports Sched_Accept Spec_Depth_Props Sched_Prefill_Props
begin

text \<open>
  Properties of the scheduler's accounting: stale output in flight, the counts fed to the controller, the depth
  of the next step and the instrumentation window.
\<close>

section \<open>Output in flight\<close>

text \<open>
  One request and the steps that were scheduled for it and whose output has not been processed, oldest first,
  each with the mark of being older than the last preemption. Output is processed in the order of
  scheduling. \<open>other\<close> stands for everything that leaves the two token counts alone.
\<close>

inductive flight_step :: "'h sched_request \<times> (int \<times> bool) list \<Rightarrow> 'h sched_request \<times> (int \<times> bool) list \<Rightarrow> bool" where
  schedule: "0 < n \<Longrightarrow> flight_step (r, q) (scheduled (f :: unit fence_state) n r, q @ [(n, False)])"
| preempt: "status r = RUNNING \<Longrightarrow> flight_step (r, q) (preempted d r, map (\<lambda>(n, _). (n, True)) q)"
| drain: "drain_output n r = Inr (stale, r') \<Longrightarrow> flight_step (r, (n, old) # q) (r', q)"
| other: "num_in_flight_tokens r' = num_in_flight_tokens r \<Longrightarrow> num_stale_output_tokens r' = num_stale_output_tokens r \<Longrightarrow>
    flight_step (r, q) (r', q)"

definition total_tokens :: "(int \<times> bool) list \<Rightarrow> int" where
  "total_tokens q = sum_list (map fst q)"

lemma total_tokens_simps [simp]:
  "total_tokens [] = 0" "total_tokens (x # q) = fst x + total_tokens q" "total_tokens (p @ q) = total_tokens p + total_tokens q"
  "total_tokens (map (\<lambda>(n, _). (n, b)) q) = total_tokens q"
  by (simp_all add: total_tokens_def case_prod_beta comp_def)

lemma total_tokens_pos: "\<forall>x \<in> set q. 0 < fst x \<Longrightarrow> q \<noteq> [] \<Longrightarrow> 0 < total_tokens q"
  by (induction q) (auto, metis add_pos_pos add.right_neutral total_tokens_simps(1))

text \<open>The steps in flight are the stale ones followed by the others; the counts are their sums.\<close>

definition flight_inv :: "'h sched_request \<times> (int \<times> bool) list \<Rightarrow> bool" where
  "flight_inv s \<longleftrightarrow> (\<exists>old new. snd s = old @ new \<and> (\<forall>x \<in> set old. snd x) \<and> (\<forall>x \<in> set new. \<not> snd x)
     \<and> (\<forall>x \<in> set (snd s). 0 < fst x)
     \<and> num_in_flight_tokens (fst s) = total_tokens (snd s) \<and> num_stale_output_tokens (fst s) = total_tokens old)"

lemma flight_drain:
  assumes "flight_inv (r, (n, b) # q)"
  shows "\<exists>r'. drain_output n r = Inr (b, r') \<and> flight_inv (r', q)"
proof -
  obtain old new where s: "(n, b) # q = old @ new" "\<forall>x \<in> set old. snd x" "\<forall>x \<in> set new. \<not> snd x"
    "\<forall>x \<in> set ((n, b) # q). 0 < fst x" "num_in_flight_tokens r = total_tokens ((n, b) # q)"
    "num_stale_output_tokens r = total_tokens old"
    using assms unfolding flight_inv_def fst_conv snd_conv by blast
  have n: "0 < n" using s(4) by simp
  show ?thesis
  proof (cases old)
    case Nil
    then have "\<not> b" using s(1,3) by auto
    let ?r = "r\<lparr> num_in_flight_tokens := num_in_flight_tokens r - n \<rparr>"
    have "drain_output n r = Inr (b, ?r)" using n Nil s(6) \<open>\<not> b\<close> by (simp add: drain_output_def Let_def)
    moreover have "flight_inv (?r, q)" unfolding flight_inv_def
      by (rule exI[of _ "[]"], rule exI[of _ q]) (use s Nil in auto)
    ultimately show ?thesis by blast
  next
    case (Cons x old')
    then have x: "x = (n, b)" "b" and q: "q = old' @ new" using s(1,2) by auto
    have "0 \<le> total_tokens old'"
      using total_tokens_pos[of old'] s(4) q by (cases "old' = []") (auto intro: order_less_imp_le)
    let ?r = "r\<lparr> num_in_flight_tokens := num_in_flight_tokens r - n, num_stale_output_tokens := num_stale_output_tokens r - n \<rparr>"
    have "drain_output n r = Inr (b, ?r)"
      using n Cons s(6) x \<open>0 \<le> total_tokens old'\<close> by (simp add: drain_output_def Let_def)
    moreover have "flight_inv (?r, q)" unfolding flight_inv_def
      by (rule exI[of _ old'], rule exI[of _ new]) (use s Cons x q in auto)
    ultimately show ?thesis by blast
  qed
qed

lemma flight_step_inv: "flight_step s s' \<Longrightarrow> flight_inv s \<Longrightarrow> flight_inv s'"
proof (induction rule: flight_step.induct)
  case (schedule n r q f)
  then obtain old new where "q = old @ new" "\<forall>x \<in> set old. snd x" "\<forall>x \<in> set new. \<not> snd x"
    "\<forall>x \<in> set q. 0 < fst x" "num_in_flight_tokens r = total_tokens q" "num_stale_output_tokens r = total_tokens old"
    by (auto simp: flight_inv_def)
  then show ?case using schedule(1) unfolding flight_inv_def
    by (intro exI[of _ old] exI[of _ "new @ [(n, False)]"]) (auto simp: scheduled_def)
next
  case (preempt r q d)
  then show ?case unfolding flight_inv_def
    by (intro exI[of _ "map (\<lambda>(n, _). (n, True)) q"] exI[of _ "[]"]) (auto simp: preempted_def)
next
  case (drain n r stale r' old q)
  then show ?case using flight_drain[of r n old q] by auto
next
  case (other r' r q)
  then show ?case by (simp add: flight_inv_def)
qed

text \<open>
  C22. Stale output is recognised exactly. However schedules, preemptions and outputs of a request interleave,
  when the output of a step arrives its tokens can be drained without an assertion failing, and it
  is treated as stale exactly if the step was scheduled before the last preemption.
\<close>

theorem stale_output_is_exact:
  assumes "flight_step\<^sup>*\<^sup>* (r0, []) (r, (n, before_preemption) # q)"
    and "num_in_flight_tokens r0 = 0" "num_stale_output_tokens r0 = 0"
  shows "\<exists>r'. drain_output n r = Inr (before_preemption, r') \<and> 0 \<le> num_stale_output_tokens r'
    \<and> num_stale_output_tokens r' \<le> num_in_flight_tokens r'"
proof -
  have "flight_inv (r0, [])" using assms(2,3) by (auto simp: flight_inv_def)
  with assms(1) have "flight_inv (r, (n, before_preemption) # q)"
    by (induction rule: rtranclp_induct) (blast intro: flight_step_inv)+
  then obtain r' where r': "drain_output n r = Inr (before_preemption, r')" "flight_inv (r', q)"
    using flight_drain by blast
  obtain old new where q: "q = old @ new" "\<forall>x \<in> set q. 0 < fst x" "num_in_flight_tokens r' = total_tokens q"
    "num_stale_output_tokens r' = total_tokens old" using r'(2) by (auto simp: flight_inv_def)
  have "0 \<le> total_tokens old" "0 \<le> total_tokens new"
    using total_tokens_pos[of old] total_tokens_pos[of new] q(1,2) by (cases "old = []"; cases "new = []"; force)+
  then show ?thesis using r'(1) q by auto
qed

definition demo_sched_request :: "int \<Rightarrow> int \<Rightarrow> nat sched_request" where
  "demo_sched_request in_flight stale = \<lparr> request_id = ''r'', status = RUNNING, num_tokens = 100, num_prompt_tokens = 90,
     num_computed_tokens = 95, is_prefill_chunk = False, arrival_time = 0, shared_prefix_boundary = 0,
     block_hashes = [], skip_reading_prefix_cache = False, num_in_flight_tokens = in_flight, num_preemptions = 0,
     kv_cache_report_mode = None, num_stale_output_tokens = stale, num_output_placeholders = 0,
     drop_stale_output = False, last_sched_seq = 0, spec_token_ids = [], use_structured_output = False, priority = 0, max_tokens = 50,
     next_decode_eligible_step = 0, has_encoder_inputs = False, mm_features = [] \<rparr>"

theorem stale_output_is_exact_witness:
  "\<exists>r'. drain_output 4 (scheduled (fence_init :: unit fence_state) 6 (preempted False (scheduled (fence_init :: unit fence_state) 4 (demo_sched_request 0 0))))
      = Inr (True, r') \<and> num_stale_output_tokens r' = 0 \<and> num_in_flight_tokens r' = 6"
proof -
  let ?f = "fence_init :: unit fence_state" and ?r = "demo_sched_request 0 0"
  have "flight_step (?r, []) (scheduled ?f 4 ?r, [] @ [(4, False)])" by (rule flight_step.schedule) simp
  moreover have "flight_step (scheduled ?f 4 ?r, [] @ [(4, False)])
      (preempted False (scheduled ?f 4 ?r), map (\<lambda>(n, _). (n, True)) ([] @ [(4, False)]))"
    by (rule flight_step.preempt) (simp add: scheduled_def demo_sched_request_def)
  moreover have "flight_step (preempted False (scheduled ?f 4 ?r), map (\<lambda>(n, _). (n, True)) ([] @ [(4, False)]))
      (scheduled ?f 6 (preempted False (scheduled ?f 4 ?r)), map (\<lambda>(n, _). (n, True)) ([] @ [(4, False)]) @ [(6, False)])"
    by (rule flight_step.schedule) simp
  ultimately have "flight_step\<^sup>*\<^sup>* (?r, []) (scheduled ?f 6 (preempted False (scheduled ?f 4 ?r)), (4, True) # [(6, False)])"
    by simp
  from stale_output_is_exact[OF this] show ?thesis
    by (simp add: demo_sched_request_def drain_output_def scheduled_def preempted_def Let_def)
qed

section \<open>Counting positions\<close>

text \<open>Whether a draft of \<open>d\<close> tokens with \<open>a\<close> accepted reaches position \<open>p\<close> (from 0), and accepts it.\<close>

definition reaches :: "nat \<Rightarrow> int \<Rightarrow> int \<Rightarrow> bool" where
  "reaches p d a \<longleftrightarrow> int p < d \<and> int p \<le> a"

definition accepts :: "nat \<Rightarrow> int \<Rightarrow> int \<Rightarrow> bool" where
  "accepts p d a \<longleftrightarrow> int p < d \<and> int p < a"

lemma count_positions_from:
  assumes "0 \<le> a" "length es = N" "length as = N" "k \<le> N"
  shows "\<exists>es' as'. count_positions [k + 1..<N + 1] d a (es, as) = (es', as') \<and> length es' = N \<and> length as' = N
    \<and> (\<forall>p < N. es' ! p = es ! p + (if k \<le> p \<and> reaches p d a then 1 else 0)
             \<and> as' ! p = as ! p + (if k \<le> p \<and> accepts p d a then 1 else 0))"
  using assms
proof (induction "N - k" arbitrary: k es as)
  case 0
  then show ?case by auto
next
  case (Suc m)
  then have k: "k < N" by simp
  then have u: "[k + 1..<N + 1] = (k + 1) # [Suc k + 1..<N + 1]" by (simp add: upt_rec)
  show ?case
  proof (cases "d < int (k + 1)")
    case True
    then have "\<not> reaches p d a" "\<not> accepts p d a" if "k \<le> p" for p using that by (auto simp: reaches_def accepts_def)
    then show ?thesis using True Suc.prems unfolding u by auto
  next
    case False
    let ?es = "if k + 1 = 1 \<or> int (k + 1) - 1 \<le> a then es[k := es ! k + 1] else es"
    let ?as = "if int (k + 1) \<le> a then as[k := as ! k + 1] else as"
    have "reaches k d a \<longleftrightarrow> (k + 1 = 1 \<or> int (k + 1) - 1 \<le> a)" "accepts k d a \<longleftrightarrow> int (k + 1) \<le> a"
      using False Suc.prems(1) by (auto simp: reaches_def accepts_def)
    then have e: "?es ! p = es ! p + (if p = k \<and> reaches p d a then 1 else 0)"
      and ac: "?as ! p = as ! p + (if p = k \<and> accepts p d a then 1 else 0)" if "p < N" for p
      using Suc.prems(2,3) k by (auto simp: nth_list_update)
    have ih: "\<exists>es' as'. count_positions [Suc k + 1..<N + 1] d a (?es, ?as) = (es', as') \<and> length es' = N \<and> length as' = N
      \<and> (\<forall>p < N. es' ! p = ?es ! p + (if Suc k \<le> p \<and> reaches p d a then 1 else 0)
             \<and> as' ! p = ?as ! p + (if Suc k \<le> p \<and> accepts p d a then 1 else 0))"
      by (rule Suc.hyps(1)) (use Suc.hyps(2) Suc.prems k in simp_all)
    obtain es' as' where r: "count_positions [Suc k + 1..<N + 1] d a (?es, ?as) = (es', as')" "length es' = N" "length as' = N"
      "\<forall>p < N. es' ! p = ?es ! p + (if Suc k \<le> p \<and> reaches p d a then 1 else 0)
             \<and> as' ! p = ?as ! p + (if Suc k \<le> p \<and> accepts p d a then 1 else 0)"
      using ih by blast
    have "count_positions [k + 1..<N + 1] d a (es, as) = (es', as')"
      unfolding u count_positions.simps using False r(1) by (simp only: if_False add_diff_cancel_right')
    moreover have "es' ! p = es ! p + (if k \<le> p \<and> reaches p d a then 1 else 0)
        \<and> as' ! p = as ! p + (if k \<le> p \<and> accepts p d a then 1 else 0)" if "p < N" for p
      using r(4) e[OF that] ac[OF that] that by (auto simp: not_less_eq_eq)
    ultimately show ?thesis using r(2,3) by blast
  qed
qed

text \<open>How many samples reach or accept each position.\<close>

definition eligible_counts :: "nat \<Rightarrow> (int \<times> int \<times> int \<times> int) list \<Rightarrow> int list" where
  "eligible_counts N ss = map (\<lambda>p. int (length (filter (\<lambda>(d, a, _). reaches p d a) ss))) [0..<N]"

definition accepted_counts :: "nat \<Rightarrow> (int \<times> int \<times> int \<times> int) list \<Rightarrow> int list" where
  "accepted_counts N ss = map (\<lambda>p. int (length (filter (\<lambda>(d, a, _). accepts p d a) ss))) [0..<N]"

lemma count_positions_sample:
  assumes "0 \<le> a"
  shows "count_positions (positions N) d a (eligible_counts N ss, accepted_counts N ss)
    = (eligible_counts N (ss @ [(d, a, x, y)]), accepted_counts N (ss @ [(d, a, x, y)]))"
proof -
  have len: "length (eligible_counts N ss) = N" "length (accepted_counts N ss) = N" for ss
    by (simp_all add: eligible_counts_def accepted_counts_def)
  obtain es as where r:
    "count_positions [0 + 1..<N + 1] d a (eligible_counts N ss, accepted_counts N ss) = (es, as)"
    "length es = N" "length as = N"
    "\<forall>p < N. es ! p = eligible_counts N ss ! p + (if 0 \<le> p \<and> reaches p d a then 1 else 0)
            \<and> as ! p = accepted_counts N ss ! p + (if 0 \<le> p \<and> accepts p d a then 1 else 0)"
    using count_positions_from[OF assms len le0, of d ss ss] by blast
  have "es = eligible_counts N (ss @ [(d, a, x, y)])"
    by (rule nth_equalityI) (use r(2,4) len in \<open>auto simp: eligible_counts_def\<close>)
  moreover have "as = accepted_counts N (ss @ [(d, a, x, y)])"
    by (rule nth_equalityI) (use r(3,4) len in \<open>auto simp: accepted_counts_def\<close>)
  ultimately show ?thesis using r(1) by (simp only: add_0)
qed

lemma counts_valid:
  "list_all2 (\<lambda>e a. 0 \<le> a \<and> a \<le> e) (eligible_counts N ss) (accepted_counts N ss)"
proof -
  have "length (filter (\<lambda>(d, a, _). accepts p d a) ss) \<le> length (filter (\<lambda>(d, a, _). reaches p d a) ss)" for p
    by (induction ss) (auto simp: accepts_def reaches_def)
  then show ?thesis by (simp add: list_all2_conv_all_nth eligible_counts_def accepted_counts_def)
qed

section \<open>The feed of the controller\<close>

definition stats_ok :: "sched_params \<Rightarrow> step_stats \<Rightarrow> bool" where
  "stats_ok P st \<longleftrightarrow> adaptive_num_drafts st = int (length (mtp_samples st))
     \<and> adaptive_num_draft_tokens st = sum_list (map fst (mtp_samples st))
     \<and> adaptive_num_accepted_tokens st = sum_list (map (fst \<circ> snd) (mtp_samples st))
     \<and> adaptive_positions st = (eligible_counts (mtp_num_positions P) (mtp_samples st), accepted_counts (mtp_num_positions P) (mtp_samples st))
     \<and> (\<forall>(d, a, _) \<in> set (mtp_samples st). 0 \<le> a \<and> a \<le> d)"

lemma stats_init_ok: "stats_ok P (step_stats_init (mtp_num_positions P))"
  by (auto simp: stats_ok_def step_stats_init_def eligible_counts_def accepted_counts_def map_replicate_const)

lemma count_sample_ok:
  assumes "stats_ok P st" "has_controller P" "0 \<le> a" "a \<le> d"
  shows "stats_ok P (count_sample P d a n st)"
  using assms count_positions_sample[OF assms(3), of "mtp_num_positions P" d "mtp_samples st" n "num_sampled_tokens_per_step P + a"]
  by (auto simp: stats_ok_def count_sample_def Let_def)

text \<open>The runner returns at most the drafts and the newly sampled tokens of a request.\<close>

definition within_draft :: "sched_params \<Rightarrow> output_share \<Rightarrow> bool" where
  "within_draft P out \<longleftrightarrow> int (length (generated_token_ids out))
     \<le> int (length (scheduled_spec_token_ids out)) + num_sampled_tokens_per_step P"

lemma process_share_stats:
  fixes ro :: "'h sched_request option"
  assumes "process_share X P out ro st = Inr (ro', st')"
  shows "st' = st \<or> (\<exists>stale (r :: 'h sched_request). st' = snd (verify_drafts P out stale r st))"
proof (cases ro)
  case (Some r)
  obtain stale r1 where d: "drain_output (num_tokens_scheduled out) r = Inr (stale, r1)"
    using assms Some by (auto simp: process_share_def res_simps)
  have "st' = st \<or> st' = snd (verify_drafts P out stale r1 st)"
    using assms Some d
    by (cases "verify_drafts P out stale r1 st") (auto simp: process_share_def res_simps split: if_splits)
  then show ?thesis by blast
qed (use assms in \<open>auto simp: process_share_def res_simps\<close>)

lemma process_share_ok:
  fixes ro :: "'h sched_request option"
  assumes "process_share X P out ro st = Inr (ro', st')" "stats_ok P st" "has_controller P" "within_draft P out"
  shows "stats_ok P st'"
proof -
  have "stats_ok P (snd (verify_drafts P out stale r st))" for stale :: bool and r :: "'h sched_request"
    using assms(2-4) by (auto simp: verify_drafts_def Let_def within_draft_def intro!: count_sample_ok)
  then show ?thesis using process_share_stats[OF assms(1)] assms(2) by blast
qed

lemma process_shares_ok:
  assumes "process_shares X P outs rs st = Inr (rs', st')" "stats_ok P st" "has_controller P"
    and "\<forall>(q, out) \<in> set outs. within_draft P out"
  shows "stats_ok P st'"
  using assms
proof (induction outs arbitrary: rs st)
  case (Cons x rest)
  obtain q out where x: "x = (q, out)" by (cases x)
  obtain ro st1 where s: "process_share X P out (rs q) st = Inr (ro, st1)" "process_shares X P rest (rs(q := ro)) st1 = Inr (rs', st')"
    using Cons.prems(1) by (auto simp: x res_simps)
  have "stats_ok P st1" using process_share_ok[OF s(1) Cons.prems(2,3)] Cons.prems(4) by (simp add: x)
  then show ?case using Cons.IH[OF s(2)] Cons.prems(3,4) by simp
qed simp

text \<open>
  The outputs whose drafts are verified: of a known request that has not ended, whose output is not stale, was not
  lost to a failed load, and comes with drafts and sampled tokens. Each counts its drafts, and as accepted the tokens
  beyond the sampled ones.
\<close>

definition counts_drafts ::
  "('x, 'q, 'h) sched_ext \<Rightarrow> sched_params \<Rightarrow> output_share \<Rightarrow> 'h sched_request \<Rightarrow> bool" where
  "counts_drafts X P out r \<longleftrightarrow> num_stale_output_tokens r \<le> 0 \<and> \<not> kv_load_failed out \<and> \<not> status_is_finished X (status r)
     \<and> in_runner_batch out \<and> scheduled_spec_token_ids out \<noteq> [] \<and> (generated_token_ids out \<noteq> [] \<or> num_sampled_tokens_per_step P = 0)"

definition share_sample :: "sched_params \<Rightarrow> output_share \<Rightarrow> 'h sched_request \<Rightarrow> int \<times> int \<times> int \<times> int" where
  "share_sample P out r =
     (let accepted = max 0 (int (length (generated_token_ids out)) - num_sampled_tokens_per_step P)
      in (int (length (scheduled_spec_token_ids out)), accepted, num_computed_tokens r, num_sampled_tokens_per_step P + accepted))"

definition verified_samples ::
  "('x, 'q, 'h) sched_ext \<Rightarrow> sched_params \<Rightarrow> (string \<Rightarrow> 'h sched_request option) \<Rightarrow> (string \<times> output_share) list
   \<Rightarrow> (int \<times> int \<times> int \<times> int) list" where
  "verified_samples X P rs outs =
     concat (map (\<lambda>(q, out). case rs q of None \<Rightarrow> [] | Some r \<Rightarrow> if counts_drafts X P out r then [share_sample P out r] else []) outs)"

lemma process_share_samples:
  assumes "process_share X P out ro st = Inr (ro', st')"
  shows "mtp_samples st' = mtp_samples st
    @ (case ro of None \<Rightarrow> [] | Some r \<Rightarrow> if counts_drafts X P out r then [share_sample P out r] else [])"
proof (cases ro)
  case (Some r)
  obtain stale r1 where d: "drain_output (num_tokens_scheduled out) r = Inr (stale, r1)"
    using assms Some by (auto simp: process_share_def res_simps)
  have r1: "stale \<longleftrightarrow> 0 < num_stale_output_tokens r" "status r1 = status r" "num_computed_tokens r1 = num_computed_tokens r"
    using d by (auto simp: drain_output_def Let_def res_simps split: if_splits)
  have v: "mtp_samples (snd (verify_drafts P out stale r1 st)) = mtp_samples st
      @ (if \<not> stale \<and> scheduled_spec_token_ids out \<noteq> [] \<and> (generated_token_ids out \<noteq> [] \<or> num_sampled_tokens_per_step P = 0)
         then [share_sample P out r] else [])"
    by (simp add: verify_drafts_def count_sample_def Let_def share_sample_def r1(3) max.commute)
  have st': "st' = (if kv_load_failed out \<or> status_is_finished X (status r1) \<or> stale \<and> drop_stale_output r1 \<or> \<not> in_runner_batch out
      then st else snd (verify_drafts P out stale r1 st))"
    using assms Some d by (auto simp: process_share_def res_simps split: if_splits prod.splits)
  show ?thesis unfolding st' Some using v r1(1,2) by (auto simp: counts_drafts_def not_le)
qed (use assms in \<open>auto simp: process_share_def res_simps\<close>)

lemma process_shares_samples:
  "process_shares X P outs rs st = Inr (rs', st') \<Longrightarrow> distinct (map fst outs) \<Longrightarrow>
     mtp_samples st' = mtp_samples st @ verified_samples X P rs outs"
proof (induction outs arbitrary: rs st)
  case (Cons x rest)
  obtain q out where x: "x = (q, out)" by (cases x)
  obtain ro st1 where s: "process_share X P out (rs q) st = Inr (ro, st1)" "process_shares X P rest (rs(q := ro)) st1 = Inr (rs', st')"
    using Cons.prems(1) by (auto simp: x res_simps)
  have "verified_samples X P (rs(q := ro)) rest = verified_samples X P rs rest"
    unfolding verified_samples_def using Cons.prems(2) x by (intro arg_cong[where f = concat] map_cong refl) (auto simp: image_iff)
  then show ?case using Cons.IH[OF s(2)] Cons.prems(2) process_share_samples[OF s(1)] x by (simp add: verified_samples_def)
qed (simp add: verified_samples_def)

text \<open>
  C23. The controller is fed exact, valid counts. When the loop over a step's output succeeds, the samples are exactly
  those of the outputs whose drafts are verified: none that is stale, lost or of an ended request. The counts are
  their number, their drafted and accepted tokens, and for each position the number of them that drafted it and
  accepted all before it, and that accepted it; and the observation made with them does not raise.
\<close>

theorem scheduler_feed_is_valid:
  assumes "process_shares X P outs rs (step_stats_init (mtp_num_positions P)) = Inr (rs', st)" "distinct (map fst outs)"
    and "has_controller P" "\<forall>(q, out) \<in> set outs. within_draft P out"
    and "ctrl_inv c" "int (mtp_num_positions P) = max_num_spec_tokens c"
    and "small_counts (fst (observe_positions (Some (fst (adaptive_positions st))) (Some (snd (adaptive_positions st)))
           (count_batch c (adaptive_num_drafts st) (adaptive_num_draft_tokens st) (adaptive_num_accepted_tokens st))))"
  shows "mtp_samples st = verified_samples X P rs outs
    \<and> adaptive_num_drafts st = int (length (verified_samples X P rs outs))
    \<and> adaptive_num_draft_tokens st = sum_list (map fst (verified_samples X P rs outs))
    \<and> adaptive_num_accepted_tokens st = sum_list (map (fst \<circ> snd) (verified_samples X P rs outs))
    \<and> adaptive_positions st = (eligible_counts (mtp_num_positions P) (verified_samples X P rs outs),
         accepted_counts (mtp_num_positions P) (verified_samples X P rs outs))
    \<and> (\<exists>c' u. observe_step c st = (c', Inr u) \<and> ctrl_inv c')"
proof -
  have ok: "stats_ok P st" using process_shares_ok[OF assms(1) stats_init_ok assms(3,4)] .
  have acc: "0 \<le> adaptive_num_accepted_tokens st \<and> adaptive_num_accepted_tokens st \<le> adaptive_num_draft_tokens st"
  proof -
    have "0 \<le> sum_list (map (fst \<circ> snd) ss) \<and> sum_list (map (fst \<circ> snd) ss) \<le> sum_list (map fst ss)"
      if "\<forall>(d, a, _) \<in> set ss. 0 \<le> a \<and> a \<le> d" for ss :: "(int \<times> int \<times> int \<times> int) list"
      using that by (induction ss) auto
    then show ?thesis using ok by (simp add: stats_ok_def)
  qed
  have "\<exists>c' u. observe_step c st = (c', Inr u) \<and> ctrl_inv c'"
  proof (cases "mtp_samples st = []")
    case True
    then have "observe_step c st = (c, Inr None)" using ok by (simp add: observe_step_def stats_ok_def observe_batch_def)
    then show ?thesis using assms(5) by blast
  next
    case False
    then have d: "1 \<le> adaptive_num_drafts st" using ok by (cases "mtp_samples st") (simp_all add: stats_ok_def)
    obtain es as where p: "adaptive_positions st = (es, as)" by fastforce
    have v: "valid_positions c es as"
      using ok p assms(6) counts_valid[of "mtp_num_positions P" "mtp_samples st"]
      by (auto simp: valid_positions_def stats_ok_def eligible_counts_def)
    from observe_batch_effect[OF assms(5) d acc[THEN conjunct1] acc[THEN conjunct2] v refl] assms(7)
    have "\<exists>c' u. observe_step c st = (c', Inr u)" by (auto simp: observe_step_def p split: if_splits)
    moreover have "ctrl_inv (fst (observe_step c st))"
      using observe_batch_inv[OF assms(5)] by (simp add: observe_step_def)
    ultimately show ?thesis by auto
  qed
  moreover have "mtp_samples st = verified_samples X P rs outs"
    using process_shares_samples[OF assms(1,2)] by (simp add: step_stats_init_def)
  ultimately show ?thesis using ok by (simp add: stats_ok_def)
qed

definition demo_ext :: "(unit, nat sched_request list, nat) sched_ext" where
  "demo_ext = \<lparr> encoder_cache_free = (\<lambda>r x. x), prepend_request = (\<lambda>r q. r # q), status_is_finished = (\<lambda>s. s = FINISHED_ABORTED) \<rparr>"

definition demo_params :: sched_params where
  "demo_params = \<lparr> num_sampled_tokens_per_step = 1, has_controller = True, mtp_num_positions = 5 \<rparr>"

definition demo_share :: "nat \<Rightarrow> nat \<Rightarrow> output_share" where
  "demo_share draft generated = \<lparr> num_tokens_scheduled = int draft + 1, kv_load_failed = False, in_runner_batch = True,
     generated_token_ids = replicate generated 7, scheduled_spec_token_ids = replicate draft 3 \<rparr>"

definition demo_outs :: "(string \<times> output_share) list" where
  "demo_outs = [(''a'', demo_share 4 5), (''b'', demo_share 4 2)]"

definition demo_feed :: step_stats where
  "demo_feed = \<lparr> adaptive_num_drafts = 2, adaptive_num_draft_tokens = 8, adaptive_num_accepted_tokens = 5,
     adaptive_positions = ([2, 2, 1, 1, 0], [2, 1, 1, 1, 0]), mtp_samples = [(4, 4, 95, 5), (4, 1, 95, 2)] \<rparr>"

definition demo_requests :: "string \<Rightarrow> nat sched_request option" where
  "demo_requests q = (if q = ''a'' \<or> q = ''b'' then Some (demo_sched_request 5 0) else None)"

lemma demo_processed:
  "map_sum id snd (process_shares demo_ext demo_params demo_outs demo_requests (step_stats_init 5)) = Inr demo_feed"
  by code_simp

theorem scheduler_feed_is_valid_witness:
  "verified_samples demo_ext demo_params demo_requests demo_outs = [(4, 4, 95, 5), (4, 1, 95, 2)]
   \<and> (\<exists>c' u. observe_step (demo_ctrl 4 4) demo_feed = (c', Inr u) \<and> ctrl_inv c')"
proof -
  obtain rs' where p: "process_shares demo_ext demo_params demo_outs demo_requests (step_stats_init (mtp_num_positions demo_params)) = Inr (rs', demo_feed)"
    using demo_processed
    by (cases "process_shares demo_ext demo_params demo_outs demo_requests (step_stats_init 5)") (auto simp: demo_params_def)
  have w: "\<forall>(q, out) \<in> set demo_outs. within_draft demo_params out"
    by (simp add: demo_outs_def within_draft_def demo_share_def demo_params_def)
  have s: "small_counts (fst (observe_positions (Some (fst (adaptive_positions demo_feed))) (Some (snd (adaptive_positions demo_feed)))
      (count_batch (demo_ctrl 4 4) (adaptive_num_drafts demo_feed) (adaptive_num_draft_tokens demo_feed) (adaptive_num_accepted_tokens demo_feed))))"
    by (simp add: small_counts_def demo_ctrl_def demo_feed_def observe_positions_def count_batch_def)
  have "distinct (map fst demo_outs)" by (simp add: demo_outs_def)
  note t = scheduler_feed_is_valid[OF p this _ w demo_ctrl_inv[of 4 4] _ s]
  have "verified_samples demo_ext demo_params demo_requests demo_outs = mtp_samples demo_feed"
    by (rule t[THEN conjunct1, symmetric]) (simp_all add: demo_params_def demo_ctrl_def)
  moreover have "\<exists>c' u. observe_step (demo_ctrl 4 4) demo_feed = (c', Inr u) \<and> ctrl_inv c'"
    by (rule t[THEN conjunct2, THEN conjunct2, THEN conjunct2, THEN conjunct2, THEN conjunct2]) (simp_all add: demo_params_def demo_ctrl_def)
  ultimately show ?thesis by (simp add: demo_feed_def)
qed

section \<open>The depth of the next step\<close>

text \<open>
  The next step's depth is a rung of the ladder or an entry of the batch-size schedule, and never more than
  the controller's depth. With the controller's invariant, after any observations, and whatever the batch-size
  lookup holds, the depth the scheduler asks for is found, is at most the controller's, and is a
  rung unless the schedule asks for less.
\<close>

lemma scheduled_depth_bounds:
  assumes "ctrl_inv c" "\<forall>ls. lookup = Some ls \<longrightarrow> n < length ls"
  shows "\<exists>k. num_spec_tokens_to_schedule static_num (Some (observe_all c os)) lookup n = Inr k
    \<and> k \<le> num_spec_tokens (observe_all c os) \<and> k \<le> max_num_spec_tokens c
    \<and> (k \<in> set (depth_ladder c) \<or> (\<exists>ls. lookup = Some ls \<and> 0 < n \<and> k = ls ! n \<and> k < num_spec_tokens (observe_all c os)))"
proof -
  let ?c = "observe_all c os"
  have inv: "ctrl_inv c \<and> depth_ladder c = depth_ladder c" using assms(1) by simp
  have mem: "num_spec_tokens ?c \<in> set (depth_ladder c)"
    using ctrl.run_depth[OF inv, of os] by (simp add: observe_all_foldl)
  then have le: "num_spec_tokens ?c \<le> max_num_spec_tokens c" using assms(1) by (auto simp: ctrl_inv_def is_ladder_def)
  show ?thesis
  proof (cases lookup)
    case None
    then show ?thesis using mem le by (simp add: num_spec_tokens_to_schedule_def)
  next
    case (Some ls)
    then show ?thesis using mem le assms(2)
      by (cases "0 < n") (auto simp: num_spec_tokens_to_schedule_def py_get_def min_def Let_def)
  qed
qed

lemma scheduled_depth_bounds_witness:
  "\<exists>k. num_spec_tokens_to_schedule 5 (Some (observe_all (demo_ctrl 4 4) [])) (Some [5, 5, 3]) 2 = Inr k \<and> k = 3"
proof -
  have "num_spec_tokens_to_schedule 5 (Some (observe_all (demo_ctrl 4 4) [])) (Some [5, 5, 3]) 2 = Inr 3" by code_simp
  moreover have "\<exists>k. num_spec_tokens_to_schedule 5 (Some (observe_all (demo_ctrl 4 4) [])) (Some [5, 5, 3]) 2 = Inr k"
    using scheduled_depth_bounds[OF demo_ctrl_inv[of 4 4], of "Some [5, 5, 3]" 2 5 "[]"] by auto
  ultimately show ?thesis by simp
qed

section \<open>The instrumentation window\<close>

text \<open>
  One step as the instrumentation sees it: the clock at its start and at the end of the call, its samples, the
  controller's update and the depth in force.
\<close>

type_synonym mtp_step = "int \<times> int \<times> (int \<times> int \<times> int \<times> int) list \<times> update option \<times> int"

fun run_mtp :: "mtp_step list \<Rightarrow> mtp_state \<Rightarrow> mtp_record option res list \<times> mtp_state" where
  "run_mtp [] m = ([], m)"
| "run_mtp ((t, t', ss, upd, k) # rest) m =
     (let (x, m1) = record_mtp_instrumentation t t' ss upd k m; (xs, m2) = run_mtp rest m1 in (x # xs, m2))"

definition step_samples :: "mtp_step list \<Rightarrow> (int \<times> int \<times> int \<times> int) list" where
  "step_samples steps = concat (map (\<lambda>(t, t', ss, upd, k). ss) steps)"

definition contexts :: "(int \<times> int \<times> int \<times> int) list \<Rightarrow> int set" where
  "contexts ss = (\<lambda>(d, a, x, y). x) ` set ss"

text \<open>What a window holds of the samples it has seen.\<close>

definition holds_samples :: "nat \<Rightarrow> (int \<times> int \<times> int \<times> int) list \<Rightarrow> mtp_window \<Rightarrow> bool" where
  "holds_samples N ss w \<longleftrightarrow> win_draft_tokens w = sum_list (map fst ss) \<and> win_accepted_tokens w = sum_list (map (fst \<circ> snd) ss)
     \<and> win_output_tokens w = sum_list (map (\<lambda>(d, a, x, y). y) ss)
     \<and> win_positions w = (eligible_counts N ss, accepted_counts N ss)
     \<and> win_context w = (if ss = [] then None else Some (Min (contexts ss), Max (contexts ss)))"

lemma add_sample_holds:
  assumes "holds_samples N ss w" "0 \<le> fst (snd x)"
  shows "holds_samples N (ss @ [x]) (add_sample N x w)"
proof -
  obtain d a c y where x: "x = (d, a, c, y)" by (cases x)
  have ctx: "contexts (ss @ [x]) = insert c (contexts ss)" "finite (contexts ss)" "contexts ss = {} \<longleftrightarrow> ss = []"
    by (auto simp: contexts_def x)
  show ?thesis using assms count_positions_sample[of a N d ss c y] ctx
    by (cases "ss = []") (auto simp: holds_samples_def x min.commute max.commute)
qed

lemma fold_add_sample_holds:
  "holds_samples N ss w \<Longrightarrow> \<forall>x \<in> set xs. 0 \<le> fst (snd x) \<Longrightarrow> holds_samples N (ss @ xs) (fold (add_sample N) xs w)"
proof (induction xs arbitrary: ss w)
  case (Cons x xs)
  then show ?case using Cons.IH[OF add_sample_holds[OF Cons.prems(1), of x]] by simp
qed simp

lemma add_sample_rest:
  "win_steps (add_sample N x w) = win_steps w" "win_batches (add_sample N x w) = win_batches w"
  "win_started_ns (add_sample N x w) = win_started_ns w"
  by (cases x; simp)+

lemma fold_add_sample_rest:
  "win_steps (fold (add_sample N) xs w) = win_steps w" "win_batches (fold (add_sample N) xs w) = win_batches w"
  "win_started_ns (fold (add_sample N) xs w) = win_started_ns w"
  by (induction xs arbitrary: w) (simp_all add: add_sample_rest)

lemma holds_samples_cong:
  "holds_samples N ss w \<Longrightarrow> holds_samples N ss (w\<lparr> win_steps := a, win_active_k_first := b, win_selected_k := c \<rparr>)"
  "holds_samples N ss w \<Longrightarrow> holds_samples N ss (w\<lparr> win_started_ns := i, win_batches := n \<rparr>)"
  by (simp_all add: holds_samples_def)

text \<open>The state of the window after some steps since its reset.\<close>

definition window_inv :: "nat \<Rightarrow> mtp_step list \<Rightarrow> mtp_window \<Rightarrow> bool" where
  "window_inv N steps w \<longleftrightarrow> win_steps w = int (length steps) \<and> win_batches w = int (length (step_samples steps))
     \<and> holds_samples N (step_samples steps) w \<and> (win_started_ns w = 0 \<or> win_started_ns w \<in> fst ` set steps)"

lemma window_inv_reset: "window_inv N [] (reset_mtp_window N)"
  by (simp add: window_inv_def reset_mtp_window_def step_samples_def holds_samples_def eligible_counts_def
      accepted_counts_def map_replicate_const)

lemma accumulate_inv:
  assumes "window_inv N steps w" "\<forall>x \<in> set ss. 0 \<le> fst (snd x)"
  shows "window_inv N (steps @ [(t, t', ss, upd, k)]) (accumulate_step N t ss k w)"
proof (cases "ss = []")
  case True
  then show ?thesis using assms(1)
    by (auto simp: window_inv_def accumulate_step_def Let_def step_samples_def intro: holds_samples_cong)
next
  case False
  define w1 where "w1 = w\<lparr> win_steps := win_steps w + 1,
      win_active_k_first := (case win_active_k_first w of None \<Rightarrow> Some k | Some k \<Rightarrow> Some k), win_selected_k := bump k (win_selected_k w) \<rparr>"
  define w2 where "w2 = w1\<lparr> win_started_ns := (if win_started_ns w1 = 0 then t else win_started_ns w1),
      win_batches := win_batches w1 + int (length ss) \<rparr>"
  have a: "accumulate_step N t ss k w = fold (add_sample N) ss w2"
    using False by (simp add: accumulate_step_def Let_def w1_def w2_def)
  have "holds_samples N (step_samples steps) w2"
    using assms(1) by (simp add: w2_def w1_def window_inv_def holds_samples_def)
  from fold_add_sample_holds[OF this assms(2)] show ?thesis
    using assms(1) by (auto simp: window_inv_def a fold_add_sample_rest w1_def w2_def step_samples_def)
qed

text \<open>A full window can always be reported: its quotients are finite.\<close>

lemma rate_small: "0 \<le> a \<Longrightarrow> a \<le> 2 ^ 1000 \<Longrightarrow> 0 \<le> b \<Longrightarrow> \<exists>r. rate a b = Inr r"
  using truediv_small[of a b] by (cases "b = 0") (auto simp: rate_def)

lemma elapsed_ms_small:
  assumes "win_started_ns w = 0 \<or> 0 \<le> t - win_started_ns w \<and> t - win_started_ns w \<le> 2 ^ 1000"
  shows "\<exists>r. elapsed_ms t w = Inr r"
proof (cases "win_started_ns w = 0")
  case False
  then have "(of_int (t - win_started_ns w) :: rat) \<le> of_int (2 ^ 1000)" using assms by (simp only: of_int_le_iff) simp
  then have "to_float (of_int (t - win_started_ns w)) = Some (round64 (of_int (t - win_started_ns w)))"
    by (intro to_float_small) (simp add: pow2_def)
  then show ?thesis using False by (simp add: elapsed_ms_def)
qed (simp add: elapsed_ms_def)

lemma counts_bounds:
  assumes "p < N"
  shows "0 \<le> accepted_counts N ss ! p \<and> accepted_counts N ss ! p \<le> eligible_counts N ss ! p
    \<and> eligible_counts N ss ! p \<le> int (length ss)"
  using counts_valid[of N ss] assms length_filter_le
  by (auto simp: list_all2_conv_all_nth eligible_counts_def accepted_counts_def)

lemma window_record_ok:
  assumes "window_inv (mtp_positions m) steps (mtp_window m)" "int (length (step_samples steps)) \<le> 2 ^ 999"
    and "\<forall>(d, a, _) \<in> set (step_samples steps). 0 \<le> a \<and> a \<le> d" "sum_list (map fst (step_samples steps)) \<le> 2 ^ 1000"
    and "\<forall>(t0, _) \<in> set steps. t0 \<le> t \<and> t - t0 \<le> 2 ^ 1000"
  shows "\<exists>rec. window_record m t k upd = Inr rec"
proof -
  let ?w = "mtp_window m" and ?ss = "step_samples steps" and ?N = "mtp_positions m"
  let ?e = "eligible_counts ?N ?ss" and ?a = "accepted_counts ?N ?ss"
  have w: "win_batches ?w = int (length ?ss)" "win_draft_tokens ?w = sum_list (map fst ?ss)"
    "win_accepted_tokens ?w = sum_list (map (fst \<circ> snd) ?ss)" "win_positions ?w = (?e, ?a)"
    "win_started_ns ?w = 0 \<or> win_started_ns ?w \<in> fst ` set steps"
    using assms(1) by (auto simp: window_inv_def holds_samples_def)
  have acc: "0 \<le> sum_list (map (fst \<circ> snd) ss) \<and> sum_list (map (fst \<circ> snd) ss) \<le> sum_list (map fst ss)"
    if "\<forall>(d, a, _) \<in> set ss. 0 \<le> a \<and> a \<le> d" for ss :: "(int \<times> int \<times> int \<times> int) list"
    using that by (induction ss) auto
  note A = acc[OF assms(3)]
  have q1: "\<exists>r. rate (win_accepted_tokens ?w) (win_draft_tokens ?w) = Inr r"
    and q2: "\<exists>r. rate (win_draft_tokens ?w) (win_batches ?w) = Inr r"
    and q3: "\<exists>r. rate (win_accepted_tokens ?w) (win_batches ?w) = Inr r"
    unfolding w using A assms(4) by (auto intro!: rate_small)
  have small: "0 \<le> ?a ! p \<and> ?a ! p \<le> ?e ! p \<and> ?e ! p \<le> 2 ^ 999" if "p < ?N" for p
    using counts_bounds[OF that, of ?ss] assms(2) by linarith
  have two: "(2 :: int) ^ 999 + 2 ^ 999 = 2 ^ 1000" by simp
  have len: "length ?e = ?N" "length ?a = ?N" by (simp_all add: eligible_counts_def accepted_counts_def)
  have pos: "\<exists>r. rate a e = Inr r" if "(a, e) \<in> set (zip ?a ?e)" for a e
  proof -
    obtain p where "p < ?N" "a = ?a ! p" "e = ?e ! p" using \<open>(a, e) \<in> _\<close> len by (auto simp: in_set_zip)
    then show ?thesis using small[of p] two by (intro rate_small) linarith+
  qed
  then obtain g where "\<And>x. x \<in> set (zip ?a ?e) \<Longrightarrow> (case x of (a, e) \<Rightarrow> rate a e) = Inr (g x)"
    by (metis (no_types, lifting) case_prodE old.prod.case surj_pair)
  then have q4: "\<exists>r. map_res (\<lambda>(a, e). rate a e) (zip ?a ?e) = Inr r" by (blast intro: map_res_all_Inr)
  have "\<exists>r. rate a (int (length ?ss)) = Inr r" if "a \<in> set ?a" for a
  proof -
    obtain p where "p < ?N" "a = ?a ! p" using \<open>a \<in> set ?a\<close> len by (auto simp: in_set_conv_nth)
    then show ?thesis using small[of p] two by (intro rate_small) linarith+
  qed
  then obtain h where "\<And>a. a \<in> set ?a \<Longrightarrow> rate a (int (length ?ss)) = Inr (h a)" by metis
  then have q5: "\<exists>r. map_res (\<lambda>a. rate a (int (length ?ss))) ?a = Inr r" by (blast intro: map_res_all_Inr)
  have q6: "\<exists>r. (if int (length ?ss) \<noteq> 0 \<and> 4 \<le> ?N then truediv (?a ! 2 + ?a ! 3) (int (length ?ss)) else Inr (Some 0)) = Inr r"
  proof (cases "int (length ?ss) \<noteq> 0 \<and> 4 \<le> ?N")
    case True
    then show ?thesis using small[of 2] small[of 3] two truediv_small[of "?a ! 2 + ?a ! 3" "int (length ?ss)"] by auto
  qed auto
  have q7: "\<exists>r. (if int (length ?ss) \<noteq> 0 \<and> 5 \<le> ?N then truediv (?a ! 4) (int (length ?ss)) else Inr (Some 0)) = Inr r"
  proof (cases "int (length ?ss) \<noteq> 0 \<and> 5 \<le> ?N")
    case True
    then show ?thesis using small[of 4] two truediv_small[of "?a ! 4" "int (length ?ss)"] by auto
  qed auto
  have q8: "\<exists>r. elapsed_ms t ?w = Inr r" using w(5) assms(5) by (intro elapsed_ms_small) fastforce
  obtain r1 r2 r3 r4 r5 r6 r7 r8 where "rate (win_accepted_tokens ?w) (win_draft_tokens ?w) = Inr r1"
    "rate (win_draft_tokens ?w) (int (length ?ss)) = Inr r2" "rate (win_accepted_tokens ?w) (int (length ?ss)) = Inr r3"
    "map_res (\<lambda>(a, e). rate a e) (zip ?a ?e) = Inr r4" "map_res (\<lambda>a. rate a (int (length ?ss))) ?a = Inr r5"
    "(if int (length ?ss) \<noteq> 0 \<and> 4 \<le> ?N then truediv (?a ! 2 + ?a ! 3) (int (length ?ss)) else Inr (Some 0)) = Inr r6"
    "(if int (length ?ss) \<noteq> 0 \<and> 5 \<le> ?N then truediv (?a ! 4) (int (length ?ss)) else Inr (Some 0)) = Inr r7"
    "elapsed_ms t ?w = Inr r8"
    using q1 q2 q3 q4 q5 q6 q7 q8 w(1) by metis
  then show ?thesis unfolding window_record_def Let_def w(4) w(1) prod.case
    by (simp only: res_bind_simps) blast
qed

lemma window_record_fields:
  assumes "window_record m t k upd = Inr rec" "window_inv (mtp_positions m) steps (mtp_window m)"
  shows "rec_verification_steps rec = int (length steps) \<and> rec_draft_batches rec = int (length (step_samples steps))
    \<and> rec_drafts_attempted rec = sum_list (map fst (step_samples steps))
    \<and> rec_drafts_accepted rec = sum_list (map (fst \<circ> snd) (step_samples steps))
    \<and> rec_output_tokens_emitted rec = sum_list (map (\<lambda>(d, a, x, y). y) (step_samples steps))
    \<and> rec_position_eligible rec = eligible_counts (mtp_positions m) (step_samples steps)
    \<and> rec_position_accepted rec = accepted_counts (mtp_positions m) (step_samples steps)
    \<and> rec_context_tokens rec = (if step_samples steps = [] then None
        else Some (Min (contexts (step_samples steps)), Max (contexts (step_samples steps))))
    \<and> rec_window_index rec = mtp_window_index m \<and> rec_active_k rec = k"
  using assms(1) assms(2)[unfolded window_inv_def holds_samples_def]
  unfolding window_record_def by (auto simp: Let_def res_simps)

lemma record_step:
  assumes "mtp_enabled m" "window_inv (mtp_positions m) steps (mtp_window m)" "\<forall>x \<in> set ss. 0 \<le> fst (snd x)"
    and "m1 = m\<lparr> mtp_window := accumulate_step (mtp_positions m) t ss k (mtp_window m), mtp_selected_k_run := bump k (mtp_selected_k_run m) \<rparr>"
  shows "window_inv (mtp_positions m1) (steps @ [(t, t', ss, upd, k)]) (mtp_window m1)
    \<and> (int (length steps) + 1 < mtp_window_size m \<longrightarrow> record_mtp_instrumentation t t' ss upd k m = (Inr None, m1))
    \<and> (\<not> int (length steps) + 1 < mtp_window_size m \<longrightarrow> (\<forall>rec. window_record m1 t' k upd = Inr rec \<longrightarrow>
          record_mtp_instrumentation t t' ss upd k m = (Inr (Some rec), m1\<lparr> mtp_window_index := mtp_window_index m + 1,
            mtp_window := reset_mtp_window (mtp_positions m) \<rparr>)))"
proof -
  have w: "window_inv (mtp_positions m1) (steps @ [(t, t', ss, upd, k)]) (mtp_window m1)"
    using accumulate_inv[OF assms(2,3), of t t' upd k] by (simp add: assms(4))
  then have "win_steps (mtp_window m1) = int (length steps) + 1" by (simp add: window_inv_def)
  then show ?thesis using w assms(1,4) by (auto simp: record_mtp_instrumentation_def Let_def)
qed

definition good_step :: "int \<Rightarrow> mtp_step \<Rightarrow> bool" where
  "good_step t_end s = (case s of (t, t', ss, upd, k) \<Rightarrow> t \<le> t' \<and> t' \<le> t_end \<and> t_end - t \<le> 2 ^ 64
     \<and> (\<forall>(d, a, _) \<in> set ss. 0 \<le> a \<and> a \<le> d))"

text \<open>Inside a window nothing is reported and the samples add up.\<close>

lemma run_inside_window:
  assumes "mtp_enabled m" "window_inv (mtp_positions m) past (mtp_window m)" "\<forall>s \<in> set steps. good_step t_end s"
    and "int (length past + length steps) < mtp_window_size m"
  shows "\<exists>m'. run_mtp steps m = (replicate (length steps) (Inr None), m') \<and> window_inv (mtp_positions m) (past @ steps) (mtp_window m')
    \<and> mtp_enabled m' \<and> mtp_positions m' = mtp_positions m \<and> mtp_window_size m' = mtp_window_size m
    \<and> mtp_window_index m' = mtp_window_index m"
  using assms
proof (induction steps arbitrary: past m)
  case (Cons s steps)
  obtain t t' ss upd k where s: "s = (t, t', ss, upd, k)" by (cases s)
  define m1 where "m1 = m\<lparr> mtp_window := accumulate_step (mtp_positions m) t ss k (mtp_window m), mtp_selected_k_run := bump k (mtp_selected_k_run m) \<rparr>"
  have "\<forall>x \<in> set ss. 0 \<le> fst (snd x)" using Cons.prems(3) by (auto simp: s good_step_def)
  note r = record_step[OF Cons.prems(1,2) this m1_def, of t' upd]
  have m1: "mtp_enabled m1" "mtp_positions m1 = mtp_positions m" "mtp_window_size m1 = mtp_window_size m" "mtp_window_index m1 = mtp_window_index m"
    using Cons.prems(1) by (simp_all add: m1_def)
  obtain m' where "run_mtp steps m1 = (replicate (length steps) (Inr None), m')"
    "window_inv (mtp_positions m1) ((past @ [s]) @ steps) (mtp_window m')" "mtp_enabled m'" "mtp_positions m' = mtp_positions m1"
    "mtp_window_size m' = mtp_window_size m1" "mtp_window_index m' = mtp_window_index m1"
    using Cons.IH[of m1 "past @ [s]"] r m1 Cons.prems(3,4) by (auto simp: s)
  then show ?case using r m1 Cons.prems(4) by (simp add: s)
qed (auto)

text \<open>
  A window record summarises exactly its steps. From a fresh window, the first steps of a window report nothing; the
  last one reports a record, without an exception, whose counts are the totals over all samples of the window,
  whose per-position counts are those fed to the controller, and whose context range is that of the samples;
  then a new window with the next index begins.
\<close>

lemma window_record_is_exact:
  assumes "mtp_enabled m" "mtp_window m = reset_mtp_window (mtp_positions m)"
    and "int (length steps) + 1 = mtp_window_size m" "good_step t' (t, t', ss, upd, k)" "\<forall>s \<in> set steps. good_step t' s"
    and "all = step_samples (steps @ [(t, t', ss, upd, k)])"
    and "int (length all) \<le> 2 ^ 999" "sum_list (map fst all) \<le> 2 ^ 1000"
  shows "\<exists>rec m'. run_mtp (steps @ [(t, t', ss, upd, k)]) m = (replicate (length steps) (Inr None) @ [Inr (Some rec)], m')
    \<and> mtp_window m' = reset_mtp_window (mtp_positions m) \<and> mtp_window_index m' = mtp_window_index m + 1
    \<and> rec_verification_steps rec = mtp_window_size m \<and> rec_draft_batches rec = int (length all)
    \<and> rec_drafts_attempted rec = sum_list (map fst all) \<and> rec_drafts_accepted rec = sum_list (map (fst \<circ> snd) all)
    \<and> rec_output_tokens_emitted rec = sum_list (map (\<lambda>(d, a, x, y). y) all)
    \<and> rec_position_eligible rec = eligible_counts (mtp_positions m) all
    \<and> rec_position_accepted rec = accepted_counts (mtp_positions m) all
    \<and> rec_context_tokens rec = (if all = [] then None else Some (Min (contexts all), Max (contexts all)))"
proof -
  let ?last = "(t, t', ss, upd, k)"
  have w0: "window_inv (mtp_positions m) [] (mtp_window m)" using assms(2) window_inv_reset by simp
  obtain m1 where r1: "run_mtp steps m = (replicate (length steps) (Inr None), m1)" "window_inv (mtp_positions m) steps (mtp_window m1)"
    "mtp_enabled m1" "mtp_positions m1 = mtp_positions m" "mtp_window_size m1 = mtp_window_size m" "mtp_window_index m1 = mtp_window_index m"
    using run_inside_window[OF assms(1) w0 assms(5)] assms(3) by auto
  have app: "run_mtp (xs @ ys) m = (fst (run_mtp xs m) @ fst (run_mtp ys (snd (run_mtp xs m))), snd (run_mtp ys (snd (run_mtp xs m))))" for xs ys m
    by (induction xs arbitrary: m) (auto simp: case_prod_beta Let_def)
  define m2 where "m2 = m1\<lparr> mtp_window := accumulate_step (mtp_positions m1) t ss k (mtp_window m1), mtp_selected_k_run := bump k (mtp_selected_k_run m1) \<rparr>"
  have "\<forall>x \<in> set ss. 0 \<le> fst (snd x)" using assms(4) by (auto simp: good_step_def)
  note r2 = record_step[OF r1(3) r1(2)[folded r1(4)] this m2_def, of t' upd]
  have w2: "window_inv (mtp_positions m2) (steps @ [?last]) (mtp_window m2)" using r2 by blast
  have good: "\<forall>s \<in> set (steps @ [?last]). good_step t' s" using assms(4,5) by simp
  have p64: "(2 :: int) ^ 64 \<le> 2 ^ 1000" by simp
  have v: "\<forall>(d, a, _) \<in> set all. 0 \<le> a \<and> a \<le> d" using good unfolding assms(6) step_samples_def good_step_def by fastforce
  have tm: "\<forall>(t0, _) \<in> set (steps @ [?last]). t0 \<le> t' \<and> t' - t0 \<le> 2 ^ 1000"
    using good p64 unfolding good_step_def by fastforce
  obtain rec where rec: "window_record m2 t' k upd = Inr rec"
    using window_record_ok[OF w2 _ _ _ tm] assms(7,8) v unfolding assms(6) by blast
  have "record_mtp_instrumentation t t' ss upd k m1 = (Inr (Some rec), m2\<lparr> mtp_window_index := mtp_window_index m1 + 1,
      mtp_window := reset_mtp_window (mtp_positions m1) \<rparr>)"
    using r2 rec assms(3) r1(5) by simp
  then have "run_mtp (steps @ [?last]) m = (replicate (length steps) (Inr None) @ [Inr (Some rec)],
      m2\<lparr> mtp_window_index := mtp_window_index m1 + 1, mtp_window := reset_mtp_window (mtp_positions m1) \<rparr>)"
    using r1(1) by (simp add: app)
  moreover have "mtp_positions m2 = mtp_positions m" using r1(4) by (simp add: m2_def)
  ultimately show ?thesis using window_record_fields[OF rec w2] r1 assms(3) unfolding assms(6) by (intro exI conjI) auto
qed

definition demo_mtp :: mtp_state where
  "demo_mtp = \<lparr> mtp_enabled = True, mtp_window_size = 2, mtp_positions = 5, mtp_configured_k = 5, mtp_ladder = [2, 4, 5],
     mtp_adaptive = True, mtp_window_index = 0, mtp_selected_k_run = (\<lambda>_. None), mtp_window = reset_mtp_window 5 \<rparr>"

lemma window_record_is_exact_witness:
  "\<exists>rec m'. run_mtp [(10, 11, [(4, 4, 95, 5)], None, 4), (20, 21, [(4, 1, 80, 2)], None, 4)] demo_mtp = ([Inr None, Inr (Some rec)], m')
    \<and> rec_drafts_accepted rec = 5 \<and> rec_context_tokens rec = Some (80, 95)"
  using window_record_is_exact[of demo_mtp "[(10, 11, [(4, 4, 95, 5)], None, 4)]" 21 20 "[(4, 1, 80, 2)]" None 4 "[(4, 4, 95, 5), (4, 1, 80, 2)]"]
  by (fastforce simp: demo_mtp_def good_step_def step_samples_def contexts_def)

end
