(* ===== verification/Sched_Encoder.thy ===== *)
theory Sched_Encoder
  imports Sched_Accept
begin

text \<open>
  Which encoder inputs a step must run for a request, and how many tokens it may then compute
  (\<^verbatim>\<open>_try_schedule_encoder_inputs\<close>), and when an input may be freed (\<^verbatim>\<open>_free_encoder_inputs\<close>) in
  \<^verbatim>\<open>v1/core/sched/scheduler.py\<close>. The encoder cache, the search for the items in a window of positions
  and the connector belong to other modules and are arguments, with the cache's state \<open>'x\<close>.
\<close>

record ('x, 'h) encoder_ext =
  get_mm_features_in_window :: "mm_feature list \<Rightarrow> int \<Rightarrow> int \<Rightarrow> nat \<times> nat"
  check_and_update_cache :: "'h sched_request \<Rightarrow> nat \<Rightarrow> 'x \<Rightarrow> bool \<times> 'x"
  can_allocate :: "'h sched_request \<Rightarrow> nat \<Rightarrow> int \<Rightarrow> int \<Rightarrow> 'x \<Rightarrow> bool \<times> 'x"
  encoder_allocate :: "'h sched_request \<Rightarrow> nat \<Rightarrow> 'x \<Rightarrow> 'x"
  get_cached_input_ids :: "'h sched_request \<Rightarrow> 'x \<Rightarrow> nat list"
  free_encoder_input :: "'h sched_request \<Rightarrow> nat \<Rightarrow> 'x \<Rightarrow> 'x"
  ec_has_cache_item :: "(string \<Rightarrow> bool) option"
  ec_update_state_after_alloc :: "'h sched_request \<Rightarrow> nat \<Rightarrow> 'x \<Rightarrow> 'x"

record encoder_config =
  is_encoder_decoder :: bool
  disable_chunked_mm_input :: bool
  ec_use_eagle :: bool

text \<open>The local variables of the loop.\<close>

record 'x encoder_acc =
  encoder_inputs_to_schedule :: "nat list"
  external_load_encoder_input :: "nat list"
  mm_hashes_to_schedule :: "string set"
  num_embeds_to_schedule :: int
  acc_num_new_tokens :: int
  acc_budget :: int
  acc_cache :: 'x

text \<open>Tokens up to just before an item, or none when the request already is past its start.\<close>

definition tokens_before :: "int \<Rightarrow> int \<Rightarrow> mm_feature \<Rightarrow> int" where
  "tokens_before computed shift f =
     (if computed + shift < mm_offset f then mm_offset f - (computed + shift) else 0)"

definition embeds_now :: "int \<Rightarrow> int \<Rightarrow> mm_feature \<Rightarrow> int" where
  "embeds_now computed n f =
     (let (s, e) = embeds_in_range f (max 0 (computed - mm_offset f)) (min (mm_length f) (computed + n - mm_offset f))
      in e - s)"

definition take_item :: "('x, 'h) encoder_ext \<Rightarrow> nat \<Rightarrow> mm_feature \<Rightarrow> 'x encoder_acc \<Rightarrow> 'x encoder_acc" where
  "take_item E i f a =
     (let b = a\<lparr> mm_hashes_to_schedule := insert (mm_identifier f) (mm_hashes_to_schedule a),
                num_embeds_to_schedule := num_embeds_to_schedule a + num_embeds f \<rparr>
      in if (case ec_has_cache_item E of None \<Rightarrow> False | Some has \<Rightarrow> has (mm_identifier f))
         then b\<lparr> external_load_encoder_input := external_load_encoder_input b @ [i] \<rparr>
         else b\<lparr> acc_budget := acc_budget b - num_embeds f,
                 encoder_inputs_to_schedule := encoder_inputs_to_schedule b @ [i] \<rparr>)"

text \<open>
  One item: whether the loop goes on, and the variables after it. \<^verbatim>\<open>continue\<close> is \<open>True\<close>, \<^verbatim>\<open>break\<close> is \<open>False\<close>.
\<close>

definition encoder_item ::
  "('x, 'h) encoder_ext \<Rightarrow> encoder_config \<Rightarrow> 'h sched_request \<Rightarrow> int \<Rightarrow> int \<Rightarrow> nat \<Rightarrow> mm_feature \<Rightarrow> 'x encoder_acc
   \<Rightarrow> (bool \<times> 'x encoder_acc) res" where
  "encoder_item E C r computed shift i f a =
     (if is_encoder_decoder C \<and> 0 < computed
      then res_bind (require (mm_offset f = 0) AssertionError) (\<lambda>_. Inr (True, a))
      else if \<not> is_encoder_decoder C \<and> mm_identifier f \<in> mm_hashes_to_schedule a then Inr (True, a)
      else
        let (cached, x1) = (if is_encoder_decoder C then (False, acc_cache a) else check_and_update_cache E r i (acc_cache a));
            a1 = a\<lparr> acc_cache := x1 \<rparr>
        in if cached then Inr (True, a1)
           else if disable_chunked_mm_input C \<and> computed < mm_offset f
               \<and> computed + acc_num_new_tokens a1 < mm_offset f + mm_length f
           then Inr (False, a1\<lparr> acc_num_new_tokens := max 0 (mm_offset f - (computed + shift)) \<rparr>)
           else
             let (ok, x2) = can_allocate E r i (acc_budget a1) (num_embeds_to_schedule a1) (acc_cache a1);
                 a2 = a1\<lparr> acc_cache := x2 \<rparr>
             in if \<not> ok then Inr (False, a2\<lparr> acc_num_new_tokens := tokens_before computed shift f \<rparr>)
                else if embeds_now computed (acc_num_new_tokens a2) f = 0 then Inr (True, a2)
                else Inr (True, take_item E i f a2))"

fun encoder_loop ::
  "('x, 'h) encoder_ext \<Rightarrow> encoder_config \<Rightarrow> 'h sched_request \<Rightarrow> int \<Rightarrow> int \<Rightarrow> nat list \<Rightarrow> 'x encoder_acc
   \<Rightarrow> 'x encoder_acc res" where
  "encoder_loop E C r computed shift [] a = Inr a"
| "encoder_loop E C r computed shift (i # is) a =
     (case py_get (mm_features r) i of
        Inl e \<Rightarrow> Inl e
      | Inr f \<Rightarrow>
          (case encoder_item E C r computed shift i f a of
             Inl e \<Rightarrow> Inl e
           | Inr (go_on, a') \<Rightarrow> if go_on then encoder_loop E C r computed shift is a' else Inr a'))"

definition encoder_start :: "int \<Rightarrow> int \<Rightarrow> 'x \<Rightarrow> 'x encoder_acc" where
  "encoder_start n budget x = \<lparr> encoder_inputs_to_schedule = [], external_load_encoder_input = [],
     mm_hashes_to_schedule = {}, num_embeds_to_schedule = 0, acc_num_new_tokens = n, acc_budget = budget, acc_cache = x \<rparr>"

text \<open>The result holds the inputs to run, the inputs to load, the number of tokens, the budget and the cache.\<close>

definition try_schedule_encoder_inputs ::
  "('x, 'h) encoder_ext \<Rightarrow> encoder_config \<Rightarrow> 'h sched_request \<Rightarrow> int \<Rightarrow> int \<Rightarrow> int \<Rightarrow> int \<Rightarrow> 'x \<Rightarrow> 'x encoder_acc res" where
  "try_schedule_encoder_inputs E C r computed n budget shift x =
     (if n = 0 \<or> \<not> has_encoder_inputs r then Inr (encoder_start n budget x)
      else res_bind (require (0 < length (mm_features r)) AssertionError) (\<lambda>_.
        let (lo, hi) = get_mm_features_in_window E (mm_features r) computed (computed + n + shift);
            lo' = (if is_encoder_decoder C then 0 else lo)
        in encoder_loop E C r computed shift [lo'..<hi] (encoder_start n budget x)))"

section \<open>Freeing\<close>

definition may_free_input :: "encoder_config \<Rightarrow> 'h sched_request \<Rightarrow> mm_feature \<Rightarrow> bool" where
  "may_free_input C r f =
     (if is_encoder_decoder C \<and> 0 < num_computed_tokens r then True
      else mm_offset f + mm_length f + (if ec_use_eagle C then 1 else 0)
             \<le> num_computed_tokens r - num_output_placeholders r)"

fun free_inputs_loop ::
  "('x, 'h) encoder_ext \<Rightarrow> encoder_config \<Rightarrow> 'h sched_request \<Rightarrow> nat list \<Rightarrow> 'x \<Rightarrow> 'x res" where
  "free_inputs_loop E C r [] x = Inr x"
| "free_inputs_loop E C r (i # is) x =
     (case py_get (mm_features r) i of
        Inl e \<Rightarrow> Inl e
      | Inr f \<Rightarrow> free_inputs_loop E C r is (if may_free_input C r f then free_encoder_input E r i x else x))"

definition free_encoder_inputs ::
  "('x, 'h) encoder_ext \<Rightarrow> encoder_config \<Rightarrow> 'h sched_request \<Rightarrow> 'x \<Rightarrow> 'x res" where
  "free_encoder_inputs E C r x =
     (if get_cached_input_ids E r x = [] then Inr x
      else free_inputs_loop E C r (get_cached_input_ids E r x) x)"

end
