(* ===== verification/Sched_Running.thy ===== *)
theory Sched_Running
  imports Sched_Encoder
begin

text \<open>
  The first half of \<^verbatim>\<open>schedule()\<close> in \<^verbatim>\<open>v1/core/sched/scheduler.py\<close>: the budgets of a step and the loop over
  the running requests, with the preemption of others when the KV cache is full. Requests are objects shared
  between the queues; here the queues hold their ids and \<open>requests\<close> is the store.
\<close>

section \<open>State of the step\<close>

datatype scheduling_policy = FCFS | PRIORITY

text \<open>
  What does not change. The limit on tokens per step is \<open>max_num_scheduled_tokens\<close> of the split configuration,
  the threshold of long prefills a field of the gate.
\<close>

record running_config =
  sched_policy :: scheduling_policy
  max_model_len :: int
  run_sampled_tokens_per_step :: int
  run_num_lookahead_tokens :: int
  requires_kv_delivery :: bool
  decode_prefill_token_budget :: int
  idle_prefill_token_budget :: int
  max_num_encoder_input_tokens :: int
  split_when_aligned :: "split_config option"
  encoder_cfg :: encoder_config

text \<open>Code of other modules: the request's embedding count of an item and the requests in the waiting queue.\<close>

record ('q, 'h) running_ext =
  get_num_encoder_embeds :: "'h sched_request \<Rightarrow> nat \<Rightarrow> int"
  queued_requests :: "'q \<Rightarrow> request list"

record ('c, 'x, 'q, 'h) run_state =
  sched :: "('c, 'x, 'q, 'h) sched_state"
  gate :: scheduler
  running_ids :: "string list"
  req_index :: int
  scheduled_running_reqs :: "string list"
  preempted_reqs :: "string list"
  req_to_new_blocks :: "string \<Rightarrow> 'h kv_cache_blocks option"
  num_scheduled_tokens :: "string \<Rightarrow> int option"
  token_budget :: int
  encoder_compute_budget :: int
  scheduled_encoder_inputs :: "string \<Rightarrow> nat list option"
  scheduled_spec_decode_tokens :: "string \<Rightarrow> int list option"
  prefill_scheduled :: bool
  prefill_tokens_scheduled :: int
  gate_skipped_running :: int
  long_prefill_gate_skips :: int

record step_limits =
  defer_prefills :: bool
  prefill_token_budget :: int
  selected_long_prefill_ids :: "string set"

definition lookup_request :: "('c, 'x, 'q, 'h) sched_state \<Rightarrow> string \<Rightarrow> 'h sched_request res" where
  "lookup_request s q = (case requests s q of None \<Rightarrow> Inl KeyError | Some r \<Rightarrow> Inr r)"

text \<open>Python's \<^verbatim>\<open>xs[i]\<close> for any index.\<close>

definition py_index :: "'a list \<Rightarrow> int \<Rightarrow> 'a res" where
  "py_index xs i =
     (if 0 \<le> i then py_get xs (nat i)
      else if 0 \<le> i + int (length xs) then py_get xs (nat (i + int (length xs))) else Inl IndexError)"

section \<open>The start of a step\<close>

definition schedule_start ::
  "('c, 'h, 'e) coordinator \<Rightarrow> ('q, 'h) running_ext \<Rightarrow> running_config \<Rightarrow> int \<Rightarrow> bool \<Rightarrow> bool \<Rightarrow> scheduler \<Rightarrow> int
   \<Rightarrow> string list \<Rightarrow> ('c, 'x, 'q, 'h) sched_state \<Rightarrow> (step_limits \<times> ('c, 'x, 'q, 'h) run_state) res" where
  "schedule_start K R C max_tokens_per_step throttle_prefills prefill_capacity_bound g skips ids s =
     res_bind (map_res (lookup_request s) ids) (\<lambda>rs.
       let budget = (if paused_all g then 0 else max_tokens_per_step);
           has_active_decode = (\<exists>r \<in> set rs. \<not> is_prefill_chunk r);
           prefill_budget = (if enable_decode_aware_prefill g
             then min (if has_active_decode then decode_prefill_token_budget C else idle_prefill_token_budget C)
                    max_tokens_per_step
             else budget);
           g1 = g\<lparr> current_step := current_step g + 1, running := map (\<lambda>r. request.truncate r) rs,
                   waiting := queued_requests R (waiting_queue s) \<rparr>;
           (selected, g2) = select_long_prefill_request_ids g1
       in Inr (\<lparr> defer_prefills = throttle_prefills \<and> \<not> prefill_capacity_bound \<and> has_active_decode,
                 prefill_token_budget = prefill_budget, selected_long_prefill_ids = selected \<rparr>,
               \<lparr> sched = s\<lparr> kv_manager := new_step_starts K (kv_manager s) \<rparr>, gate = g2, running_ids = ids,
                 req_index = 0, scheduled_running_reqs = [], preempted_reqs = [], req_to_new_blocks = (\<lambda>_. None),
                 num_scheduled_tokens = (\<lambda>_. None), token_budget = budget,
                 encoder_compute_budget = max_num_encoder_input_tokens C,
                 scheduled_encoder_inputs = (\<lambda>_. None), scheduled_spec_decode_tokens = (\<lambda>_. None),
                 prefill_scheduled = False, prefill_tokens_scheduled = 0, gate_skipped_running = 0,
                 long_prefill_gate_skips = skips \<rparr>))"

section \<open>How many tokens a request gets\<close>

definition reached_max_tokens :: "'h sched_request \<Rightarrow> bool" where
  "reached_max_tokens r \<longleftrightarrow> 0 < num_output_placeholders r
     \<and> num_prompt_tokens r + max_tokens r \<le> num_computed_tokens r + 2 - num_output_placeholders r"

definition gated_prefill :: "scheduler \<Rightarrow> 'h sched_request \<Rightarrow> bool" where
  "gated_prefill g r \<longleftrightarrow> enable_decode_aware_prefill g \<and> is_prefill_chunk r"

text \<open>\<^verbatim>\<open>num_tokens_with_spec\<close>: the request's tokens with its drafts.\<close>

definition num_tokens_with_spec :: "'h sched_request \<Rightarrow> int" where
  "num_tokens_with_spec r = num_tokens r + int (length (spec_token_ids r))"

definition tokens_to_schedule ::
  "running_config \<Rightarrow> step_limits \<Rightarrow> ('c, 'x, 'q, 'h) run_state \<Rightarrow> 'h sched_request \<Rightarrow> int" where
  "tokens_to_schedule C L st r =
     (let n0 = num_tokens_with_spec r + num_output_placeholders r - num_computed_tokens r;
          t = long_prefill_token_threshold (gate st);
          n1 = (if \<not> gated_prefill (gate st) r \<and> 0 < t \<and> t < n0 then t else n0);
          n2 = min n1 (token_budget st);
          n3 = (if gated_prefill (gate st) r then min n2 (prefill_token_budget L - prefill_tokens_scheduled st) else n2)
      in min n3 (max_model_len C - num_computed_tokens r - run_sampled_tokens_per_step C))"

text \<open>The encoder inputs of the request and the chunk split. Without encoder inputs the trial is empty.\<close>

definition trial ::
  "('x, 'h) encoder_ext \<Rightarrow> running_config \<Rightarrow> step_limits \<Rightarrow> ('c, 'x, 'q, 'h) run_state \<Rightarrow> 'h sched_request
   \<Rightarrow> (int \<times> 'x encoder_acc) res" where
  "trial E C L st r =
     res_bind (try_schedule_encoder_inputs E (encoder_cfg C) r (num_computed_tokens r) (tokens_to_schedule C L st r)
         (encoder_compute_budget st) (if ec_use_eagle (encoder_cfg C) then 1 else 0) (encoder_cache (sched st)))
       (\<lambda>a. Inr (case split_when_aligned C of
              None \<Rightarrow> acc_num_new_tokens a
            | Some cfg \<Rightarrow> mamba_block_aligned_split cfg (request.truncate r) (acc_num_new_tokens a) 0 0, a))"

section \<open>Preemption\<close>

text \<open>The request to preempt: the last one, or the first with the greatest priority number and arrival time.\<close>

definition victim :: "running_config \<Rightarrow> ('c, 'x, 'q, 'h) run_state \<Rightarrow> string res" where
  "victim C st =
     (case sched_policy C of
        FCFS \<Rightarrow> (if running_ids st = [] then Inl IndexError else Inr (last (running_ids st)))
      | PRIORITY \<Rightarrow>
          res_bind (map_res (\<lambda>q. res_bind (lookup_request (sched st) q) (\<lambda>r. Inr (q, priority r, arrival_time r)))
              (running_ids st))
            (\<lambda>ks. case ks of [] \<Rightarrow> Inl ValueError
                  | k # rest \<Rightarrow> Inr (fst (foldl (\<lambda>best x. if snd best < snd x then x else best) k rest))))"

text \<open>What a request scheduled earlier in the step gives back.\<close>

definition unschedule ::
  "('q, 'h) running_ext \<Rightarrow> string \<Rightarrow> ('c, 'x, 'q, 'h) run_state \<Rightarrow> ('c, 'x, 'q, 'h) run_state res" where
  "unschedule R p st =
     (case num_scheduled_tokens st p of
        None \<Rightarrow> Inl KeyError
      | Some n \<Rightarrow>
          (if req_to_new_blocks st p = None then Inl KeyError
           else res_bind (lookup_request (sched st) p) (\<lambda>r.
             Inr (st\<lparr> scheduled_running_reqs := remove1 p (scheduled_running_reqs st),
                token_budget := token_budget st + n,
                num_scheduled_tokens := (num_scheduled_tokens st)(p := None),
                req_to_new_blocks := (req_to_new_blocks st)(p := None),
                scheduled_spec_decode_tokens := (scheduled_spec_decode_tokens st)(p := None),
                scheduled_encoder_inputs := (scheduled_encoder_inputs st)(p := None),
                encoder_compute_budget := encoder_compute_budget st +
                  sum_list (map (get_num_encoder_embeds R r)
                    (case scheduled_encoder_inputs st p of None \<Rightarrow> [] | Some is \<Rightarrow> is)),
                req_index := req_index st - 1 \<rparr>))))"

definition take_victim ::
  "('q, 'h) running_ext \<Rightarrow> running_config \<Rightarrow> ('c, 'x, 'q, 'h) run_state \<Rightarrow> (string \<times> ('c, 'x, 'q, 'h) run_state) res" where
  "take_victim R C st =
     res_bind (victim C st) (\<lambda>p.
       case sched_policy C of
         FCFS \<Rightarrow> Inr (p, st\<lparr> running_ids := butlast (running_ids st) \<rparr>)
       | PRIORITY \<Rightarrow>
           let st1 = st\<lparr> running_ids := remove1 p (running_ids st) \<rparr> in
           if p \<in> set (scheduled_running_reqs st1) then res_bind (unschedule R p st1) (\<lambda>st2. Inr (p, st2))
           else Inr (p, st1))"

definition preempt_victim ::
  "('c, 'h, 'e) coordinator \<Rightarrow> ('x, 'q, 'h) sched_ext \<Rightarrow> ('q, 'h) running_ext \<Rightarrow> running_config
   \<Rightarrow> ('c, 'x, 'q, 'h) run_state \<Rightarrow> (string \<times> ('c, 'x, 'q, 'h) run_state) res" where
  "preempt_victim K X R C st =
     res_bind (take_victim R C st) (\<lambda>(p, st1).
     res_bind (lookup_request (sched st1) p) (\<lambda>r.
     res_bind (preempt_request K X r (requires_kv_delivery C) (sched st1)) (\<lambda>s.
     Inr (p, st1\<lparr> sched := s, preempted_reqs := preempted_reqs st1 @ [p] \<rparr>))))"

definition slots_for :: "running_config \<Rightarrow> int \<Rightarrow> 'h slot_args" where
  "slots_for C n = \<lparr> num_new_tokens = n, num_new_computed_tokens = 0, new_computed_blocks = None,
     num_lookahead_tokens = run_num_lookahead_tokens C, num_external_computed_tokens = 0,
     delay_cache_blocks = False, num_encoder_tokens = 0, full_sequence_must_fit = False, reserved_blocks = 0,
     has_scheduled_reqs = True \<rparr>"

lemma foldl_better_mem:
  "foldl (\<lambda>best x. if snd best < snd x then x else best) k rest \<in> set (k # rest)"
  for k :: "'a \<times> 'b :: order"
  by (induction rest arbitrary: k) auto

lemma victim_mem: "victim C st = Inr p \<Longrightarrow> p \<in> set (running_ids st)"
proof (cases "sched_policy C")
  case PRIORITY
  assume v: "victim C st = Inr p"
  obtain ks where m: "map_res (\<lambda>q. res_bind (lookup_request (sched st) q) (\<lambda>r. Inr (q, priority r, arrival_time r)))
        (running_ids st) = Inr ks"
    and c: "(case ks of [] \<Rightarrow> Inl ValueError
        | k # rest \<Rightarrow> Inr (fst (foldl (\<lambda>best x. if snd best < snd x then x else best) k rest))) = Inr p"
    using v PRIORITY by (auto simp: victim_def res_bind_eq_Inr)
  from c obtain k rest where ks: "ks = k # rest"
    and p: "p = fst (foldl (\<lambda>best x. if snd best < snd x then x else best) k rest)"
    by (cases ks) auto
  obtain w where w: "p = fst w" "w \<in> set (k # rest)" using p foldl_better_mem by blast
  obtain q where q: "q \<in> set (running_ids st)"
    and f: "res_bind (lookup_request (sched st) q) (\<lambda>r. Inr (q, priority r, arrival_time r)) = Inr w"
    using map_res_mem[OF m[unfolded ks] w(2)] by blast
  from f w(1) have "p = q" by (auto simp: res_bind_eq_Inr)
  with q show ?thesis by simp
qed (auto simp: victim_def split: if_splits)

lemma preempt_victim_shrinks:
  assumes "preempt_victim K X R C st = Inr (p, st')"
  shows "Suc (length (running_ids st')) = length (running_ids st)"
    and "int (length (running_ids st')) - req_index st' \<le> int (length (running_ids st)) - req_index st"
proof -
  obtain st1 where tv: "take_victim R C st = Inr (p, st1)"
    and same: "running_ids st' = running_ids st1" "req_index st' = req_index st1"
    using assms by (auto simp: preempt_victim_def res_simps)
  have v: "victim C st = Inr p"
    using tv by (cases "sched_policy C") (auto simp: take_victim_def Let_def res_simps split: if_splits)
  have mem: "p \<in> set (running_ids st)" using v by (rule victim_mem)
  then have ne: "running_ids st \<noteq> []" by auto
  have "running_ids st1 = butlast (running_ids st) \<and> req_index st1 = req_index st
      \<or> running_ids st1 = remove1 p (running_ids st) \<and> (req_index st1 = req_index st \<or> req_index st1 = req_index st - 1)"
    using tv v by (cases "sched_policy C")
      (auto simp: take_victim_def unschedule_def Let_def res_simps split: if_splits option.splits)
  then show "Suc (length (running_ids st')) = length (running_ids st)"
    and "int (length (running_ids st')) - req_index st' \<le> int (length (running_ids st)) - req_index st"
    using mem ne same by (auto simp: length_remove1 length_pos_if_in_set of_nat_diff Suc_le_eq)
qed

text \<open>
  Allocation for request \<open>q\<close>: while the blocks do not fit another request is preempted, until it is \<open>q\<close>'s turn.
\<close>

function allocate_or_preempt ::
  "('c, 'h, 'e) coordinator \<Rightarrow> ('x, 'q, 'h) sched_ext \<Rightarrow> ('q, 'h) running_ext \<Rightarrow> running_config \<Rightarrow> string
   \<Rightarrow> 'h sched_request \<Rightarrow> int \<Rightarrow> ('c, 'x, 'q, 'h) run_state
   \<Rightarrow> ('h kv_cache_blocks option \<times> ('c, 'x, 'q, 'h) run_state) res" where
  "allocate_or_preempt K X R C q r n st =
     (let (e, m) = allocate_slots K (kv_request.truncate r) (slots_for C n) (kv_manager (sched st));
          st1 = st\<lparr> sched := (sched st)\<lparr> kv_manager := m \<rparr> \<rparr>
      in case e of
           Inl err \<Rightarrow> Inl err
         | Inr (Some b) \<Rightarrow> Inr (Some b, st1)
         | Inr None \<Rightarrow>
             (case preempt_victim K X R C st1 of
                Inl err \<Rightarrow> Inl err
              | Inr (p, st2) \<Rightarrow>
                  (if p = q then Inr (None, st2) else allocate_or_preempt K X R C q r n st2)))"
  by pat_completeness auto

termination
  by (relation "measure (\<lambda>(K, X, R, C, q, r, n, st). length (running_ids st))")
    (auto dest: preempt_victim_shrinks(1))

declare allocate_or_preempt.simps [simp del]

section \<open>The loop\<close>

text \<open>The drafts that are verified in this step, and the request after its drafts were taken.\<close>

definition drafts_to_verify :: "'h sched_request \<Rightarrow> int \<Rightarrow> int list option" where
  "drafts_to_verify r n =
     (let k = n + num_computed_tokens r - num_tokens r - num_output_placeholders r
      in if spec_token_ids r \<noteq> [] \<and> 0 < k
         then Some (if k < int (length (spec_token_ids r)) then take (nat k) (spec_token_ids r) else spec_token_ids r)
         else None)"

definition encoder_alloc :: "('x, 'h) encoder_ext \<Rightarrow> 'h sched_request \<Rightarrow> nat \<Rightarrow> 'x \<Rightarrow> 'x" where
  "encoder_alloc E r i x =
     (let x1 = encoder_allocate E r i x in if ec_has_cache_item E = None then x1 else ec_update_state_after_alloc E r i x1)"

definition commit_running ::
  "('x, 'h) encoder_ext \<Rightarrow> string \<Rightarrow> 'h sched_request \<Rightarrow> int \<Rightarrow> 'x encoder_acc \<Rightarrow> 'h kv_cache_blocks
   \<Rightarrow> ('c, 'x, 'q, 'h) run_state \<Rightarrow> ('c, 'x, 'q, 'h) run_state" where
  "commit_running E q r n a b st =
     (let g = gate st; s = sched st;
          r' = (if spec_token_ids r \<noteq> [] then r\<lparr> spec_token_ids := [] \<rparr> else r);
          x = fold (encoder_alloc E r') (encoder_inputs_to_schedule a @ external_load_encoder_input a) (encoder_cache s)
      in st\<lparr> scheduled_running_reqs := scheduled_running_reqs st @ [q],
             prefill_scheduled := prefill_scheduled st \<or> is_prefill_chunk r,
             req_to_new_blocks := (req_to_new_blocks st)(q \<mapsto> b),
             num_scheduled_tokens := (num_scheduled_tokens st)(q \<mapsto> n),
             token_budget := token_budget st - n,
             prefill_tokens_scheduled := prefill_tokens_scheduled st + (if gated_prefill g r then n else 0),
             gate := (if gated_prefill g r \<and> is_long_prefill_request g (request.truncate r)
               then g\<lparr> long_prefill_last_scheduled := (long_prefill_last_scheduled g)(q \<mapsto> current_step g) \<rparr> else g),
             req_index := req_index st + 1,
             scheduled_spec_decode_tokens := (case drafts_to_verify r n of
                 None \<Rightarrow> scheduled_spec_decode_tokens st | Some ds \<Rightarrow> (scheduled_spec_decode_tokens st)(q \<mapsto> ds)),
             scheduled_encoder_inputs := (if encoder_inputs_to_schedule a = [] then scheduled_encoder_inputs st
               else (scheduled_encoder_inputs st)(q \<mapsto> encoder_inputs_to_schedule a)),
             encoder_compute_budget := (if encoder_inputs_to_schedule a = [] then encoder_compute_budget st else acc_budget a),
             sched := s\<lparr> requests := (requests s)(q \<mapsto> r'), encoder_cache := x \<rparr> \<rparr>)"

text \<open>One pass over the body: whether the loop goes on, and the state after it.\<close>

definition next_request :: "('c, 'x, 'q, 'h) run_state \<Rightarrow> ('c, 'x, 'q, 'h) run_state" where
  "next_request st = st\<lparr> req_index := req_index st + 1 \<rparr>"

definition run_step ::
  "('c, 'h, 'e) coordinator \<Rightarrow> ('x, 'q, 'h) sched_ext \<Rightarrow> ('x, 'h) encoder_ext \<Rightarrow> ('q, 'h) running_ext
   \<Rightarrow> running_config \<Rightarrow> step_limits \<Rightarrow> ('c, 'x, 'q, 'h) run_state \<Rightarrow> (bool \<times> ('c, 'x, 'q, 'h) run_state) res" where
  "run_step K X E R C L st =
     res_bind (py_index (running_ids st) (req_index st)) (\<lambda>q.
     res_bind (lookup_request (sched st) q) (\<lambda>r.
       if reached_max_tokens r then Inr (True, next_request st)
       else if current_step (gate st) < next_decode_eligible_step r then Inr (True, next_request st)
       else if defer_prefills L \<and> is_prefill_chunk r then Inr (True, next_request st)
       else if enable_decode_aware_prefill (gate st) \<and> is_long_prefill_request (gate st) (request.truncate r)
             \<and> q \<notin> selected_long_prefill_ids L
       then Inr (True, next_request (st\<lparr> gate_skipped_running := gate_skipped_running st + 1,
                                        long_prefill_gate_skips := long_prefill_gate_skips st + 1 \<rparr>))
       else if gated_prefill (gate st) r \<and> prefill_token_budget L - prefill_tokens_scheduled st \<le> 0
       then Inr (True, next_request st)
       else res_bind (trial E C L st r) (\<lambda>(n, a).
         let st1 = st\<lparr> sched := (sched st)\<lparr> encoder_cache := acc_cache a \<rparr> \<rparr> in
         if n = 0 then Inr (True, next_request st1)
         else res_bind (allocate_or_preempt K X R C q r n st1) (\<lambda>(b, st2).
           Inr (case b of None \<Rightarrow> (False, st2) | Some b' \<Rightarrow> (True, commit_running E q r n a b' st2))))))"

text \<open>
  A property \<open>I\<close> of the state that survives an allocation and the preemption of another request holds after
  success; when the request itself is preempted, \<open>J\<close> holds.
\<close>

lemma allocate_or_preempt_keeps:
  assumes "allocate_or_preempt K X R C q r n st = Inr (b, st')" and "I st"
    and al: "\<And>st m. I st \<Longrightarrow> I (st\<lparr> sched := (sched st)\<lparr> kv_manager := m \<rparr> \<rparr>)"
    and other: "\<And>st p st'. I st \<Longrightarrow> preempt_victim K X R C st = Inr (p, st') \<Longrightarrow> p \<noteq> q \<Longrightarrow> I st'"
    and own: "\<And>st st'. I st \<Longrightarrow> preempt_victim K X R C st = Inr (q, st') \<Longrightarrow> J st'"
  shows "if b = None then J st' else I st'"
  using assms(1,2)
proof (induction "length (running_ids st)" arbitrary: st rule: less_induct)
  case less
  obtain e m where as: "allocate_slots K (kv_request.truncate r) (slots_for C n) (kv_manager (sched st)) = (e, m)"
    by fastforce
  let ?st1 = "st\<lparr> sched := (sched st)\<lparr> kv_manager := m \<rparr> \<rparr>"
  have I1: "I ?st1" using al less.prems(2) .
  consider b0 where "e = Inr (Some b0)" | p st2 where "e = Inr None" "preempt_victim K X R C ?st1 = Inr (p, st2)"
    using less.prems(1) by (subst (asm) allocate_or_preempt.simps)
      (auto simp: as Let_def split: sum.splits option.splits)
  then show ?case
  proof cases
    case (1 b0)
    then show ?thesis using less.prems(1) I1 by (subst (asm) allocate_or_preempt.simps) (auto simp: as Let_def)
  next
    case (2 p st2)
    show ?thesis
    proof (cases "p = q")
      case True
      then have "b = None \<and> st' = st2"
        using less.prems(1) 2 by (subst (asm) allocate_or_preempt.simps) (simp add: as Let_def)
      then show ?thesis using own[OF I1] 2(2) True by simp
    next
      case False
      then have "allocate_or_preempt K X R C q r n st2 = Inr (b, st')"
        using less.prems(1) 2 by (subst (asm) (1) allocate_or_preempt.simps) (simp add: as Let_def)
      moreover have "length (running_ids st2) < length (running_ids st)"
        using preempt_victim_shrinks(1)[OF 2(2)] by simp
      ultimately show ?thesis using less.hyps other[OF I1 2(2) False] by blast
    qed
  qed
qed

definition distance :: "('c, 'x, 'q, 'h) run_state \<Rightarrow> int" where
  "distance st = int (length (running_ids st)) - req_index st"

lemma allocate_or_preempt_distance:
  assumes "allocate_or_preempt K X R C q r n st = Inr (b, st')"
  shows "distance st' \<le> distance st"
proof -
  have "if b = None then distance st' \<le> distance st else distance st' \<le> distance st"
    using assms
    by (rule allocate_or_preempt_keeps) (auto simp: distance_def dest: preempt_victim_shrinks(2))
  then show ?thesis by (simp split: if_splits)
qed

lemma distance_simps [simp]:
  "distance (next_request st) = distance st - 1"
  "distance (commit_running E q r n a b st) = distance st - 1"
  "distance (st\<lparr> sched := s \<rparr>) = distance st"
  "distance (st\<lparr> gate_skipped_running := i, long_prefill_gate_skips := j \<rparr>) = distance st"
  by (auto simp: distance_def next_request_def commit_running_def Let_def)

text \<open>A request that is let through the tests before the token budgets.\<close>

definition let_through :: "step_limits \<Rightarrow> ('c, 'x, 'q, 'h) run_state \<Rightarrow> string \<Rightarrow> 'h sched_request \<Rightarrow> bool" where
  "let_through L st q r \<longleftrightarrow> \<not> reached_max_tokens r
     \<and> next_decode_eligible_step r \<le> current_step (gate st)
     \<and> (defer_prefills L \<longrightarrow> \<not> is_prefill_chunk r)
     \<and> (enable_decode_aware_prefill (gate st) \<longrightarrow> is_long_prefill_request (gate st) (request.truncate r)
          \<longrightarrow> q \<in> selected_long_prefill_ids L)
     \<and> (gated_prefill (gate st) r \<longrightarrow> prefill_tokens_scheduled st < prefill_token_budget L)"

text \<open>The ways in which a pass ends.\<close>

lemma run_step_cases:
  assumes "run_step K X E R C L st = Inr (go_on, st')"
  obtains (skipped) "go_on" "st' = next_request st"
  | (lost_turn) i j where "go_on"
      "st' = next_request (st\<lparr> gate_skipped_running := i, long_prefill_gate_skips := j \<rparr>)"
  | (nothing) x where "go_on" "st' = next_request (st\<lparr> sched := (sched st)\<lparr> encoder_cache := x \<rparr> \<rparr>)"
  | (given) q r n a b st2 where "go_on" "py_index (running_ids st) (req_index st) = Inr q"
      "lookup_request (sched st) q = Inr r" "let_through L st q r" "trial E C L st r = Inr (n, a)" "n \<noteq> 0"
      "allocate_or_preempt K X R C q r n (st\<lparr> sched := (sched st)\<lparr> encoder_cache := acc_cache a \<rparr> \<rparr>) = Inr (Some b, st2)"
      "st' = commit_running E q r n a b st2"
  | (own) q r n a where "\<not> go_on" "py_index (running_ids st) (req_index st) = Inr q"
      "lookup_request (sched st) q = Inr r" "trial E C L st r = Inr (n, a)" "n \<noteq> 0"
      "allocate_or_preempt K X R C q r n (st\<lparr> sched := (sched st)\<lparr> encoder_cache := acc_cache a \<rparr> \<rparr>) = Inr (None, st')"
proof -
  obtain q r where q: "py_index (running_ids st) (req_index st) = Inr q" "lookup_request (sched st) q = Inr r"
    using assms unfolding run_step_def res_bind_eq_Inr by blast
  show thesis
  proof (cases "let_through L st q r")
    case False
    then have "go_on \<and> (st' = next_request st \<or>
        st' = next_request (st\<lparr> gate_skipped_running := gate_skipped_running st + 1,
                                long_prefill_gate_skips := long_prefill_gate_skips st + 1 \<rparr>))"
      using assms by (auto simp: run_step_def q let_through_def not_le split: if_splits)
    then show thesis using skipped lost_turn by blast
  next
    case True
    have eq: "run_step K X E R C L st = res_bind (trial E C L st r) (\<lambda>(n, a).
         if n = 0 then Inr (True, next_request (st\<lparr> sched := (sched st)\<lparr> encoder_cache := acc_cache a \<rparr> \<rparr>))
         else res_bind (allocate_or_preempt K X R C q r n (st\<lparr> sched := (sched st)\<lparr> encoder_cache := acc_cache a \<rparr> \<rparr>)) (\<lambda>(b, st2).
           Inr (case b of None \<Rightarrow> (False, st2) | Some b' \<Rightarrow> (True, commit_running E q r n a b' st2))))"
      using True by (auto simp: run_step_def q let_through_def Let_def not_less)
    obtain n a where t: "trial E C L st r = Inr (n, a)"
      using assms unfolding eq res_bind_eq_Inr by fastforce
    show thesis
    proof (cases "n = 0")
      case z: True
      have "go_on" "st' = next_request (st\<lparr> sched := (sched st)\<lparr> encoder_cache := acc_cache a \<rparr> \<rparr>)"
        using assms by (simp_all add: eq t z)
      then show thesis by (rule nothing)
    next
      case nz: False
      obtain b st2 where al: "allocate_or_preempt K X R C q r n (st\<lparr> sched := (sched st)\<lparr> encoder_cache := acc_cache a \<rparr> \<rparr>) = Inr (b, st2)"
        using assms nz by (auto simp: eq t res_bind_eq_Inr)
      show thesis
      proof (cases b)
        case None
        then show thesis using assms nz al own[OF _ q t nz] by (auto simp: eq t)
      next
        case (Some b')
        then show thesis using assms nz al given[OF _ q True t nz] by (auto simp: eq t)
      qed
    qed
  qed
qed

lemma run_step_distance:
  assumes "run_step K X E R C L st = Inr (True, st')"
  shows "distance st' < distance st"
  using assms by (cases rule: run_step_cases) (auto dest: allocate_or_preempt_distance)

function running_loop ::
  "('c, 'h, 'e) coordinator \<Rightarrow> ('x, 'q, 'h) sched_ext \<Rightarrow> ('x, 'h) encoder_ext \<Rightarrow> ('q, 'h) running_ext
   \<Rightarrow> running_config \<Rightarrow> step_limits \<Rightarrow> ('c, 'x, 'q, 'h) run_state \<Rightarrow> ('c, 'x, 'q, 'h) run_state res" where
  "running_loop K X E R C L st =
     (if req_index st < int (length (running_ids st)) \<and> 0 < token_budget st
      then (case run_step K X E R C L st of
              Inl e \<Rightarrow> Inl e
            | Inr (go_on, st') \<Rightarrow> if go_on then running_loop K X E R C L st' else Inr st')
      else Inr st)"
  by pat_completeness auto

termination
  by (relation "measure (\<lambda>(K, X, E, R, C, L, st). nat (distance st))")
    (auto dest!: run_step_distance simp: distance_def)

declare running_loop.simps [simp del]

text \<open>The step up to the end of the loop over running requests.\<close>

definition schedule_running ::
  "('c, 'h, 'e) coordinator \<Rightarrow> ('x, 'q, 'h) sched_ext \<Rightarrow> ('x, 'h) encoder_ext \<Rightarrow> ('q, 'h) running_ext
   \<Rightarrow> running_config \<Rightarrow> int \<Rightarrow> bool \<Rightarrow> bool \<Rightarrow> scheduler \<Rightarrow> int \<Rightarrow> string list \<Rightarrow> ('c, 'x, 'q, 'h) sched_state
   \<Rightarrow> ('c, 'x, 'q, 'h) run_state res" where
  "schedule_running K X E R C max_tokens_per_step throttle bound g skips ids s =
     res_bind (schedule_start K R C max_tokens_per_step throttle bound g skips ids s)
       (\<lambda>(L, st). running_loop K X E R C L st)"

end
