(* ===== verification/Sched_Encoder_Props.thy ===== *)
theory Sched_Encoder_Props
  imports Sched_Encoder Sched_Accept_Props
begin

text \<open>
  Properties of the encoder-input scheduling: the number of tokens it grants and the budget it charges, and
  that every multimodal item whose embeddings the granted tokens read is available.
\<close>

text \<open>
  What the search for the items in a window promises: the indices are in range and the items start before its
  end. The items of a request are sorted by their start.
\<close>

definition window_contract :: "('x, 'h) encoder_ext \<Rightarrow> 'h sched_request \<Rightarrow> bool" where
  "window_contract E r \<longleftrightarrow> (\<forall>s e lo hi. get_mm_features_in_window E (mm_features r) s e = (lo, hi) \<longrightarrow>
     hi \<le> length (mm_features r) \<and> (\<forall>i < hi. mm_offset (mm_features r ! i) < e))"

text \<open>
  What the encoder cache promises: an item it reports as cached is pinned for the request, and neither further
  lookups nor the search for space release a pinned item.
\<close>

definition cache_contract :: "('x, 'h) encoder_ext \<Rightarrow> 'h sched_request \<Rightarrow> ('x \<Rightarrow> nat set) \<Rightarrow> bool" where
  "cache_contract E r pinned \<longleftrightarrow>
     (\<forall>i x. pinned x \<subseteq> pinned (snd (check_and_update_cache E r i x))
        \<and> (fst (check_and_update_cache E r i x) \<longrightarrow> i \<in> pinned (snd (check_and_update_cache E r i x))))
     \<and> (\<forall>i b n x. pinned x \<subseteq> pinned (snd (can_allocate E r i b n x)))"

lemma take_item_simps [simp]:
  "mm_hashes_to_schedule (take_item E i f a) = insert (mm_identifier f) (mm_hashes_to_schedule a)"
  "acc_num_new_tokens (take_item E i f a) = acc_num_new_tokens a"
  "acc_cache (take_item E i f a) = acc_cache a"
  by (auto simp: take_item_def Let_def)

section \<open>One item\<close>

text \<open>
  The ways in which an item is handled. The states of the cache before and after are kept only up to what is
  pinned.
\<close>

lemma encoder_item_cases:
  assumes "encoder_item E C r computed shift i f a = Inr (go_on, a')" "cache_contract E r pinned"
  obtains (decoding) "go_on" "a' = a" "is_encoder_decoder C" "0 < computed"
  | (twice) "go_on" "a' = a" "mm_identifier f \<in> mm_hashes_to_schedule a"
  | (cached) x where "go_on" "a' = a\<lparr> acc_cache := x \<rparr>" "pinned (acc_cache a) \<subseteq> pinned x" "i \<in> pinned x"
  | (stop) x m where "\<not> go_on" "a' = a\<lparr> acc_cache := x, acc_num_new_tokens := m \<rparr>" "pinned (acc_cache a) \<subseteq> pinned x"
      "m = 0 \<or> 0 < m \<and> m = mm_offset f - (computed + shift)"
  | (unread) x where "go_on" "a' = a\<lparr> acc_cache := x \<rparr>" "pinned (acc_cache a) \<subseteq> pinned x"
      "embeds_now computed (acc_num_new_tokens a) f = 0"
  | (taken) x where "go_on" "a' = take_item E i f (a\<lparr> acc_cache := x \<rparr>)" "pinned (acc_cache a) \<subseteq> pinned x"
proof -
  obtain c x1 where c: "(if is_encoder_decoder C then (False, acc_cache a) else check_and_update_cache E r i (acc_cache a))
      = (c, x1)" by fastforce
  have p1: "pinned (acc_cache a) \<subseteq> pinned x1" "c \<Longrightarrow> i \<in> pinned x1"
    using c assms(2) by (auto simp: cache_contract_def split: if_splits)
      (metis fst_conv snd_conv subsetD)+
  obtain k x2 where k: "can_allocate E r i (acc_budget a) (num_embeds_to_schedule a) x1 = (k, x2)" by fastforce
  have p2: "pinned (acc_cache a) \<subseteq> pinned x2"
    using k p1(1) assms(2) unfolding cache_contract_def by (metis snd_conv subset_trans)
  show thesis
  proof (cases "is_encoder_decoder C \<and> 0 < computed")
    case True
    then show thesis using assms(1) decoding by (auto simp: encoder_item_def res_simps)
  next
    case nd: False
    show thesis
    proof (cases "\<not> is_encoder_decoder C \<and> mm_identifier f \<in> mm_hashes_to_schedule a")
      case True
      then show thesis using assms(1) nd twice by (auto simp: encoder_item_def)
    next
      case ns: False
      have eq: "encoder_item E C r computed shift i f a =
          (if c then Inr (True, a\<lparr> acc_cache := x1 \<rparr>)
           else if disable_chunked_mm_input C \<and> computed < mm_offset f
               \<and> computed + acc_num_new_tokens a < mm_offset f + mm_length f
           then Inr (False, a\<lparr> acc_cache := x1, acc_num_new_tokens := max 0 (mm_offset f - (computed + shift)) \<rparr>)
           else if \<not> k then Inr (False, a\<lparr> acc_cache := x2, acc_num_new_tokens := tokens_before computed shift f \<rparr>)
           else if embeds_now computed (acc_num_new_tokens a) f = 0 then Inr (True, a\<lparr> acc_cache := x2 \<rparr>)
           else Inr (True, take_item E i f (a\<lparr> acc_cache := x2 \<rparr>)))"
        unfolding encoder_item_def Let_def c using nd ns k by auto
      define w where "w \<longleftrightarrow> disable_chunked_mm_input C \<and> computed < mm_offset f
               \<and> computed + acc_num_new_tokens a < mm_offset f + mm_length f"
      note res = assms(1)[unfolded eq, folded w_def]
      consider c | "\<not> c" w | "\<not> c" "\<not> w" "\<not> k" | "\<not> c" "\<not> w" k "embeds_now computed (acc_num_new_tokens a) f = 0"
        | "\<not> c" "\<not> w" k "embeds_now computed (acc_num_new_tokens a) f \<noteq> 0" by blast
      then show thesis
      proof cases
        case 1
        then show thesis using res p1 by (intro cached[of x1]) auto
      next
        case 2
        then show thesis using res p1(1)
          by (intro stop[where x = x1 and m = "max 0 (mm_offset f - (computed + shift))"]) (auto simp: max_def)
      next
        case 3
        then show thesis using res p2
          by (intro stop[where x = x2 and m = "tokens_before computed shift f"]) (auto simp: tokens_before_def)
      next
        case 4
        then show thesis using res p2 by (intro unread[of x2]) auto
      next
        case 5
        then show thesis using res p2 by (intro taken[of x2]) auto
      qed
    qed
  qed
qed

text \<open>An item is available when it is pinned, taken, or has no embedding in the range.\<close>

definition available ::
  "'h sched_request \<Rightarrow> int \<Rightarrow> int \<Rightarrow> ('x \<Rightarrow> nat set) \<Rightarrow> 'x encoder_acc \<Rightarrow> nat \<Rightarrow> bool" where
  "available r computed n pinned a i \<longleftrightarrow> i \<in> pinned (acc_cache a)
     \<or> mm_identifier (mm_features r ! i) \<in> mm_hashes_to_schedule a
     \<or> embeds_now computed n (mm_features r ! i) = 0"

lemma encoder_item_available:
  assumes "encoder_item E C r computed shift i (mm_features r ! i) a = Inr (True, a')" "cache_contract E r pinned"
    and "\<not> (is_encoder_decoder C \<and> 0 < computed)"
  shows "available r computed (acc_num_new_tokens a) pinned a' i" "acc_num_new_tokens a' = acc_num_new_tokens a"
    and "available r computed n pinned a j \<Longrightarrow> available r computed n pinned a' j"
  using assms(1,2) by (cases rule: encoder_item_cases; use assms(3) in \<open>auto simp: available_def\<close>)+

section \<open>The loop\<close>

lemma encoder_loop_available:
  assumes "encoder_loop E C r computed shift is a = Inr a'" "cache_contract E r pinned"
    and "\<not> (is_encoder_decoder C \<and> 0 < computed)" "sorted (map mm_offset (mm_features r))" "sorted is"
    and "\<forall>j \<in> J. available r computed (acc_num_new_tokens a) pinned a j" "i \<in> J \<union> set is"
    and "\<forall>i \<in> set is. i < length (mm_features r)"
  shows "acc_num_new_tokens a' = 0 \<or> computed + shift + acc_num_new_tokens a' \<le> mm_offset (mm_features r ! i)
    \<or> available r computed (acc_num_new_tokens a) pinned a' i"
  using assms(1,5,6,7,8)
proof (induction "is" arbitrary: a J)
  case (Cons k ks)
  obtain go_on a1 where k: "k < length (mm_features r)"
    and item: "encoder_item E C r computed shift k (mm_features r ! k) a = Inr (go_on, a1)"
    and rest: "if go_on then encoder_loop E C r computed shift ks a1 = Inr a' else a' = a1"
    using Cons.prems(1) by (auto simp: py_get_def split: sum.splits if_splits)
  show ?case
  proof (cases go_on)
    case True
    then have "encoder_item E C r computed shift k (mm_features r ! k) a = Inr (True, a1)" using item by simp
    note it = encoder_item_available[OF this assms(2,3)]
    have "\<forall>j \<in> insert k J. available r computed (acc_num_new_tokens a1) pinned a1 j"
      using it Cons.prems(3) by auto
    then show ?thesis
      using Cons.IH[of a1 "insert k J"] rest True Cons.prems(2,4,5) it(2) by auto
  next
    case False
    then have a': "a' = a1" using rest by simp
    show ?thesis
      using item assms(2)
    proof (cases rule: encoder_item_cases)
      case (stop x m)
      consider "i \<in> J" | "i \<in> set (k # ks)" using Cons.prems(4) by blast
      then show ?thesis
      proof cases
        case 1
        then have "available r computed (acc_num_new_tokens a) pinned a i" using Cons.prems(3) by blast
        then show ?thesis using stop(2,3) a' by (auto simp: available_def)
      next
        case 2
        show ?thesis
        proof (cases "m = 0")
          case True
          then show ?thesis using stop a' by simp
        next
          case nz: False
          have "k \<le> i" "i < length (mm_features r)" using 2 Cons.prems(2,5) by auto
          then have "mm_offset (mm_features r ! k) \<le> mm_offset (mm_features r ! i)"
            using sorted_nth_mono[OF assms(4), of k i] k by simp
          then show ?thesis using stop nz a' by auto
        qed
      qed
    qed (use False in auto)
  qed
qed auto

text \<open>The number of tokens granted never grows and the budget is charged what the items to run hold.\<close>

definition charged :: "'h sched_request \<Rightarrow> int \<Rightarrow> 'x encoder_acc \<Rightarrow> bool" where
  "charged r budget a \<longleftrightarrow>
     acc_budget a = budget - sum_list (map (\<lambda>i. num_embeds (mm_features r ! i)) (encoder_inputs_to_schedule a))"

lemma encoder_item_bounds:
  assumes "encoder_item E C r computed shift i (mm_features r ! i) a = Inr (go_on, a')" "cache_contract E r pinned"
    and "0 \<le> acc_num_new_tokens a" "acc_num_new_tokens a \<le> n"
    and "mm_offset (mm_features r ! i) < computed + n + shift" "charged r budget a"
  shows "0 \<le> acc_num_new_tokens a'" "acc_num_new_tokens a' \<le> n" "charged r budget a'"
  using assms(1,2)
  by (cases rule: encoder_item_cases; use assms(3-6) in \<open>auto simp: charged_def take_item_def Let_def\<close>)+

lemma encoder_loop_bounds:
  assumes "cache_contract E r pinned"
    and "\<forall>i \<in> set is. i < length (mm_features r) \<and> mm_offset (mm_features r ! i) < computed + n + shift
           \<and> (is_encoder_decoder C \<longrightarrow> mm_offset (mm_features r ! i) = 0)"
    and "0 \<le> acc_num_new_tokens a" "acc_num_new_tokens a \<le> n" "charged r budget a"
  shows "\<exists>a'. encoder_loop E C r computed shift is a = Inr a'
    \<and> 0 \<le> acc_num_new_tokens a' \<and> acc_num_new_tokens a' \<le> n \<and> charged r budget a'"
  using assms(2-5)
proof (induction "is" arbitrary: a)
  case (Cons k ks)
  obtain go_on a1 where item: "encoder_item E C r computed shift k (mm_features r ! k) a = Inr (go_on, a1)"
    using Cons.prems(1)
    by (cases "encoder_item E C r computed shift k (mm_features r ! k) a")
      (auto simp: encoder_item_def res_simps Let_def split: if_splits prod.splits)
  have b: "0 \<le> acc_num_new_tokens a1" "acc_num_new_tokens a1 \<le> n" "charged r budget a1"
    using encoder_item_bounds[OF item assms(1) Cons.prems(2,3) _ Cons.prems(4)] Cons.prems(1) by auto
  then show ?case using Cons.IH[of a1] Cons.prems(1) item by (auto simp: py_get_def)
qed auto

text \<open>What the code asserts of a request's multimodal items.\<close>

definition features_ok :: "encoder_config \<Rightarrow> 'h sched_request \<Rightarrow> bool" where
  "features_ok C r \<longleftrightarrow> (has_encoder_inputs r \<longrightarrow> mm_features r \<noteq> [])
     \<and> (is_encoder_decoder C \<longrightarrow> (\<forall>f \<in> set (mm_features r). mm_offset f = 0))"

lemma encoder_start_simps [simp]:
  "acc_num_new_tokens (encoder_start n budget x) = n" "acc_budget (encoder_start n budget x) = budget"
  "encoder_inputs_to_schedule (encoder_start n budget x) = []"
  by (simp_all add: encoder_start_def)

lemma encoder_bounds:
  assumes "cache_contract E r pinned" "window_contract E r" "features_ok C r" "0 \<le> n"
  shows "\<exists>a. try_schedule_encoder_inputs E C r computed n budget shift x = Inr a
    \<and> 0 \<le> acc_num_new_tokens a \<and> acc_num_new_tokens a \<le> n \<and> charged r budget a"
proof (cases "n = 0 \<or> \<not> has_encoder_inputs r")
  case True
  then show ?thesis using assms(4) by (auto simp: try_schedule_encoder_inputs_def charged_def)
next
  case False
  obtain lo hi where w: "get_mm_features_in_window E (mm_features r) computed (computed + n + shift) = (lo, hi)" by fastforce
  have hi: "hi \<le> length (mm_features r)" "\<forall>i < hi. mm_offset (mm_features r ! i) < computed + n + shift"
    using assms(2) w by (auto simp: window_contract_def)
  have "\<exists>a. encoder_loop E C r computed shift [if is_encoder_decoder C then 0 else lo..<hi] (encoder_start n budget x) = Inr a
    \<and> 0 \<le> acc_num_new_tokens a \<and> acc_num_new_tokens a \<le> n \<and> charged r budget a"
    by (rule encoder_loop_bounds[OF assms(1)]) (use hi assms(3,4) in \<open>auto simp: features_ok_def charged_def\<close>)
  then show ?thesis using False assms(3) w
    by (simp add: try_schedule_encoder_inputs_def Let_def features_ok_def)
qed

text \<open>
  The identifiers noted as taken are those of the items in the two lists of the result; an item is loaded when the
  connector has it, and run otherwise.
\<close>

definition taken_items :: "'x encoder_acc \<Rightarrow> nat set" where
  "taken_items a = set (encoder_inputs_to_schedule a) \<union> set (external_load_encoder_input a)"

definition remote_item :: "('x, 'h) encoder_ext \<Rightarrow> mm_feature \<Rightarrow> bool" where
  "remote_item E f \<longleftrightarrow> (case ec_has_cache_item E of None \<Rightarrow> False | Some has \<Rightarrow> has (mm_identifier f))"

definition lists_ok :: "('x, 'h) encoder_ext \<Rightarrow> 'h sched_request \<Rightarrow> nat set \<Rightarrow> 'x encoder_acc \<Rightarrow> bool" where
  "lists_ok E r W a \<longleftrightarrow> mm_hashes_to_schedule a = (\<lambda>i. mm_identifier (mm_features r ! i)) ` taken_items a \<and> taken_items a \<subseteq> W
     \<and> (\<forall>i \<in> set (encoder_inputs_to_schedule a). \<not> remote_item E (mm_features r ! i))
     \<and> (\<forall>i \<in> set (external_load_encoder_input a). remote_item E (mm_features r ! i))"

lemma encoder_item_lists:
  assumes "encoder_item E C r computed shift i (mm_features r ! i) a = Inr (go_on, a')" "cache_contract E r pinned"
    and "lists_ok E r W a" "i \<in> W"
  shows "lists_ok E r W a'"
  using assms(1,2)
proof (cases rule: encoder_item_cases)
  case (taken x)
  then show ?thesis using assms(3,4)
    by (cases "remote_item E (mm_features r ! i)")
      (auto simp: lists_ok_def taken_items_def take_item_def Let_def remote_item_def split: option.splits)
qed (use assms(3) in \<open>simp_all add: lists_ok_def taken_items_def\<close>)

lemma encoder_loop_lists:
  assumes "cache_contract E r pinned"
  shows "encoder_loop E C r computed shift is a = Inr a' \<Longrightarrow> lists_ok E r W a \<Longrightarrow> set is \<subseteq> W \<Longrightarrow> lists_ok E r W a'"
proof (induction "is" arbitrary: a)
  case (Cons k ks)
  obtain go_on a1 where item: "encoder_item E C r computed shift k (mm_features r ! k) a = Inr (go_on, a1)"
    and rest: "if go_on then encoder_loop E C r computed shift ks a1 = Inr a' else a' = a1"
    using Cons.prems(1) by (auto simp: py_get_def split: sum.splits if_splits)
  have "lists_ok E r W a1" using encoder_item_lists[OF item assms Cons.prems(2)] Cons.prems(3) by simp
  then show ?case using Cons.IH[of a1] rest Cons.prems(3) by (auto split: if_splits)
qed auto

lemma encoder_lists:
  assumes "cache_contract E r pinned" "window_contract E r" "try_schedule_encoder_inputs E C r computed n budget shift x = Inr a"
  shows "lists_ok E r {i. i < length (mm_features r)} a"
proof -
  obtain lo hi where w: "get_mm_features_in_window E (mm_features r) computed (computed + n + shift) = (lo, hi)" by fastforce
  have hi: "hi \<le> length (mm_features r)" using assms(2) w by (auto simp: window_contract_def)
  have start: "lists_ok E r {i. i < length (mm_features r)} (encoder_start n budget x)"
    by (simp add: lists_ok_def taken_items_def encoder_start_def)
  show ?thesis
  proof (cases "n = 0 \<or> \<not> has_encoder_inputs r")
    case True
    then show ?thesis using assms(3) start by (auto simp: try_schedule_encoder_inputs_def)
  next
    case False
    then have "encoder_loop E C r computed shift [if is_encoder_decoder C then 0 else lo..<hi] (encoder_start n budget x) = Inr a"
      using assms(3) w by (auto simp: try_schedule_encoder_inputs_def Let_def res_simps)
    from encoder_loop_lists[OF assms(1) this start] show ?thesis using hi by fastforce
  qed
qed

text \<open>
  C24. Encoder inputs. For a request whose items are as the code asserts, the call never raises, never grants
  more tokens than asked for, and takes the embeddings of the inputs to run from the budget. The two lists of the
  result name items of the request: those to load are held by the connector, those to run are not. Every
  item in the window that starts before the end of the granted tokens is pinned in the cache, has the identifier of
  an item in one of the lists, or has no embedding among the tokens asked for (encoder-decoder models past the
  first token excepted).
\<close>

theorem granted_tokens_have_their_inputs:
  assumes "cache_contract E r pinned" "window_contract E r" "features_ok C r" "0 \<le> n"
    and "sorted (map mm_offset (mm_features r))"
  shows "\<exists>a. try_schedule_encoder_inputs E C r computed n budget shift x = Inr a
    \<and> 0 \<le> acc_num_new_tokens a \<and> acc_num_new_tokens a \<le> n
    \<and> acc_budget a = budget - sum_list (map (\<lambda>i. num_embeds (mm_features r ! i)) (encoder_inputs_to_schedule a))
    \<and> (\<forall>i \<in> set (encoder_inputs_to_schedule a). i < length (mm_features r) \<and> \<not> remote_item E (mm_features r ! i))
    \<and> (\<forall>i \<in> set (external_load_encoder_input a). i < length (mm_features r) \<and> remote_item E (mm_features r ! i))
    \<and> (has_encoder_inputs r \<and> 0 < acc_num_new_tokens a \<and> \<not> (is_encoder_decoder C \<and> 0 < computed) \<longrightarrow>
        (\<forall>lo hi i. get_mm_features_in_window E (mm_features r) computed (computed + n + shift) = (lo, hi)
           \<and> lo \<le> i \<and> i < hi \<and> mm_offset (mm_features r ! i) < computed + acc_num_new_tokens a + shift
          \<longrightarrow> i \<in> pinned (acc_cache a)
            \<or> (\<exists>j \<in> set (encoder_inputs_to_schedule a) \<union> set (external_load_encoder_input a).
                 mm_identifier (mm_features r ! j) = mm_identifier (mm_features r ! i))
            \<or> embeds_now computed n (mm_features r ! i) = 0))"
proof -
  obtain a where a: "try_schedule_encoder_inputs E C r computed n budget shift x = Inr a"
    "0 \<le> acc_num_new_tokens a" "acc_num_new_tokens a \<le> n" "charged r budget a"
    using encoder_bounds[OF assms(1-4)] by blast
  have lists: "lists_ok E r {i. i < length (mm_features r)} a" by (rule encoder_lists[OF assms(1,2) a(1)])
  have av: "i \<in> pinned (acc_cache a) \<or> (\<exists>j \<in> taken_items a. mm_identifier (mm_features r ! j) = mm_identifier (mm_features r ! i))
      \<or> embeds_now computed n (mm_features r ! i) = 0"
    if h: "has_encoder_inputs r" "0 < acc_num_new_tokens a" "\<not> (is_encoder_decoder C \<and> 0 < computed)"
      and w: "get_mm_features_in_window E (mm_features r) computed (computed + n + shift) = (lo, hi)"
      and i: "lo \<le> i" "i < hi" "mm_offset (mm_features r ! i) < computed + acc_num_new_tokens a + shift" for lo hi i
  proof -
    have n: "n \<noteq> 0" using a(3) h(2) by simp
    have loop: "encoder_loop E C r computed shift [if is_encoder_decoder C then 0 else lo..<hi] (encoder_start n budget x) = Inr a"
      using a(1) h(1) n w by (simp add: try_schedule_encoder_inputs_def Let_def res_simps)
    have "hi \<le> length (mm_features r)" using assms(2) w by (auto simp: window_contract_def)
    then have "available r computed n pinned a i"
      using encoder_loop_available[OF loop assms(1) h(3) assms(5), of "{}" i] h(2) i by auto
    then show ?thesis using lists by (auto simp: available_def lists_ok_def)
  qed
  have "\<forall>i \<in> set (encoder_inputs_to_schedule a). i < length (mm_features r) \<and> \<not> remote_item E (mm_features r ! i)"
    "\<forall>i \<in> set (external_load_encoder_input a). i < length (mm_features r) \<and> remote_item E (mm_features r ! i)"
    using lists unfolding lists_ok_def taken_items_def by blast+
  moreover have "has_encoder_inputs r \<and> 0 < acc_num_new_tokens a \<and> \<not> (is_encoder_decoder C \<and> 0 < computed) \<longrightarrow>
        (\<forall>lo hi i. get_mm_features_in_window E (mm_features r) computed (computed + n + shift) = (lo, hi)
           \<and> lo \<le> i \<and> i < hi \<and> mm_offset (mm_features r ! i) < computed + acc_num_new_tokens a + shift
          \<longrightarrow> i \<in> pinned (acc_cache a)
            \<or> (\<exists>j \<in> set (encoder_inputs_to_schedule a) \<union> set (external_load_encoder_input a).
                 mm_identifier (mm_features r ! j) = mm_identifier (mm_features r ! i))
            \<or> embeds_now computed n (mm_features r ! i) = 0)"
    using av unfolding taken_items_def by blast
  ultimately show ?thesis using a(1-3) a(4)[unfolded charged_def] by (intro exI[of _ a] conjI)
qed

text \<open>
  Two items of ten tokens: the first is cached, the second does not fit the budget, so the tokens end just before
  it. The cache is the set of pinned items.
\<close>

definition demo_feature :: "string \<Rightarrow> int \<Rightarrow> mm_feature" where
  "demo_feature name start = \<lparr> mm_identifier = name, mm_offset = start, mm_length = 10, num_embeds = 10,
     embeds_in_range = (\<lambda>s e. (s, e)) \<rparr>"

definition demo_encoder :: "(nat set, nat) encoder_ext" where
  "demo_encoder = \<lparr> get_mm_features_in_window = (\<lambda>fs s e.
       (length (takeWhile (\<lambda>f. mm_offset f + mm_length f \<le> s) fs), length (takeWhile (\<lambda>f. mm_offset f < e) fs))),
     check_and_update_cache = (\<lambda>r i x. (i = 0, if i = 0 then insert i x else x)),
     can_allocate = (\<lambda>r i b n x. (10 + n \<le> b, x)), encoder_allocate = (\<lambda>r i x. insert i x),
     get_cached_input_ids = (\<lambda>r x. []), free_encoder_input = (\<lambda>r i x. x - {i}), ec_has_cache_item = None,
     ec_update_state_after_alloc = (\<lambda>r i x. x) \<rparr>"

definition demo_encoder_config :: encoder_config where
  "demo_encoder_config = \<lparr> is_encoder_decoder = False, disable_chunked_mm_input = False, ec_use_eagle = True \<rparr>"

definition demo_mm_request :: "nat sched_request" where
  "demo_mm_request = (demo_sched_request 0 0)\<lparr> has_encoder_inputs := True,
     mm_features := [demo_feature ''a'' 10, demo_feature ''b'' 40] \<rparr>"

lemma demo_cache: "cache_contract demo_encoder r (\<lambda>x. x)"
  by (auto simp: cache_contract_def demo_encoder_def)

lemma nth_takeWhile_holds: "i < length (takeWhile P xs) \<Longrightarrow> P (xs ! i)"
  by (metis nth_mem set_takeWhileD takeWhile_nth)

lemma demo_window: "window_contract demo_encoder r"
  unfolding window_contract_def demo_encoder_def encoder_ext.simps prod.inject
  using nth_takeWhile_holds[of _ "\<lambda>f. mm_offset f < _"] length_takeWhile_le by blast

lemma demo_features: "features_ok demo_encoder_config demo_mm_request"
  by (simp add: features_ok_def demo_mm_request_def demo_encoder_config_def)

text \<open>With a budget of thirty the second item is run.\<close>

theorem granted_tokens_have_their_inputs_witness:
  "\<exists>a. try_schedule_encoder_inputs demo_encoder demo_encoder_config demo_mm_request 5 60 30 1 {} = Inr a
    \<and> acc_num_new_tokens a = 60 \<and> encoder_inputs_to_schedule a = [1] \<and> acc_budget a = 20
    \<and> \<not> remote_item demo_encoder (mm_features demo_mm_request ! 1)"
proof -
  have "case try_schedule_encoder_inputs demo_encoder demo_encoder_config demo_mm_request 5 60 30 1 {} of
      Inl e \<Rightarrow> False | Inr a \<Rightarrow> acc_num_new_tokens a = 60 \<and> encoder_inputs_to_schedule a = [1] \<and> acc_budget a = 20"
    by code_simp
  moreover have "sorted (map mm_offset (mm_features demo_mm_request))" by (simp add: demo_mm_request_def demo_feature_def)
  ultimately show ?thesis
    using granted_tokens_have_their_inputs[of demo_encoder demo_mm_request "\<lambda>x. x" demo_encoder_config 60 5 30 1 "{}",
      OF demo_cache demo_window demo_features]
    by auto
qed

lemma demo_encoder_result:
  "(case try_schedule_encoder_inputs demo_encoder demo_encoder_config demo_mm_request 5 60 8 1 {} of
      Inl e \<Rightarrow> False | Inr a \<Rightarrow> acc_num_new_tokens a = 34 \<and> acc_cache a = {0})"
  by code_simp

end
