(* ===== verification/Sched_Running_Props.thy ===== *)
theory Sched_Running_Props
  imports Sched_Running Sched_Encoder_Props Kv_Manager_Props
begin

text \<open>
  Properties of the loop over the running requests: from a well-formed queue it returns, it keeps the budgets of
  the step, and its books and queues agree.
\<close>

section \<open>Well-formed requests and their share of the budget\<close>

text \<open>
  A running request: what is computed is known or in flight and leaves room for the next samples, and its
  multimodal items are as the encoder part needs them.
\<close>

definition request_wf :: "('x, 'h) encoder_ext \<Rightarrow> running_config \<Rightarrow> 'h sched_request \<Rightarrow> bool" where
  "request_wf E C r \<longleftrightarrow> status r = RUNNING
     \<and> num_computed_tokens r \<le> num_tokens r + num_output_placeholders r
     \<and> num_computed_tokens r + run_sampled_tokens_per_step C \<le> max_model_len C
     \<and> window_contract E r \<and> features_ok (encoder_cfg C) r"

definition split_ok :: "running_config \<Rightarrow> bool" where
  "split_ok C \<longleftrightarrow> (\<forall>cfg. split_when_aligned C = Some cfg \<longrightarrow> 0 < block_size cfg)"

lemma request_wf_drafts [simp]: "request_wf E C (r\<lparr> spec_token_ids := ds \<rparr>) = request_wf E C r"
  by (simp add: request_wf_def window_contract_def features_ok_def)

lemma split_bounds:
  assumes "0 < block_size cfg" "0 \<le> n"
  shows "0 \<le> mamba_block_aligned_split cfg r n 0 0" "mamba_block_aligned_split cfg r n 0 0 \<le> n"
proof -
  let ?e = "aligned_chunk_end cfg (num_computed_tokens r) (max (num_prompt_tokens r) (num_tokens r - 1)) (num_computed_tokens r + n)"
  have "first_stop (num_computed_tokens r) stops ?e \<le> num_computed_tokens r + n" for stops
    using first_stop_cases(2)[of "num_computed_tokens r" stops ?e] aligned_chunk_end_cases(1)[OF assms(1)]
    by (rule order_trans)
  then show "0 \<le> mamba_block_aligned_split cfg r n 0 0" "mamba_block_aligned_split cfg r n 0 0 \<le> n"
    using assms(2) by (auto simp: mamba_block_aligned_split_def Let_def algebra_simps)
qed

lemma tokens_to_schedule_bounds:
  assumes "request_wf E C r" "0 < token_budget st" "let_through L st q r"
  shows "0 \<le> tokens_to_schedule C L st r" "tokens_to_schedule C L st r \<le> token_budget st"
    and "gated_prefill (gate st) r \<Longrightarrow>
      tokens_to_schedule C L st r \<le> prefill_token_budget L - prefill_tokens_scheduled st"
  using assms
  by (auto simp: tokens_to_schedule_def request_wf_def let_through_def num_tokens_with_spec_def Let_def)

lemma trial_bounds:
  assumes "request_wf E C r" "0 < token_budget st" "let_through L st q r" "split_ok C"
  shows "\<exists>n a. trial E C L st r = Inr (n, a) \<and> 0 \<le> n \<and> n \<le> token_budget st
    \<and> (gated_prefill (gate st) r \<longrightarrow> n \<le> prefill_token_budget L - prefill_tokens_scheduled st)"
proof -
  note t = tokens_to_schedule_bounds[OF assms(1-3)]
  have "cache_contract E r (\<lambda>_. UNIV)" "window_contract E r" "features_ok (encoder_cfg C) r"
    using assms(1) by (simp_all add: cache_contract_def request_wf_def)
  then obtain a where a: "try_schedule_encoder_inputs E (encoder_cfg C) r (num_computed_tokens r) (tokens_to_schedule C L st r)
      (encoder_compute_budget st) (if ec_use_eagle (encoder_cfg C) then 1 else 0) (encoder_cache (sched st)) = Inr a"
    and b: "0 \<le> acc_num_new_tokens a" "acc_num_new_tokens a \<le> tokens_to_schedule C L st r"
    using encoder_bounds[OF _ _ _ t(1)] by metis
  define n where "n = (case split_when_aligned C of None \<Rightarrow> acc_num_new_tokens a
    | Some cfg \<Rightarrow> mamba_block_aligned_split cfg (request.truncate r) (acc_num_new_tokens a) 0 0)"
  have "0 \<le> n" "n \<le> acc_num_new_tokens a"
    using b(1) assms(4) split_bounds by (auto simp: n_def split_ok_def split: option.splits)
  moreover have "trial E C L st r = Inr (n, a)" by (simp add: trial_def a n_def)
  ultimately show ?thesis using b(2) t(2,3) by (meson order_trans)
qed

section \<open>The invariant\<close>

text \<open>
  The queue: what is left of it in the old order, and the preempted requests without tokens.
\<close>

definition queue_ok ::
  "('x, 'h) encoder_ext \<Rightarrow> running_config \<Rightarrow> string list \<Rightarrow> ('c, 'x, 'q, 'h) run_state \<Rightarrow> bool" where
  "queue_ok E C ids st \<longleftrightarrow> distinct ids
     \<and> running_ids st = filter (\<lambda>q. q \<notin> set (preempted_reqs st)) ids \<and> set (preempted_reqs st) \<subseteq> set ids
     \<and> (\<forall>q \<in> set (running_ids st). \<exists>r. requests (sched st) q = Some r \<and> request_id r = q \<and> request_wf E C r)
     \<and> (\<forall>p \<in> set (preempted_reqs st). \<exists>r. requests (sched st) p = Some r
          \<and> status r = PREEMPTED \<and> num_computed_tokens r = 0)"

abbreviation amount :: "('c, 'x, 'q, 'h) run_state \<Rightarrow> string \<Rightarrow> int" where
  "amount st q \<equiv> the (num_scheduled_tokens st q)"

text \<open>The books: each scheduled request has tokens and blocks, and the tokens are taken from the budget.\<close>

definition books_ok :: "int \<Rightarrow> ('c, 'x, 'q, 'h) run_state \<Rightarrow> bool" where
  "books_ok B st \<longleftrightarrow> distinct (scheduled_running_reqs st)
     \<and> dom (num_scheduled_tokens st) = set (scheduled_running_reqs st)
     \<and> dom (req_to_new_blocks st) = set (scheduled_running_reqs st)
     \<and> (\<forall>q \<in> set (scheduled_running_reqs st). 0 < amount st q)
     \<and> token_budget st + (\<Sum>q \<in> set (scheduled_running_reqs st). amount st q) = B
     \<and> 0 \<le> token_budget st"

text \<open>The scheduled requests come before the index of the loop.\<close>

definition place_ok :: "('c, 'x, 'q, 'h) run_state \<Rightarrow> bool" where
  "place_ok st \<longleftrightarrow> 0 \<le> req_index st
     \<and> set (scheduled_running_reqs st) \<subseteq> set (take (nat (req_index st)) (running_ids st))"

definition scheduled_prefills :: "('c, 'x, 'q, 'h) run_state \<Rightarrow> string set" where
  "scheduled_prefills st = {q \<in> set (scheduled_running_reqs st).
     \<exists>r. requests (sched st) q = Some r \<and> gated_prefill (gate st) r}"

definition prefill_ok :: "step_limits \<Rightarrow> ('c, 'x, 'q, 'h) run_state \<Rightarrow> bool" where
  "prefill_ok L st \<longleftrightarrow>
     (\<Sum>q \<in> scheduled_prefills st. amount st q) \<le> prefill_tokens_scheduled st
     \<and> prefill_tokens_scheduled st \<le> max 0 (prefill_token_budget L)
     \<and> (\<forall>q \<in> scheduled_prefills st. \<forall>r. requests (sched st) q = Some r \<longrightarrow>
          is_long_prefill_request (gate st) (request.truncate r) \<longrightarrow> q \<in> selected_long_prefill_ids L)"

definition run_inv ::
  "('x, 'h) encoder_ext \<Rightarrow> running_config \<Rightarrow> step_limits \<Rightarrow> string list \<Rightarrow> int \<Rightarrow> ('c, 'x, 'q, 'h) run_state \<Rightarrow> bool" where
  "run_inv E C L ids B st \<longleftrightarrow> queue_ok E C ids st \<and> books_ok B st \<and> place_ok st \<and> prefill_ok L st"

lemma queue_ok_request:
  "queue_ok E C ids st \<Longrightarrow> q \<in> set (running_ids st) \<Longrightarrow>
   \<exists>r. requests (sched st) q = Some r \<and> request_id r = q \<and> request_wf E C r"
  unfolding queue_ok_def by blast

text \<open>What does not touch these fields keeps the invariant.\<close>

lemma run_inv_cong:
  assumes "running_ids st' = running_ids st" "preempted_reqs st' = preempted_reqs st"
    "requests (sched st') = requests (sched st)" "scheduled_running_reqs st' = scheduled_running_reqs st"
    "num_scheduled_tokens st' = num_scheduled_tokens st" "req_to_new_blocks st' = req_to_new_blocks st"
    "token_budget st' = token_budget st" "prefill_tokens_scheduled st' = prefill_tokens_scheduled st"
    "gate st' = gate st" "req_index st \<le> req_index st'"
  shows "run_inv E C L ids B st \<Longrightarrow> run_inv E C L ids B st'"
proof -
  assume inv: "run_inv E C L ids B st"
  have "queue_ok E C ids st' = queue_ok E C ids st" by (simp only: queue_ok_def assms(1-3))
  moreover have "books_ok B st' = books_ok B st" by (simp only: books_ok_def assms(4-7))
  moreover have "prefill_ok L st' = prefill_ok L st"
    by (simp only: prefill_ok_def scheduled_prefills_def assms(3-9))
  moreover have "set (take (nat (req_index st)) xs) \<subseteq> set (take (nat (req_index st')) xs)" for xs :: "string list"
    using assms(10) by (intro set_take_subset_set_take) simp
  then have "place_ok st \<Longrightarrow> place_ok st'"
    using assms(10) unfolding place_ok_def assms(1,4) by (meson order_trans)
  ultimately show "run_inv E C L ids B st'" using inv by (simp add: run_inv_def)
qed

lemma run_inv_kv [simp]:
  "run_inv E C L ids B st \<Longrightarrow> run_inv E C L ids B (st\<lparr> sched := (sched st)\<lparr> kv_manager := m \<rparr> \<rparr>)"
  "run_inv E C L ids B st \<Longrightarrow> run_inv E C L ids B (st\<lparr> sched := (sched st)\<lparr> encoder_cache := x \<rparr> \<rparr>)"
  "run_inv E C L ids B st \<Longrightarrow> run_inv E C L ids B (st\<lparr> gate_skipped_running := i, long_prefill_gate_skips := j \<rparr>)"
  "run_inv E C L ids B st \<Longrightarrow> run_inv E C L ids B (next_request st)"
  by (erule run_inv_cong[rotated -1]; simp add: next_request_def)+

section \<open>Preemption keeps it\<close>

text \<open>While a request gets its blocks, it is in the queue, at the index or before it, and not yet scheduled.\<close>

definition pending_ok :: "running_config \<Rightarrow> string \<Rightarrow> ('c, 'x, 'q, 'h) run_state \<Rightarrow> bool" where
  "pending_ok C q st \<longleftrightarrow> q \<in> set (take (nat (req_index st) + 1) (running_ids st))
     \<and> q \<notin> set (scheduled_running_reqs st)
     \<and> (sched_policy C = FCFS \<longrightarrow> nat (req_index st) < length (running_ids st)
          \<and> running_ids st ! nat (req_index st) = q)"

lemma take_remove1:
  assumes "distinct xs"
  shows "set (take k xs) - {p} \<subseteq> set (take k (remove1 p xs))"
    and "p \<in> set (take k xs) \<Longrightarrow> set (take (k - 1) (remove1 p xs)) = set (take k xs) - {p}"
proof -
  show "set (take k xs) - {p} \<subseteq> set (take k (remove1 p xs))"
    using assms
  proof (induction xs arbitrary: k)
    case (Cons y ys)
    show ?case
    proof (cases k)
      case (Suc j)
      then show ?thesis
        using Cons.IH[of j] Cons.prems set_take_subset_set_take[of j "Suc j" ys] by auto
    qed simp
  qed simp
  show "p \<in> set (take k xs) \<Longrightarrow> set (take (k - 1) (remove1 p xs)) = set (take k xs) - {p}"
    using assms
  proof (induction xs arbitrary: k)
    case (Cons y ys)
    then obtain j where k: "k = Suc j" by (cases k) auto
    show ?case
    proof (cases "p = y")
      case True
      then show ?thesis using Cons.prems(2) k by (auto dest: in_set_takeD)
    next
      case False
      then have "p \<in> set (take j ys)" using Cons.prems(1) k by simp
      moreover from this have "0 < j" by (cases j) auto
      ultimately show ?thesis using Cons.IH[of j] Cons.prems(2) False k by (cases j) auto
    qed
  qed simp
qed

lemma remove1_last: "distinct xs \<Longrightarrow> xs \<noteq> [] \<Longrightarrow> butlast xs = remove1 (last xs) xs"
  by (induction xs) (auto simp: last_ConsR)

lemma victim_total:
  assumes "queue_ok E C ids st" "running_ids st \<noteq> []"
  shows "\<exists>p. victim C st = Inr p"
proof (cases "sched_policy C")
  case PRIORITY
  define key where "key q = (let r = the (requests (sched st) q) in (q, priority r, arrival_time r))" for q
  have "map_res (\<lambda>q. res_bind (lookup_request (sched st) q) (\<lambda>r. Inr (q, priority r, arrival_time r)))
      (running_ids st) = Inr (map key (running_ids st))"
    using assms(1) by (intro map_res_all_Inr) (force simp: queue_ok_def lookup_request_def key_def)
  then show ?thesis using assms(2) PRIORITY by (cases "running_ids st") (auto simp: victim_def)
qed (use assms(2) in \<open>simp add: victim_def\<close>)

text \<open>What a preemption does to the fields of the invariant.\<close>

definition removes :: "string \<Rightarrow> ('c, 'x, 'q, 'h) run_state \<Rightarrow> ('c, 'x, 'q, 'h) run_state \<Rightarrow> bool" where
  "removes p st st' \<longleftrightarrow> running_ids st' = remove1 p (running_ids st)
     \<and> preempted_reqs st' = preempted_reqs st @ [p]
     \<and> (\<exists>r. requests (sched st') = (requests (sched st))(p \<mapsto> r) \<and> status r = PREEMPTED \<and> num_computed_tokens r = 0)
     \<and> gate st' = gate st \<and> prefill_tokens_scheduled st' = prefill_tokens_scheduled st
     \<and> scheduled_running_reqs st' = remove1 p (scheduled_running_reqs st)
     \<and> num_scheduled_tokens st' = (num_scheduled_tokens st)(p := None)
     \<and> req_to_new_blocks st' = (req_to_new_blocks st)(p := None)
     \<and> token_budget st' = token_budget st + (if p \<in> set (scheduled_running_reqs st) then amount st p else 0)
     \<and> req_index st' = req_index st - (if p \<in> set (scheduled_running_reqs st) then 1 else 0)"

lemma queue_ok_removes:
  assumes "removes p st st'" "queue_ok E C ids st" "p \<in> set (running_ids st)"
  shows "queue_ok E C ids st'"
proof -
  have "remove1 p (filter P ids) = filter (\<lambda>q. q \<noteq> p \<and> P q) ids" for P
    using assms(2) unfolding queue_ok_def
    by (simp add: distinct_remove1_removeAll removeAll_filter_not_eq) (rule filter_cong, auto)
  then show ?thesis using assms by (auto simp: queue_ok_def removes_def)
qed

lemma books_ok_removes:
  assumes "removes p st st'" "books_ok B st"
  shows "books_ok B st'"
proof -
  let ?S = "set (scheduled_running_reqs st)"
  have S': "set (scheduled_running_reqs st') = ?S - {p}" "distinct (scheduled_running_reqs st')"
    using assms by (auto simp: removes_def books_ok_def)
  have am: "\<forall>q \<in> ?S - {p}. amount st' q = amount st q" using assms(1) by (simp add: removes_def)
  have "(\<Sum>q \<in> ?S - {p}. amount st' q) = (\<Sum>q \<in> ?S - {p}. amount st q)" using am by (intro sum.cong) auto
  also have "\<dots> = (\<Sum>q \<in> ?S. amount st q) - (if p \<in> ?S then amount st p else 0)" by (simp add: sum_diff1)
  finally have sum: "(\<Sum>q \<in> ?S - {p}. amount st' q) = (\<Sum>q \<in> ?S. amount st q) - (if p \<in> ?S then amount st p else 0)" .
  have tb: "token_budget st' = token_budget st + (if p \<in> ?S then amount st p else 0)"
    "dom (num_scheduled_tokens st') = dom (num_scheduled_tokens st) - {p}"
    "dom (req_to_new_blocks st') = dom (req_to_new_blocks st) - {p}"
    using assms(1) by (auto simp: removes_def split: if_splits)
  have pos: "\<forall>q \<in> ?S. 0 < amount st q" "0 \<le> token_budget st" "token_budget st + (\<Sum>q \<in> ?S. amount st q) = B"
    "dom (num_scheduled_tokens st) = ?S" "dom (req_to_new_blocks st) = ?S"
    using assms(2) by (auto simp: books_ok_def)
  have "0 \<le> token_budget st'" using tb(1) pos(1,2) by (auto split: if_splits)
  moreover have "\<forall>q \<in> ?S - {p}. 0 < amount st' q" using am pos(1) by simp
  ultimately show ?thesis
    unfolding books_ok_def S'(1) sum using S'(2) tb(2,3) pos tb(1) by (auto split: if_splits)
qed

lemma place_ok_removes:
  assumes "removes p st st'" "place_ok st" "distinct (running_ids st)" "distinct (scheduled_running_reqs st)"
  shows "place_ok st'"
proof (cases "p \<in> set (scheduled_running_reqs st)")
  case True
  then have p: "p \<in> set (take (nat (req_index st)) (running_ids st))" using assms(2) by (auto simp: place_ok_def)
  then have "0 < req_index st" using assms(2) by (cases "req_index st = 0") (auto simp: place_ok_def)
  then have "nat (req_index st') = nat (req_index st) - 1" "0 \<le> req_index st'"
    using assms(1) True by (auto simp: removes_def nat_diff_distrib)
  then show ?thesis
    using take_remove1(2)[OF assms(3) p] assms(1,2,4) by (auto simp: place_ok_def removes_def)
next
  case False
  then have "set (scheduled_running_reqs st') = set (scheduled_running_reqs st)" "req_index st' = req_index st"
    "running_ids st' = remove1 p (running_ids st)"
    using assms(1) by (simp_all add: removes_def remove1_idem)
  moreover have "set (scheduled_running_reqs st) \<subseteq> set (take (nat (req_index st)) (running_ids st)) - {p}"
    using assms(2) False by (auto simp: place_ok_def)
  ultimately show ?thesis
    using take_remove1(1)[OF assms(3), of "nat (req_index st)" p] assms(2)
    unfolding place_ok_def by (metis order_trans)
qed

lemma scheduled_prefills_removes:
  assumes "removes p st st'" "distinct (scheduled_running_reqs st)"
  shows "scheduled_prefills st' = scheduled_prefills st - {p}"
  using assms by (auto simp: scheduled_prefills_def removes_def)

lemma prefill_ok_removes:
  assumes "removes p st st'" "prefill_ok L st" "books_ok B st"
  shows "prefill_ok L st'"
proof -
  have S: "scheduled_prefills st' = scheduled_prefills st - {p}"
    using assms(3) scheduled_prefills_removes[OF assms(1)] by (simp add: books_ok_def)
  have "(\<Sum>q \<in> scheduled_prefills st - {p}. amount st' q) = (\<Sum>q \<in> scheduled_prefills st - {p}. amount st q)"
    using assms(1) by (intro sum.cong) (auto simp: removes_def)
  also have "\<dots> \<le> (\<Sum>q \<in> scheduled_prefills st. amount st q)"
    using assms(3) by (intro sum_mono2) (auto simp: scheduled_prefills_def books_ok_def less_imp_le)
  finally show ?thesis
    using assms(1,2) unfolding prefill_ok_def S by (auto simp: removes_def)
qed

lemma run_inv_removes:
  assumes "removes p st st'" "run_inv E C L ids B st" "p \<in> set (running_ids st)"
  shows "run_inv E C L ids B st'"
proof -
  have "distinct (running_ids st)" "distinct (scheduled_running_reqs st)"
    using assms(2) by (auto simp: run_inv_def queue_ok_def books_ok_def)
  then show ?thesis
    using assms queue_ok_removes books_ok_removes place_ok_removes prefill_ok_removes
    unfolding run_inv_def by blast
qed

lemma pending_ok_removes:
  assumes "removes p st st'" "run_inv E C L ids B st" "pending_ok C q st" "p \<noteq> q" "p \<in> set (running_ids st)"
    and "sched_policy C = FCFS \<Longrightarrow> p = last (running_ids st)"
  shows "pending_ok C q st'"
proof -
  have d: "distinct (running_ids st)" "place_ok st" "distinct (scheduled_running_reqs st)"
    using assms(2) by (auto simp: run_inv_def queue_ok_def books_ok_def)
  let ?k = "nat (req_index st)"
  have q: "q \<in> set (take (?k + 1) (running_ids st))" "q \<notin> set (scheduled_running_reqs st')"
    using assms(1,3) d(3) by (auto simp: pending_ok_def removes_def)
  have "q \<in> set (take (nat (req_index st') + 1) (running_ids st'))"
  proof (cases "p \<in> set (scheduled_running_reqs st)")
    case True
    then have p: "p \<in> set (take ?k (running_ids st))" using d(2) by (auto simp: place_ok_def)
    then have "0 < ?k" by (cases ?k) auto
    then have "nat (req_index st') + 1 = ?k + 1 - 1" using assms(1) True by (simp add: removes_def)
    moreover have "p \<in> set (take (?k + 1) (running_ids st))"
      using p set_take_subset_set_take[of ?k "?k + 1" "running_ids st"] by auto
    then have "set (take (?k + 1 - 1) (remove1 p (running_ids st))) = set (take (?k + 1) (running_ids st)) - {p}"
      by (rule take_remove1(2)[OF d(1)])
    moreover have "running_ids st' = remove1 p (running_ids st)" using assms(1) by (simp add: removes_def)
    ultimately show ?thesis using \<open>nat (req_index st') + 1 = ?k + 1 - 1\<close> q(1) assms(4) by simp
  next
    case False
    then show ?thesis
      using take_remove1(1)[OF d(1), of "?k + 1" p] q(1) assms(1,4) by (auto simp: removes_def)
  qed
  moreover have "?k < length (running_ids st') \<and> running_ids st' ! nat (req_index st') = q" if f: "sched_policy C = FCFS"
  proof -
    let ?xs = "running_ids st"
    have k: "?k < length ?xs" "?xs ! ?k = q" "p = last ?xs" using assms(3,6) f by (auto simp: pending_ok_def)
    have ne: "?xs \<noteq> []" using assms(5) by auto
    have "?k \<noteq> length ?xs - 1" using k assms(4) last_conv_nth[OF ne] by auto
    then have lt: "?k < length ?xs - 1" using k(1) by linarith
    have r: "running_ids st' = butlast ?xs"
      using assms(1) remove1_last[OF d(1) ne] k(3) by (simp add: removes_def)
    have "p \<notin> set (take ?k ?xs)"
      using d(1) lt k(3) last_conv_nth[OF ne] by (auto simp: in_set_conv_nth nth_eq_iff_index_eq)
    then have "req_index st' = req_index st" using assms(1) d(2) by (auto simp: removes_def place_ok_def)
    then show ?thesis using lt k(2) r by (simp add: nth_butlast)
  qed
  moreover have "nat (req_index st') < length (running_ids st')" if f: "sched_policy C = FCFS"
    using calculation(2)[OF f] assms(1) by (auto simp: removes_def)
  ultimately show ?thesis using q(2) by (simp add: pending_ok_def)
qed

lemma release_requests [simp]: "requests (release_request_blocks K r s) = requests s"
  by (simp add: release_request_blocks_def Let_def split: prod.splits)

lemma preempted_simps [simp]: "status (preempted dropping r) = PREEMPTED" "num_computed_tokens (preempted dropping r) = 0"
  by (simp_all add: preempted_def)

lemma preempt_request_ok:
  assumes "status r = RUNNING"
  shows "\<exists>s' r'. preempt_request K X r dropping s = Inr s' \<and> requests s' = (requests s)(request_id r \<mapsto> r')
    \<and> status r' = PREEMPTED \<and> num_computed_tokens r' = 0"
  using assms by (simp add: preempt_request_def Let_def) (rule exI[of _ "preempted dropping r"], simp)

lemma take_victim_ok:
  assumes "run_inv E C L ids B st" "pending_ok C q st"
  shows "\<exists>p st1. take_victim R C st = Inr (p, st1) \<and> p \<in> set (running_ids st)
    \<and> (sched_policy C = FCFS \<longrightarrow> p = last (running_ids st))
    \<and> requests (sched st1) = requests (sched st)
    \<and> (\<forall>s r. requests s = (requests (sched st))(p \<mapsto> r) \<longrightarrow> status r = PREEMPTED \<longrightarrow> num_computed_tokens r = 0
         \<longrightarrow> removes p st (st1\<lparr> sched := s, preempted_reqs := preempted_reqs st1 @ [p] \<rparr>))"
proof -
  have inv: "queue_ok E C ids st" "books_ok B st" "place_ok st" using assms(1) by (auto simp: run_inv_def)
  have d: "distinct (running_ids st)" using inv(1) by (auto simp: queue_ok_def)
  have ne: "running_ids st \<noteq> []" using assms(2) by (auto simp: pending_ok_def)
  obtain p where v: "victim C st = Inr p" using victim_total[OF inv(1) ne] by blast
  have p: "p \<in> set (running_ids st)" using v by (rule victim_mem)
  have dom: "p \<in> set (scheduled_running_reqs st) \<longleftrightarrow> num_scheduled_tokens st p \<noteq> None"
    "p \<in> set (scheduled_running_reqs st) \<longleftrightarrow> req_to_new_blocks st p \<noteq> None"
    using inv(2) by (auto simp: books_ok_def dom_def)
  show ?thesis
  proof (cases "p \<in> set (scheduled_running_reqs st)")
    case False
    then have same: "remove1 p (scheduled_running_reqs st) = scheduled_running_reqs st"
      "(num_scheduled_tokens st)(p := None) = num_scheduled_tokens st"
      "(req_to_new_blocks st)(p := None) = req_to_new_blocks st"
      using dom by (auto simp: remove1_idem fun_upd_idem)
    have "take_victim R C st = Inr (p, st\<lparr> running_ids := remove1 p (running_ids st) \<rparr>)
        \<and> (sched_policy C = FCFS \<longrightarrow> p = last (running_ids st))"
      using v ne False remove1_last[OF d ne] by (cases "sched_policy C") (auto simp: take_victim_def victim_def)
    then show ?thesis using p False same by (auto simp: removes_def)
  next
    case True
    have pr: "sched_policy C = PRIORITY"
    proof (rule ccontr)
      assume "sched_policy C \<noteq> PRIORITY"
      then have f: "sched_policy C = FCFS" by (cases "sched_policy C") auto
      then have "p = last (running_ids st)" using v ne by (simp add: victim_def)
      moreover have "nat (req_index st) < length (running_ids st)" using assms(2) f by (simp add: pending_ok_def)
      moreover have "p \<in> set (take (nat (req_index st)) (running_ids st))" using True inv(3) by (auto simp: place_ok_def)
      ultimately show False
        using d last_conv_nth[OF ne] by (auto simp: in_set_conv_nth nth_eq_iff_index_eq)
    qed
    obtain n where n: "num_scheduled_tokens st p = Some n" using True dom by auto
    obtain r where r: "requests (sched st) p = Some r" using inv(1) p unfolding queue_ok_def by blast
    have "req_to_new_blocks st p \<noteq> None" using True dom by blast
    then obtain st1 where "unschedule R p (st\<lparr> running_ids := remove1 p (running_ids st) \<rparr>) = Inr st1"
      and f: "running_ids st1 = remove1 p (running_ids st)" "preempted_reqs st1 = preempted_reqs st"
      "gate st1 = gate st" "prefill_tokens_scheduled st1 = prefill_tokens_scheduled st" "sched st1 = sched st"
      "scheduled_running_reqs st1 = remove1 p (scheduled_running_reqs st)"
      "num_scheduled_tokens st1 = (num_scheduled_tokens st)(p := None)"
      "req_to_new_blocks st1 = (req_to_new_blocks st)(p := None)"
      "token_budget st1 = token_budget st + n" "req_index st1 = req_index st - 1"
      using n r by (auto simp: unschedule_def lookup_request_def)
    then have "take_victim R C st = Inr (p, st1)" using v pr True by (simp add: take_victim_def)
    then show ?thesis using p f pr True n by (auto simp: removes_def)
  qed
qed

lemma preempt_victim_removes:
  assumes "run_inv E C L ids B st" "pending_ok C q st"
  shows "\<exists>p st'. preempt_victim K X R C st = Inr (p, st') \<and> removes p st st' \<and> p \<in> set (running_ids st)
    \<and> (sched_policy C = FCFS \<longrightarrow> p = last (running_ids st))"
proof -
  obtain p st1 where t: "take_victim R C st = Inr (p, st1)" "p \<in> set (running_ids st)"
    "sched_policy C = FCFS \<longrightarrow> p = last (running_ids st)" "requests (sched st1) = requests (sched st)"
    and rm: "\<And>s r. requests s = (requests (sched st))(p \<mapsto> r) \<Longrightarrow> status r = PREEMPTED \<Longrightarrow> num_computed_tokens r = 0
         \<Longrightarrow> removes p st (st1\<lparr> sched := s, preempted_reqs := preempted_reqs st1 @ [p] \<rparr>)"
    using take_victim_ok[OF assms] by blast
  obtain r where r: "requests (sched st) p = Some r" "request_id r = p" "status r = RUNNING"
    using queue_ok_request[OF _ t(2)] assms(1) unfolding run_inv_def request_wf_def by blast
  obtain s r' where pre: "preempt_request K X r (requires_kv_delivery C) (sched st1) = Inr s"
    "requests s = (requests (sched st1))(p \<mapsto> r')" "status r' = PREEMPTED" "num_computed_tokens r' = 0"
    using preempt_request_ok[OF r(3)] r(2) by metis
  have "preempt_victim K X R C st = Inr (p, st1\<lparr> sched := s, preempted_reqs := preempted_reqs st1 @ [p] \<rparr>)"
    using t(1,4) r(1) pre(1) by (simp add: preempt_victim_def lookup_request_def)
  then show ?thesis using rm[of s r'] pre t by simp
qed

section \<open>Allocation returns and keeps it\<close>

definition grown :: "('c, 'x, 'q, 'h) run_state \<Rightarrow> ('c, 'x, 'q, 'h) run_state \<Rightarrow> bool" where
  "grown st st' \<longleftrightarrow> token_budget st \<le> token_budget st' \<and> gate st' = gate st
     \<and> prefill_tokens_scheduled st' = prefill_tokens_scheduled st"

lemma removes_grown: "removes p st st' \<Longrightarrow> run_inv E C L ids B st \<Longrightarrow> grown st st'"
  by (auto simp: removes_def grown_def run_inv_def books_ok_def less_imp_le)

lemma allocate_slots_returns: "num_new_tokens a \<noteq> 0 \<Longrightarrow> \<exists>b m'. allocate_slots K r a m = (Inr b, m')"
  by (rule allocate_slots_cases[of a _ K m r, OF _ refl]) blast+

lemma allocate_or_preempt_ok:
  assumes "run_inv E C L ids B st" "pending_ok C q st" "n \<noteq> 0"
  shows "\<exists>b st'. allocate_or_preempt K X R C q r n st = Inr (b, st') \<and> run_inv E C L ids B st'
    \<and> grown st st' \<and> (b \<noteq> None \<longrightarrow> pending_ok C q st')"
  using assms(1,2)
proof (induction "length (running_ids st)" arbitrary: st rule: less_induct)
  case less
  obtain b0 m where as: "allocate_slots K (kv_request.truncate r) (slots_for C n) (kv_manager (sched st)) = (Inr b0, m)"
    using allocate_slots_returns[of "slots_for C n"] assms(3) by (fastforce simp: slots_for_def)
  let ?st1 = "st\<lparr> sched := (sched st)\<lparr> kv_manager := m \<rparr> \<rparr>"
  have I1: "run_inv E C L ids B ?st1" "pending_ok C q ?st1"
    using less.prems by (simp_all add: pending_ok_def)
  show ?case
  proof (cases b0)
    case (Some b)
    then have "allocate_or_preempt K X R C q r n st = Inr (Some b, ?st1)"
      by (subst allocate_or_preempt.simps) (simp add: as Let_def)
    then show ?thesis using I1 by (simp add: grown_def)
  next
    case None
    obtain p st2 where pv: "preempt_victim K X R C ?st1 = Inr (p, st2)" and rm: "removes p ?st1 st2"
      and p: "p \<in> set (running_ids ?st1)" "sched_policy C = FCFS \<longrightarrow> p = last (running_ids ?st1)"
      using preempt_victim_removes[OF I1] by blast
    have I2: "run_inv E C L ids B st2" using run_inv_removes[OF rm I1(1) p(1)] .
    have g: "grown st st2" using removes_grown[OF rm I1(1)] by (simp add: grown_def)
    have eq: "allocate_or_preempt K X R C q r n st =
        (if p = q then Inr (None, st2) else allocate_or_preempt K X R C q r n st2)"
      by (subst allocate_or_preempt.simps) (simp add: as None pv Let_def)
    show ?thesis
    proof (cases "p = q")
      case True
      then show ?thesis using eq I2 g by simp
    next
      case False
      have P2: "pending_ok C q st2" using pending_ok_removes[OF rm I1 False p(1)] p(2) by blast
      have "length (running_ids st2) < length (running_ids st)" using preempt_victim_shrinks(1)[OF pv] by simp
      from less.hyps[OF this I2 P2] obtain b st' where
        "allocate_or_preempt K X R C q r n st2 = Inr (b, st')" "run_inv E C L ids B st'" "grown st2 st'"
        "b \<noteq> None \<longrightarrow> pending_ok C q st'" by blast
      then show ?thesis using eq False g by (auto simp: grown_def)
    qed
  qed
qed

section \<open>The commit keeps it\<close>

lemma commit_simps [simp]:
  "running_ids (commit_running E q r n a b st) = running_ids st"
  "preempted_reqs (commit_running E q r n a b st) = preempted_reqs st"
  "requests (sched (commit_running E q r n a b st)) =
     (requests (sched st))(q \<mapsto> (if spec_token_ids r \<noteq> [] then r\<lparr> spec_token_ids := [] \<rparr> else r))"
  "scheduled_running_reqs (commit_running E q r n a b st) = scheduled_running_reqs st @ [q]"
  "num_scheduled_tokens (commit_running E q r n a b st) = (num_scheduled_tokens st)(q \<mapsto> n)"
  "req_to_new_blocks (commit_running E q r n a b st) = (req_to_new_blocks st)(q \<mapsto> b)"
  "token_budget (commit_running E q r n a b st) = token_budget st - n"
  "req_index (commit_running E q r n a b st) = req_index st + 1"
  "prefill_tokens_scheduled (commit_running E q r n a b st) =
     prefill_tokens_scheduled st + (if gated_prefill (gate st) r then n else 0)"
  by (simp_all add: commit_running_def Let_def)

lemma gate_commit [simp]:
  "gated_prefill (gate (commit_running E q r n a b st)) r' = gated_prefill (gate st) r'"
  "is_long_prefill_request (gate (commit_running E q r n a b st)) t = is_long_prefill_request (gate st) t"
  by (simp_all add: commit_running_def Let_def gated_prefill_def is_long_prefill_request_def)

lemma drafts_cleared [simp]:
  "gated_prefill g (r\<lparr> spec_token_ids := ds \<rparr>) = gated_prefill g r"
  "request.truncate (r\<lparr> spec_token_ids := ds \<rparr>) = request.truncate r"
  by (simp_all add: gated_prefill_def request.truncate_def)

lemma books_ok_commit:
  assumes "books_ok B st" "q \<notin> set (scheduled_running_reqs st)" "0 < n" "n \<le> token_budget st"
  shows "books_ok B (commit_running E q r n a b st)"
proof -
  have "(\<Sum>x \<in> set (scheduled_running_reqs st). the (((num_scheduled_tokens st)(q \<mapsto> n)) x))
      = (\<Sum>x \<in> set (scheduled_running_reqs st). amount st x)"
    using assms(2) by (intro sum.cong) auto
  then show ?thesis using assms by (auto simp: books_ok_def)
qed

lemma prefill_ok_commit:
  assumes "prefill_ok L st" "q \<notin> set (scheduled_running_reqs st)" "0 < n"
    and "gated_prefill (gate st) r \<longrightarrow> n \<le> prefill_token_budget L - prefill_tokens_scheduled st"
    and "gated_prefill (gate st) r \<longrightarrow> is_long_prefill_request (gate st) (request.truncate r) \<longrightarrow> q \<in> selected_long_prefill_ids L"
  shows "prefill_ok L (commit_running E q r n a b st)"
proof -
  let ?st' = "commit_running E q r n a b st"
  have S: "scheduled_prefills ?st' = scheduled_prefills st \<union> (if gated_prefill (gate st) r then {q} else {})"
    using assms(2) by (auto simp: scheduled_prefills_def)
  have q: "q \<notin> scheduled_prefills st" "finite (scheduled_prefills st)" using assms(2) by (auto simp: scheduled_prefills_def)
  have "(\<Sum>x \<in> scheduled_prefills st. amount ?st' x) = (\<Sum>x \<in> scheduled_prefills st. amount st x)"
    using q(1) by (intro sum.cong) auto
  then have "(\<Sum>x \<in> scheduled_prefills ?st'. amount ?st' x)
      = (\<Sum>x \<in> scheduled_prefills st. amount st x) + (if gated_prefill (gate st) r then n else 0)"
    using q unfolding S by simp
  moreover have "\<forall>x \<in> scheduled_prefills ?st'. \<forall>r'. requests (sched ?st') x = Some r' \<longrightarrow>
      is_long_prefill_request (gate st) (request.truncate r') \<longrightarrow> x \<in> selected_long_prefill_ids L"
    using assms(1,5) q(1) unfolding S prefill_ok_def by (auto split: if_splits)
  ultimately show ?thesis using assms(1,4) unfolding prefill_ok_def gate_commit by (auto split: if_splits)
qed

lemma run_inv_commit:
  assumes "run_inv E C L ids B st" "pending_ok C q st" "request_id r = q" "request_wf E C r" "0 < n" "n \<le> token_budget st"
    and "gated_prefill (gate st) r \<longrightarrow> n \<le> prefill_token_budget L - prefill_tokens_scheduled st"
    and "gated_prefill (gate st) r \<longrightarrow> is_long_prefill_request (gate st) (request.truncate r) \<longrightarrow> q \<in> selected_long_prefill_ids L"
  shows "run_inv E C L ids B (commit_running E q r n a b st)"
proof -
  have inv: "queue_ok E C ids st" "books_ok B st" "place_ok st" "prefill_ok L st" using assms(1) by (auto simp: run_inv_def)
  have q: "q \<notin> set (scheduled_running_reqs st)" "q \<in> set (take (nat (req_index st) + 1) (running_ids st))"
    using assms(2) by (auto simp: pending_ok_def)
  then have "q \<in> set (running_ids st)" by (auto dest: in_set_takeD)
  then have "q \<notin> set (preempted_reqs st)" using inv(1) by (auto simp: queue_ok_def)
  then have "queue_ok E C ids (commit_running E q r n a b st)"
    using inv(1) assms(3,4) unfolding queue_ok_def by auto
  moreover have "set (take (nat (req_index st)) (running_ids st)) \<subseteq> set (take (nat (req_index st) + 1) (running_ids st))"
    by (rule set_take_subset_set_take) simp
  then have "place_ok (commit_running E q r n a b st)"
    using inv(3) q(2) by (auto simp: place_ok_def nat_add_distrib)
  ultimately show ?thesis
    using books_ok_commit[OF inv(2) q(1) assms(5,6)] prefill_ok_commit[OF inv(4) q(1) assms(5,7,8)]
    by (simp add: run_inv_def)
qed

section \<open>The loop\<close>

lemma run_step_ok:
  assumes "run_inv E C L ids B st" "req_index st < int (length (running_ids st))" "0 < token_budget st" "split_ok C"
  shows "\<exists>go_on st'. run_step K X E R C L st = Inr (go_on, st') \<and> run_inv E C L ids B st'"
proof -
  have inv: "queue_ok E C ids st" "place_ok st" using assms(1) by (auto simp: run_inv_def)
  let ?k = "nat (req_index st)" and ?q = "running_ids st ! nat (req_index st)"
  have k: "?k < length (running_ids st)" "0 \<le> req_index st" using inv(2) assms(2) by (auto simp: place_ok_def)
  have py: "py_index (running_ids st) (req_index st) = Inr ?q" using k by (simp add: py_index_def py_get_def)
  have "?q \<in> set (running_ids st)" using k by simp
  then obtain r where r: "requests (sched st) ?q = Some r" "request_id r = ?q" "request_wf E C r"
    using queue_ok_request[OF inv(1)] by blast
  have lk: "lookup_request (sched st) ?q = Inr r" using r(1) by (simp add: lookup_request_def)
  show ?thesis
  proof (cases "let_through L st ?q r")
    case False
    then have "run_step K X E R C L st = Inr (True, next_request st) \<or>
        run_step K X E R C L st = Inr (True, next_request (st\<lparr> gate_skipped_running := gate_skipped_running st + 1,
                                long_prefill_gate_skips := long_prefill_gate_skips st + 1 \<rparr>))"
      by (auto simp: run_step_def py lk let_through_def not_le)
    then show ?thesis using assms(1) by auto
  next
    case True
    obtain n a where t: "trial E C L st r = Inr (n, a)" "0 \<le> n" "n \<le> token_budget st"
      "gated_prefill (gate st) r \<longrightarrow> n \<le> prefill_token_budget L - prefill_tokens_scheduled st"
      using trial_bounds[OF r(3) assms(3) True assms(4)] by blast
    let ?st1 = "st\<lparr> sched := (sched st)\<lparr> encoder_cache := acc_cache a \<rparr> \<rparr>"
    have eq: "run_step K X E R C L st =
        (if n = 0 then Inr (True, next_request ?st1)
         else res_bind (allocate_or_preempt K X R C ?q r n ?st1) (\<lambda>(b, st2).
           Inr (case b of None \<Rightarrow> (False, st2) | Some b' \<Rightarrow> (True, commit_running E ?q r n a b' st2))))"
      using True by (auto simp: run_step_def py lk let_through_def Let_def not_less t(1))
    show ?thesis
    proof (cases "n = 0")
      case True
      then show ?thesis using assms(1) eq by auto
    next
      case nz: False
      have I1: "run_inv E C L ids B ?st1" using assms(1) by simp
      have "?q \<notin> set (take ?k (running_ids st))"
        using inv(1) k(1) by (auto simp: queue_ok_def in_set_conv_nth nth_eq_iff_index_eq)
      then have P1: "pending_ok C ?q ?st1"
        using inv(2) k(1) by (auto simp: pending_ok_def place_ok_def take_Suc_conv_app_nth)
      obtain b st2 where al: "allocate_or_preempt K X R C ?q r n ?st1 = Inr (b, st2)" "run_inv E C L ids B st2"
        "grown ?st1 st2" "b \<noteq> None \<longrightarrow> pending_ok C ?q st2"
        using allocate_or_preempt_ok[OF I1 P1 nz] by blast
      show ?thesis
      proof (cases b)
        case None
        then show ?thesis using eq nz al by auto
      next
        case (Some b')
        have "gated_prefill (gate st) r \<longrightarrow> is_long_prefill_request (gate st) (request.truncate r) \<longrightarrow>
            ?q \<in> selected_long_prefill_ids L"
          using True by (auto simp: let_through_def gated_prefill_def)
        then have "run_inv E C L ids B (commit_running E ?q r n a b' st2)"
          using al Some r(2,3) t(2-4) nz by (intro run_inv_commit) (auto simp: grown_def)
        then show ?thesis using eq nz al(1) Some by auto
      qed
    qed
  qed
qed

lemma running_loop_ok:
  assumes "run_inv E C L ids B st" "split_ok C"
  shows "\<exists>st'. running_loop K X E R C L st = Inr st' \<and> run_inv E C L ids B st'"
  using assms
proof (induction K X E R C L st rule: running_loop.induct)
  case (1 K X E R C L st)
  show ?case
  proof (cases "req_index st < int (length (running_ids st)) \<and> 0 < token_budget st")
    case True
    obtain go_on st1 where s: "run_step K X E R C L st = Inr (go_on, st1)" "run_inv E C L ids B st1"
      using run_step_ok[OF "1.prems"(1) _ _ "1.prems"(2)] True by blast
    have "running_loop K X E R C L st = (if go_on then running_loop K X E R C L st1 else Inr st1)"
      by (subst running_loop.simps) (simp add: True s(1))
    then show ?thesis using "1.IH"[OF True s(1) refl _ s(2) "1.prems"(2)] s(2) by auto
  next
    case False
    then show ?thesis using "1.prems"(1) by (subst running_loop.simps) auto
  qed
qed

text \<open>The gate is only marked.\<close>

definition same_gate :: "scheduler \<Rightarrow> ('c, 'x, 'q, 'h) run_state \<Rightarrow> bool" where
  "same_gate g st \<longleftrightarrow> (\<exists>m. gate st = g\<lparr> long_prefill_last_scheduled := m \<rparr>)"

lemma preempt_victim_gate: "preempt_victim K X R C st = Inr (p, st') \<Longrightarrow> gate st' = gate st"
  by (cases "sched_policy C")
    (auto simp: preempt_victim_def take_victim_def unschedule_def res_simps Let_def split: option.splits if_splits)

text \<open>A property of the state that each elementary change keeps is kept by the loop.\<close>

lemma running_loop_keeps:
  assumes "running_loop K X E R C L st = Inr st'" and "I st"
    and nxt: "\<And>st. I st \<Longrightarrow> I (next_request st)"
    and lost: "\<And>st i j. I st \<Longrightarrow> I (st\<lparr> gate_skipped_running := i, long_prefill_gate_skips := j \<rparr>)"
    and kv: "\<And>st m. I st \<Longrightarrow> I (st\<lparr> sched := (sched st)\<lparr> kv_manager := m \<rparr> \<rparr>)"
    and enc: "\<And>st x. I st \<Longrightarrow> I (st\<lparr> sched := (sched st)\<lparr> encoder_cache := x \<rparr> \<rparr>)"
    and pre: "\<And>st p st'. I st \<Longrightarrow> preempt_victim K X R C st = Inr (p, st') \<Longrightarrow> I st'"
    and com: "\<And>st st0 q r n a b. I st \<Longrightarrow> I st0 \<Longrightarrow> lookup_request (sched st0) q = Inr r \<Longrightarrow> I (commit_running E q r n a b st)"
  shows "I st'"
  using assms(1,2)
proof (induction "nat (distance st)" arbitrary: st rule: less_induct)
  case less
  show ?case
  proof (cases "req_index st < int (length (running_ids st)) \<and> 0 < token_budget st")
    case True
    then obtain go_on st1 where s: "run_step K X E R C L st = Inr (go_on, st1)"
      "(if go_on then running_loop K X E R C L st1 else Inr st1) = Inr st'"
      using less.prems(1) by (subst (asm) running_loop.simps) (auto split: sum.splits)
    have al: "I st2" if "allocate_or_preempt K X R C q r n (st\<lparr> sched := (sched st)\<lparr> encoder_cache := x \<rparr> \<rparr>) = Inr (b, st2)"
      for q r n x b st2
    proof -
      have "if b = None then I st2 else I st2"
        using that enc[OF less.prems(2)] by (rule allocate_or_preempt_keeps) (auto intro: kv pre)
      then show ?thesis by (simp split: if_splits)
    qed
    have I1: "I st1" using s(1)
    proof (cases rule: run_step_cases)
      case (given q r n a b st2)
      then show ?thesis using com[OF al[OF given(7)] less.prems(2) given(3)] by simp
    qed (use al in \<open>auto intro: nxt lost enc less.prems(2)\<close>)
    show ?thesis
    proof (cases go_on)
      case True
      then have "run_step K X E R C L st = Inr (True, st1)" using s(1) by simp
      then have "nat (distance st1) < nat (distance st)"
        using run_step_distance \<open>req_index st < _ \<and> _\<close> by (fastforce simp: distance_def)
      then show ?thesis using less.hyps[OF _ _ I1] s(2) True by simp
    qed (use s(2) I1 in simp)
  next
    case False
    then show ?thesis using less.prems by (subst (asm) running_loop.simps) auto
  qed
qed

lemma running_loop_gate: "running_loop K X E R C L st = Inr st' \<Longrightarrow> same_gate g st \<Longrightarrow> same_gate g st'"
  by (erule running_loop_keeps[where I = "same_gate g"])
    (auto simp: same_gate_def commit_running_def Let_def next_request_def preempt_victim_gate)

section \<open>One step over the running requests\<close>

text \<open>The running requests at the start of a step.\<close>

definition start_ok ::
  "('x, 'h) encoder_ext \<Rightarrow> running_config \<Rightarrow> string list \<Rightarrow> ('c, 'x, 'q, 'h) sched_state \<Rightarrow> bool" where
  "start_ok E C ids s \<longleftrightarrow> distinct ids \<and> split_ok C
     \<and> (\<forall>q \<in> set ids. \<exists>r. requests s q = Some r \<and> request_id r = q \<and> request_wf E C r)"

definition decoding_some :: "string list \<Rightarrow> ('c, 'x, 'q, 'h) sched_state \<Rightarrow> bool" where
  "decoding_some ids s \<longleftrightarrow> (\<exists>q \<in> set ids. \<exists>r. requests s q = Some r \<and> \<not> is_prefill_chunk r)"

definition prefill_limit :: "running_config \<Rightarrow> int \<Rightarrow> string list \<Rightarrow> ('c, 'x, 'q, 'h) sched_state \<Rightarrow> int" where
  "prefill_limit C M ids s =
     min (if decoding_some ids s then decode_prefill_token_budget C else idle_prefill_token_budget C) M"

lemma select_card:
  assumes "0 \<le> max_long_prefills_per_step g"
  shows "card (fst (select_long_prefill_request_ids g)) \<le> nat (max_long_prefills_per_step g)"
proof (cases "enable_decode_aware_prefill g")
  case True
  then show ?thesis using card_ids_take[OF assms] by (simp add: select_eq)
qed (simp add: select_long_prefill_request_ids_def)

lemma select_gate:
  "\<exists>m. snd (select_long_prefill_request_ids g) = g\<lparr> long_prefill_last_scheduled := m \<rparr>"
  by (cases "enable_decode_aware_prefill g")
    (auto simp: select_long_prefill_request_ids_def Let_def intro: exI[of _ "long_prefill_last_scheduled g"])

lemma schedule_start_ok:
  assumes "start_ok E C ids s" "0 \<le> M"
  shows "\<exists>L st g2. schedule_start K R C M throttle bound g skips ids s = Inr (L, st)
    \<and> run_inv E C L ids (if paused_all g then 0 else M) st \<and> same_gate g2 st
    \<and> enable_decode_aware_prefill g2 = enable_decode_aware_prefill g
    \<and> long_prefill_token_threshold g2 = long_prefill_token_threshold g
    \<and> (enable_decode_aware_prefill g \<longrightarrow> prefill_token_budget L = prefill_limit C M ids s)
    \<and> (0 \<le> max_long_prefills_per_step g \<longrightarrow>
        finite (selected_long_prefill_ids L) \<and> card (selected_long_prefill_ids L) \<le> nat (max_long_prefills_per_step g))"
proof -
  define rs where "rs = map (\<lambda>q. the (requests s q)) ids"
  have look: "map_res (lookup_request s) ids = Inr rs"
    unfolding rs_def using assms(1)
    by (intro map_res_all_Inr) (force simp: start_ok_def lookup_request_def)
  define g1 where "g1 = g\<lparr> current_step := current_step g + 1, running := map (\<lambda>r. request.truncate r) rs,
      waiting := queued_requests R (waiting_queue s) \<rparr>"
  obtain sel g2 where sel: "select_long_prefill_request_ids g1 = (sel, g2)" by fastforce
  obtain m where g2: "g2 = g1\<lparr> long_prefill_last_scheduled := m \<rparr>" using select_gate[of g1] sel by auto
  have dec: "(\<exists>r \<in> set rs. \<not> is_prefill_chunk r) \<longleftrightarrow> decoding_some ids s"
    using assms(1) unfolding decoding_some_def rs_def start_ok_def by force
  have card: "finite sel \<and> card sel \<le> nat (max_long_prefills_per_step g)" if "0 \<le> max_long_prefills_per_step g"
  proof -
    have "finite sel" using sel by (auto simp: select_long_prefill_request_ids_def Let_def split: if_splits)
    moreover have "card sel \<le> nat (max_long_prefills_per_step g)"
      using select_card[of g1] that sel by (simp add: g1_def)
    ultimately show ?thesis by blast
  qed
  obtain L st where st: "schedule_start K R C M throttle bound g skips ids s = Inr (L, st)"
    and L: "selected_long_prefill_ids L = sel" "enable_decode_aware_prefill g \<longrightarrow> prefill_token_budget L = prefill_limit C M ids s"
    and f: "running_ids st = ids" "preempted_reqs st = []" "requests (sched st) = requests s"
      "scheduled_running_reqs st = []" "num_scheduled_tokens st = (\<lambda>_. None)" "req_to_new_blocks st = (\<lambda>_. None)"
      "token_budget st = (if paused_all g then 0 else M)" "prefill_tokens_scheduled st = 0" "gate st = g2" "req_index st = 0"
    by (simp add: schedule_start_def look dec g1_def[symmetric] sel Let_def prefill_limit_def)
  have "run_inv E C L ids (if paused_all g then 0 else M) st"
    using assms f
    by (auto simp: run_inv_def queue_ok_def books_ok_def place_ok_def prefill_ok_def scheduled_prefills_def start_ok_def)
  moreover have "same_gate g2 st" using f(9) g2 by (auto simp: same_gate_def intro: exI[of _ m])
  ultimately show ?thesis using st L card g2 by (auto simp: g1_def)
qed

lemma schedule_running_ok:
  assumes "start_ok E C ids s" "0 \<le> M"
  shows "\<exists>L st g2. schedule_running K X E R C M throttle bound g skips ids s = Inr st
    \<and> run_inv E C L ids (if paused_all g then 0 else M) st
    \<and> (\<exists>m. gate st = g2\<lparr> long_prefill_last_scheduled := m \<rparr>)
    \<and> enable_decode_aware_prefill g2 = enable_decode_aware_prefill g
    \<and> long_prefill_token_threshold g2 = long_prefill_token_threshold g
    \<and> (enable_decode_aware_prefill g \<longrightarrow> prefill_token_budget L = prefill_limit C M ids s)
    \<and> (0 \<le> max_long_prefills_per_step g \<longrightarrow>
        finite (selected_long_prefill_ids L) \<and> card (selected_long_prefill_ids L) \<le> nat (max_long_prefills_per_step g))"
proof -
  obtain L st0 g2 where st: "schedule_start K R C M throttle bound g skips ids s = Inr (L, st0)"
    "run_inv E C L ids (if paused_all g then 0 else M) st0" "same_gate g2 st0"
    and rest: "enable_decode_aware_prefill g2 = enable_decode_aware_prefill g"
      "long_prefill_token_threshold g2 = long_prefill_token_threshold g"
      "enable_decode_aware_prefill g \<longrightarrow> prefill_token_budget L = prefill_limit C M ids s"
      "0 \<le> max_long_prefills_per_step g \<longrightarrow>
        finite (selected_long_prefill_ids L) \<and> card (selected_long_prefill_ids L) \<le> nat (max_long_prefills_per_step g)"
    using schedule_start_ok[OF assms] by blast
  have "split_ok C" using assms(1) by (simp add: start_ok_def)
  then obtain st1 where l: "running_loop K X E R C L st0 = Inr st1" "run_inv E C L ids (if paused_all g then 0 else M) st1"
    using running_loop_ok[OF st(2)] by blast
  have "\<exists>m. gate st1 = g2\<lparr> long_prefill_last_scheduled := m \<rparr>"
    using running_loop_gate[OF l(1) st(3)] by (simp add: same_gate_def)
  moreover have "schedule_running K X E R C M throttle bound g skips ids s = Inr st1"
    using st(1) l(1) by (simp add: schedule_running_def)
  ultimately show ?thesis using l(2) rest by blast
qed

text \<open>
  C25. The loop over the running requests returns. From distinct, well-formed running requests the step ends
  without an exception, however the KV cache, the encoder cache and the queues of other modules answer: every
  request is visited or preempted, and every search for blocks ends with the blocks or with the preemption of the
  request itself.
\<close>

theorem running_loop_returns:
  assumes "start_ok E C ids s" "0 \<le> M"
  shows "\<exists>st. schedule_running K X E R C M throttle bound g skips ids s = Inr st"
  using schedule_running_ok[OF assms] by blast

text \<open>
  C26. The queues stay well-formed. After the loop the running queue is the old one without the preempted
  requests, in the old order; its requests are well-formed, the scheduled ones are among them, each once, and
  they are exactly those with blocks and a number of tokens. A preempted request is marked so and starts again
  from its first token.
\<close>

theorem running_loop_keeps_queues:
  assumes "start_ok E C ids s" "0 \<le> M" "schedule_running K X E R C M throttle bound g skips ids s = Inr st"
  shows "running_ids st = filter (\<lambda>q. q \<notin> set (preempted_reqs st)) ids
    \<and> (\<forall>q \<in> set (running_ids st). \<exists>r. requests (sched st) q = Some r \<and> request_id r = q \<and> request_wf E C r)
    \<and> distinct (scheduled_running_reqs st) \<and> set (scheduled_running_reqs st) \<subseteq> set (running_ids st)
    \<and> dom (req_to_new_blocks st) = set (scheduled_running_reqs st)
    \<and> dom (num_scheduled_tokens st) = set (scheduled_running_reqs st)
    \<and> (\<forall>p \<in> set (preempted_reqs st). \<exists>r. requests (sched st) p = Some r \<and> status r = PREEMPTED \<and> num_computed_tokens r = 0)"
proof -
  obtain L where inv: "run_inv E C L ids (if paused_all g then 0 else M) st"
    using schedule_running_ok[OF assms(1,2), of K X R throttle bound g skips] assms(3) by auto
  have "set (scheduled_running_reqs st) \<subseteq> set (running_ids st)"
    using inv set_take_subset by (force simp: run_inv_def place_ok_def)
  then show ?thesis using inv unfolding run_inv_def queue_ok_def books_ok_def by blast
qed

text \<open>
  C27. The budgets of a step. Each scheduled request gets at least one token, together at most the budget of the
  step, and what is left over is what the loop reports. With decode-aware prefill the prefills among them get at
  most the prefill budget, the smaller one when a request decodes, and at most
  \<^verbatim>\<open>max_long_prefills_per_step\<close> of them are long.
\<close>

theorem running_loop_budgets:
  assumes "start_ok E C ids s" "0 \<le> M" "schedule_running K X E R C M throttle bound g skips ids s = Inr st"
    and "0 \<le> max_long_prefills_per_step g"
  shows "token_budget st + (\<Sum>q \<in> set (scheduled_running_reqs st). the (num_scheduled_tokens st q)) = (if paused_all g then 0 else M)
    \<and> 0 \<le> token_budget st \<and> (\<forall>q \<in> set (scheduled_running_reqs st). 0 < the (num_scheduled_tokens st q))
    \<and> (enable_decode_aware_prefill g \<longrightarrow>
        (\<Sum>q \<in> {q \<in> set (scheduled_running_reqs st). is_prefill_chunk (the (requests (sched st) q))}.
           the (num_scheduled_tokens st q)) \<le> max 0 (prefill_limit C M ids s)
        \<and> card {q \<in> set (scheduled_running_reqs st).
              is_long_prefill_request g (request.truncate (the (requests (sched st) q)))}
            \<le> nat (max_long_prefills_per_step g))"
proof -
  obtain L g2 m where inv: "run_inv E C L ids (if paused_all g then 0 else M) st"
    and g: "gate st = g2\<lparr> long_prefill_last_scheduled := m \<rparr>" "enable_decode_aware_prefill g2 = enable_decode_aware_prefill g"
      "long_prefill_token_threshold g2 = long_prefill_token_threshold g"
    and L: "enable_decode_aware_prefill g \<longrightarrow> prefill_token_budget L = prefill_limit C M ids s"
      "finite (selected_long_prefill_ids L)" "card (selected_long_prefill_ids L) \<le> nat (max_long_prefills_per_step g)"
    using schedule_running_ok[OF assms(1,2), of K X R throttle bound g skips] assms(3,4) by auto
  have run: "\<exists>r. requests (sched st) q = Some r \<and> status r = RUNNING" if "q \<in> set (scheduled_running_reqs st)" for q
  proof -
    have "q \<in> set (running_ids st)" using that inv set_take_subset by (force simp: run_inv_def place_ok_def)
    then show ?thesis using inv queue_ok_request unfolding run_inv_def request_wf_def by blast
  qed
  have long: "is_long_prefill_request g = is_long_prefill_request (gate st)"
    using g by (auto simp: is_long_prefill_request_def fun_eq_iff)
  have pre: "{q \<in> set (scheduled_running_reqs st). is_prefill_chunk (the (requests (sched st) q))} = scheduled_prefills st"
    if "enable_decode_aware_prefill g"
  proof (rule set_eqI)
    fix q
    show "q \<in> {q \<in> set (scheduled_running_reqs st). is_prefill_chunk (the (requests (sched st) q))}
        \<longleftrightarrow> q \<in> scheduled_prefills st"
      using that g run[of q] by (cases "q \<in> set (scheduled_running_reqs st)")
        (auto simp: scheduled_prefills_def gated_prefill_def)
  qed
  have "{q \<in> set (scheduled_running_reqs st). is_long_prefill_request g (request.truncate (the (requests (sched st) q)))}
      \<subseteq> selected_long_prefill_ids L" if "enable_decode_aware_prefill g"
  proof
    fix q assume "q \<in> {q \<in> set (scheduled_running_reqs st). is_long_prefill_request g (request.truncate (the (requests (sched st) q)))}"
    then obtain r where q: "q \<in> set (scheduled_running_reqs st)" "requests (sched st) q = Some r" "status r = RUNNING"
      "is_long_prefill_request (gate st) (request.truncate r)" using run long by fastforce
    then have "is_prefill_chunk r" by (auto simp: is_long_prefill_request_def request.truncate_def split: if_splits)
    then have "q \<in> scheduled_prefills st" unfolding pre[OF that, symmetric] using q by simp
    then show "q \<in> selected_long_prefill_ids L" using inv q unfolding run_inv_def prefill_ok_def by blast
  qed
  then have "card {q \<in> set (scheduled_running_reqs st). is_long_prefill_request g (request.truncate (the (requests (sched st) q)))}
      \<le> nat (max_long_prefills_per_step g)" if "enable_decode_aware_prefill g"
    using that L(2,3) card_mono order_trans by blast
  moreover have "(\<Sum>q \<in> {q \<in> set (scheduled_running_reqs st). is_prefill_chunk (the (requests (sched st) q))}.
      the (num_scheduled_tokens st q)) \<le> max 0 (prefill_limit C M ids s)" if "enable_decode_aware_prefill g"
    using inv L(1) that unfolding pre[OF that] run_inv_def prefill_ok_def by linarith
  ultimately show ?thesis using inv unfolding run_inv_def books_ok_def by blast
qed

section \<open>A concrete step\<close>

text \<open>A coordinator that counts the blocks of sixteen tokens that each request owns.\<close>

record run_pool =
  pool_blocks :: int
  owned :: "(string \<times> int) list"

definition owned_by :: "string \<Rightarrow> run_pool \<Rightarrow> int" where
  "owned_by q c = (case map_of (owned c) q of None \<Rightarrow> 0 | Some n \<Rightarrow> n)"

definition give_up :: "string \<Rightarrow> run_pool \<Rightarrow> run_pool" where
  "give_up q c = c\<lparr> owned := filter (\<lambda>(p, n). p \<noteq> q) (owned c) \<rparr>"

definition run_coord :: "(run_pool, nat, unit) coordinator" where
  "run_coord = \<lparr> find_longest_cache_hit = (\<lambda>hs n c. ([], 0, 0)),
     find_longest_cache_hit_per_group = (\<lambda>hs n c. ([], [])),
     is_hybrid_coordinator = False, full_attention_group_id = None,
     get_num_blocks_to_allocate = (\<lambda>q n gs enc tot loc main cap c. max 0 (cdiv_ref n 16 - owned_by q c)),
     coord_remove_skipped_blocks = (\<lambda>q n p c. c),
     allocate_new_computed_blocks = (\<lambda>q gs loc ext c. c),
     allocate_new_blocks = (\<lambda>q n main enc c. ([[]],
        (give_up q c)\<lparr> owned := (q, max (cdiv_ref n 16) (owned_by q c)) # owned (give_up q c) \<rparr>)),
     coord_cache_blocks = (\<lambda>r n c. c), coord_free = give_up, coord_pop_blocks_for_free = (\<lambda>q c. ([], give_up q c)),
     coord_get_blocks = (\<lambda>q c. []), coord_new_step_starts = (\<lambda>c. c),
     pool_get_num_free_blocks = (\<lambda>c. pool_blocks c - sum_list (map snd (owned c))),
     pool_free_blocks = (\<lambda>bs c. c), pool_touch = (\<lambda>bs c. c), pool_evict_blocks = (\<lambda>ids c. c),
     pool_reset_prefix_cache = (\<lambda>c. (True, c)), pool_emit_cached_block_events = (\<lambda>r n b g c. c),
     pool_take_events = (\<lambda>c. ([], c)), num_managers = 1, mgr_block_size = (\<lambda>i. 16),
     mgr_records_new_block_ids = (\<lambda>i. False), mgr_req_to_blocks = (\<lambda>i q c. []), mgr_extend_new_block_ids = (\<lambda>i ids c. c),
     mgr_take_new_block_ids = (\<lambda>i c. ([], c)), mgr_take_pending_cow_copies = (\<lambda>i c. ([], c)),
     mgr_take_pending_partial_tail_offloads = (\<lambda>i c. ([], c)) \<rparr>"

definition run_manager :: "(string \<times> int) list \<Rightarrow> (run_pool, nat) kv_manager" where
  "run_manager own = \<lparr> km_max_model_len = 4096, enable_caching = False, enable_kv_cache_events = False, log_stats = False,
     prefix_cache_stats = None, coord = \<lparr> pool_blocks = 6, owned = own \<rparr>,
     num_kv_cache_groups = 1, km_config = demo_config, watermark_blocks = 0, kv_cache_event_metadata = [],
     partial_tail_pins = (\<lambda>_. None) \<rparr>"

text \<open>A prefill and two requests that need one more token or block; the first is the first to be preempted.\<close>

definition run_request :: "string \<Rightarrow> int \<Rightarrow> bool \<Rightarrow> int \<Rightarrow> int \<Rightarrow> int \<Rightarrow> nat sched_request" where
  "run_request q prio prefill computed tokens eligible = (demo_sched_request 0 0)\<lparr> request_id := q, priority := prio,
     is_prefill_chunk := prefill, num_computed_tokens := computed, num_tokens := tokens, num_prompt_tokens := tokens,
     next_decode_eligible_step := eligible \<rparr>"

definition run_sched :: "(string \<times> int) list \<Rightarrow> nat sched_request list
    \<Rightarrow> (run_pool, nat set, nat sched_request list, nat) sched_state" where
  "run_sched own rs = \<lparr> kv_manager = run_manager own,
     fence = \<lparr> defer_block_free = False, sched_step_seq = 0, processed_step_seq = 0, deferred_frees = [], pool_calls = [] \<rparr>,
     encoder_cache = {}, waiting_queue = [], requests = map_of (map (\<lambda>r. (request_id r, r)) rs),
     inflight_prefills = {}, finished_req_ids = {}, reset_preempted_req_ids = {}, re_block_ids = (\<lambda>_. None) \<rparr>"

definition run_ext :: "(nat set, nat sched_request list, nat) sched_ext" where
  "run_ext = \<lparr> encoder_cache_free = (\<lambda>r x. x), prepend_request = (\<lambda>r q. r # q),
     status_is_finished = (\<lambda>st. st = FINISHED_ABORTED) \<rparr>"

definition run_other :: "(nat sched_request list, nat) running_ext" where
  "run_other = \<lparr> get_num_encoder_embeds = (\<lambda>r i. num_embeds (mm_features r ! i)), queued_requests = map request.truncate \<rparr>"

definition run_config :: "scheduling_policy \<Rightarrow> running_config" where
  "run_config p = \<lparr> sched_policy = p, max_model_len = 4096, run_sampled_tokens_per_step = 1, run_num_lookahead_tokens = 0,
     requires_kv_delivery = False, decode_prefill_token_budget = 32, idle_prefill_token_budget = 64,
     max_num_encoder_input_tokens = 100, split_when_aligned = None, encoder_cfg = demo_encoder_config \<rparr>"

definition run_gate :: "bool \<Rightarrow> scheduler" where
  "run_gate on = demo_sched\<lparr> enable_decode_aware_prefill := on, long_prefill_token_threshold := 1000 \<rparr>"

definition crowded :: "(run_pool, nat set, nat sched_request list, nat) sched_state" where
  "crowded = run_sched [(''b'', 4)] [run_request ''a'' 5 True 0 200 0, run_request ''b'' 1 False 64 65 0,
     run_request ''c'' 2 True 0 16 0]"

definition held_back :: "(run_pool, nat set, nat sched_request list, nat) sched_state" where
  "held_back = run_sched [(''a'', 2), (''b'', 4)] [run_request ''a'' 5 False 20 21 100, run_request ''b'' 1 False 64 65 0,
     run_request ''c'' 2 False 0 1 0]"

abbreviation run_demo where
  "run_demo p on s \<equiv> schedule_running run_coord run_ext demo_encoder run_other (run_config p) 100 False False (run_gate on) 0
     [''a'', ''b'', ''c''] s"

lemma wf_demo: "start_ok demo_encoder (run_config p) [''a'', ''b'', ''c''] crowded"
  "start_ok demo_encoder (run_config p) [''a'', ''b'', ''c''] held_back"
  by (simp_all add: start_ok_def split_ok_def run_config_def crowded_def held_back_def run_sched_def run_request_def
      request_wf_def demo_window features_ok_def demo_sched_request_def demo_encoder_config_def)

theorem running_loop_returns_witness: "\<exists>st. run_demo PRIORITY True crowded = Inr st"
  by (rule running_loop_returns[OF wf_demo(1)]) simp

theorem running_loop_keeps_queues_witness:
  "\<exists>st. run_demo FCFS True crowded = Inr st \<and> set (scheduled_running_reqs st) \<subseteq> set (running_ids st)"
proof -
  obtain st where "run_demo FCFS True crowded = Inr st"
    using schedule_running_ok[OF wf_demo(1), of 100] by fastforce
  then show ?thesis using running_loop_keeps_queues[OF wf_demo(1), of 100] by fastforce
qed

theorem running_loop_budgets_witness:
  "\<exists>st. run_demo PRIORITY True crowded = Inr st
    \<and> token_budget st + (\<Sum>q \<in> set (scheduled_running_reqs st). the (num_scheduled_tokens st q)) = 100"
proof -
  obtain st where st: "run_demo PRIORITY True crowded = Inr st"
    using schedule_running_ok[OF wf_demo(1), of 100] by fastforce
  have "\<not> paused_all (run_gate True)" "0 \<le> max_long_prefills_per_step (run_gate True)"
    by (simp_all add: run_gate_def demo_sched_def)
  then show ?thesis using running_loop_budgets[OF wf_demo(1) _ st] st by auto
qed

text \<open>
  A preempted prefill stays charged. When a prefill scheduled earlier in the step is preempted, its tokens go
  back to the step's budget but not to the prefill budget: here the whole prefill budget is used up although no
  prefill is scheduled, and the prefill after it is passed over with tokens and a free block left.
\<close>

lemma preempted_prefill_stays_charged:
  "case run_demo PRIORITY True crowded of
     Inl e \<Rightarrow> False
   | Inr st \<Rightarrow> scheduled_running_reqs st = [''b''] \<and> preempted_reqs st = [''a''] \<and> running_ids st = [''b'', ''c'']
       \<and> prefill_tokens_scheduled st = 32 \<and> token_budget st = 99
       \<and> pool_get_num_free_blocks run_coord (coord (kv_manager (sched st))) = 1"
  by code_simp

text \<open>
  A preemption can hide a request. When the request preempted stands before the index without having been
  scheduled, the index is not moved back: here the last request is never visited, with tokens and a free block
  left.
\<close>

lemma preemption_skips_a_request:
  "case run_demo PRIORITY False held_back of
     Inl e \<Rightarrow> False
   | Inr st \<Rightarrow> scheduled_running_reqs st = [''b''] \<and> preempted_reqs st = [''a''] \<and> running_ids st = [''b'', ''c'']
       \<and> req_index st = 2 \<and> token_budget st = 99
       \<and> pool_get_num_free_blocks run_coord (coord (kv_manager (sched st))) = 1"
  by code_simp

end
