(* ===== verification/Sched_Waiting.thy ===== *)
theory Sched_Waiting
  imports Sched_Running
begin

text \<open>
  The second half of \<^verbatim>\<open>schedule()\<close> in \<^verbatim>\<open>v1/core/sched/scheduler.py\<close>: the loop that admits waiting requests, the
  promotion of blocked ones, and the constraints asserted at its end. The request queues, the KV connector, the
  encoder-cache connector and attributes of a request that other modules maintain are arguments.
\<close>

section \<open>State of the loop\<close>

datatype grammar_state = NoGrammar | GrammarFailed | GrammarReady

record ('k, 'h) kv_connector =
  get_num_new_matched_tokens :: "'h sched_request \<Rightarrow> int \<Rightarrow> 'k \<Rightarrow> int option \<times> bool \<times> 'k"
  connector_update_after_alloc :: "'h sched_request \<Rightarrow> 'h kv_cache_blocks \<Rightarrow> int \<Rightarrow> 'k \<Rightarrow> 'k"

text \<open>A queue of requests holds ids; \<open>request_less\<close> is the order of requests.\<close>

record ('q, 'k, 'h) waiting_ext =
  queue_len :: "'q \<Rightarrow> nat"
  peek_request :: "'q \<Rightarrow> string"
  pop_request :: "'q \<Rightarrow> string \<times> 'q"
  prepend_requests :: "'q \<Rightarrow> 'q \<Rightarrow> 'q"
  create_request_queue :: 'q
  request_less :: "'h sched_request \<Rightarrow> 'h sched_request \<Rightarrow> bool"
  lora_int_id :: "'h sched_request \<Rightarrow> int option"
  grammar_of :: "'h sched_request \<Rightarrow> grammar_state"
  streaming_queue_empty :: "'h sched_request \<Rightarrow> bool"
  has_prefill_stats :: "'h sched_request \<Rightarrow> bool"
  connector :: "('k, 'h) kv_connector option"
  ensure_cache_available :: "'h sched_request \<Rightarrow> int \<Rightarrow> bool"

record waiting_config =
  max_running_reqs :: int
  num_waiting_for_streaming_input :: int
  max_loras :: "int option"
  hit_block_size :: int
  max_spec_tokens :: int
  has_dynamic_sd_lookup :: bool
  enable_chunked_prefill :: bool
  reserve_full_isl :: bool
  zeroing_needed :: bool
  counts_connector_hits :: bool
  unpaused :: bool
  process_env :: "string \<Rightarrow> string option"

record ('c, 'x, 'q, 'h, 'k) wait_state =
  run :: "('c, 'x, 'q, 'h) run_state"
  skipped_queue :: 'q
  step_skipped :: 'q
  scheduled_new_reqs :: "string list"
  scheduled_resumed_reqs :: "string list"
  scheduled_loras :: "int set"
  connector_state :: 'k
  finished_recving :: "string set"
  failed_recving :: "string set"
  grammar_compile_errors :: "string set"
  skip_zero_block_ids :: "int set"
  connector_hits :: "(int \<times> int \<times> bool) list"
  prefill_stats_set :: "(string \<times> int \<times> int \<times> int) list"

abbreviation sched_of :: "('c, 'x, 'q, 'h, 'k) wait_state \<Rightarrow> ('c, 'x, 'q, 'h) sched_state" where
  "sched_of w \<equiv> sched (run w)"

definition with_sched ::
  "(('c, 'x, 'q, 'h) sched_state \<Rightarrow> ('c, 'x, 'q, 'h) sched_state) \<Rightarrow> ('c, 'x, 'q, 'h, 'k) wait_state
   \<Rightarrow> ('c, 'x, 'q, 'h, 'k) wait_state" where
  "with_sched f w = w\<lparr> run := (run w)\<lparr> sched := f (sched (run w)) \<rparr> \<rparr>"

definition put_request ::
  "string \<Rightarrow> 'h sched_request \<Rightarrow> ('c, 'x, 'q, 'h, 'k) wait_state \<Rightarrow> ('c, 'x, 'q, 'h, 'k) wait_state" where
  "put_request q r = with_sched (\<lambda>s. s\<lparr> requests := (requests s)(q \<mapsto> r) \<rparr>)"

definition put_kv :: "('c, 'h) kv_manager \<Rightarrow> ('c, 'x, 'q, 'h, 'k) wait_state \<Rightarrow> ('c, 'x, 'q, 'h, 'k) wait_state" where
  "put_kv m = with_sched (\<lambda>s. s\<lparr> kv_manager := m \<rparr>)"

section \<open>The queues\<close>

datatype queue_side = Waiting | Skipped

definition side_queue :: "queue_side \<Rightarrow> ('c, 'x, 'q, 'h, 'k) wait_state \<Rightarrow> 'q" where
  "side_queue side w = (case side of Waiting \<Rightarrow> waiting_queue (sched_of w) | Skipped \<Rightarrow> skipped_queue w)"

definition put_queue :: "queue_side \<Rightarrow> 'q \<Rightarrow> ('c, 'x, 'q, 'h, 'k) wait_state \<Rightarrow> ('c, 'x, 'q, 'h, 'k) wait_state" where
  "put_queue side x w = (case side of Waiting \<Rightarrow> with_sched (\<lambda>s. s\<lparr> waiting_queue := x \<rparr>) w | Skipped \<Rightarrow> w\<lparr> skipped_queue := x \<rparr>)"

definition select_waiting_queue ::
  "('q, 'k, 'h) waiting_ext \<Rightarrow> running_config \<Rightarrow> ('c, 'x, 'q, 'h, 'k) wait_state \<Rightarrow> queue_side option res" where
  "select_waiting_queue V C w =
     (let n = queue_len V (side_queue Waiting w); k = queue_len V (side_queue Skipped w) in
      case sched_policy C of
        FCFS \<Rightarrow> Inr (if 0 < k then Some Skipped else if 0 < n then Some Waiting else None)
      | PRIORITY \<Rightarrow>
          if 0 < n \<and> 0 < k
          then res_bind (lookup_request (sched_of w) (peek_request V (side_queue Waiting w))) (\<lambda>a.
               res_bind (lookup_request (sched_of w) (peek_request V (side_queue Skipped w))) (\<lambda>b.
               Inr (Some (if request_less V a b then Waiting else Skipped))))
          else Inr (if 0 < n then Some Waiting else if 0 < k then Some Skipped else None))"

text \<open>\<^verbatim>\<open>request_queue.pop_request()\<close> followed by \<^verbatim>\<open>step_skipped_waiting.prepend_request(request)\<close>.\<close>

definition set_aside ::
  "('x, 'q, 'h) sched_ext \<Rightarrow> ('q, 'k, 'h) waiting_ext \<Rightarrow> queue_side \<Rightarrow> 'h sched_request
   \<Rightarrow> ('c, 'x, 'q, 'h, 'k) wait_state \<Rightarrow> ('c, 'x, 'q, 'h, 'k) wait_state" where
  "set_aside X V side r w =
     (let w1 = put_queue side (snd (pop_request V (side_queue side w))) w
      in w1\<lparr> step_skipped := prepend_request X r (step_skipped w1) \<rparr>)"

section \<open>Blocked requests\<close>

definition is_blocked_waiting_status :: "request_status \<Rightarrow> bool" where
  "is_blocked_waiting_status st \<longleftrightarrow>
     st \<in> {WAITING_FOR_STRUCTURED_OUTPUT_GRAMMAR, WAITING_FOR_REMOTE_KVS, WAITING_FOR_STREAMING_REQ}"

definition update_waiting_for_remote_kv ::
  "('c, 'h, 'e) coordinator \<Rightarrow> ('q, 'k, 'h) waiting_ext \<Rightarrow> waiting_config \<Rightarrow> string \<Rightarrow> 'h sched_request
   \<Rightarrow> ('c, 'x, 'q, 'h, 'k) wait_state \<Rightarrow> ('h sched_request \<times> ('c, 'x, 'q, 'h, 'k) wait_state) res" where
  "update_waiting_for_remote_kv K V W q r w =
     res_bind (require (connector V \<noteq> None) AssertionError) (\<lambda>_.
       let m = kv_manager (sched_of w); n = num_computed_tokens r; kr = kv_request.truncate r;
           finish = (\<lambda>r w. Inr (r, w\<lparr> finished_recving := finished_recving w - {q} \<rparr>))
       in if q \<in> failed_recving w
          then let (e, m') = (if n \<noteq> 0
                 then let m1 = cache_blocks K kr n m in
                      if zeroing_needed W then record_blocks_for_zeroing K q n m1 else (Inr (), m1)
                 else (Inr (), free_kv K kr m))
               in res_bind e (\<lambda>_. finish r ((put_kv m' w)\<lparr> failed_recving := failed_recving w - {q} \<rparr>))
          else let r' = (if n = num_tokens r then r\<lparr> num_computed_tokens := num_tokens r - 1 \<rparr> else r)
               in finish r' (put_request q r' (put_kv (cache_blocks K kr n m) w)))"

definition try_promote_blocked_waiting_request ::
  "('c, 'h, 'e) coordinator \<Rightarrow> ('q, 'k, 'h) waiting_ext \<Rightarrow> waiting_config \<Rightarrow> string \<Rightarrow> 'h sched_request
   \<Rightarrow> ('c, 'x, 'q, 'h, 'k) wait_state \<Rightarrow> (bool \<times> ('c, 'x, 'q, 'h, 'k) wait_state) res" where
  "try_promote_blocked_waiting_request K V W q r w =
     (if status r = WAITING_FOR_REMOTE_KVS
      then if q \<notin> finished_recving w then Inr (False, w)
           else res_bind (update_waiting_for_remote_kv K V W q r w) (\<lambda>(r', w').
             Inr (True, put_request q (r'\<lparr> status := (if num_preemptions r' \<noteq> 0 then PREEMPTED else WAITING) \<rparr>) w'))
      else if status r = WAITING_FOR_STRUCTURED_OUTPUT_GRAMMAR
      then (case grammar_of V r of
              NoGrammar \<Rightarrow> Inr (False, w)
            | GrammarFailed \<Rightarrow> Inr (False, w\<lparr> grammar_compile_errors := insert q (grammar_compile_errors w) \<rparr>)
            | GrammarReady \<Rightarrow> Inr (True, put_request q (r\<lparr> status := WAITING \<rparr>) w))
      else if status r = WAITING_FOR_STREAMING_REQ
      then res_bind (require (streaming_queue_empty V r) AssertionError) (\<lambda>_. Inr (False, w))
      else Inl AssertionError)"

definition exceeds_loras ::
  "('q, 'k, 'h) waiting_ext \<Rightarrow> waiting_config \<Rightarrow> ('c, 'x, 'q, 'h, 'k) wait_state \<Rightarrow> 'h sched_request \<Rightarrow> bool" where
  "exceeds_loras V W w r =
     (case (max_loras W, lora_int_id V r) of
        (Some n, Some l) \<Rightarrow> int (card (scheduled_loras w)) = n \<and> l \<notin> scheduled_loras w
      | _ \<Rightarrow> False)"

section \<open>Tokens that are computed already\<close>

record 'h computed_prefix =
  prefix_blocks :: "'h kv_cache_blocks"
  local_tokens :: int
  external_tokens :: int
  load_kv_async :: bool
  connector_query :: "(int \<times> int) option"
  did_lookup :: bool

definition prefix_tokens :: "'h sched_request \<Rightarrow> 'h computed_prefix \<Rightarrow> int" where
  "prefix_tokens r p = (if did_lookup p then local_tokens p + external_tokens p else num_computed_tokens r)"

text \<open>The local hit: the request remembers the shared-prefix junction.\<close>

definition lookup_local ::
  "('c, 'h, 'e) coordinator \<Rightarrow> waiting_config \<Rightarrow> string \<Rightarrow> 'h sched_request \<Rightarrow> ('c, 'x, 'q, 'h, 'k) wait_state
   \<Rightarrow> ('h kv_cache_blocks \<times> int \<times> 'h sched_request \<times> ('c, 'x, 'q, 'h, 'k) wait_state) res" where
  "lookup_local K W q r w =
     (let (e, m) = get_computed_blocks K (process_env W) (kv_request.truncate r) (kv_manager (sched_of w))
      in res_bind e (\<lambda>(b, n, junction).
           let r' = r\<lparr> shared_prefix_boundary := junction \<rparr> in Inr (b, n, r', put_request q r' (put_kv m w))))"

text \<open>What a remote hit of \<open>ext\<close> tokens makes of a local hit of \<open>n\<close> tokens.\<close>

definition merge_hits ::
  "('c, 'h, 'e) coordinator \<Rightarrow> ('c, 'h) kv_manager \<Rightarrow> 'h kv_cache_blocks \<Rightarrow> int \<Rightarrow> int \<Rightarrow> int \<Rightarrow> bool
   \<Rightarrow> ('h kv_cache_blocks \<times> int \<times> int \<times> bool) res" where
  "merge_hits K m b n partial_tail ext async =
     (if partial_tail \<noteq> 0 \<and> partial_tail < ext
      then res_bind (truncate_computed_blocks K b (n - partial_tail) m) (\<lambda>b'. Inr (b', n - partial_tail, ext, async))
      else if partial_tail \<noteq> 0 then Inr (b, n, 0, False)
      else Inr (b, n, ext, async))"

definition lookup_with_connector ::
  "('c, 'h, 'e) coordinator \<Rightarrow> ('k, 'h) kv_connector \<Rightarrow> waiting_config \<Rightarrow> string \<Rightarrow> 'h sched_request
   \<Rightarrow> ('c, 'x, 'q, 'h, 'k) wait_state \<Rightarrow> ('h computed_prefix option \<times> 'h sched_request \<times> ('c, 'x, 'q, 'h, 'k) wait_state) res" where
  "lookup_with_connector K cn W q r w =
     (let (e, m) = get_computed_blocks_for_connector K (process_env W) (kv_request.truncate r) (kv_manager (sched_of w))
      in res_bind e (\<lambda>(b, n, junction, diverged).
         let r1 = r\<lparr> shared_prefix_boundary := junction \<rparr>; w1 = put_request q r1 (put_kv m w) in
         if hit_block_size W = 0 then Inl ZeroDivisionError
         else
           let tail = n mod hit_block_size W;
               (ext, async, k) = get_num_new_matched_tokens cn r1 (n - tail) (connector_state w1);
               w2 = w1\<lparr> connector_state := k \<rparr>
           in case ext of
                None \<Rightarrow> Inr (None, r1, w2)
              | Some x \<Rightarrow>
                  res_bind (merge_hits K m b n tail x async) (\<lambda>(b', n', ext', async').
                  res_bind (if diverged \<and> ext' = 0 then lookup_local K W q r1 w2 else Inr (b', n', r1, w2)) (\<lambda>(b'', n'', r2, w3).
                  Inr (Some \<lparr> prefix_blocks = b'', local_tokens = n'', external_tokens = ext', load_kv_async = async',
                              connector_query = Some (num_tokens r2 - n'', ext'), did_lookup = True \<rparr>, r2, w3)))))"

text \<open>The whole lookup; \<open>None\<close> sets the request aside.\<close>

definition find_computed ::
  "('c, 'h, 'e) coordinator \<Rightarrow> ('x, 'h) encoder_ext \<Rightarrow> ('q, 'k, 'h) waiting_ext \<Rightarrow> waiting_config \<Rightarrow> string \<Rightarrow> 'h sched_request
   \<Rightarrow> ('c, 'x, 'q, 'h, 'k) wait_state \<Rightarrow> ('h computed_prefix option \<times> 'h sched_request \<times> ('c, 'x, 'q, 'h, 'k) wait_state) res" where
  "find_computed K E V W q r w =
     (if num_computed_tokens r \<noteq> 0
      then Inr (Some \<lparr> prefix_blocks = empty_kv_cache_blocks (kv_manager (sched_of w)), local_tokens = 0,
                       external_tokens = 0, load_kv_async = False, connector_query = None, did_lookup = False \<rparr>, r, w)
      else
        res_bind (case connector V of
            Some cn \<Rightarrow> lookup_with_connector K cn W q r w
          | None \<Rightarrow> res_bind (lookup_local K W q r w) (\<lambda>(b, n, r', w').
              Inr (Some \<lparr> prefix_blocks = b, local_tokens = n, external_tokens = 0, load_kv_async = False,
                          connector_query = None, did_lookup = True \<rparr>, r', w')))
          (\<lambda>(f, r1, w1). case f of
             None \<Rightarrow> Inr (None, r1, w1)
           | Some p \<Rightarrow>
               let n = prefix_tokens r1 p in
               res_bind (require (n \<le> num_tokens r1) AssertionError) (\<lambda>_.
                 if ec_has_cache_item E \<noteq> None \<and> mm_features r1 \<noteq> [] \<and> \<not> ensure_cache_available V r1 n
                 then Inr (None, r1, w1)
                 else if has_prefill_stats V r1 \<and> num_preemptions r1 \<le> 0
                 then res_bind (require (n \<le> num_prompt_tokens r1) AssertionError) (\<lambda>_.
                   Inr (Some p, r1, w1\<lparr> prefill_stats_set := prefill_stats_set w1
                     @ [(q, num_prompt_tokens r1, local_tokens p, external_tokens p)] \<rparr>))
                 else Inr (Some p, r1, w1))))"

section \<open>Tokens for a waiting request\<close>

text \<open>The variables of the admission: tokens, encoder inputs and whether drafts are padded.\<close>

record 'x admission =
  new_tokens :: int
  encoder_part :: "'x encoder_acc"
  pad_spec_decode :: bool

definition pads_decode ::
  "running_config \<Rightarrow> waiting_config \<Rightarrow> ('c, 'x, 'q, 'h) run_state \<Rightarrow> int \<Rightarrow> bool" where
  "pads_decode C W st n \<longleftrightarrow> 0 < max_spec_tokens W \<and> \<not> has_dynamic_sd_lookup W \<and> 0 < run_sampled_tokens_per_step C
     \<and> n = 1 \<and> scheduled_running_reqs st \<noteq> [] \<and> \<not> prefill_scheduled st"

text \<open>The number of tokens before the encoder inputs; \<open>None\<close> ends the loop.\<close>

definition waiting_tokens ::
  "running_config \<Rightarrow> waiting_config \<Rightarrow> step_limits \<Rightarrow> ('c, 'x, 'q, 'h) run_state \<Rightarrow> int \<Rightarrow> int \<Rightarrow> (int \<times> bool) option" where
  "waiting_tokens C W L st total_tokens computed =
     (let on = enable_decode_aware_prefill (gate st); t = long_prefill_token_threshold (gate st);
          n0 = total_tokens - computed; pad = pads_decode C W st n0;
          n1 = (if pad then 1 + max_spec_tokens W else n0)
      in if pad \<and> (token_budget st < n1 \<or> max_model_len C < computed + n1) then None
         else
           let n2 = (if \<not> on \<and> 0 < t \<and> t < n1 then t else n1) in
           if \<not> enable_chunked_prefill W \<and> token_budget st < n2 then None
           else
             let n3 = min n2 (token_budget st); remaining = prefill_token_budget L - prefill_tokens_scheduled st in
             if on \<and> remaining \<le> 0 then None
             else Some (if on then min n3 remaining else n3, pad))"

text \<open>The tokens with the encoder inputs and the split of the chunk; \<open>None\<close> ends the loop.\<close>

definition put_encoder_cache :: "'x \<Rightarrow> ('c, 'x, 'q, 'h, 'k) wait_state \<Rightarrow> ('c, 'x, 'q, 'h, 'k) wait_state" where
  "put_encoder_cache x = with_sched (\<lambda>s. s\<lparr> encoder_cache := x \<rparr>)"

definition grant_tokens ::
  "('x, 'h) encoder_ext \<Rightarrow> running_config \<Rightarrow> waiting_config \<Rightarrow> step_limits \<Rightarrow> 'h sched_request \<Rightarrow> 'h computed_prefix
   \<Rightarrow> ('c, 'x, 'q, 'h, 'k) wait_state \<Rightarrow> ('x admission option \<times> ('c, 'x, 'q, 'h, 'k) wait_state) res" where
  "grant_tokens E C W L r p w =
     (let n = prefix_tokens r p; nothing = encoder_start 0 (encoder_compute_budget (run w)) (encoder_cache (sched_of w)) in
      if load_kv_async p
      then res_bind (require (0 < external_tokens p) AssertionError) (\<lambda>_.
             Inr (Some \<lparr> new_tokens = 0, encoder_part = nothing, pad_spec_decode = False \<rparr>, w))
      else if defer_prefills L \<and> n < num_tokens r - 1 then Inr (None, w)
      else case waiting_tokens C W L (run w) (num_tokens r) n of
        None \<Rightarrow> Inr (None, w)
      | Some (k, pad) \<Rightarrow>
          res_bind (require (0 < k) AssertionError) (\<lambda>_.
          res_bind (try_schedule_encoder_inputs E (encoder_cfg C) r n k (encoder_compute_budget (run w))
              (if ec_use_eagle (encoder_cfg C) then 1 else 0) (encoder_cache (sched_of w))) (\<lambda>a.
            let w1 = put_encoder_cache (acc_cache a) w in
            if acc_num_new_tokens a = 0 then Inr (None, w1)
            else
              let k' = (case split_when_aligned C of None \<Rightarrow> acc_num_new_tokens a
                | Some cfg \<Rightarrow> mamba_block_aligned_split cfg (request.truncate r) (acc_num_new_tokens a)
                    (local_tokens p) (external_tokens p))
              in if split_when_aligned C \<noteq> None \<and> k' = 0 then Inr (None, w1)
                 else Inr (Some \<lparr> new_tokens = k', encoder_part = a, pad_spec_decode = pad \<rparr>, w1))))"

section \<open>Blocks for a waiting request\<close>

definition request_remaining_blocks ::
  "('c, 'h, 'e) coordinator \<Rightarrow> running_config \<Rightarrow> ('c, 'h) kv_manager \<Rightarrow> 'h sched_request \<Rightarrow> int" where
  "request_remaining_blocks K C m r =
     (let full = min (num_tokens r) (max_model_len C) in
      get_num_blocks_to_allocate K (request_id r) full (blocks (empty_kv_cache_blocks m)) 0
        (num_computed_tokens r) (num_computed_tokens r) full True (coord m))"

definition inflight_prefill_reserved_blocks ::
  "('c, 'h, 'e) coordinator \<Rightarrow> running_config \<Rightarrow> ('c, 'x, 'q, 'h) sched_state \<Rightarrow> int" where
  "inflight_prefill_reserved_blocks K C s =
     (\<Sum>q \<in> inflight_prefills s. case requests s q of None \<Rightarrow> 0
        | Some r \<Rightarrow> request_remaining_blocks K C (kv_manager s) r)"

definition waiting_slots ::
  "('c, 'h, 'e) coordinator \<Rightarrow> ('q, 'h) running_ext \<Rightarrow> running_config \<Rightarrow> waiting_config \<Rightarrow> 'h sched_request \<Rightarrow> 'h computed_prefix
   \<Rightarrow> 'x admission \<Rightarrow> ('c, 'x, 'q, 'h, 'k) wait_state \<Rightarrow> 'h slot_args" where
  "waiting_slots K R C W r p ad w =
     \<lparr> num_new_tokens = new_tokens ad, num_new_computed_tokens = local_tokens p,
       new_computed_blocks = Some (prefix_blocks p),
       num_lookahead_tokens = (if load_kv_async p \<and> 0 < run_num_lookahead_tokens C then 0 else run_num_lookahead_tokens C),
       num_external_computed_tokens = external_tokens p, delay_cache_blocks = load_kv_async p,
       num_encoder_tokens = (if is_encoder_decoder (encoder_cfg C) \<and> has_encoder_inputs r
           \<and> encoder_inputs_to_schedule (encoder_part ad) \<noteq> []
         then sum_list (map (get_num_encoder_embeds R r) (encoder_inputs_to_schedule (encoder_part ad))) else 0),
       full_sequence_must_fit = reserve_full_isl W,
       reserved_blocks = (if load_kv_async p then inflight_prefill_reserved_blocks K C (sched_of w) else 0),
       has_scheduled_reqs = (running_ids (run w) \<noteq> []) \<rparr>"

text \<open>What the connector and the statistics learn of an allocation.\<close>

definition after_alloc ::
  "('c, 'h, 'e) coordinator \<Rightarrow> ('q, 'k, 'h) waiting_ext \<Rightarrow> waiting_config \<Rightarrow> string \<Rightarrow> 'h sched_request \<Rightarrow> 'h computed_prefix
   \<Rightarrow> ('c, 'x, 'q, 'h, 'k) wait_state \<Rightarrow> ('c, 'x, 'q, 'h, 'k) wait_state res" where
  "after_alloc K V W q r p w =
     (let w1 = (case connector V of
            None \<Rightarrow> w
          | Some cn \<Rightarrow>
              w\<lparr> connector_state := connector_update_after_alloc cn r (get_blocks K q (kv_manager (sched_of w)))
                   (external_tokens p) (connector_state w),
                 connector_hits := connector_hits w @ (case connector_query p of None \<Rightarrow> []
                   | Some (n, h) \<Rightarrow> if counts_connector_hits W \<and> n \<noteq> 0 then [(n, h, 0 < num_preemptions r)] else []) \<rparr>)
      in if did_lookup p
         then res_bind (record_prefix_cache_stats (kv_manager (sched_of w1)) (kv_request.truncate r) (local_tokens p))
                (\<lambda>m. Inr (put_kv m w1))
         else Inr w1)"

section \<open>Admission\<close>

text \<open>A request whose blocks are loaded by the connector waits in the skipped queue.\<close>

definition admit_loading ::
  "(int \<Rightarrow> int \<Rightarrow> int) \<Rightarrow> ('c, 'h, 'e) coordinator \<Rightarrow> ('x, 'q, 'h) sched_ext \<Rightarrow> waiting_config \<Rightarrow> string \<Rightarrow> 'h sched_request
   \<Rightarrow> 'h computed_prefix \<Rightarrow> ('c, 'x, 'q, 'h, 'k) wait_state \<Rightarrow> ('c, 'x, 'q, 'h, 'k) wait_state res" where
  "admit_loading cd K X W q r p w =
     (let r1 = r\<lparr> status := WAITING_FOR_REMOTE_KVS \<rparr>; n = prefix_tokens r p; r2 = r1\<lparr> num_computed_tokens := n \<rparr>;
          w1 = with_sched (\<lambda>s. s\<lparr> requests := (requests s)(q \<mapsto> r2), inflight_prefills := insert q (inflight_prefills s) \<rparr>)
            (w\<lparr> step_skipped := prepend_request X r1 (step_skipped w) \<rparr>)
      in if zeroing_needed W
         then res_bind (get_zeroing_block_ids_in_range cd K (request_id r) (local_tokens p) n (kv_manager (sched_of w1)))
                (\<lambda>ids. Inr (w1\<lparr> skip_zero_block_ids := skip_zero_block_ids w1 \<union> set ids \<rparr>))
         else Inr w1)"

definition book_admission ::
  "('c, 'h, 'e) coordinator \<Rightarrow> ('x, 'h) encoder_ext \<Rightarrow> waiting_config \<Rightarrow> string \<Rightarrow> 'h sched_request
   \<Rightarrow> 'h computed_prefix \<Rightarrow> 'x admission \<Rightarrow> ('c, 'x, 'q, 'h) run_state \<Rightarrow> ('c, 'x, 'q, 'h) run_state" where
  "book_admission K E W q r p ad st =
     (let s = sched st; g = gate st; n = new_tokens ad; a = encoder_part ad;
          on = enable_decode_aware_prefill g;
          r' = r\<lparr> status := RUNNING, num_computed_tokens := prefix_tokens r p \<rparr>;
          x = fold (encoder_alloc E r') (encoder_inputs_to_schedule a @ external_load_encoder_input a) (encoder_cache s);
          s' = s\<lparr> requests := (requests s)(q \<mapsto> r'), encoder_cache := x,
                  inflight_prefills := (if prefix_tokens r p + n < num_tokens r then insert q (inflight_prefills s)
                                        else inflight_prefills s) \<rparr>
      in st\<lparr> sched := s', running_ids := running_ids st @ [q],
             req_to_new_blocks := (req_to_new_blocks st)(q \<mapsto> get_blocks K q (kv_manager s)),
             num_scheduled_tokens := (num_scheduled_tokens st)(q \<mapsto> n), token_budget := token_budget st - n,
             prefill_tokens_scheduled := prefill_tokens_scheduled st + (if on then n else 0),
             gate := (if on \<and> is_long_prefill_request g (request.truncate r)
               then g\<lparr> long_prefill_last_scheduled := (long_prefill_last_scheduled g)(q \<mapsto> current_step g) \<rparr> else g),
             scheduled_spec_decode_tokens := (if pad_spec_decode ad
               then (scheduled_spec_decode_tokens st)(q \<mapsto> replicate (nat (max_spec_tokens W)) (- 1))
               else scheduled_spec_decode_tokens st),
             scheduled_encoder_inputs := (if encoder_inputs_to_schedule a = [] then scheduled_encoder_inputs st
               else (scheduled_encoder_inputs st)(q \<mapsto> encoder_inputs_to_schedule a)),
             encoder_compute_budget := (if encoder_inputs_to_schedule a = [] then encoder_compute_budget st else acc_budget a) \<rparr>)"

definition admit_running ::
  "('c, 'h, 'e) coordinator \<Rightarrow> ('x, 'h) encoder_ext \<Rightarrow> ('q, 'k, 'h) waiting_ext \<Rightarrow> waiting_config \<Rightarrow> string \<Rightarrow> 'h sched_request
   \<Rightarrow> 'h computed_prefix \<Rightarrow> 'x admission \<Rightarrow> ('c, 'x, 'q, 'h, 'k) wait_state \<Rightarrow> ('c, 'x, 'q, 'h, 'k) wait_state res" where
  "admit_running K E V W q r p ad w =
     res_bind (require (status r = WAITING \<or> status r = PREEMPTED) RuntimeError) (\<lambda>_.
       Inr (w\<lparr> run := book_admission K E W q r p ad (run w),
            scheduled_new_reqs := (if status r = WAITING then scheduled_new_reqs w @ [q] else scheduled_new_reqs w),
            scheduled_resumed_reqs := (if status r = WAITING then scheduled_resumed_reqs w else scheduled_resumed_reqs w @ [q]),
            scheduled_loras := (case (max_loras W, lora_int_id V r) of
              (Some _, Some l) \<Rightarrow> insert l (scheduled_loras w) | _ \<Rightarrow> scheduled_loras w) \<rparr>))"

text \<open>Allocation and admission; \<open>False\<close> ends the loop.\<close>

definition allocate_and_admit ::
  "(int \<Rightarrow> int \<Rightarrow> int) \<Rightarrow> ('c, 'h, 'e) coordinator \<Rightarrow> ('x, 'q, 'h) sched_ext \<Rightarrow> ('x, 'h) encoder_ext \<Rightarrow> ('q, 'h) running_ext
   \<Rightarrow> ('q, 'k, 'h) waiting_ext \<Rightarrow> running_config \<Rightarrow> waiting_config \<Rightarrow> queue_side \<Rightarrow> string \<Rightarrow> 'h sched_request
   \<Rightarrow> 'h computed_prefix \<Rightarrow> 'x admission \<Rightarrow> ('c, 'x, 'q, 'h, 'k) wait_state \<Rightarrow> (bool \<times> ('c, 'x, 'q, 'h, 'k) wait_state) res" where
  "allocate_and_admit cd K X E R V C W side q r p ad w =
     (let (e, m) = allocate_slots K (kv_request.truncate r) (waiting_slots K R C W r p ad w) (kv_manager (sched_of w));
          w1 = put_kv m w
      in res_bind e (\<lambda>b.
           if b = None
           then Inr (False, if has_encoder_inputs r
             then put_encoder_cache (encoder_cache_free X r (encoder_cache (sched_of w1))) w1 else w1)
           else res_bind (after_alloc K V W q r p w1) (\<lambda>w2.
             let w3 = put_queue side (snd (pop_request V (side_queue side w2))) w2 in
             res_bind (if load_kv_async p then admit_loading cd K X W q r p w3 else admit_running K E V W q r p ad w3)
               (\<lambda>w4. Inr (True, w4)))))"

section \<open>The loop\<close>

definition waiting_step ::
  "(int \<Rightarrow> int \<Rightarrow> int) \<Rightarrow> ('c, 'h, 'e) coordinator \<Rightarrow> ('x, 'q, 'h) sched_ext \<Rightarrow> ('x, 'h) encoder_ext \<Rightarrow> ('q, 'h) running_ext
   \<Rightarrow> ('q, 'k, 'h) waiting_ext \<Rightarrow> running_config \<Rightarrow> waiting_config \<Rightarrow> step_limits
   \<Rightarrow> ('c, 'x, 'q, 'h, 'k) wait_state \<Rightarrow> (bool \<times> ('c, 'x, 'q, 'h, 'k) wait_state) res" where
  "waiting_step cd K X E R V C W L w =
     (if max_running_reqs W \<le> int (length (running_ids (run w))) + num_waiting_for_streaming_input W then Inr (False, w)
      else res_bind (select_waiting_queue V C w) (\<lambda>sel. case sel of None \<Rightarrow> Inl AssertionError | Some side \<Rightarrow>
        let q = peek_request V (side_queue side w) in
        res_bind (lookup_request (sched_of w) q) (\<lambda>r0.
        res_bind (if is_blocked_waiting_status (status r0) then try_promote_blocked_waiting_request K V W q r0 w
                  else Inr (True, w)) (\<lambda>(ready, w1).
        res_bind (lookup_request (sched_of w1) q) (\<lambda>r.
          if \<not> ready \<or> 0 < num_stale_output_tokens r \<and> \<not> drop_stale_output r \<or> exceeds_loras V W w1 r
          then Inr (True, set_aside X V side r w1)
          else res_bind (find_computed K E V W q r w1) (\<lambda>(f, r1, w2). case f of
              None \<Rightarrow> Inr (True, set_aside X V side r1 w2)
            | Some p \<Rightarrow> res_bind (grant_tokens E C W L r1 p w2) (\<lambda>(ad, w3). case ad of
                None \<Rightarrow> Inr (False, w3)
              | Some a \<Rightarrow> allocate_and_admit cd K X E R V C W side q r1 p a w3)))))))"

text \<open>
  The loop, with a bound on the number of passes: \<open>None\<close> means that the bound was too small. Each pass that does
  not end the loop takes one request off a queue.
\<close>

fun waiting_loop ::
  "(int \<Rightarrow> int \<Rightarrow> int) \<Rightarrow> ('c, 'h, 'e) coordinator \<Rightarrow> ('x, 'q, 'h) sched_ext \<Rightarrow> ('x, 'h) encoder_ext \<Rightarrow> ('q, 'h) running_ext
   \<Rightarrow> ('q, 'k, 'h) waiting_ext \<Rightarrow> running_config \<Rightarrow> waiting_config \<Rightarrow> step_limits \<Rightarrow> nat
   \<Rightarrow> ('c, 'x, 'q, 'h, 'k) wait_state \<Rightarrow> ('c, 'x, 'q, 'h, 'k) wait_state res option" where
  "waiting_loop cd K X E R V C W L 0 w = None"
| "waiting_loop cd K X E R V C W L (Suc fuel) w =
     (if (0 < queue_len V (side_queue Waiting w) \<or> 0 < queue_len V (side_queue Skipped w)) \<and> 0 < token_budget (run w)
      then (case waiting_step cd K X E R V C W L w of
              Inl e \<Rightarrow> Some (Inl e)
            | Inr (go_on, w') \<Rightarrow> if go_on then waiting_loop cd K X E R V C W L fuel w' else Some (Inr w'))
      else Some (Inr w))"

text \<open>
  The whole part: skipped when the running loop preempted somebody or scheduling is paused. The requests set aside
  go before the older skipped ones. The second component is \<^verbatim>\<open>prefill_capacity_bound\<close>.
\<close>

definition schedule_waiting ::
  "(int \<Rightarrow> int \<Rightarrow> int) \<Rightarrow> ('c, 'h, 'e) coordinator \<Rightarrow> ('x, 'q, 'h) sched_ext \<Rightarrow> ('x, 'h) encoder_ext \<Rightarrow> ('q, 'h) running_ext
   \<Rightarrow> ('q, 'k, 'h) waiting_ext \<Rightarrow> running_config \<Rightarrow> waiting_config \<Rightarrow> step_limits \<Rightarrow> nat \<Rightarrow> bool
   \<Rightarrow> ('c, 'x, 'q, 'h, 'k) wait_state \<Rightarrow> (bool \<times> ('c, 'x, 'q, 'h, 'k) wait_state) res option" where
  "schedule_waiting cd K X E R V C W L fuel capacity_bound w =
     (if preempted_reqs (run w) = [] \<and> unpaused W
      then (case waiting_loop cd K X E R V C W L fuel (w\<lparr> step_skipped := create_request_queue V \<rparr>) of
              None \<Rightarrow> None
            | Some (Inl e) \<Rightarrow> Some (Inl e)
            | Some (Inr w1) \<Rightarrow>
                (let w2 = (if 0 < queue_len V (step_skipped w1)
                       then w1\<lparr> skipped_queue := prepend_requests V (step_skipped w1) (skipped_queue w1) \<rparr> else w1)
                 in Some (Inr (if defer_prefills L then capacity_bound else 0 < queue_len V (side_queue Waiting w2), w2))))
      else Some (Inr (capacity_bound, w)))"

text \<open>The LoRAs of the running requests that were scheduled, when LoRAs are configured.\<close>

definition lora_ids :: "('q, 'k, 'h) waiting_ext \<Rightarrow> ('c, 'x, 'q, 'h) run_state \<Rightarrow> int set" where
  "lora_ids V st = set (concat (map (\<lambda>q. case requests (sched st) q of None \<Rightarrow> []
      | Some r \<Rightarrow> (case lora_int_id V r of None \<Rightarrow> [] | Some l \<Rightarrow> if 0 < l then [l] else []))
     (scheduled_running_reqs st)))"

definition record_loras ::
  "('q, 'k, 'h) waiting_ext \<Rightarrow> waiting_config \<Rightarrow> ('c, 'x, 'q, 'h) run_state \<Rightarrow> int set res" where
  "record_loras V W st =
     (case max_loras W of
        None \<Rightarrow> Inr {}
      | Some n \<Rightarrow> res_bind (require (int (card (lora_ids V st)) \<le> n) AssertionError) (\<lambda>_. Inr (lora_ids V st)))"

text \<open>
  Both loops. What lasts between steps is taken from \<open>w\<close>; the rest of it is set anew. The first component of the
  result is \<^verbatim>\<open>prefill_capacity_bound\<close>.
\<close>

definition schedule_loops ::
  "(int \<Rightarrow> int \<Rightarrow> int) \<Rightarrow> ('c, 'h, 'e) coordinator \<Rightarrow> ('x, 'q, 'h) sched_ext \<Rightarrow> ('x, 'h) encoder_ext \<Rightarrow> ('q, 'h) running_ext
   \<Rightarrow> ('q, 'k, 'h) waiting_ext \<Rightarrow> running_config \<Rightarrow> waiting_config \<Rightarrow> int \<Rightarrow> nat \<Rightarrow> bool \<Rightarrow> bool
   \<Rightarrow> ('c, 'x, 'q, 'h, 'k) wait_state \<Rightarrow> (bool \<times> ('c, 'x, 'q, 'h, 'k) wait_state) res option" where
  "schedule_loops cd K X E R V C W max_tokens_per_step fuel throttle bound w =
     (case schedule_start K R C max_tokens_per_step throttle bound
             ((gate (run w))\<lparr> skipped_waiting := queued_requests R (skipped_queue w) \<rparr>) (long_prefill_gate_skips (run w))
             (running_ids (run w)) (sched_of w) of
        Inl e \<Rightarrow> Some (Inl e)
      | Inr (L, st0) \<Rightarrow>
          (case res_bind (running_loop K X E R C L st0) (\<lambda>st. res_bind (record_loras V W st) (\<lambda>ls. Inr (st, ls))) of
             Inl e \<Rightarrow> Some (Inl e)
           | Inr (st, ls) \<Rightarrow> schedule_waiting cd K X E R V C W L fuel bound
               (w\<lparr> run := st, scheduled_new_reqs := [], scheduled_resumed_reqs := [], scheduled_loras := ls \<rparr>)))"

text \<open>The constraints that \<^verbatim>\<open>schedule()\<close> asserts after both loops. The keys of the token dict are the scheduled requests.\<close>

definition scheduled_ids :: "('c, 'x, 'q, 'h, 'k) wait_state \<Rightarrow> string set" where
  "scheduled_ids w = set (scheduled_running_reqs (run w)) \<union> set (scheduled_new_reqs w) \<union> set (scheduled_resumed_reqs w)"

definition total_num_scheduled_tokens :: "('c, 'x, 'q, 'h, 'k) wait_state \<Rightarrow> int" where
  "total_num_scheduled_tokens w = (\<Sum>q \<in> scheduled_ids w. the (num_scheduled_tokens (run w) q))"

definition check_constraints :: "waiting_config \<Rightarrow> int \<Rightarrow> ('c, 'x, 'q, 'h, 'k) wait_state \<Rightarrow> unit res" where
  "check_constraints W max_tokens_per_step w =
     res_bind (require (total_num_scheduled_tokens w \<le> max_tokens_per_step) AssertionError) (\<lambda>_.
     res_bind (require (0 \<le> token_budget (run w)) AssertionError) (\<lambda>_.
     res_bind (require (int (length (running_ids (run w))) \<le> max_running_reqs W) AssertionError) (\<lambda>_.
     require (length (scheduled_new_reqs w) + length (scheduled_resumed_reqs w)
        + length (scheduled_running_reqs (run w)) \<le> length (running_ids (run w))) AssertionError)))"

end
