(* ===== verification/Sched_Waiting_Props.thy ===== *)
theory Sched_Waiting_Props
  imports Sched_Waiting Sched_Running_Props
begin

text \<open>
  Properties of the admission loop: whatever the other modules answer, the constraints that \<^verbatim>\<open>schedule()\<close>
  asserts after its loops hold, and the loops return.
\<close>

section \<open>Steps that leave the books alone\<close>

text \<open>The multimodal items of every known request are as the encoder part needs them.\<close>

definition items_ok :: "('x, 'h) encoder_ext \<Rightarrow> running_config \<Rightarrow> 'h sched_request \<Rightarrow> bool" where
  "items_ok E C r \<longleftrightarrow> window_contract E r \<and> features_ok (encoder_cfg C) r"

definition store_items_ok :: "('x, 'h) encoder_ext \<Rightarrow> running_config \<Rightarrow> ('c, 'x, 'q, 'h) sched_state \<Rightarrow> bool" where
  "store_items_ok E C s \<longleftrightarrow> (\<forall>q r. requests s q = Some r \<longrightarrow> items_ok E C r)"

lemma items_ok_updates [simp]:
  "items_ok E C (r\<lparr> status := st \<rparr>) = items_ok E C r"
  "items_ok E C (r\<lparr> num_computed_tokens := n \<rparr>) = items_ok E C r"
  "items_ok E C (r\<lparr> shared_prefix_boundary := n \<rparr>) = items_ok E C r"
  "items_ok E C (r\<lparr> spec_token_ids := ds \<rparr>) = items_ok E C r"
  "items_ok E C (preempted dropping r) = items_ok E C r"
  by (simp_all add: items_ok_def window_contract_def features_ok_def preempted_def)

text \<open>
  A step of the loop that touches only caches, requests, connector and queues is quiet; it is aside when it leaves
  the two queues alone as well.
\<close>

definition quiet ::
  "('x, 'h) encoder_ext \<Rightarrow> running_config \<Rightarrow> ('c, 'x, 'q, 'h, 'k) wait_state \<Rightarrow> ('c, 'x, 'q, 'h, 'k) wait_state \<Rightarrow> bool" where
  "quiet E C w w' \<longleftrightarrow> (\<exists>s. run w' = (run w)\<lparr> sched := s \<rparr>)
     \<and> scheduled_new_reqs w' = scheduled_new_reqs w \<and> scheduled_resumed_reqs w' = scheduled_resumed_reqs w
     \<and> (store_items_ok E C (sched_of w) \<longrightarrow> store_items_ok E C (sched_of w'))"

definition aside ::
  "('x, 'h) encoder_ext \<Rightarrow> running_config \<Rightarrow> ('c, 'x, 'q, 'h, 'k) wait_state \<Rightarrow> ('c, 'x, 'q, 'h, 'k) wait_state \<Rightarrow> bool" where
  "aside E C w w' \<longleftrightarrow> quiet E C w w' \<and> (\<forall>side. side_queue side w' = side_queue side w)"

lemma quiet_refl [simp]: "quiet E C w w"
  by (auto simp: quiet_def intro: exI[of _ "sched_of w"])

lemma quiet_trans: "quiet E C w w1 \<Longrightarrow> quiet E C w1 w2 \<Longrightarrow> quiet E C w w2"
  by (auto simp: quiet_def)

lemma aside_refl [simp]: "aside E C w w"
  by (simp add: aside_def)

lemma aside_quiet: "aside E C w w' \<Longrightarrow> quiet E C w w'"
  by (simp add: aside_def)

lemma aside_trans: "aside E C w w1 \<Longrightarrow> aside E C w1 w2 \<Longrightarrow> aside E C w w2"
  unfolding aside_def using quiet_trans by metis

lemma aside_with_sched:
  assumes "aside E C w w1" "requests (f (sched_of w1)) = requests (sched_of w1)"
    "waiting_queue (f (sched_of w1)) = waiting_queue (sched_of w1)"
  shows "aside E C w (with_sched f w1)"
proof -
  have "side_queue side (with_sched f w1) = side_queue side w1" for side
    using assms(3) by (cases side) (simp_all add: side_queue_def with_sched_def)
  moreover have "quiet E C w1 (with_sched f w1)"
    using assms(2) by (auto simp: quiet_def with_sched_def store_items_ok_def)
  ultimately show ?thesis using assms(1) quiet_trans unfolding aside_def by metis
qed

lemma aside_fields:
  assumes "aside E C w w1" "run w2 = run w1" "skipped_queue w2 = skipped_queue w1"
    "scheduled_new_reqs w2 = scheduled_new_reqs w1" "scheduled_resumed_reqs w2 = scheduled_resumed_reqs w1"
  shows "aside E C w w2"
proof -
  have "side_queue side w2 = side_queue side w1" for side
    using assms(2,3) by (cases side) (simp_all add: side_queue_def)
  then show ?thesis using assms by (simp add: aside_def quiet_def)
qed

lemma aside_steps:
  assumes "aside E C w w1"
  shows "aside E C w (put_kv m w1)" "aside E C w (put_encoder_cache x w1)"
    "aside E C w (w1\<lparr> step_skipped := z \<rparr>)" "aside E C w (w1\<lparr> connector_state := k \<rparr>)"
    "aside E C w (w1\<lparr> finished_recving := a \<rparr>)" "aside E C w (w1\<lparr> failed_recving := a \<rparr>)"
    "aside E C w (w1\<lparr> grammar_compile_errors := a \<rparr>)" "aside E C w (w1\<lparr> skip_zero_block_ids := z' \<rparr>)"
    "aside E C w (w1\<lparr> connector_state := k, connector_hits := hs \<rparr>)" "aside E C w (w1\<lparr> prefill_stats_set := ps \<rparr>)"
  subgoal unfolding put_kv_def using assms by (rule aside_with_sched) simp_all
  subgoal unfolding put_encoder_cache_def using assms by (rule aside_with_sched) simp_all
  using assms by (auto intro: aside_fields)

lemma quiet_put_queue: "quiet E C w (put_queue side z w)"
  by (cases side) (auto simp: put_queue_def quiet_def with_sched_def store_items_ok_def intro: exI[of _ "sched_of w"])

lemma aside_put_request:
  assumes "aside E C w w1" "items_ok E C r"
  shows "aside E C w (put_request q r w1)"
proof -
  have "side_queue side (put_request q r w1) = side_queue side w1" for side
    by (cases side) (simp_all add: side_queue_def put_request_def with_sched_def)
  moreover have "quiet E C w1 (put_request q r w1)"
    using assms(2) by (auto simp: quiet_def put_request_def with_sched_def store_items_ok_def)
  ultimately show ?thesis using assms(1) quiet_trans unfolding aside_def by metis
qed

lemmas aside_intros = aside_steps aside_put_request aside_refl

lemma lookup_items: "lookup_request s q = Inr r \<Longrightarrow> store_items_ok E C s \<Longrightarrow> items_ok E C r"
  by (auto simp: lookup_request_def store_items_ok_def split: option.splits)

lemma quiet_set_aside: "quiet E C w (set_aside X V side r w)"
proof -
  let ?w1 = "put_queue side (snd (pop_request V (side_queue side w))) w"
  have "quiet E C ?w1 (?w1\<lparr> step_skipped := prepend_request X r (step_skipped ?w1) \<rparr>)"
    by (rule aside_quiet, intro aside_intros)
  then show ?thesis unfolding set_aside_def Let_def by (rule quiet_trans[OF quiet_put_queue])
qed

lemma aside_promote:
  assumes "try_promote_blocked_waiting_request K V W q r w = Inr (ready, w')" "items_ok E C r"
  shows "aside E C w w'"
proof -
  have up: "aside E C w w1 \<and> items_ok E C r1"
    if u: "update_waiting_for_remote_kv K V W q r w = Inr (r1, w1)" for r1 w1
  proof (cases "q \<in> failed_recving w")
    case True
    obtain m' where "r1 = r" "w1 = (put_kv m' w)\<lparr> failed_recving := failed_recving w - {q},
        finished_recving := finished_recving w - {q} \<rparr>"
      using u True by (auto simp: update_waiting_for_remote_kv_def Let_def res_simps put_kv_def with_sched_def
          split: if_splits prod.splits)
    then show ?thesis using assms(2) aside_steps(5)[OF aside_steps(6)[OF aside_steps(1)[OF aside_refl]]] by simp
  next
    case False
    obtain m' r' where r': "r' = r \<or> r' = r\<lparr> num_computed_tokens := num_tokens r - 1 \<rparr>"
      and w1: "r1 = r'" "w1 = (put_request q r' (put_kv m' w))\<lparr> finished_recving := finished_recving w - {q} \<rparr>"
      using u False by (auto simp: update_waiting_for_remote_kv_def Let_def res_simps put_kv_def put_request_def with_sched_def
          split: if_splits)
    have "items_ok E C r'" using r' assms(2) by auto
    then show ?thesis using w1 aside_steps(5)[OF aside_put_request[OF aside_steps(1)[OF aside_refl]]] by simp
  qed
  show ?thesis
  proof (cases "status r = WAITING_FOR_REMOTE_KVS")
    case True
    show ?thesis
    proof (cases "q \<in> finished_recving w")
      case True
      have "res_bind (update_waiting_for_remote_kv K V W q r w) (\<lambda>(r', w').
          Inr (True, put_request q (r'\<lparr> status := (if num_preemptions r' \<noteq> 0 then PREEMPTED else WAITING) \<rparr>) w'))
        = Inr (ready, w')"
        using assms(1) True \<open>status r = _\<close> by (simp add: try_promote_blocked_waiting_request_def)
      then obtain r1 w1 where u: "update_waiting_for_remote_kv K V W q r w = Inr (r1, w1)"
        "w' = put_request q (r1\<lparr> status := (if num_preemptions r1 \<noteq> 0 then PREEMPTED else WAITING) \<rparr>) w1"
        unfolding res_bind_eq_Inr by auto
      then show ?thesis unfolding u(2) using up[OF u(1)] by (intro aside_put_request) (simp_all only: items_ok_updates)
    qed (use assms(1) True in \<open>simp add: try_promote_blocked_waiting_request_def\<close>)
  next
    case False
    show ?thesis
    proof (cases "status r = WAITING_FOR_STRUCTURED_OUTPUT_GRAMMAR")
      case True
      then show ?thesis using assms
        by (cases "grammar_of V r") (auto simp: try_promote_blocked_waiting_request_def intro!: aside_intros)
    next
      case nf: False
      then show ?thesis using assms False
        by (cases "status r = WAITING_FOR_STREAMING_REQ")
          (auto simp: try_promote_blocked_waiting_request_def require_bind_eq_Inr)
    qed
  qed
qed

lemma aside_lookup_local:
  assumes "lookup_local K W q r w = Inr (b, n, r', w')" "items_ok E C r"
  shows "aside E C w w' \<and> items_ok E C r'"
  using assms by (auto simp: lookup_local_def Let_def res_simps split: prod.splits
      intro!: aside_intros)

lemma aside_lookup_connector:
  assumes "lookup_with_connector K cn W q r w = Inr (f, r', w')" "items_ok E C r"
  shows "aside E C w w' \<and> items_ok E C r'"
proof -
  obtain b n j d m where e: "get_computed_blocks_for_connector K (process_env W) (kv_request.truncate r) (kv_manager (sched_of w))
      = (Inr (b, n, j, d), m)" and nz: "hit_block_size W \<noteq> 0"
    using assms(1) by (auto simp: lookup_with_connector_def Let_def res_simps split: prod.splits if_splits)
  let ?r1 = "r\<lparr> shared_prefix_boundary := j \<rparr>" and ?w1 = "put_request q (r\<lparr> shared_prefix_boundary := j \<rparr>) (put_kv m w)"
  obtain ext as k where g: "get_num_new_matched_tokens cn ?r1 (n - n mod hit_block_size W) (connector_state ?w1) = (ext, as, k)"
    using prod_cases3 by blast
  have w2: "aside E C w (?w1\<lparr> connector_state := k \<rparr>)"
    using assms(2) by (intro aside_intros) simp
  show ?thesis
    using assms w2 e nz g
    by (auto simp: lookup_with_connector_def Let_def res_simps split: prod.splits if_splits option.splits
        dest!: aside_lookup_local intro: aside_trans)
qed

lemma aside_find_computed:
  assumes "find_computed K E' V W q r w = Inr (f, r', w')" "items_ok E C r"
  shows "aside E C w w' \<and> items_ok E C r'"
proof (cases "num_computed_tokens r \<noteq> 0")
  case False
  define found where "found = (case connector V of Some cn \<Rightarrow> lookup_with_connector K cn W q r w
    | None \<Rightarrow> res_bind (lookup_local K W q r w) (\<lambda>(b, n, r', w').
        Inr (Some \<lparr> prefix_blocks = b, local_tokens = n, external_tokens = 0, load_kv_async = False,
                    connector_query = None, did_lookup = True \<rparr>, r', w')))"
  have a: "aside E C w w1 \<and> items_ok E C r1" if "found = Inr (f1, r1, w1)" for f1 r1 w1
    using that assms(2) unfolding found_def
    by (auto simp: res_simps split: option.splits dest!: aside_lookup_local aside_lookup_connector)
  obtain f1 r1 w1 where f1: "found = Inr (f1, r1, w1)"
    using assms(1) False unfolding find_computed_def found_def[symmetric] by (auto simp: res_simps)
  have "r' = r1 \<and> (w' = w1 \<or> (\<exists>ps. w' = w1\<lparr> prefill_stats_set := ps \<rparr>))"
    using assms(1) False unfolding find_computed_def found_def[symmetric] f1
    by (auto simp: res_simps Let_def split: option.splits if_splits)
  then show ?thesis using a[OF f1] by (auto intro!: aside_intros)
qed (use assms in \<open>auto simp: find_computed_def\<close>)

lemma split_bounds_any:
  assumes "0 < block_size cfg" "0 \<le> n"
  shows "0 \<le> mamba_block_aligned_split cfg r n l e" "mamba_block_aligned_split cfg r n l e \<le> n"
proof -
  let ?s = "num_computed_tokens r + l + e"
  let ?e = "aligned_chunk_end cfg ?s (max (num_prompt_tokens r) (num_tokens r - 1)) (?s + n)"
  have "first_stop ?s stops ?e \<le> ?s + n" for stops
    using first_stop_cases(2)[of ?s stops ?e] aligned_chunk_end_cases(1)[OF assms(1)] by (rule order_trans)
  then show "0 \<le> mamba_block_aligned_split cfg r n l e" "mamba_block_aligned_split cfg r n l e \<le> n"
    using assms(2) by (auto simp: mamba_block_aligned_split_def Let_def algebra_simps)
qed

section \<open>Tokens and blocks\<close>

lemma waiting_tokens_bounds:
  assumes "waiting_tokens C W L st n computed = Some (k, pad)"
  shows "k \<le> token_budget st"
    and "enable_decode_aware_prefill (gate st) \<Longrightarrow> k \<le> prefill_token_budget L - prefill_tokens_scheduled st"
  using assms by (auto simp: waiting_tokens_def Let_def split: if_splits)

text \<open>What an admission may take of the budgets.\<close>

definition within_budget :: "step_limits \<Rightarrow> ('c, 'x, 'q, 'h) run_state \<Rightarrow> int \<Rightarrow> bool" where
  "within_budget L st n \<longleftrightarrow> 0 < n \<and> n \<le> token_budget st
     \<and> (enable_decode_aware_prefill (gate st) \<longrightarrow> n \<le> prefill_token_budget L - prefill_tokens_scheduled st)"

lemma grant_tokens_ok:
  assumes "grant_tokens E C W L r p w = Inr (f, w')" "items_ok E C r" "split_ok C"
  shows "aside E C w w' \<and> (\<forall>ad. f = Some ad \<longrightarrow> \<not> load_kv_async p \<longrightarrow> within_budget L (run w) (new_tokens ad))"
proof (cases "load_kv_async p \<or> defer_prefills L \<and> prefix_tokens r p < num_tokens r - 1
    \<or> waiting_tokens C W L (run w) (num_tokens r) (prefix_tokens r p) = None")
  case True
  then have "w' = w \<and> (f = None \<or> load_kv_async p)"
    using assms(1) by (auto simp: grant_tokens_def Let_def require_bind_eq_Inr split: if_splits)
  then show ?thesis by auto
next
  case False
  then obtain k pad where k: "waiting_tokens C W L (run w) (num_tokens r) (prefix_tokens r p) = Some (k, pad)" by auto
  define sh where "sh = (if ec_use_eagle (encoder_cfg C) then 1 else 0 :: int)"
  have pos: "0 < k" using assms(1) False k by (auto simp: grant_tokens_def Let_def require_bind_eq_Inr)
  have "cache_contract E r (\<lambda>_. UNIV)" "window_contract E r" "features_ok (encoder_cfg C) r" "0 \<le> k"
    using assms(2) pos by (simp_all add: cache_contract_def items_ok_def)
  then obtain a where a: "try_schedule_encoder_inputs E (encoder_cfg C) r (prefix_tokens r p) k
      (encoder_compute_budget (run w)) sh (encoder_cache (sched_of w)) = Inr a"
    "0 \<le> acc_num_new_tokens a" "acc_num_new_tokens a \<le> k"
    using encoder_bounds by metis
  define k' where "k' = (case split_when_aligned C of None \<Rightarrow> acc_num_new_tokens a
    | Some cfg \<Rightarrow> mamba_block_aligned_split cfg (request.truncate r) (acc_num_new_tokens a) (local_tokens p) (external_tokens p))"
  have eq: "grant_tokens E C W L r p w =
     (if acc_num_new_tokens a = 0 then Inr (None, put_encoder_cache (acc_cache a) w)
      else if split_when_aligned C \<noteq> None \<and> k' = 0 then Inr (None, put_encoder_cache (acc_cache a) w)
      else Inr (Some \<lparr> new_tokens = k', encoder_part = a, pad_spec_decode = pad \<rparr>, put_encoder_cache (acc_cache a) w))"
    using False k pos a(1) unfolding grant_tokens_def sh_def[symmetric] by (auto simp: Let_def k'_def)
  have bounds: "0 < k' \<and> k' \<le> k"
    if h: "acc_num_new_tokens a \<noteq> 0" "\<not> (split_when_aligned C \<noteq> None \<and> k' = 0)"
  proof (cases "split_when_aligned C")
    case (Some cfg)
    then have "0 < block_size cfg" using assms(3) by (simp add: split_ok_def)
    note b = split_bounds_any[OF this a(2), of "request.truncate r" "local_tokens p" "external_tokens p"]
    have k': "k' = mamba_block_aligned_split cfg (request.truncate r) (acc_num_new_tokens a) (local_tokens p) (external_tokens p)"
      using Some by (simp add: k'_def)
    have "k' \<noteq> 0" using h(2) Some by simp
    then show ?thesis using b a(3) unfolding k'[symmetric] by linarith
  qed (use a(2,3) h(1) in \<open>simp add: k'_def\<close>)
  have "f = Some ad \<Longrightarrow> within_budget L (run w) (new_tokens ad)" for ad
    using assms(1) eq bounds waiting_tokens_bounds[OF k] by (auto simp: within_budget_def split: if_splits)
  moreover have "w' = put_encoder_cache (acc_cache a) w" using assms(1) eq by (auto split: if_splits)
  ultimately show ?thesis by (auto intro: aside_intros)
qed

lemma after_alloc_aside: "after_alloc K V W q r p w = Inr w' \<Longrightarrow> aside E C w w'"
proof -
  assume a: "after_alloc K V W q r p w = Inr w'"
  define w1 where "w1 = (case connector V of
            None \<Rightarrow> w
          | Some cn \<Rightarrow>
              w\<lparr> connector_state := connector_update_after_alloc cn r (get_blocks K q (kv_manager (sched_of w)))
                   (external_tokens p) (connector_state w),
                 connector_hits := connector_hits w @ (case connector_query p of None \<Rightarrow> []
                   | Some (n, h) \<Rightarrow> if counts_connector_hits W \<and> n \<noteq> 0 then [(n, h, 0 < num_preemptions r)] else []) \<rparr>)"
  have w1: "aside E C w w1" unfolding w1_def by (cases "connector V") (auto intro: aside_intros)
  have "w' = w1 \<or> (\<exists>m. w' = put_kv m w1)"
    using a unfolding after_alloc_def w1_def[symmetric] Let_def by (auto simp: res_bind_eq_Inr split: if_splits)
  then show ?thesis using w1 aside_steps(1) by blast
qed

lemma admit_loading_aside:
  assumes "admit_loading cd K X W q r p w = Inr w'" "items_ok E C r"
  shows "aside E C w w'"
proof -
  define r2 where "r2 = r\<lparr> status := WAITING_FOR_REMOTE_KVS, num_computed_tokens := prefix_tokens r p \<rparr>"
  define w1 where "w1 = with_sched (\<lambda>s. s\<lparr> requests := (requests s)(q \<mapsto> r2), inflight_prefills := insert q (inflight_prefills s) \<rparr>)
      (w\<lparr> step_skipped := prepend_request X (r\<lparr> status := WAITING_FOR_REMOTE_KVS \<rparr>) (step_skipped w) \<rparr>)"
  have "items_ok E C r2" using assms(2) by (simp add: r2_def items_ok_def window_contract_def features_ok_def)
  then have "quiet E C w w1" by (auto simp: quiet_def w1_def with_sched_def store_items_ok_def)
  moreover have "side_queue side w1 = side_queue side w" for side
    by (cases side) (simp_all add: side_queue_def w1_def with_sched_def)
  ultimately have "aside E C w w1" by (simp add: aside_def)
  moreover have "w' = w1 \<or> (\<exists>z. w' = w1\<lparr> skip_zero_block_ids := z \<rparr>)"
    using assms(1) unfolding admit_loading_def Let_def w1_def r2_def by (auto simp: res_bind_eq_Inr split: if_splits)
  ultimately show ?thesis using aside_steps(8) by blast
qed

section \<open>The books of the loop\<close>

text \<open>The tokens of the admissions and of those running requests that were prefilling, by \<open>pre\<close>, before the step.\<close>

definition prefill_tokens :: "(string \<Rightarrow> bool) \<Rightarrow> ('c, 'x, 'q, 'h, 'k) wait_state \<Rightarrow> int" where
  "prefill_tokens pre w = (\<Sum>q \<in> set (scheduled_new_reqs w) \<union> set (scheduled_resumed_reqs w)
     \<union> {q \<in> set (scheduled_running_reqs (run w)). pre q}. the (num_scheduled_tokens (run w) q))"

definition wait_inv ::
  "('x, 'h) encoder_ext \<Rightarrow> running_config \<Rightarrow> (string \<Rightarrow> bool) \<Rightarrow> waiting_config \<Rightarrow> step_limits \<Rightarrow> int \<Rightarrow> bool
   \<Rightarrow> ('c, 'x, 'q, 'h, 'k) wait_state \<Rightarrow> bool" where
  "wait_inv E C pre W L B on w \<longleftrightarrow> store_items_ok E C (sched_of w)
     \<and> dom (num_scheduled_tokens (run w)) = scheduled_ids w \<and> dom (req_to_new_blocks (run w)) = scheduled_ids w
     \<and> scheduled_ids w \<subseteq> set (running_ids (run w))
     \<and> (\<forall>q \<in> scheduled_ids w. 0 < amount (run w) q)
     \<and> token_budget (run w) + total_num_scheduled_tokens w \<le> B \<and> 0 \<le> token_budget (run w)
     \<and> int (length (running_ids (run w))) \<le> max_running_reqs W
     \<and> length (scheduled_new_reqs w) + length (scheduled_resumed_reqs w) + length (scheduled_running_reqs (run w))
         \<le> length (running_ids (run w))
     \<and> enable_decode_aware_prefill (gate (run w)) = on
     \<and> (on \<longrightarrow> prefill_tokens_scheduled (run w) \<le> max 0 (prefill_token_budget L)
           \<and> prefill_tokens pre w \<le> prefill_tokens_scheduled (run w))"

lemma wait_inv_quiet:
  assumes "quiet E C w w'" "wait_inv E C pre W L B on w"
  shows "wait_inv E C pre W L B on w'"
proof -
  obtain s where "run w' = (run w)\<lparr> sched := s \<rparr>" "scheduled_new_reqs w' = scheduled_new_reqs w"
    "scheduled_resumed_reqs w' = scheduled_resumed_reqs w" "store_items_ok E C (sched_of w')"
    using assms by (auto simp: quiet_def wait_inv_def)
  moreover from this have "scheduled_ids w' = scheduled_ids w" by (simp add: scheduled_ids_def)
  ultimately show ?thesis using assms(2) by (simp add: wait_inv_def total_num_scheduled_tokens_def prefill_tokens_def)
qed

lemmas wait_inv_aside = wait_inv_quiet[OF aside_quiet]

lemma quiet_run: "quiet E C w w' \<Longrightarrow> \<exists>s. run w' = (run w)\<lparr> sched := s \<rparr>"
  by (simp add: quiet_def)

lemmas aside_run = quiet_run[OF aside_quiet]

lemma within_budget_quiet: "quiet E C w w' \<Longrightarrow> within_budget L (run w') n = within_budget L (run w) n"
  by (auto simp: quiet_def within_budget_def)

lemma book_admission_simps:
  "running_ids (book_admission K E W q r p ad st) = running_ids st @ [q]"
  "num_scheduled_tokens (book_admission K E W q r p ad st) = (num_scheduled_tokens st)(q \<mapsto> new_tokens ad)"
  "req_to_new_blocks (book_admission K E W q r p ad st) =
     (req_to_new_blocks st)(q \<mapsto> get_blocks K q (kv_manager (sched st)))"
  "token_budget (book_admission K E W q r p ad st) = token_budget st - new_tokens ad"
  "scheduled_running_reqs (book_admission K E W q r p ad st) = scheduled_running_reqs st"
  "prefill_tokens_scheduled (book_admission K E W q r p ad st) = prefill_tokens_scheduled st
     + (if enable_decode_aware_prefill (gate st) then new_tokens ad else 0)"
  "enable_decode_aware_prefill (gate (book_admission K E W q r p ad st)) = enable_decode_aware_prefill (gate st)"
  "requests (sched (book_admission K E W q r p ad st)) =
     (requests (sched st))(q \<mapsto> r\<lparr> status := RUNNING, num_computed_tokens := prefix_tokens r p \<rparr>)"
  by (simp_all add: book_admission_def Let_def)

lemma wait_inv_admit:
  assumes "admit_running K E' V W q r p ad w = Inr w'" "wait_inv E C pre W L B on w" "items_ok E C r"
    and "within_budget L (run w) (new_tokens ad)" "int (length (running_ids (run w))) < max_running_reqs W"
  shows "wait_inv E C pre W L B on w'"
proof -
  let ?n = "new_tokens ad" and ?r' = "r\<lparr> status := RUNNING, num_computed_tokens := prefix_tokens r p \<rparr>"
  have run: "run w' = book_admission K E' W q r p ad (run w)"
    and lists: "(scheduled_new_reqs w' = scheduled_new_reqs w @ [q] \<and> scheduled_resumed_reqs w' = scheduled_resumed_reqs w)
      \<or> (scheduled_new_reqs w' = scheduled_new_reqs w \<and> scheduled_resumed_reqs w' = scheduled_resumed_reqs w @ [q])"
    using assms(1) by (auto simp: admit_running_def require_bind_eq_Inr)
  note f = book_admission_simps[of K E' W q r p ad "run w", folded run]
  have ids: "scheduled_ids w' = insert q (scheduled_ids w)" using lists f(5) by (auto simp: scheduled_ids_def)
  have inv: "dom (num_scheduled_tokens (run w)) = scheduled_ids w" "\<forall>q \<in> scheduled_ids w. 0 < amount (run w) q"
    "token_budget (run w) + total_num_scheduled_tokens w \<le> B" "store_items_ok E C (sched_of w)"
    using assms(2) by (auto simp: wait_inv_def)
  have fin: "finite (scheduled_ids w)" by (simp add: scheduled_ids_def)
  have "total_num_scheduled_tokens w' = ?n + (\<Sum>x \<in> scheduled_ids w - {q}. amount (run w') x)"
    unfolding total_num_scheduled_tokens_def ids using fin f(2) by (simp add: sum.insert_remove)
  also have "(\<Sum>x \<in> scheduled_ids w - {q}. amount (run w') x) = (\<Sum>x \<in> scheduled_ids w - {q}. amount (run w) x)"
    using f(2) by (intro sum.cong) auto
  also have "\<dots> \<le> total_num_scheduled_tokens w"
    unfolding total_num_scheduled_tokens_def using inv(2) fin by (intro sum_mono2) (auto simp: less_imp_le)
  finally have total: "token_budget (run w') + total_num_scheduled_tokens w' \<le> B" using inv(3) f(4) by linarith
  have "items_ok E C ?r'" using assms(3) by (simp add: items_ok_def window_contract_def features_ok_def)
  then have "store_items_ok E C (sched_of w')" using inv(4) f(8) by (auto simp: store_items_ok_def)
  moreover have "\<forall>x \<in> scheduled_ids w'. 0 < amount (run w') x"
    using inv(2) f(2) ids assms(4) by (auto simp: within_budget_def)
  moreover have "dom (num_scheduled_tokens (run w')) = scheduled_ids w'" using inv(1) f(2) ids by simp
  moreover have "dom (req_to_new_blocks (run w')) = scheduled_ids w'" "scheduled_ids w' \<subseteq> set (running_ids (run w'))"
    using assms(2) f(1,3) ids by (auto simp: wait_inv_def)
  moreover have "length (scheduled_new_reqs w') + length (scheduled_resumed_reqs w') + length (scheduled_running_reqs (run w'))
      \<le> length (running_ids (run w'))"
    using lists f(1,5) assms(2) by (auto simp: wait_inv_def)
  moreover have "enable_decode_aware_prefill (gate (run w')) = on"
    "on \<longrightarrow> prefill_tokens_scheduled (run w') \<le> max 0 (prefill_token_budget L)"
    using assms(2,4) f(6,7) by (auto simp: wait_inv_def within_budget_def)
  moreover have "on \<longrightarrow> prefill_tokens pre w' \<le> prefill_tokens_scheduled (run w')"
  proof
    assume on: on
    let ?N = "\<lambda>w. set (scheduled_new_reqs w) \<union> set (scheduled_resumed_reqs w) \<union> {q \<in> set (scheduled_running_reqs (run w)). pre q}"
    have N: "?N w' = insert q (?N w)" "finite (?N w)" "?N w \<subseteq> scheduled_ids w" using lists f(5) by (auto simp: scheduled_ids_def)
    have "prefill_tokens pre w' = ?n + (\<Sum>x \<in> ?N w - {q}. amount (run w') x)"
      unfolding prefill_tokens_def N(1) using N(2) f(2) by (simp add: sum.insert_remove)
    also have "(\<Sum>x \<in> ?N w - {q}. amount (run w') x) = (\<Sum>x \<in> ?N w - {q}. amount (run w) x)"
      using f(2) by (intro sum.cong) auto
    also have "\<dots> \<le> prefill_tokens pre w"
      unfolding prefill_tokens_def using inv(2) N(2,3) by (intro sum_mono2) (auto simp: less_imp_le)
    finally show "prefill_tokens pre w' \<le> prefill_tokens_scheduled (run w')"
      using assms(2) on f(6) by (simp add: wait_inv_def)
  qed
  ultimately show ?thesis
    using total assms(4,5) f(1,4) by (auto simp: wait_inv_def within_budget_def)
qed

lemma allocate_and_admit_cases:
  assumes "allocate_and_admit cd K X E' R V C W side q r p ad w = Inr (go_on, w')"
  shows "(\<not> go_on \<and> aside E C w w') \<or>
    (\<exists>w2 w3. go_on \<and> aside E C w w2 \<and> w3 = put_queue side (snd (pop_request V (side_queue side w2))) w2
      \<and> (if load_kv_async p then admit_loading cd K X W q r p w3 else admit_running K E' V W q r p ad w3) = Inr w')"
proof -
  obtain e m where al: "allocate_slots K (kv_request.truncate r) (waiting_slots K R C W r p ad w) (kv_manager (sched_of w)) = (e, m)"
    by fastforce
  let ?w1 = "put_kv m w"
  have a1: "aside E C w ?w1" by (intro aside_intros)
  obtain b where b: "e = Inr b" using assms(1) al by (cases e) (auto simp: allocate_and_admit_def)
  show ?thesis
  proof (cases b)
    case None
    then have "\<not> go_on \<and> (w' = ?w1 \<or> (\<exists>x. w' = put_encoder_cache x ?w1))"
      using assms(1) al b by (auto simp: allocate_and_admit_def Let_def split: if_splits)
    then show ?thesis using a1 aside_steps(2)[OF a1] by blast
  next
    case (Some b')
    have "res_bind (after_alloc K V W q r p ?w1) (\<lambda>w2.
         res_bind (if load_kv_async p then admit_loading cd K X W q r p (put_queue side (snd (pop_request V (side_queue side w2))) w2)
                   else admit_running K E' V W q r p ad (put_queue side (snd (pop_request V (side_queue side w2))) w2))
           (\<lambda>w4. Inr (True, w4))) = Inr (go_on, w')"
      using assms(1) al b Some by (simp add: allocate_and_admit_def Let_def)
    then obtain w2 where w2: "after_alloc K V W q r p ?w1 = Inr w2" and "go_on"
      and fin: "(if load_kv_async p then admit_loading cd K X W q r p (put_queue side (snd (pop_request V (side_queue side w2))) w2)
        else admit_running K E' V W q r p ad (put_queue side (snd (pop_request V (side_queue side w2))) w2)) = Inr w'"
      unfolding res_bind_eq_Inr by auto
    then show ?thesis using aside_trans[OF a1 after_alloc_aside[OF w2]] by blast
  qed
qed

lemma allocate_and_admit_inv:
  assumes "allocate_and_admit cd K X E' R V C W side q r p ad w = Inr (go_on, w')" "wait_inv E C pre W L B on w" "items_ok E C r"
    and "\<not> load_kv_async p \<longrightarrow> within_budget L (run w) (new_tokens ad)"
    and "int (length (running_ids (run w))) < max_running_reqs W"
  shows "wait_inv E C pre W L B on w'"
  using allocate_and_admit_cases[OF assms(1), where E = E]
proof (elim disjE exE conjE)
  assume "aside E C w w'"
  then show ?thesis using wait_inv_aside assms(2) by blast
next
  fix w2 w3
  assume a2: "aside E C w w2" and w3: "w3 = put_queue side (snd (pop_request V (side_queue side w2))) w2"
    and fin: "(if load_kv_async p then admit_loading cd K X W q r p w3 else admit_running K E' V W q r p ad w3) = Inr w'"
  have a: "quiet E C w w3" unfolding w3 by (rule quiet_trans[OF aside_quiet[OF a2] quiet_put_queue])
  have inv3: "wait_inv E C pre W L B on w3" using wait_inv_quiet[OF a assms(2)] .
  show ?thesis
  proof (cases "load_kv_async p")
    case True
    then show ?thesis using fin admit_loading_aside[OF _ assms(3)] inv3 wait_inv_aside by metis
  next
    case False
    have "int (length (running_ids (run w3))) < max_running_reqs W" using quiet_run[OF a] assms(5) by auto
    then show ?thesis
      using wait_inv_admit[OF _ inv3 assms(3)] fin False assms(4) within_budget_quiet[OF a] by simp
  qed
qed

text \<open>How a pass ends: nothing moved, the request set aside, or allocation and admission.\<close>

definition pass_ends ::
  "(int \<Rightarrow> int \<Rightarrow> int) \<Rightarrow> ('c, 'h, 'e) coordinator \<Rightarrow> ('x, 'q, 'h) sched_ext \<Rightarrow> ('x, 'h) encoder_ext \<Rightarrow> ('q, 'h) running_ext
   \<Rightarrow> ('q, 'k, 'h) waiting_ext \<Rightarrow> running_config \<Rightarrow> waiting_config \<Rightarrow> step_limits \<Rightarrow> queue_side
   \<Rightarrow> ('c, 'x, 'q, 'h, 'k) wait_state \<Rightarrow> bool \<Rightarrow> ('c, 'x, 'q, 'h, 'k) wait_state \<Rightarrow> bool" where
  "pass_ends cd K X E R V C W L side w go_on w' \<longleftrightarrow>
     (\<not> go_on \<and> aside E C w w')
   \<or> (go_on \<and> (\<exists>r w1. aside E C w w1 \<and> w' = set_aside X V side r w1))
   \<or> (\<exists>q r p ad w3. aside E C w w3 \<and> items_ok E C r \<and> (\<not> load_kv_async p \<longrightarrow> within_budget L (run w3) (new_tokens ad))
        \<and> allocate_and_admit cd K X E R V C W side q r p ad w3 = Inr (go_on, w'))"

lemma ready_pass_ends:
  assumes "res_bind (find_computed K E V W q r w1) (\<lambda>(f, r1, w2). case f of
              None \<Rightarrow> Inr (True, set_aside X V side r1 w2)
            | Some p \<Rightarrow> res_bind (grant_tokens E C W L r1 p w2) (\<lambda>(ad, w3). case ad of
                None \<Rightarrow> Inr (False, w3)
              | Some a \<Rightarrow> allocate_and_admit cd K X E R V C W side q r1 p a w3)) = Inr (go_on, w')"
    and "aside E C w w1" "items_ok E C r" "split_ok C"
  shows "pass_ends cd K X E R V C W L side w go_on w'"
proof -
  obtain f r1 w2 where f: "find_computed K E V W q r w1 = Inr (f, r1, w2)"
    using assms(1) by (auto simp: res_bind_eq_Inr)
  have a2: "aside E C w w2" "items_ok E C r1"
    using aside_find_computed[OF f assms(3)] aside_trans[OF assms(2)] by blast+
  show ?thesis
  proof (cases f)
    case None
    then have "go_on \<and> w' = set_aside X V side r1 w2" using assms(1) f by simp
    then show ?thesis using a2(1) unfolding pass_ends_def by blast
  next
    case (Some p)
    obtain ad w3 where g: "grant_tokens E C W L r1 p w2 = Inr (ad, w3)"
      using assms(1) f Some by (auto simp: res_bind_eq_Inr)
    have a23: "aside E C w2 w3" "\<forall>a. ad = Some a \<longrightarrow> \<not> load_kv_async p \<longrightarrow> within_budget L (run w3) (new_tokens a)"
      using grant_tokens_ok[OF g a2(2) assms(4)] within_budget_quiet[OF aside_quiet] by metis+
    have a3: "aside E C w w3" using aside_trans[OF a2(1) a23(1)] .
    show ?thesis
    proof (cases ad)
      case None
      then show ?thesis using assms(1) f Some g a3 by (simp add: pass_ends_def)
    next
      case ad: (Some a)
      then have "allocate_and_admit cd K X E R V C W side q r1 p a w3 = Inr (go_on, w')"
        using assms(1) f Some g by simp
      then show ?thesis using a3 a2(2) a23(2) ad unfolding pass_ends_def by blast
    qed
  qed
qed

lemma waiting_step_cases:
  assumes "waiting_step cd K X E R V C W L w = Inr (go_on, w')" "store_items_ok E C (sched_of w)" "split_ok C"
  shows "(\<not> go_on \<and> w' = w) \<or>
    (\<exists>side. int (length (running_ids (run w))) + num_waiting_for_streaming_input W < max_running_reqs W
      \<and> select_waiting_queue V C w = Inr (Some side) \<and> pass_ends cd K X E R V C W L side w go_on w')"
proof (cases "max_running_reqs W \<le> int (length (running_ids (run w))) + num_waiting_for_streaming_input W")
  case True
  then show ?thesis using assms(1) by (simp add: waiting_step_def)
next
  case False
  let ?q = "\<lambda>side. peek_request V (side_queue side w)"
  obtain side where side: "select_waiting_queue V C w = Inr (Some side)"
    using assms(1) False by (auto simp: waiting_step_def res_bind_eq_Inr split: option.splits)
  obtain r0 where r0: "lookup_request (sched_of w) (?q side) = Inr r0"
    using assms(1) False side by (auto simp: waiting_step_def res_bind_eq_Inr Let_def)
  obtain ready w1 where w1: "(if is_blocked_waiting_status (status r0)
      then try_promote_blocked_waiting_request K V W (?q side) r0 w else Inr (True, w)) = Inr (ready, w1)"
    using assms(1) False side r0 unfolding waiting_step_def Let_def by (auto simp: res_bind_eq_Inr simp del: if_split_asm)
  have i0: "items_ok E C r0" using r0 assms(2) lookup_items by blast
  have a1: "aside E C w w1" using w1 aside_promote[OF _ i0] by (auto split: if_splits)
  obtain r where r: "lookup_request (sched_of w1) (?q side) = Inr r"
    using assms(1) False side r0 w1 by (auto simp: waiting_step_def res_bind_eq_Inr Let_def)
  have i1: "items_ok E C r" using r a1 assms(2) lookup_items by (auto simp: aside_def quiet_def)
  have eq: "waiting_step cd K X E R V C W L w =
      (if \<not> ready \<or> 0 < num_stale_output_tokens r \<and> \<not> drop_stale_output r \<or> exceeds_loras V W w1 r
       then Inr (True, set_aside X V side r w1)
       else res_bind (find_computed K E V W (?q side) r w1) (\<lambda>(f, r1, w2). case f of
              None \<Rightarrow> Inr (True, set_aside X V side r1 w2)
            | Some p \<Rightarrow> res_bind (grant_tokens E C W L r1 p w2) (\<lambda>(ad, w3). case ad of
                None \<Rightarrow> Inr (False, w3)
              | Some a \<Rightarrow> allocate_and_admit cd K X E R V C W side (?q side) r1 p a w3)))"
    using False side r0 w1 r by (simp add: waiting_step_def Let_def)
  have "pass_ends cd K X E R V C W L side w go_on w'"
  proof (cases "\<not> ready \<or> 0 < num_stale_output_tokens r \<and> \<not> drop_stale_output r \<or> exceeds_loras V W w1 r")
    case True
    then have "go_on \<and> w' = set_aside X V side r w1" using assms(1) eq by simp
    then show ?thesis using a1 unfolding pass_ends_def by blast
  next
    case ready: False
    show ?thesis using assms(1) ready_pass_ends[OF _ a1 i1 assms(3)] unfolding eq[unfolded if_not_P[OF ready]] by blast
  qed
  then show ?thesis using False side by force
qed

lemma waiting_step_inv:
  assumes "waiting_step cd K X E R V C W L w = Inr (go_on, w')" "wait_inv E C pre W L B on w"
    and "split_ok C" "0 \<le> num_waiting_for_streaming_input W"
  shows "wait_inv E C pre W L B on w'"
proof -
  have "store_items_ok E C (sched_of w)" using assms(2) by (simp add: wait_inv_def)
  from waiting_step_cases[OF assms(1) this assms(3)] show ?thesis
  proof (elim disjE exE conjE)
    fix side assume len: "int (length (running_ids (run w))) + num_waiting_for_streaming_input W < max_running_reqs W"
      and "pass_ends cd K X E R V C W L side w go_on w'"
    then show ?thesis unfolding pass_ends_def
    proof (elim disjE exE conjE)
      fix r w1 assume "aside E C w w1" "w' = set_aside X V side r w1"
      then show ?thesis using wait_inv_quiet[OF quiet_set_aside] wait_inv_aside[OF _ assms(2)] by blast
    next
      fix q r p ad w3 assume a: "aside E C w w3" and "items_ok E C r"
        "\<not> load_kv_async p \<longrightarrow> within_budget L (run w3) (new_tokens ad)"
        "allocate_and_admit cd K X E R V C W side q r p ad w3 = Inr (go_on, w')"
      moreover have "int (length (running_ids (run w3))) < max_running_reqs W" using len assms(4) aside_run[OF a] by auto
      ultimately show ?thesis using allocate_and_admit_inv[where pre = pre] wait_inv_aside[OF a assms(2)] by blast
    qed (use assms(2) wait_inv_aside in blast)
  qed (use assms(2) in simp)
qed

lemma waiting_loop_inv:
  assumes "waiting_loop cd K X E R V C W L fuel w = Some (Inr w')" "wait_inv E C pre W L B on w"
    and "split_ok C" "0 \<le> num_waiting_for_streaming_input W"
  shows "wait_inv E C pre W L B on w'"
  using assms(1,2)
proof (induction fuel arbitrary: w)
  case (Suc fuel)
  show ?case
  proof (cases "(0 < queue_len V (side_queue Waiting w) \<or> 0 < queue_len V (side_queue Skipped w)) \<and> 0 < token_budget (run w)")
    case True
    then obtain go_on w1 where s: "waiting_step cd K X E R V C W L w = Inr (go_on, w1)"
      "(if go_on then waiting_loop cd K X E R V C W L fuel w1 else Some (Inr w1)) = Some (Inr w')"
      using Suc.prems(1) by (auto split: sum.splits)
    then show ?thesis
      using Suc.IH waiting_step_inv[OF s(1) Suc.prems(2) assms(3,4)] by (auto split: if_splits)
  qed (use Suc.prems in auto)
qed simp

section \<open>Both loops\<close>

lemma preempt_victim_facts:
  assumes "preempt_victim K X R C st = Inr (p, st')"
  shows "preempted_reqs st' \<noteq> []" "store_items_ok E C (sched st) \<Longrightarrow> store_items_ok E C (sched st')"
proof -
  obtain st1 r s where t: "take_victim R C st = Inr (p, st1)" and r: "lookup_request (sched st1) p = Inr r"
    and s: "preempt_request K X r (requires_kv_delivery C) (sched st1) = Inr s"
    and st': "st' = st1\<lparr> sched := s, preempted_reqs := preempted_reqs st1 @ [p] \<rparr>"
    using assms by (auto simp: preempt_victim_def res_bind_eq_Inr)
  show "preempted_reqs st' \<noteq> []" using st' by simp
  assume ok: "store_items_ok E C (sched st)"
  have "sched st1 = sched st"
    using t by (cases "sched_policy C")
      (auto simp: take_victim_def unschedule_def res_simps Let_def split: option.splits if_splits)
  then have "store_items_ok E C (sched st1)" using ok by simp
  moreover from this have "items_ok E C (preempted (requires_kv_delivery C) r)" using lookup_items[OF r] by simp
  moreover have "requests s = (requests (sched st1))(request_id r \<mapsto> preempted (requires_kv_delivery C) r)"
    using s by (simp add: preempt_request_def Let_def require_bind_eq_Inr) auto
  ultimately show "store_items_ok E C (sched st')" using st' by (auto simp: store_items_ok_def)
qed

lemma commit_items:
  assumes "store_items_ok E C (sched st)" "store_items_ok E C (sched st0)" "lookup_request (sched st0) q = Inr r"
  shows "store_items_ok E C (sched (commit_running E' q r n a b st))"
proof -
  have "items_ok E C r" using lookup_items[OF assms(3,2)] .
  then show ?thesis using assms(1) by (auto simp: store_items_ok_def)
qed

lemma running_loop_items:
  assumes "running_loop K X E' R C L st = Inr st'" "store_items_ok E C (sched st)"
  shows "store_items_ok E C (sched st')"
  using assms
  apply (rule running_loop_keeps[where I = "\<lambda>st. store_items_ok E C (sched st)"])
  subgoal by (simp add: next_request_def)
  subgoal by (simp add: store_items_ok_def)
  subgoal by (simp add: store_items_ok_def)
  subgoal by (simp add: store_items_ok_def)
  subgoal by (rule preempt_victim_facts(2))
  subgoal by (rule commit_items)
  done

text \<open>Unless somebody was preempted, the waiting queue is the one of the start.\<close>

lemma running_loop_queue:
  assumes "running_loop K X E R C L st = Inr st'" "preempted_reqs st' = []"
  shows "waiting_queue (sched st') = waiting_queue (sched st)"
proof -
  have "preempted_reqs st' = [] \<longrightarrow> waiting_queue (sched st') = waiting_queue (sched st)"
    using assms(1)
    by (rule running_loop_keeps[where I = "\<lambda>s. preempted_reqs s = [] \<longrightarrow> waiting_queue (sched s) = waiting_queue (sched st)"])
      (simp_all add: next_request_def commit_running_def Let_def preempt_victim_facts(1))
  then show ?thesis using assms(2) by blast
qed

lemma schedule_start_sched:
  "schedule_start K R C M throttle bound g skips ids s = Inr (L, st) \<Longrightarrow>
   requests (sched st) = requests s \<and> waiting_queue (sched st) = waiting_queue s"
  by (auto simp: schedule_start_def res_bind_eq_Inr Let_def split_beta)

text \<open>The admission loop starts from this state.\<close>

definition admission_start ::
  "('q, 'k, 'h) waiting_ext \<Rightarrow> ('c, 'x, 'q, 'h) run_state \<Rightarrow> int set \<Rightarrow> ('c, 'x, 'q, 'h, 'k) wait_state
   \<Rightarrow> ('c, 'x, 'q, 'h, 'k) wait_state" where
  "admission_start V st ls w =
     w\<lparr> run := st, scheduled_new_reqs := [], scheduled_resumed_reqs := [], scheduled_loras := ls \<rparr>"

definition wait_ok ::
  "('x, 'h) encoder_ext \<Rightarrow> running_config \<Rightarrow> waiting_config \<Rightarrow> ('c, 'x, 'q, 'h, 'k) wait_state \<Rightarrow> bool" where
  "wait_ok E C W w \<longleftrightarrow> start_ok E C (running_ids (run w)) (sched_of w) \<and> store_items_ok E C (sched_of w)
     \<and> int (length (running_ids (run w))) \<le> max_running_reqs W \<and> 0 \<le> num_waiting_for_streaming_input W"

text \<open>The running loop changes no id and no prefill mark.\<close>

abbreviation marks :: "('c, 'x, 'q, 'h) sched_state \<Rightarrow> string \<Rightarrow> (string \<times> bool) option" where
  "marks s q \<equiv> map_option (\<lambda>r. (request_id r, is_prefill_chunk r)) (requests s q)"

definition same_marks :: "string list \<Rightarrow> ('c, 'x, 'q, 'h) sched_state \<Rightarrow> ('c, 'x, 'q, 'h) run_state \<Rightarrow> bool" where
  "same_marks ids s0 st \<longleftrightarrow> set (running_ids st) \<subseteq> set ids \<and> (\<forall>q. marks (sched st) q = marks s0 q)"

lemma marks_update:
  assumes "marks s1 q = marks s q" "requests s1 q = Some r" "request_id r' = request_id r" "is_prefill_chunk r' = is_prefill_chunk r"
    and "requests s' = (requests s)(q \<mapsto> r')"
  shows "marks s' p = marks s p"
  using assms by (cases "p = q") auto

lemma preempt_victim_marks:
  assumes "same_marks ids s0 st" "\<forall>q \<in> set ids. \<forall>r. requests s0 q = Some r \<longrightarrow> request_id r = q"
    and "preempt_victim K X R C st = Inr (p, st')"
  shows "same_marks ids s0 st'"
proof -
  obtain st1 r s where t: "take_victim R C st = Inr (p, st1)" and r: "lookup_request (sched st1) p = Inr r"
    and s: "preempt_request K X r (requires_kv_delivery C) (sched st1) = Inr s"
    and st': "st' = st1\<lparr> sched := s, preempted_reqs := preempted_reqs st1 @ [p] \<rparr>"
    using assms(3) by (auto simp: preempt_victim_def res_bind_eq_Inr)
  have "victim C st = Inr p"
    using t by (cases "sched_policy C") (auto simp: take_victim_def Let_def res_simps split: if_splits)
  then have "p \<in> set ids" using assms(1) victim_mem by (fastforce simp: same_marks_def)
  have st1: "sched st1 = sched st" "set (running_ids st1) \<subseteq> set (running_ids st)"
    using t set_remove1_subset by (cases "sched_policy C";
      fastforce simp: take_victim_def unschedule_def res_simps Let_def dest: in_set_butlastD split: option.splits if_splits)+
  have rp: "requests (sched st) p = Some r" using r st1(1) by (auto simp: lookup_request_def split: option.splits)
  have "marks s0 p = marks (sched st) p" using assms(1) by (simp only: same_marks_def)
  then have "marks s0 p = Some (request_id r, is_prefill_chunk r)" using rp by simp
  then obtain r0 where "requests s0 p = Some r0" "request_id r0 = request_id r" by (cases "requests s0 p") auto
  then have "request_id r = p" using assms(2) \<open>p \<in> set ids\<close> by metis
  then have "requests s = (requests (sched st))(p \<mapsto> preempted (requires_kv_delivery C) r)"
    using s st1(1) by (auto simp: preempt_request_def Let_def require_bind_eq_Inr)
  then have "marks s q = marks (sched st) q" for q
    by (rule marks_update[OF refl rp, rotated 2]) (simp_all add: preempted_def)
  then show ?thesis using assms(1) st1(2) st' by (auto simp: same_marks_def)
qed

lemma running_loop_marks:
  assumes "running_loop K X E R C L st = Inr st'" "set (running_ids st) \<subseteq> set ids"
    and "\<forall>q \<in> set ids. \<forall>r. requests (sched st) q = Some r \<longrightarrow> request_id r = q"
  shows "same_marks ids (sched st) st'"
proof (rule running_loop_keeps[OF assms(1), where I = "same_marks ids (sched st)"])
  show "same_marks ids (sched st) st" using assms(2) by (simp add: same_marks_def)
next
  fix s st1 :: "('a, 'b, 'c, 'd) run_state" and q r n a b
  assume ok: "same_marks ids (sched st) s" "same_marks ids (sched st) st1" and r: "lookup_request (sched st1) q = Inr r"
  have rq: "requests (sched st1) q = Some r" using r by (auto simp: lookup_request_def split: option.splits)
  have same: "marks (sched st1) q = marks (sched s) q" using ok by (simp only: same_marks_def)
  have "marks (sched (commit_running E q r n a b s)) p = marks (sched s) p" for p
    by (rule marks_update[OF same rq, where r' = "if spec_token_ids r \<noteq> [] then r\<lparr> spec_token_ids := [] \<rparr> else r"]) simp_all
  then show "same_marks ids (sched st) (commit_running E q r n a b s)"
    using ok(1) by (simp add: same_marks_def)
next
  fix s p s' assume "same_marks ids (sched st) s" "preempt_victim K X R C s = Inr (p, s')"
  then show "same_marks ids (sched st) s'" using preempt_victim_marks assms(3) by blast
qed (simp_all add: same_marks_def next_request_def)

lemma loops_split:
  assumes "wait_ok E C W w" "0 \<le> M"
  defines "pre \<equiv> \<lambda>q. is_prefill_chunk (the (requests (sched_of w) q))"
  shows "\<exists>L st. (\<forall>fuel. schedule_loops cd K X E R V C W M fuel throttle bound w =
      (case record_loras V W st of Inl e \<Rightarrow> Some (Inl e)
       | Inr ls \<Rightarrow> schedule_waiting cd K X E R V C W L fuel bound (admission_start V st ls w)))
    \<and> (preempted_reqs st = [] \<longrightarrow> waiting_queue (sched st) = waiting_queue (sched_of w))
    \<and> (\<forall>ls. wait_inv E C pre W L (if paused_all (gate (run w)) then 0 else M) (enable_decode_aware_prefill (gate (run w)))
          (admission_start V st ls w))
    \<and> (enable_decode_aware_prefill (gate (run w)) \<longrightarrow>
        prefill_token_budget L = prefill_limit C M (running_ids (run w)) (sched_of w))"
proof -
  let ?g = "gate (run w)" and ?ids = "running_ids (run w)" and ?s = "sched_of w"
  let ?B = "if paused_all ?g then 0 else M"
  have ok: "start_ok E C ?ids ?s" "store_items_ok E C ?s" "int (length ?ids) \<le> max_running_reqs W"
    using assms(1) by (auto simp: wait_ok_def)
  let ?g' = "?g\<lparr> skipped_waiting := queued_requests R (skipped_queue w) \<rparr>"
  obtain L st0 g2 where st0: "schedule_start K R C M throttle bound ?g' (long_prefill_gate_skips (run w)) ?ids ?s = Inr (L, st0)"
    "run_inv E C L ?ids ?B st0" "same_gate g2 st0" "enable_decode_aware_prefill g2 = enable_decode_aware_prefill ?g"
    and L: "enable_decode_aware_prefill ?g \<longrightarrow> prefill_token_budget L = prefill_limit C M ?ids ?s"
    using schedule_start_ok[OF ok(1) assms(2), of K R throttle bound ?g' "long_prefill_gate_skips (run w)"] by auto
  have "split_ok C" using ok(1) by (simp add: start_ok_def)
  then obtain st where st: "running_loop K X E R C L st0 = Inr st" "run_inv E C L ?ids ?B st"
    using running_loop_ok[OF st0(2)] by blast
  have items: "store_items_ok E C (sched st)"
    using running_loop_items[OF st(1)] ok(2) schedule_start_sched[OF st0(1)] by (simp add: store_items_ok_def)
  have gate: "enable_decode_aware_prefill (gate st) = enable_decode_aware_prefill ?g"
    using running_loop_gate[OF st(1) st0(3)] st0(4) by (auto simp: same_gate_def)
  have inv: "queue_ok E C ?ids st" "books_ok ?B st" "place_ok st" "prefill_ok L st" using st(2) by (auto simp: run_inv_def)
  have len: "length (running_ids st) \<le> length ?ids" using inv(1) by (simp add: queue_ok_def)
  have sub: "set (scheduled_running_reqs st) \<subseteq> set (running_ids st)" "distinct (scheduled_running_reqs st)"
    using inv(2,3) set_take_subset by (force simp: place_ok_def books_ok_def)+
  then have "length (scheduled_running_reqs st) \<le> length (running_ids st)"
    using card_mono[OF finite_set sub(1)] card_length[of "running_ids st"] by (simp add: distinct_card)
  moreover have "prefill_tokens pre (admission_start V st ls w) \<le> prefill_tokens_scheduled st" if "enable_decode_aware_prefill ?g" for ls
  proof -
    have "running_ids st0 = ?ids" using st0(1) by (auto simp: schedule_start_def res_bind_eq_Inr Let_def split_beta)
    then have marks: "marks (sched st) q = marks ?s q" for q
      using running_loop_marks[OF st(1), of ?ids] ok(1) schedule_start_sched[OF st0(1)]
      by (fastforce simp: same_marks_def start_ok_def)
    have "q \<in> scheduled_prefills st \<longleftrightarrow> q \<in> set (scheduled_running_reqs st) \<and> pre q" for q
    proof (cases "q \<in> set (scheduled_running_reqs st)")
      case True
      then obtain r where "requests (sched st) q = Some r" using sub(1) queue_ok_request[OF inv(1)] by blast
      moreover from this obtain r' where "requests ?s q = Some r'" "is_prefill_chunk r' = is_prefill_chunk r"
        using marks[of q] by (cases "requests ?s q") auto
      ultimately show ?thesis using True gate that by (simp add: scheduled_prefills_def gated_prefill_def pre_def)
    qed (simp add: scheduled_prefills_def)
    then have "scheduled_prefills st = {q \<in> set (scheduled_running_reqs st). pre q}" by blast
    then show ?thesis using inv(4) by (simp add: prefill_tokens_def admission_start_def prefill_ok_def)
  qed
  ultimately have "wait_inv E C pre W L ?B (enable_decode_aware_prefill ?g) (admission_start V st ls w)" for ls
    using inv(2,4) items gate len sub(1) ok(3)
    by (simp add: wait_inv_def admission_start_def scheduled_ids_def total_num_scheduled_tokens_def books_ok_def prefill_ok_def)
  moreover have "preempted_reqs st = [] \<longrightarrow> waiting_queue (sched st) = waiting_queue ?s"
    using running_loop_queue[OF st(1)] schedule_start_sched[OF st0(1)] by simp
  moreover have "schedule_loops cd K X E R V C W M fuel throttle bound w =
      (case record_loras V W st of Inl e \<Rightarrow> Some (Inl e)
       | Inr ls \<Rightarrow> schedule_waiting cd K X E R V C W L fuel bound (admission_start V st ls w))" for fuel
    by (simp add: schedule_loops_def st0(1) st(1) admission_start_def split: sum.splits)
  ultimately show ?thesis using L by blast
qed

lemma schedule_waiting_inv:
  assumes "schedule_waiting cd K X E R V C W L fuel bound w = Some (Inr (b, w'))" "wait_inv E C pre W L B on w"
    and "split_ok C" "0 \<le> num_waiting_for_streaming_input W"
  shows "wait_inv E C pre W L B on w'"
proof (cases "preempted_reqs (run w) = [] \<and> unpaused W")
  case True
  let ?w0 = "w\<lparr> step_skipped := create_request_queue V \<rparr>"
  obtain w1 where w1: "waiting_loop cd K X E R V C W L fuel ?w0 = Some (Inr w1)"
    using assms(1) True by (auto simp: schedule_waiting_def split: option.splits sum.splits)
  have "aside E C w ?w0" by (intro aside_intros)
  then have inv1: "wait_inv E C pre W L B on w1"
    using waiting_loop_inv[OF w1 _ assms(3,4)] wait_inv_aside assms(2) by blast
  have "w' = w1 \<or> (\<exists>z. w' = w1\<lparr> skipped_queue := z \<rparr>)"
    using assms(1) True w1 by (auto simp: schedule_waiting_def Let_def split: if_splits)
  moreover have "quiet E C w1 (w1\<lparr> skipped_queue := z \<rparr>)" for z
    by (auto simp: quiet_def intro: exI[of _ "sched_of w1"])
  ultimately show ?thesis using inv1 wait_inv_quiet by blast
qed (use assms in \<open>auto simp: schedule_waiting_def\<close>)

text \<open>
  C29. The constraints that \<^verbatim>\<open>schedule()\<close> asserts after its loops hold. Whatever the connector, the caches and the
  queues answer: when both loops return, the scheduled tokens and the running requests are within the limits of
  the step, every scheduled request is in the running queue, owns blocks and gets at least one token, and with
  decode-aware prefill the tokens given to the admitted requests and to the running ones that were prefilling stay
  together within the prefill budget, and so does the counter of the step.
\<close>

theorem loops_meet_the_constraints:
  assumes "wait_ok E C W w" "0 \<le> M"
    and "schedule_loops cd K X E R V C W M fuel throttle bound w = Some (Inr (b, w'))"
  shows "check_constraints W M w' = Inr ()
    \<and> scheduled_ids w' \<subseteq> set (running_ids (run w')) \<and> dom (req_to_new_blocks (run w')) = scheduled_ids w'
    \<and> dom (num_scheduled_tokens (run w')) = scheduled_ids w'
    \<and> (\<forall>q \<in> scheduled_ids w'. 0 < the (num_scheduled_tokens (run w') q))
    \<and> (enable_decode_aware_prefill (gate (run w)) \<longrightarrow>
        prefill_tokens_scheduled (run w') \<le> max 0 (prefill_limit C M (running_ids (run w)) (sched_of w))
        \<and> (\<Sum>q \<in> set (scheduled_new_reqs w') \<union> set (scheduled_resumed_reqs w')
              \<union> {q \<in> set (scheduled_running_reqs (run w')). is_prefill_chunk (the (requests (sched_of w) q))}.
             the (num_scheduled_tokens (run w') q)) \<le> max 0 (prefill_limit C M (running_ids (run w)) (sched_of w)))"
proof -
  let ?on = "enable_decode_aware_prefill (gate (run w))" and ?pre = "\<lambda>q. is_prefill_chunk (the (requests (sched_of w) q))"
  obtain L st where eq: "\<forall>fuel. schedule_loops cd K X E R V C W M fuel throttle bound w =
      (case record_loras V W st of Inl e \<Rightarrow> Some (Inl e)
       | Inr ls \<Rightarrow> schedule_waiting cd K X E R V C W L fuel bound (admission_start V st ls w))"
    and inv: "\<forall>ls. wait_inv E C ?pre W L (if paused_all (gate (run w)) then 0 else M) ?on (admission_start V st ls w)"
    and L: "?on \<longrightarrow> prefill_token_budget L = prefill_limit C M (running_ids (run w)) (sched_of w)"
    using loops_split[OF assms(1,2)] by blast
  obtain ls where "schedule_waiting cd K X E R V C W L fuel bound (admission_start V st ls w) = Some (Inr (b, w'))"
    using assms(3) eq by (auto split: sum.splits)
  moreover have "split_ok C" "0 \<le> num_waiting_for_streaming_input W"
    using assms(1) by (simp_all add: wait_ok_def start_ok_def)
  ultimately have fin: "wait_inv E C ?pre W L (if paused_all (gate (run w)) then 0 else M) ?on w'"
    using schedule_waiting_inv inv by blast
  then have "total_num_scheduled_tokens w' \<le> M" using assms(2) by (auto simp: wait_inv_def split: if_splits)
  then have "check_constraints W M w' = Inr ()"
    using fin by (simp add: check_constraints_def require_def wait_inv_def)
  then show ?thesis using fin L unfolding wait_inv_def prefill_tokens_def by auto
qed

section \<open>Both loops return\<close>

text \<open>A queue that is not empty loses one element to \<^verbatim>\<open>pop_request\<close>.\<close>

definition queue_contract :: "('q, 'k, 'h) waiting_ext \<Rightarrow> bool" where
  "queue_contract V \<longleftrightarrow> (\<forall>x. 0 < queue_len V x \<longrightarrow> Suc (queue_len V (snd (pop_request V x))) = queue_len V x)"

definition num_waiting :: "('q, 'k, 'h) waiting_ext \<Rightarrow> ('c, 'x, 'q, 'h, 'k) wait_state \<Rightarrow> nat" where
  "num_waiting V w = queue_len V (side_queue Waiting w) + queue_len V (side_queue Skipped w)"

lemma select_nonempty:
  "select_waiting_queue V C w = Inr (Some side) \<Longrightarrow> 0 < queue_len V (side_queue side w)"
  by (cases "sched_policy C") (auto simp: select_waiting_queue_def Let_def res_bind_eq_Inr split: if_splits)

lemma num_waiting_popped:
  assumes "queue_contract V" "0 < queue_len V (side_queue side w)"
  shows "num_waiting V (put_queue side (snd (pop_request V (side_queue side w))) w) < num_waiting V w"
proof -
  have "Suc (queue_len V (snd (pop_request V (side_queue side w)))) = queue_len V (side_queue side w)"
    using assms unfolding queue_contract_def by blast
  then show ?thesis
    by (cases side) (auto simp: num_waiting_def put_queue_def side_queue_def with_sched_def)
qed

lemma num_waiting_aside: "aside E C w w' \<Longrightarrow> num_waiting V w' = num_waiting V w"
  by (simp add: aside_def num_waiting_def)

lemma num_waiting_set_aside:
  assumes "queue_contract V" "0 < queue_len V (side_queue side w)"
  shows "num_waiting V (set_aside X V side r w) < num_waiting V w"
  using num_waiting_popped[OF assms] by (simp add: set_aside_def Let_def num_waiting_def side_queue_def split: queue_side.splits)

lemma admit_running_queues:
  "admit_running K E V W q r p ad w = Inr w' \<Longrightarrow> side_queue side w' = side_queue side w"
  by (cases side) (auto simp: admit_running_def require_bind_eq_Inr side_queue_def book_admission_def Let_def)

lemma waiting_step_pops:
  assumes "waiting_step cd K X E R V C W L w = Inr (True, w')" "store_items_ok E C (sched_of w)" "split_ok C"
    and "queue_contract V"
  shows "num_waiting V w' < num_waiting V w"
proof -
  obtain side where side: "select_waiting_queue V C w = Inr (Some side)"
    and ends: "pass_ends cd K X E R V C W L side w True w'"
    using waiting_step_cases[OF assms(1-3)] by blast
  have ne: "0 < queue_len V (side_queue side w)" using select_nonempty[OF side] .
  from ends show ?thesis unfolding pass_ends_def
  proof (elim disjE exE conjE)
    fix r w1 assume a: "aside E C w w1" and w': "w' = set_aside X V side r w1"
    have "0 < queue_len V (side_queue side w1)" using ne a by (simp add: aside_def)
    then show ?thesis using num_waiting_set_aside[OF assms(4)] num_waiting_aside[OF a] w' by metis
  next
    fix q r p ad w3 assume a: "aside E C w w3" and i: "items_ok E C r"
      and al: "allocate_and_admit cd K X E R V C W side q r p ad w3 = Inr (True, w')"
    obtain w4 w5 where w4: "aside E C w3 w4" and w5: "w5 = put_queue side (snd (pop_request V (side_queue side w4))) w4"
      and fin: "(if load_kv_async p then admit_loading cd K X W q r p w5 else admit_running K E V W q r p ad w5) = Inr w'"
      using allocate_and_admit_cases[OF al, where E = E] by auto
    have a4: "aside E C w w4" using aside_trans[OF a w4] .
    then have "0 < queue_len V (side_queue side w4)" using ne by (simp add: aside_def)
    then have "num_waiting V w5 < num_waiting V w"
      using num_waiting_popped[OF assms(4)] num_waiting_aside[OF a4] w5 by metis
    moreover have "num_waiting V w' = num_waiting V w5"
    proof (cases "load_kv_async p")
      case True
      then show ?thesis using fin admit_loading_aside[OF _ i] num_waiting_aside by metis
    next
      case False
      then show ?thesis using fin admit_running_queues by (fastforce simp: num_waiting_def)
    qed
    ultimately show ?thesis by simp
  qed simp
qed

lemma waiting_loop_returns:
  assumes "wait_inv E C pre W L B on w" "split_ok C" "0 \<le> num_waiting_for_streaming_input W" "queue_contract V"
  shows "\<exists>res. \<forall>fuel > num_waiting V w. waiting_loop cd K X E R V C W L fuel w = Some res"
  using assms(1)
proof (induction "num_waiting V w" arbitrary: w rule: less_induct)
  case less
  have items: "store_items_ok E C (sched_of w)" using less.prems by (simp add: wait_inv_def)
  let ?go = "(0 < queue_len V (side_queue Waiting w) \<or> 0 < queue_len V (side_queue Skipped w)) \<and> 0 < token_budget (run w)"
  show ?case
  proof (cases "\<exists>w1. ?go \<and> waiting_step cd K X E R V C W L w = Inr (True, w1)")
    case True
    then obtain w1 where go: ?go and s: "waiting_step cd K X E R V C W L w = Inr (True, w1)" by blast
    have lt: "num_waiting V w1 < num_waiting V w" using waiting_step_pops[OF s items assms(2,4)] .
    obtain res where res: "\<forall>fuel > num_waiting V w1. waiting_loop cd K X E R V C W L fuel w1 = Some res"
      using less.hyps[OF lt waiting_step_inv[OF s less.prems assms(2,3)]] by blast
    have "waiting_loop cd K X E R V C W L fuel w = Some res" if "num_waiting V w < fuel" for fuel
      using that lt res go s by (cases fuel) auto
    then show ?thesis by blast
  next
    case False
    define res where "res = (if ?go then (case waiting_step cd K X E R V C W L w of
        Inl e \<Rightarrow> Inl e | Inr (go_on, w') \<Rightarrow> Inr w') else Inr w)"
    have "waiting_loop cd K X E R V C W L fuel w = Some res" if "num_waiting V w < fuel" for fuel
      using that False by (cases fuel) (auto simp: res_def split: sum.splits)
    then show ?thesis by blast
  qed
qed

text \<open>
  C30. Both loops return. From well-formed requests, and with queues that shrink when an element is popped, one
  call of \<^verbatim>\<open>schedule()\<close> ends its two loops with one outcome, whatever the connector, the caches and the block pool
  answer; as many passes as there were waiting requests, and one more, are enough.
\<close>

theorem schedule_loops_return:
  assumes "wait_ok E C W w" "0 \<le> M" "queue_contract V"
  shows "\<exists>res. \<forall>fuel > num_waiting V w. schedule_loops cd K X E R V C W M fuel throttle bound w = Some res"
proof -
  let ?on = "enable_decode_aware_prefill (gate (run w))" and ?B = "if paused_all (gate (run w)) then 0 else M"
    and ?pre = "\<lambda>q. is_prefill_chunk (the (requests (sched_of w) q))"
  obtain L st where eq: "\<forall>fuel. schedule_loops cd K X E R V C W M fuel throttle bound w =
      (case record_loras V W st of Inl e \<Rightarrow> Some (Inl e)
       | Inr ls \<Rightarrow> schedule_waiting cd K X E R V C W L fuel bound (admission_start V st ls w))"
    and q: "preempted_reqs st = [] \<longrightarrow> waiting_queue (sched st) = waiting_queue (sched_of w)"
    and inv: "\<forall>ls. wait_inv E C ?pre W L ?B ?on (admission_start V st ls w)"
    using loops_split[OF assms(1,2)] by blast
  have ok: "split_ok C" "0 \<le> num_waiting_for_streaming_input W"
    using assms(1) by (simp_all add: wait_ok_def start_ok_def)
  have "\<exists>res. \<forall>fuel > num_waiting V w. schedule_waiting cd K X E R V C W L fuel bound (admission_start V st ls w) = Some res" for ls
  proof (cases "preempted_reqs st = [] \<and> unpaused W")
    case True
    let ?w0 = "(admission_start V st ls w)\<lparr> step_skipped := create_request_queue V \<rparr>"
    have "aside E C (admission_start V st ls w) ?w0" by (intro aside_intros)
    then have "wait_inv E C ?pre W L ?B ?on ?w0" using inv wait_inv_aside by blast
    moreover have "num_waiting V ?w0 = num_waiting V w"
      using q True by (simp add: num_waiting_def side_queue_def admission_start_def)
    ultimately obtain res where "\<forall>fuel > num_waiting V w. waiting_loop cd K X E R V C W L fuel ?w0 = Some res"
      using waiting_loop_returns[OF _ ok assms(3)] by metis
    then show ?thesis using True
      by (cases res) (auto simp: schedule_waiting_def admission_start_def Let_def)
  qed (auto simp: schedule_waiting_def admission_start_def)
  then show ?thesis using eq by (cases "record_loras V W st") auto
qed

section \<open>A concrete step\<close>


text \<open>Queues are lists of requests; no connector, no LoRAs.\<close>

definition wait_ext :: "(nat sched_request list, unit, nat) waiting_ext" where
  "wait_ext = \<lparr> queue_len = length, peek_request = (\<lambda>x. request_id (hd x)), pop_request = (\<lambda>x. (request_id (hd x), tl x)),
     prepend_requests = (\<lambda>x y. x @ y), create_request_queue = [], request_less = (\<lambda>a b. arrival_time a < arrival_time b),
     lora_int_id = (\<lambda>r. None), grammar_of = (\<lambda>r. NoGrammar), streaming_queue_empty = (\<lambda>r. True),
     has_prefill_stats = (\<lambda>r. False), connector = None, ensure_cache_available = (\<lambda>r n. True) \<rparr>"

definition wait_conf :: waiting_config where
  "wait_conf = \<lparr> max_running_reqs = 4, num_waiting_for_streaming_input = 0, max_loras = None, hit_block_size = 16,
     max_spec_tokens = 3, has_dynamic_sd_lookup = False, enable_chunked_prefill = True, reserve_full_isl = False,
     zeroing_needed = False, counts_connector_hits = False, unpaused = True, process_env = (\<lambda>_. None) \<rparr>"

text \<open>A decode is running and a request of one token waits.\<close>

definition wait_demo :: "(run_pool, nat set, nat sched_request list, nat, unit) wait_state" where
  "wait_demo =
     (let r = (run_request ''w'' 1 False 0 1 0)\<lparr> status := WAITING \<rparr>;
          s = run_sched [(''b'', 4)] [run_request ''b'' 1 False 64 65 0, r]
      in \<lparr> run = \<lparr> sched = s\<lparr> waiting_queue := [r] \<rparr>, gate = run_gate True, running_ids = [''b''], req_index = 0,
             scheduled_running_reqs = [], preempted_reqs = [], req_to_new_blocks = (\<lambda>_. None), num_scheduled_tokens = (\<lambda>_. None),
             token_budget = 0, encoder_compute_budget = 0, scheduled_encoder_inputs = (\<lambda>_. None),
             scheduled_spec_decode_tokens = (\<lambda>_. None), prefill_scheduled = False, prefill_tokens_scheduled = 0,
             gate_skipped_running = 0, long_prefill_gate_skips = 0 \<rparr>,
           skipped_queue = [], step_skipped = [], scheduled_new_reqs = [], scheduled_resumed_reqs = [], scheduled_loras = {},
           connector_state = (), finished_recving = {}, failed_recving = {}, grammar_compile_errors = {},
           skip_zero_block_ids = {}, connector_hits = [], prefill_stats_set = [] \<rparr>)"

definition wait_config :: "int \<Rightarrow> running_config" where
  "wait_config n = (run_config FCFS)\<lparr> decode_prefill_token_budget := n \<rparr>"

abbreviation wait_run where
  "wait_run n fuel \<equiv> schedule_loops (\<lambda>a b. cdiv_ref a b) run_coord run_ext demo_encoder run_other wait_ext (wait_config n) wait_conf
     100 fuel False False wait_demo"

lemma wait_demo_ok: "wait_ok demo_encoder (wait_config n) wait_conf wait_demo"
  by (simp add: wait_ok_def wait_demo_def wait_conf_def wait_config_def start_ok_def split_ok_def run_config_def run_sched_def
      run_request_def request_wf_def store_items_ok_def items_ok_def demo_window features_ok_def demo_sched_request_def
      demo_encoder_config_def Let_def)

lemma wait_demo_queue: "queue_contract wait_ext" "num_waiting wait_ext wait_demo = 1"
  by (auto simp: queue_contract_def wait_ext_def num_waiting_def wait_demo_def side_queue_def Let_def)

theorem schedule_loops_return_witness: "\<exists>res. wait_run 32 2 = Some res"
proof -
  have "\<exists>res. \<forall>fuel > num_waiting wait_ext wait_demo. wait_run 32 fuel = Some res"
    by (rule schedule_loops_return[OF wait_demo_ok _ wait_demo_queue(1)]) simp
  then obtain res where res: "\<forall>fuel > num_waiting wait_ext wait_demo. wait_run 32 fuel = Some res" by blast
  have "wait_run 32 2 = Some res" by (rule res[rule_format]) (simp add: wait_demo_queue(2))
  then show ?thesis by (rule exI)
qed


text \<open>The whole step with a prefill budget of two tokens, and the same decode after the loop over the running requests.\<close>

lemma cut_decode_step:
  "case wait_run 2 2 of
     Some (Inr (b, w')) \<Rightarrow> scheduled_new_reqs w' = [''w''] \<and> num_scheduled_tokens (run w') ''w'' = Some 2
       \<and> scheduled_spec_decode_tokens (run w') ''w'' = Some [- 1, - 1, - 1] \<and> token_budget (run w') = 97
   | _ \<Rightarrow> False"
  by code_simp







theorem loops_meet_the_constraints_witness:
  "\<exists>b w'. wait_run 32 2 = Some (Inr (b, w')) \<and> check_constraints wait_conf 100 w' = Inr ()"
proof -
  have "case wait_run 32 2 of Some (Inr (b, w')) \<Rightarrow> True | _ \<Rightarrow> False" by code_simp
  then obtain b w' where w: "wait_run 32 2 = Some (Inr (b, w'))" by (auto split: option.splits sum.splits)
  have "check_constraints wait_conf 100 w' = Inr ()"
    using loops_meet_the_constraints[OF wait_demo_ok _ w] by simp
  then show ?thesis using w by blast
qed

end
