(* ===== verification/Sched_Life.thy ===== *)
theory Sched_Life
  imports Sched_Waiting
begin

text \<open>
  The life of a request in \<^verbatim>\<open>v1/core/sched/scheduler.py\<close> outside the loops of \<^verbatim>\<open>schedule()\<close>: adding, streaming
  sessions, stopping, finishing and freeing, finished and failed KV transfers, draft tokens, resets and counts. The
  queue classes, the connectors and the helpers of other modules are arguments.
\<close>

section \<open>State\<close>

text \<open>The next chunk of a streaming request; sampling parameters are opaque numbers.\<close>

record stream_update =
  upd_mm_features :: "mm_feature list"
  upd_prompt_token_ids :: "int list"
  upd_arrival_time :: rat
  upd_sampling_params :: int

text \<open>The attributes of a request that only this part reads: its tokens and its stream.\<close>

record session =
  resumable :: bool
  streaming_queue :: "stream_update option list option"
  all_token_ids :: "int list"
  output_token_ids :: "int list"
  prompt_token_ids :: "int list option"
  sampling_params :: int
  client_index :: int

record ('c, 'x, 'q, 'h, 'k) life_state =
  wait :: "('c, 'x, 'q, 'h, 'k) wait_state"
  streaming_inputs :: int
  sessions :: "string \<Rightarrow> session option"
  finished_req_ids_dict :: "(int \<Rightarrow> string set option) option"
  prev_step_scheduled_req_ids :: "string set"
  connector_stats_reset :: bool

record ('q, 'h, 'k, 'p) life_ext =
  queue_add :: "'h sched_request \<Rightarrow> 'q \<Rightarrow> 'q"
  queue_remove :: "string set \<Rightarrow> 'q \<Rightarrow> 'q"
  queue_iter :: "'q \<Rightarrow> string list"
  remove_all :: "string list \<Rightarrow> string set \<Rightarrow> string list"
  update_of :: "'h sched_request \<Rightarrow> session \<Rightarrow> stream_update option"
  hash_blocks :: "session \<Rightarrow> 'h list \<Rightarrow> 'h list"
  has_connector :: bool
  supports_hma :: bool
  on_new_request :: "'h sched_request \<Rightarrow> 'k \<Rightarrow> 'k"
  request_finished :: "'h sched_request \<Rightarrow> int list \<Rightarrow> 'k \<Rightarrow> (bool \<times> 'p option) \<times> 'k"
  request_finished_all_groups :: "'h sched_request \<Rightarrow> int list list \<Rightarrow> 'k \<Rightarrow> (bool \<times> 'p option) \<times> 'k"
  update_connector_output :: "'k \<Rightarrow> 'k"
  reset_cache :: "'k \<Rightarrow> bool option \<times> 'k"
  ec_request_finished :: "('h sched_request \<Rightarrow> bool \<times> 'p option) option"

abbreviation store :: "('c, 'x, 'q, 'h, 'k) life_state \<Rightarrow> ('c, 'x, 'q, 'h) sched_state" where
  "store l \<equiv> sched_of (wait l)"

abbreviation running_queue :: "('c, 'x, 'q, 'h, 'k) life_state \<Rightarrow> string list" where
  "running_queue l \<equiv> running_ids (run (wait l))"

definition with_store ::
  "(('c, 'x, 'q, 'h) sched_state \<Rightarrow> ('c, 'x, 'q, 'h) sched_state) \<Rightarrow> ('c, 'x, 'q, 'h, 'k) life_state
   \<Rightarrow> ('c, 'x, 'q, 'h, 'k) life_state" where
  "with_store f l = l\<lparr> wait := with_sched f (wait l) \<rparr>"

definition put_req :: "string \<Rightarrow> 'h sched_request \<Rightarrow> ('c, 'x, 'q, 'h, 'k) life_state \<Rightarrow> ('c, 'x, 'q, 'h, 'k) life_state" where
  "put_req q r = with_store (\<lambda>s. s\<lparr> requests := (requests s)(q \<mapsto> r) \<rparr>)"

definition put_session :: "string \<Rightarrow> session \<Rightarrow> ('c, 'x, 'q, 'h, 'k) life_state \<Rightarrow> ('c, 'x, 'q, 'h, 'k) life_state" where
  "put_session q ss l = l\<lparr> sessions := (sessions l)(q \<mapsto> ss) \<rparr>"

definition lookup_session :: "('c, 'x, 'q, 'h, 'k) life_state \<Rightarrow> string \<Rightarrow> session res" where
  "lookup_session l q = (case sessions l q of None \<Rightarrow> Inl KeyError | Some ss \<Rightarrow> Inr ss)"

definition set_running :: "string list \<Rightarrow> ('c, 'x, 'q, 'h, 'k) life_state \<Rightarrow> ('c, 'x, 'q, 'h, 'k) life_state" where
  "set_running ids l = l\<lparr> wait := (wait l)\<lparr> run := (run (wait l))\<lparr> running_ids := ids \<rparr> \<rparr> \<rparr>"

text \<open>An operation on the fence, and the blocks that it returns handed to the pool of the manager.\<close>

definition apply_fence ::
  "('c, 'h, 'e) coordinator \<Rightarrow> ('h kv_block fence_state \<Rightarrow> 'h kv_block fence_state) \<Rightarrow> ('c, 'x, 'q, 'h) sched_state
   \<Rightarrow> ('c, 'x, 'q, 'h) sched_state" where
  "apply_fence K op s =
     (let f = op (fence s); m = kv_manager s;
          calls = drop (length (pool_calls (fence s))) (pool_calls f)
      in s\<lparr> fence := f, kv_manager := m\<lparr> coord := fold (\<lambda>(_, bs). pool_free_blocks K bs) calls (coord m) \<rparr> \<rparr>)"

section \<open>Queues and streaming sessions\<close>

definition enqueue_waiting_request ::
  "('q, 'h, 'k, 'p) life_ext \<Rightarrow> 'h sched_request \<Rightarrow> ('c, 'x, 'q, 'h, 'k) life_state \<Rightarrow> ('c, 'x, 'q, 'h, 'k) life_state" where
  "enqueue_waiting_request Y r l =
     (let side = (if is_blocked_waiting_status (status r) then Skipped else Waiting)
      in l\<lparr> wait := put_queue side (queue_add Y r (side_queue side (wait l))) (wait l) \<rparr>)"

text \<open>\<^verbatim>\<open>remove_requests\<close> on both queues.\<close>

definition dequeue_requests ::
  "('q, 'h, 'k, 'p) life_ext \<Rightarrow> string set \<Rightarrow> ('c, 'x, 'q, 'h, 'k) life_state \<Rightarrow> ('c, 'x, 'q, 'h, 'k) life_state" where
  "dequeue_requests Y ids l = l\<lparr> wait :=
     put_queue Skipped (queue_remove Y ids (side_queue Skipped (wait l)))
       (put_queue Waiting (queue_remove Y ids (side_queue Waiting (wait l))) (wait l)) \<rparr>"

text \<open>
  The tokens of a session after a chunk: the computed output tokens are kept as prompt, the last sampled token is
  dropped, and the new chunk is appended.
\<close>

definition kept_output :: "'h sched_request \<Rightarrow> session \<Rightarrow> int list" where
  "kept_output r ss = slice (nat (num_prompt_tokens r)) (nat (num_computed_tokens r)) (all_token_ids ss)"

definition shift_feature :: "int \<Rightarrow> mm_feature \<Rightarrow> mm_feature" where
  "shift_feature base f = f\<lparr> mm_offset := mm_offset f + base \<rparr>"

definition session_tokens :: "'h sched_request \<Rightarrow> stream_update \<Rightarrow> session \<Rightarrow> session res" where
  "session_tokens r u ss =
     (case prompt_token_ids ss of
        None \<Rightarrow> Inl AssertionError
      | Some p \<Rightarrow> Inr (ss\<lparr> all_token_ids := take (nat (num_computed_tokens r)) (all_token_ids ss) @ upd_prompt_token_ids u,
          output_token_ids := [], prompt_token_ids := Some (p @ kept_output r ss @ upd_prompt_token_ids u),
          sampling_params := upd_sampling_params u \<rparr>))"

definition session_request ::
  "('q, 'h, 'k, 'p) life_ext \<Rightarrow> stream_update \<Rightarrow> session \<Rightarrow> session \<Rightarrow> 'h sched_request \<Rightarrow> 'h sched_request" where
  "session_request Y u ss ss' r = r\<lparr>
     mm_features := mm_features r @ map (shift_feature (int (length (take (nat (num_computed_tokens r)) (all_token_ids ss)))))
       (upd_mm_features u),
     has_encoder_inputs := has_encoder_inputs r \<or> upd_mm_features u \<noteq> [],
     num_tokens := int (length (all_token_ids ss')), block_hashes := hash_blocks Y ss' (block_hashes r),
     num_prompt_tokens := (case prompt_token_ids ss' of None \<Rightarrow> 0 | Some p \<Rightarrow> int (length p)),
     arrival_time := upd_arrival_time u, status := WAITING \<rparr>"

definition update_request_as_session ::
  "('q, 'h, 'k, 'p) life_ext \<Rightarrow> string \<Rightarrow> stream_update \<Rightarrow> ('c, 'x, 'q, 'h, 'k) life_state
   \<Rightarrow> ('h sched_request \<times> ('c, 'x, 'q, 'h, 'k) life_state) res" where
  "update_request_as_session Y q u l =
     res_bind (lookup_request (store l) q) (\<lambda>r.
     res_bind (lookup_session l q) (\<lambda>ss.
     res_bind (session_tokens r u ss) (\<lambda>ss'.
       let r' = session_request Y u ss ss' r
       in Inr (r', (put_req q r' (put_session q ss' l))\<lparr> streaming_inputs :=
            streaming_inputs l - (if status r = WAITING_FOR_STREAMING_REQ then 1 else 0) \<rparr>))))"

definition handle_stopped_request ::
  "('q, 'h, 'k, 'p) life_ext \<Rightarrow> string \<Rightarrow> ('c, 'x, 'q, 'h, 'k) life_state \<Rightarrow> (bool \<times> ('c, 'x, 'q, 'h, 'k) life_state) res" where
  "handle_stopped_request Y q l =
     res_bind (lookup_request (store l) q) (\<lambda>r.
     res_bind (lookup_session l q) (\<lambda>ss.
       if \<not> resumable ss then Inr (True, l)
       else case streaming_queue ss of
              Some (u # rest) \<Rightarrow>
                let l1 = put_session q (ss\<lparr> streaming_queue := Some rest \<rparr>) l in
                (case u of
                   None \<Rightarrow> Inr (True, l1)
                 | Some upd \<Rightarrow> res_bind (update_request_as_session Y q upd l1) (\<lambda>(r', l2).
                     Inr (False, enqueue_waiting_request Y r' l2)))
            | _ \<Rightarrow>
                let r' = r\<lparr> status := WAITING_FOR_STREAMING_REQ \<rparr>
                in Inr (False, enqueue_waiting_request Y r'
                     ((put_req q r' l)\<lparr> streaming_inputs := streaming_inputs l + 1 \<rparr>))))"

section \<open>Finishing and freeing\<close>

text \<open>\<^verbatim>\<open>_connector_finished\<close>: whether the connector delays the free, and its parameters for the output.\<close>

definition connector_finished ::
  "(int \<Rightarrow> int \<Rightarrow> int) \<Rightarrow> ('c, 'h, 'e) coordinator \<Rightarrow> ('q, 'h, 'k, 'p) life_ext \<Rightarrow> 'h sched_request
   \<Rightarrow> ('c, 'x, 'q, 'h, 'k) life_state \<Rightarrow> ((bool \<times> 'p option) \<times> ('c, 'x, 'q, 'h, 'k) life_state) res" where
  "connector_finished cd K Y r l =
     (if \<not> has_connector Y then Inr ((False, None), l)
      else
        let m = remove_skipped_blocks K (request_id r) (max 0 (num_computed_tokens r - num_in_flight_tokens r))
              (Some (num_prompt_tokens r)) (kv_manager (store l));
            l1 = l\<lparr> wait := put_kv m (wait l) \<rparr>;
            ids = get_block_ids_for_computed_tokens cd K (request_id r) (num_computed_tokens r) m;
            k = connector_state (wait l1)
        in res_bind (if supports_hma Y then Inr (request_finished_all_groups Y r ids k)
             else res_bind (require (length (kv_cache_groups (km_config m)) = 1) AssertionError) (\<lambda>_.
                  res_bind (py_get ids 0) (\<lambda>b. Inr (request_finished Y r b k)))) (\<lambda>(out, k').
           Inr (out, l1\<lparr> wait := (wait l1)\<lparr> connector_state := k' \<rparr> \<rparr>)))"

definition free_blocks_of ::
  "('c, 'h, 'e) coordinator \<Rightarrow> ('x, 'q, 'h) sched_ext \<Rightarrow> string \<Rightarrow> ('c, 'x, 'q, 'h, 'k) life_state
   \<Rightarrow> ('c, 'x, 'q, 'h, 'k) life_state res" where
  "free_blocks_of K X q l =
     res_bind (lookup_request (store l) q) (\<lambda>r.
     res_bind (require (status_is_finished X (status r)) AssertionError) (\<lambda>_.
       let l1 = with_store (release_request_blocks K r) l in
       Inr ((with_store (\<lambda>s. s\<lparr> requests := (requests s)(q := None) \<rparr>) l1)\<lparr> sessions := (sessions l1)(q := None) \<rparr>)))"

definition free_request ::
  "(int \<Rightarrow> int \<Rightarrow> int) \<Rightarrow> ('c, 'h, 'e) coordinator \<Rightarrow> ('x, 'q, 'h) sched_ext \<Rightarrow> ('q, 'h, 'k, 'p) life_ext \<Rightarrow> string \<Rightarrow> bool
   \<Rightarrow> ('c, 'x, 'q, 'h, 'k) life_state \<Rightarrow> (('p option \<times> 'p option) \<times> ('c, 'x, 'q, 'h, 'k) life_state) res" where
  "free_request cd K X Y q delay l =
     res_bind (lookup_request (store l) q) (\<lambda>r.
     res_bind (lookup_session l q) (\<lambda>ss.
     res_bind (require (status_is_finished X (status r)) AssertionError) (\<lambda>_.
       let l1 = with_store (\<lambda>s. s\<lparr> inflight_prefills := inflight_prefills s - {q} \<rparr>) l in
       res_bind (connector_finished cd K Y r l1) (\<lambda>((held, kv_params), l2).
         let (ec_held, ec_params) = (case ec_request_finished Y of None \<Rightarrow> (False, None) | Some f \<Rightarrow> f r);
             l3 = with_store (\<lambda>s. s\<lparr> encoder_cache := encoder_cache_free X r (encoder_cache s),
                                     finished_req_ids := insert q (finished_req_ids s) \<rparr>) l2;
             l4 = l3\<lparr> finished_req_ids_dict := (case finished_req_ids_dict l3 of None \<Rightarrow> None
               | Some d \<Rightarrow> Some (d(client_index ss \<mapsto>
                   insert q (case d (client_index ss) of None \<Rightarrow> {} | Some ids \<Rightarrow> ids)))) \<rparr>
         in if delay \<or> held \<or> ec_held then Inr ((kv_params, ec_params), l4)
            else res_bind (free_blocks_of K X q l4) (\<lambda>l5. Inr ((kv_params, ec_params), l5))))))"

text \<open>The requests named that are still alive; \<open>ids\<close> is the order in which the set is iterated.\<close>

definition alive :: "('x, 'q, 'h) sched_ext \<Rightarrow> ('c, 'x, 'q, 'h, 'k) life_state \<Rightarrow> string \<Rightarrow> bool" where
  "alive X l q \<longleftrightarrow> (case requests (store l) q of None \<Rightarrow> False | Some r \<Rightarrow> \<not> status_is_finished X (status r))"

definition status_of :: "('c, 'x, 'q, 'h, 'k) life_state \<Rightarrow> string \<Rightarrow> request_status option" where
  "status_of l q = map_option status (requests (store l) q)"

definition finish_one ::
  "(int \<Rightarrow> int \<Rightarrow> int) \<Rightarrow> ('c, 'h, 'e) coordinator \<Rightarrow> ('x, 'q, 'h) sched_ext \<Rightarrow> ('q, 'h, 'k, 'p) life_ext \<Rightarrow> request_status
   \<Rightarrow> string \<Rightarrow> ('c, 'x, 'q, 'h, 'k) life_state \<Rightarrow> ('c, 'x, 'q, 'h, 'k) life_state res" where
  "finish_one cd K X Y st q l =
     res_bind (lookup_request (store l) q) (\<lambda>r.
       let loading = status r = WAITING_FOR_REMOTE_KVS;
           delay = loading \<and> q \<notin> finished_recving (wait l);
           l1 = (if loading then l\<lparr> wait := (wait l)\<lparr> finished_recving := finished_recving (wait l) - {q},
                                                     failed_recving := failed_recving (wait l) - {q} \<rparr> \<rparr> else l)
       in res_bind (free_request cd K X Y q delay (put_req q (r\<lparr> status := st \<rparr>) l1)) (\<lambda>(_, l2). Inr l2))"

fun finish_each ::
  "(int \<Rightarrow> int \<Rightarrow> int) \<Rightarrow> ('c, 'h, 'e) coordinator \<Rightarrow> ('x, 'q, 'h) sched_ext \<Rightarrow> ('q, 'h, 'k, 'p) life_ext \<Rightarrow> request_status
   \<Rightarrow> string list \<Rightarrow> ('c, 'x, 'q, 'h, 'k) life_state \<Rightarrow> ('c, 'x, 'q, 'h, 'k) life_state res" where
  "finish_each cd K X Y st [] l = Inr l"
| "finish_each cd K X Y st (q # qs) l = res_bind (finish_one cd K X Y st q l) (finish_each cd K X Y st qs)"

text \<open>The first pass: what is removed from the queues, and the paused sessions among it.\<close>

definition withdraw ::
  "('q, 'h, 'k, 'p) life_ext \<Rightarrow> string list \<Rightarrow> ('c, 'x, 'q, 'h, 'k) life_state \<Rightarrow> ('c, 'x, 'q, 'h, 'k) life_state" where
  "withdraw Y valid l =
     (let run_out = {q \<in> set valid. status_of l q = Some RUNNING}; others = set valid - run_out;
          paused = length (filter (\<lambda>q. status_of l q = Some WAITING_FOR_STREAMING_REQ) valid);
          l1 = l\<lparr> streaming_inputs := streaming_inputs l - int paused \<rparr>;
          l2 = (if run_out \<noteq> {} then set_running (remove_all Y (running_queue l1) run_out) l1 else l1)
      in if others \<noteq> {} then dequeue_requests Y others l2 else l2)"

definition finish_requests ::
  "(int \<Rightarrow> int \<Rightarrow> int) \<Rightarrow> ('c, 'h, 'e) coordinator \<Rightarrow> ('x, 'q, 'h) sched_ext \<Rightarrow> ('q, 'h, 'k, 'p) life_ext \<Rightarrow> request_status
   \<Rightarrow> string list \<Rightarrow> ('c, 'x, 'q, 'h, 'k) life_state \<Rightarrow> (string list \<times> ('c, 'x, 'q, 'h, 'k) life_state) res" where
  "finish_requests cd K X Y st ids l =
     res_bind (require (status_is_finished X st) AssertionError) (\<lambda>_.
       let valid = filter (alive X l) ids
       in res_bind (finish_each cd K X Y st valid (withdraw Y valid l)) (\<lambda>l2. Inr (valid, l2)))"

end
