(* ===== verification/Sched_Transfer.thy ===== *)
theory Sched_Transfer
  imports Sched_Life
begin

text \<open>
  More of \<^verbatim>\<open>v1/core/sched/scheduler.py\<close>: adding requests, finished and failed KV transfers, draft tokens, resets and
  the counts that keep the engine alive.
\<close>

section \<open>Adding requests\<close>

text \<open>A request whose id is known is the next chunk, or the end, of a streaming session.\<close>

definition add_request ::
  "(int \<Rightarrow> int \<Rightarrow> int) \<Rightarrow> ('c, 'h, 'e) coordinator \<Rightarrow> ('x, 'q, 'h) sched_ext \<Rightarrow> ('q, 'h, 'k, 'p) life_ext \<Rightarrow> 'h sched_request
   \<Rightarrow> session \<Rightarrow> ('c, 'x, 'q, 'h, 'k) life_state \<Rightarrow> ('c, 'x, 'q, 'h, 'k) life_state res" where
  "add_request cd K X Y r ss l =
     (let q = request_id r in
      case requests (store l) q of
        Some old \<Rightarrow>
          res_bind (lookup_session l q) (\<lambda>os.
          let u = update_of Y r ss in
            if status old \<noteq> WAITING_FOR_STREAMING_REQ
            then (case streaming_queue os of
                    None \<Rightarrow> Inl AssertionError
                  | Some us \<Rightarrow> Inr (put_session q (os\<lparr> streaming_queue := Some (us @ [u]) \<rparr>) l))
            else (case u of
                    Some upd \<Rightarrow> res_bind (update_request_as_session Y q upd l) (\<lambda>(_, l1). Inr l1)
                  | None \<Rightarrow> res_bind (finish_requests cd K X Y FINISHED_ABORTED [q] l) (\<lambda>(_, l1). Inr l1)))
      | None \<Rightarrow>
          let ss' = (if resumable ss then ss\<lparr> streaming_queue := Some [] \<rparr> else ss);
              l1 = put_session q ss' (put_req q r (enqueue_waiting_request Y r l))
          in Inr (if has_connector Y
                  then l1\<lparr> wait := (wait l1)\<lparr> connector_state := on_new_request Y r (connector_state (wait l1)) \<rparr> \<rparr>
                  else l1))"

section \<open>Finished transfers\<close>

fun receive_finished ::
  "('c, 'h, 'e) coordinator \<Rightarrow> ('x, 'q, 'h) sched_ext \<Rightarrow> string list \<Rightarrow> ('c, 'x, 'q, 'h, 'k) life_state
   \<Rightarrow> ('c, 'x, 'q, 'h, 'k) life_state res" where
  "receive_finished K X [] l = Inr l"
| "receive_finished K X (q # qs) l =
     (case requests (store l) q of
        None \<Rightarrow> Inl AssertionError
      | Some r \<Rightarrow>
          res_bind (if status r = WAITING_FOR_REMOTE_KVS
              then Inr (l\<lparr> wait := (wait l)\<lparr> finished_recving := insert q (finished_recving (wait l)) \<rparr> \<rparr>)
              else if status_is_finished X (status r) then free_blocks_of K X q l
              else Inl AssertionError)
            (receive_finished K X qs))"

fun send_finished ::
  "('c, 'h, 'e) coordinator \<Rightarrow> ('x, 'q, 'h) sched_ext \<Rightarrow> string list \<Rightarrow> ('c, 'x, 'q, 'h, 'k) life_state
   \<Rightarrow> ('c, 'x, 'q, 'h, 'k) life_state res" where
  "send_finished K X [] l = Inr l"
| "send_finished K X (q # qs) l =
     (case requests (store l) q of
        None \<Rightarrow> Inl AssertionError
      | Some r \<Rightarrow> res_bind (free_blocks_of K X q l) (send_finished K X qs))"

definition update_from_kv_xfer_finished ::
  "('c, 'h, 'e) coordinator \<Rightarrow> ('x, 'q, 'h) sched_ext \<Rightarrow> ('q, 'h, 'k, 'p) life_ext \<Rightarrow> string list \<Rightarrow> string list
   \<Rightarrow> ('c, 'x, 'q, 'h, 'k) life_state \<Rightarrow> ('c, 'x, 'q, 'h, 'k) life_state res" where
  "update_from_kv_xfer_finished K X Y recving sending l =
     (let l1 = (if has_connector Y
          then l\<lparr> wait := (wait l)\<lparr> connector_state := update_connector_output Y (connector_state (wait l)) \<rparr> \<rparr> else l)
      in res_bind (receive_finished K X recving l1) (send_finished K X sending))"

section \<open>Failed transfers\<close>

text \<open>What the scan of the requests has collected, and of the current request whether it is affected and marked.\<close>

record block_scan =
  is_affected :: bool
  marked_invalid_block :: bool
  scan_computed :: int
  marked_invalid_block_ids :: "int set"
  total_affected_tokens :: int
  blocks_to_evict :: "int set"

text \<open>One block of the request: \<open>n\<close> are its computed tokens without those of the running step.\<close>

definition scan_block ::
  "int \<Rightarrow> int \<Rightarrow> int set \<Rightarrow> bool \<Rightarrow> int list \<Rightarrow> nat \<times> int \<Rightarrow> block_scan \<Rightarrow> block_scan" where
  "scan_block bsz n invalid evict ids = (\<lambda>(i, b) sc.
     if b \<notin> invalid then sc
     else let sc1 = sc\<lparr> is_affected := True \<rparr> in
       if b \<in> marked_invalid_block_ids sc1 then sc1
       else let sc2 = sc1\<lparr> marked_invalid_block_ids := insert b (marked_invalid_block_ids sc1) \<rparr> in
         if marked_invalid_block sc2 then sc2
         else sc2\<lparr> marked_invalid_block := True, scan_computed := int i * bsz,
                total_affected_tokens := total_affected_tokens sc2 + (n - int i * bsz),
                blocks_to_evict := (if evict then blocks_to_evict sc2 \<union> set (drop i ids) else blocks_to_evict sc2) \<rparr>)"

definition scan_request ::
  "int \<Rightarrow> int \<Rightarrow> int \<Rightarrow> int set \<Rightarrow> bool \<Rightarrow> int list \<Rightarrow> block_scan \<Rightarrow> block_scan" where
  "scan_request bsz computed n invalid evict ids sc =
     (let sc0 = sc\<lparr> is_affected := False, marked_invalid_block := False, scan_computed := computed \<rparr>;
          num = nat ((n + bsz - 1) div bsz);
          sc1 = fold (scan_block bsz n invalid evict ids) (zip [0..<num] ids) sc0
      in if is_affected sc1 \<and> \<not> marked_invalid_block sc1
         then sc1\<lparr> total_affected_tokens := total_affected_tokens sc1 + (scan_computed sc1 - n), scan_computed := n \<rparr>
         else sc1)"

fun update_requests_with_invalid_blocks ::
  "('c, 'h, 'e) coordinator \<Rightarrow> int \<Rightarrow> int set \<Rightarrow> (string \<Rightarrow> int option) \<Rightarrow> bool \<Rightarrow> string list \<Rightarrow> string list \<times> block_scan
   \<Rightarrow> ('c, 'x, 'q, 'h) sched_state \<Rightarrow> ((string list \<times> block_scan) \<times> ('c, 'x, 'q, 'h) sched_state) res" where
  "update_requests_with_invalid_blocks K bsz invalid nst evict [] acc s = Inr (acc, s)"
| "update_requests_with_invalid_blocks K bsz invalid nst evict (q # qs) acc s =
     res_bind (lookup_request s q) (\<lambda>r.
     res_bind (require (length (table_block_ids K q (kv_manager s)) = 1) ValueError) (\<lambda>_.
     if bsz = 0 then Inl ZeroDivisionError
     else
       let ids = hd (table_block_ids K q (kv_manager s));
           n = num_computed_tokens r - (case nst q of None \<Rightarrow> 0 | Some k \<Rightarrow> k);
           sc = scan_request bsz (num_computed_tokens r) n invalid evict ids (snd acc)
       in update_requests_with_invalid_blocks K bsz invalid nst evict qs
            (if is_affected sc then (fst acc @ [q], sc) else (fst acc, sc))
            (s\<lparr> requests := (requests s)(q \<mapsto> r\<lparr> num_computed_tokens := scan_computed sc \<rparr>) \<rparr>)))"

definition scan_start :: block_scan where
  "scan_start = \<lparr> is_affected = False, marked_invalid_block = False, scan_computed = 0, marked_invalid_block_ids = {},
     total_affected_tokens = 0, blocks_to_evict = {} \<rparr>"

text \<open>The loading requests of the skipped queue first, then the running ones; the result is whom to skip.\<close>

definition handle_invalid_blocks ::
  "('c, 'h, 'e) coordinator \<Rightarrow> ('q, 'h, 'k, 'p) life_ext \<Rightarrow> bool \<Rightarrow> int \<Rightarrow> int set \<Rightarrow> (string \<Rightarrow> int option)
   \<Rightarrow> ('c, 'x, 'q, 'h, 'k) life_state \<Rightarrow> (string set \<times> ('c, 'x, 'q, 'h, 'k) life_state) res" where
  "handle_invalid_blocks K Y recompute bsz invalid nst l =
     (let loading = filter (\<lambda>q. status_of l q = Some WAITING_FOR_REMOTE_KVS) (queue_iter Y (side_queue Skipped (wait l)))
      in res_bind (update_requests_with_invalid_blocks K bsz invalid nst False loading ([], scan_start) (store l)) (\<lambda>(a, s1).
         res_bind (update_requests_with_invalid_blocks K bsz invalid nst True (running_queue l) ([], scan_start) s1) (\<lambda>(b, s2).
           let failed_async = set (fst a); failed_sync = set (fst b);
               evicted = blocks_to_evict (snd b);
               l2 = with_store (\<lambda>_. s2) l
           in if failed_async = {} \<and> failed_sync = {} then Inr ({}, l2)
              else
                let l3 = (if evicted \<noteq> {} \<and> \<not> recompute
                          then l2\<lparr> wait := put_kv (evict_blocks K evicted (kv_manager (store l2))) (wait l2) \<rparr> else l2)
                in if \<not> recompute then Inr (failed_async \<union> failed_sync, l3)
                   else Inr (failed_sync, l3\<lparr> wait := (wait l3)\<lparr> failed_recving := failed_recving (wait l3) \<union> failed_async \<rparr> \<rparr>))))"

section \<open>Draft tokens\<close>

text \<open>Whether the grammar of a request advances, and the prefix of a draft that it accepts.\<close>

record 'h grammar_ext =
  should_advance :: "'h sched_request \<Rightarrow> bool"
  validate_tokens :: "'h sched_request \<Rightarrow> int list \<Rightarrow> int list"

definition set_draft ::
  "'h grammar_ext \<Rightarrow> int list \<Rightarrow> 'h sched_request \<Rightarrow> 'h sched_request" where
  "set_draft G ds r =
     (if is_prefill_chunk r then r\<lparr> spec_token_ids := [] \<rparr>
      else r\<lparr> spec_token_ids := (if should_advance G r then validate_tokens G r ds else ds) \<rparr>)"

fun update_draft_token_ids ::
  "('x, 'q, 'h) sched_ext \<Rightarrow> 'h grammar_ext \<Rightarrow> (string \<times> int list) list \<Rightarrow> (string \<Rightarrow> 'h sched_request option)
   \<Rightarrow> string \<Rightarrow> 'h sched_request option" where
  "update_draft_token_ids X G [] rs = rs"
| "update_draft_token_ids X G ((q, ds) # rest) rs =
     update_draft_token_ids X G rest
       (case rs q of
          None \<Rightarrow> rs
        | Some r \<Rightarrow> if status_is_finished X (status r) then rs else rs(q \<mapsto> set_draft G ds r))"

text \<open>A draft cut to the placeholders, filtered by the grammar and padded again; the second part is the padding.\<close>

definition fit_draft :: "'h grammar_ext \<Rightarrow> 'h sched_request \<Rightarrow> int list \<Rightarrow> int list \<Rightarrow> int list \<times> int" where
  "fit_draft G r placeholders ds =
     (let cut = take (length placeholders) ds;
          kept = (if should_advance G r then validate_tokens G r cut else cut);
          missing = int (length placeholders) - int (length kept)
      in (if missing \<noteq> 0 then kept @ replicate (nat missing) (- 1) else kept, missing))"

fun update_draft_token_ids_in_output ::
  "('x, 'q, 'h) sched_ext \<Rightarrow> 'h grammar_ext \<Rightarrow> (string \<Rightarrow> 'h sched_request option) \<Rightarrow> (string \<times> int list) list
   \<Rightarrow> (string \<Rightarrow> int list option) \<times> (string \<Rightarrow> int option) \<Rightarrow> (string \<Rightarrow> int list option) \<times> (string \<Rightarrow> int option)" where
  "update_draft_token_ids_in_output X G rs [] out = out"
| "update_draft_token_ids_in_output X G rs ((q, ds) # rest) out =
     update_draft_token_ids_in_output X G rs rest
       (case (rs q, fst out q) of
          (Some r, Some ps) \<Rightarrow>
            if status_is_finished X (status r) \<or> ps = [] then out
            else let (ds', missing) = fit_draft G r ps ds
                 in ((fst out)(q \<mapsto> ds'), if missing \<noteq> 0 then (snd out)(q \<mapsto> missing) else snd out)
        | _ \<Rightarrow> out)"

section \<open>Resets\<close>

text \<open>Every running request is preempted, the last one first.\<close>

fun preempt_all ::
  "('c, 'h, 'e) coordinator \<Rightarrow> ('x, 'q, 'h) sched_ext \<Rightarrow> string list \<Rightarrow> ('c, 'x, 'q, 'h) sched_state
   \<Rightarrow> ('c, 'x, 'q, 'h) sched_state res" where
  "preempt_all K X [] s = Inr s"
| "preempt_all K X (q # qs) s =
     res_bind (lookup_request s q) (\<lambda>r. res_bind (preempt_request K X r True s) (preempt_all K X qs))"

definition reset_connector_cache ::
  "('q, 'h, 'k, 'p) life_ext \<Rightarrow> bool \<Rightarrow> bool \<Rightarrow> ('c, 'x, 'q, 'h, 'k) life_state \<Rightarrow> (bool \<times> ('c, 'x, 'q, 'h, 'k) life_state) res" where
  "reset_connector_cache Y logs has_stats l =
     (if \<not> has_connector Y then Inr (True, l)
      else
        let (b, k) = reset_cache Y (connector_state (wait l)); l1 = l\<lparr> wait := (wait l)\<lparr> connector_state := k \<rparr> \<rparr> in
        if b = Some False then Inr (False, l1)
        else if logs then res_bind (require has_stats AssertionError) (\<lambda>_. Inr (True, l1\<lparr> connector_stats_reset := True \<rparr>))
        else Inr (True, l1))"

definition scheduler_reset_prefix_cache ::
  "('c, 'h, 'e) coordinator \<Rightarrow> ('x, 'q, 'h) sched_ext \<Rightarrow> ('q, 'h, 'k, 'p) life_ext \<Rightarrow> bool \<Rightarrow> bool \<Rightarrow> bool \<Rightarrow> bool
   \<Rightarrow> ('c, 'x, 'q, 'h, 'k) life_state \<Rightarrow> (bool \<times> ('c, 'x, 'q, 'h, 'k) life_state) res" where
  "scheduler_reset_prefix_cache K X Y logs has_stats reset_running reset_connector l =
     res_bind (if reset_running
         then res_bind (preempt_all K X (rev (running_queue l)) (store l)) (\<lambda>s.
                Inr ((set_running [] (with_store (\<lambda>_. s) l))\<lparr> prev_step_scheduled_req_ids := {} \<rparr>))
         else Inr l) (\<lambda>l1.
     let (e, m) = reset_prefix_cache K (kv_manager (store l1)); l2 = l1\<lparr> wait := put_kv m (wait l1) \<rparr> in
     res_bind e (\<lambda>ok.
     res_bind (require (\<not> (reset_running \<and> \<not> ok)) RuntimeError) (\<lambda>_.
       if reset_connector
       then res_bind (reset_connector_cache Y logs has_stats l2) (\<lambda>(b, l3). Inr (b \<and> ok, l3))
       else Inr (ok, l2))))"

section \<open>Counts\<close>

datatype pause_state = UNPAUSED | PAUSED_NEW | PAUSED_ALL

definition get_request_counts ::
  "('q, 'k, 'h) waiting_ext \<Rightarrow> ('c, 'x, 'q, 'h, 'k) life_state \<Rightarrow> nat \<times> nat" where
  "get_request_counts V l = (length (running_queue l),
     queue_len V (side_queue Waiting (wait l)) + queue_len V (side_queue Skipped (wait l)))"

definition get_num_unfinished_requests ::
  "('q, 'k, 'h) waiting_ext \<Rightarrow> pause_state \<Rightarrow> ('c, 'x, 'q, 'h, 'k) life_state \<Rightarrow> int" where
  "get_num_unfinished_requests V ps l =
     (case ps of
        PAUSED_ALL \<Rightarrow> 0
      | PAUSED_NEW \<Rightarrow> int (length (running_queue l))
      | UNPAUSED \<Rightarrow> int (queue_len V (side_queue Waiting (wait l))) + int (queue_len V (side_queue Skipped (wait l)))
          - streaming_inputs l + int (length (running_queue l)))"

definition has_finished_requests ::
  "('q, 'k, 'h) waiting_ext \<Rightarrow> ('q, 'h, 'k, 'p) life_ext \<Rightarrow> ('c, 'x, 'q, 'h, 'k) life_state \<Rightarrow> bool" where
  "has_finished_requests V Y l \<longleftrightarrow>
     finished_req_ids (store l) \<noteq> {} \<or> has_connector Y \<and>
       queue_len V (side_queue Waiting (wait l)) + queue_len V (side_queue Skipped (wait l)) + length (running_queue l)
         < card (dom (requests (store l)))"

definition has_requests ::
  "('q, 'k, 'h) waiting_ext \<Rightarrow> ('q, 'h, 'k, 'p) life_ext \<Rightarrow> pause_state \<Rightarrow> bool \<Rightarrow> bool \<Rightarrow> ('c, 'x, 'q, 'h, 'k) life_state \<Rightarrow> bool" where
  "has_requests V Y ps kv_pending ec_pending l \<longleftrightarrow>
     0 < get_num_unfinished_requests V ps l \<or> has_finished_requests V Y l \<or> has_connector Y \<and> kv_pending
     \<or> ec_request_finished Y \<noteq> None \<and> ec_pending"

end
