(* ===== verification/Sched_Transfer_Props.thy ===== *)
theory Sched_Transfer_Props
  imports Sched_Transfer Sched_Waiting_Props
begin

text \<open>
  Properties of streaming sessions, draft tokens and failed transfers: a chunk keeps what is computed, drafts fit
  their placeholders, and every block that failed to load is computed again.
\<close>

section \<open>Streaming sessions\<close>

text \<open>The tokens of a session are its prompt and its outputs, and the request counts them.\<close>

definition session_ok :: "'h sched_request \<Rightarrow> session \<Rightarrow> bool" where
  "session_ok r ss \<longleftrightarrow> (\<exists>p. prompt_token_ids ss = Some p \<and> all_token_ids ss = p @ output_token_ids ss
       \<and> num_prompt_tokens r = int (length p))
     \<and> num_tokens r = int (length (all_token_ids ss))"

lemma prompt_and_kept:
  assumes "session_ok r ss" "num_prompt_tokens r \<le> num_computed_tokens r" "prompt_token_ids ss = Some p"
  shows "p @ kept_output r ss = take (nat (num_computed_tokens r)) (all_token_ids ss)"
  using assms by (auto simp: session_ok_def kept_output_def slice_def take_append)

lemma store_simps [simp]:
  "requests (store (put_req q r l)) = (requests (store l))(q \<mapsto> r)"
  "sessions (put_req q r l) = sessions l" "sessions (put_session q ss l) = (sessions l)(q \<mapsto> ss)"
  "store (put_session q ss l) = store l" "streaming_inputs (put_req q r l) = streaming_inputs l"
  "streaming_inputs (put_session q ss l) = streaming_inputs l"
  "running_queue (put_req q r l) = running_queue l" "running_queue (put_session q ss l) = running_queue l"
  by (simp_all add: put_req_def put_session_def with_store_def with_sched_def)

text \<open>
  C38. A chunk of a streaming session keeps the computed tokens. When the prompt of a well-formed session is
  computed, the next chunk is taken: the tokens are then the computed ones followed by the chunk, all of them
  prompt, the outputs start anew, and the request is well-formed, waiting, and counted as paused no more.
\<close>

theorem chunk_keeps_computed_tokens:
  assumes "requests (store l) q = Some r" "sessions l q = Some ss" "session_ok r ss"
    and "num_prompt_tokens r \<le> num_computed_tokens r" "num_computed_tokens r \<le> num_tokens r"
  shows "\<exists>r' l' ss'. update_request_as_session Y q u l = Inr (r', l') \<and> requests (store l') q = Some r'
    \<and> sessions l' q = Some ss' \<and> session_ok r' ss' \<and> output_token_ids ss' = []
    \<and> all_token_ids ss' = take (nat (num_computed_tokens r)) (all_token_ids ss) @ upd_prompt_token_ids u
    \<and> num_computed_tokens r' = num_computed_tokens r \<and> num_computed_tokens r' \<le> num_tokens r' \<and> status r' = WAITING
    \<and> streaming_inputs l' = streaming_inputs l - (if status r = WAITING_FOR_STREAMING_REQ then 1 else 0)"
proof -
  obtain p where p: "prompt_token_ids ss = Some p" using assms(3) by (auto simp: session_ok_def)
  define ss' where "ss' = ss\<lparr> all_token_ids := take (nat (num_computed_tokens r)) (all_token_ids ss) @ upd_prompt_token_ids u,
      output_token_ids := [], prompt_token_ids := Some (p @ kept_output r ss @ upd_prompt_token_ids u),
      sampling_params := upd_sampling_params u \<rparr>"
  define r' where "r' = session_request Y u ss ss' r"
  have ok: "session_ok r' ss'"
    using prompt_and_kept[OF assms(3,4) p] by (simp add: session_ok_def r'_def session_request_def ss'_def)
  define l' where "l' = (put_req q r' (put_session q ss' l))\<lparr> streaming_inputs :=
      streaming_inputs l - (if status r = WAITING_FOR_STREAMING_REQ then 1 else 0) \<rparr>"
  have "update_request_as_session Y q u l = Inr (r', l')"
    using assms(1,2) p
    by (simp add: l'_def update_request_as_session_def lookup_request_def lookup_session_def session_tokens_def ss'_def r'_def Let_def)
  moreover have "num_computed_tokens r' = num_computed_tokens r" "status r' = WAITING"
    "num_tokens r' = int (length (all_token_ids ss'))"
    by (simp_all add: r'_def session_request_def)
  moreover have "num_computed_tokens r \<le> int (length (all_token_ids ss'))"
    using assms(3,5) by (auto simp: session_ok_def ss'_def)
  moreover have "requests (store l') q = Some r'" "sessions l' q = Some ss'"
    "streaming_inputs l' = streaming_inputs l - (if status r = WAITING_FOR_STREAMING_REQ then 1 else 0)"
    by (simp_all add: l'_def put_req_def put_session_def with_store_def with_sched_def)
  ultimately show ?thesis
    using ok by (intro exI[of _ r'] exI[of _ l'] exI[of _ ss'] conjI) (simp_all add: ss'_def)
qed

section \<open>Draft tokens\<close>

text \<open>A grammar accepts a prefix of a draft.\<close>

definition accepts_prefixes :: "'h grammar_ext \<Rightarrow> bool" where
  "accepts_prefixes G \<longleftrightarrow> (\<forall>r ds. \<exists>n. validate_tokens G r ds = take n ds)"

text \<open>The draft tokens that are kept: as many as there are placeholders, and of those what the grammar accepts.\<close>

definition kept_draft :: "'h grammar_ext \<Rightarrow> 'h sched_request \<Rightarrow> int list \<Rightarrow> int list \<Rightarrow> int list" where
  "kept_draft G r ps ds =
     (if should_advance G r then validate_tokens G r (take (length ps) ds) else take (length ps) ds)"

text \<open>The two dicts after the loop, for one request.\<close>

definition fitted ::
  "('x, 'q, 'h) sched_ext \<Rightarrow> 'h grammar_ext \<Rightarrow> (string \<Rightarrow> 'h sched_request option) \<Rightarrow> (string \<times> int list) list
   \<Rightarrow> (string \<Rightarrow> int list option) \<times> (string \<Rightarrow> int option) \<Rightarrow> (string \<Rightarrow> int list option) \<times> (string \<Rightarrow> int option)
   \<Rightarrow> string \<Rightarrow> bool" where
  "fitted X G rs pairs out out' q \<longleftrightarrow>
     (case (map_of pairs q, rs q, fst out q) of
        (Some ds, Some r, Some ps) \<Rightarrow>
          if status_is_finished X (status r) \<or> ps = [] then fst out' q = Some ps \<and> snd out' q = snd out q
          else let good = kept_draft G r ps ds; missing = length ps - length good
               in fst out' q = Some (good @ replicate missing (- 1))
                  \<and> snd out' q = (if missing = 0 then snd out q else Some (int missing))
      | _ \<Rightarrow> fst out' q = fst out q \<and> snd out' q = snd out q)"

lemma kept_draft_length:
  assumes "accepts_prefixes G"
  shows "length (kept_draft G r ps ds) \<le> length ps"
proof -
  obtain n where "validate_tokens G r (take (length ps) ds) = take n (take (length ps) ds)"
    using assms unfolding accepts_prefixes_def by blast
  then show ?thesis by (auto simp: kept_draft_def min_le_iff_disj)
qed

lemma fit_draft_kept:
  assumes "accepts_prefixes G"
  shows "fit_draft G r ps ds = (kept_draft G r ps ds @ replicate (length ps - length (kept_draft G r ps ds)) (- 1),
    int (length ps - length (kept_draft G r ps ds)))"
  using kept_draft_length[OF assms, of r ps ds]
  by (auto simp: fit_draft_def kept_draft_def[symmetric] Let_def of_nat_diff nat_diff_distrib)

lemma drafts_elsewhere:
  "q \<notin> fst ` set pairs \<Longrightarrow> fst (update_draft_token_ids_in_output X G rs pairs out) q = fst out q
    \<and> snd (update_draft_token_ids_in_output X G rs pairs out) q = snd out q"
proof (induction pairs arbitrary: out)
  case (Cons pd rest)
  obtain p ds where "pd = (p, ds)" by fastforce
  then show ?case using Cons by (auto simp: Let_def split: option.splits prod.splits)
qed simp

lemma drafts_fitted:
  assumes "accepts_prefixes G"
  shows "distinct (map fst pairs) \<Longrightarrow> fitted X G rs pairs out (update_draft_token_ids_in_output X G rs pairs out) q"
proof (induction pairs arbitrary: out)
  case (Cons pd rest)
  obtain p ds where pd: "pd = (p, ds)" by fastforce
  define out1 where "out1 = (case (rs p, fst out p) of
          (Some r, Some ps) \<Rightarrow>
            if status_is_finished X (status r) \<or> ps = [] then out
            else let (ds', missing) = fit_draft G r ps ds
                 in ((fst out)(p \<mapsto> ds'), if missing \<noteq> 0 then (snd out)(p \<mapsto> missing) else snd out)
        | _ \<Rightarrow> out)"
  let ?out2 = "update_draft_token_ids_in_output X G rs rest out1"
  have eq: "update_draft_token_ids_in_output X G rs (pd # rest) out = ?out2" by (simp add: pd out1_def)
  show ?case
  proof (cases "p = q")
    case True
    then have "q \<notin> fst ` set rest" using Cons.prems pd by auto
    then have e: "fst ?out2 q = fst out1 q" "snd ?out2 q = snd out1 q" using drafts_elsewhere by blast+
    show ?thesis unfolding eq fitted_def e
      by (cases "rs q"; cases "fst out q") (simp_all add: pd True out1_def fit_draft_kept[OF assms] Let_def)
  next
    case False
    then have e: "fst out1 q = fst out q" "snd out1 q = snd out q"
      by (auto simp: out1_def split: option.splits prod.splits)
    have "fitted X G rs rest out1 ?out2 q" using Cons by simp
    moreover have "map_of (pd # rest) q = map_of rest q" using False pd by auto
    ultimately show ?thesis unfolding eq fitted_def e by simp
  qed
qed (simp add: fitted_def split: option.splits)

text \<open>
  C39. Drafts fit their placeholders exactly. For a scheduled request with placeholders, the draft is cut to their
  number, its grammar keeps what it accepts, and the rest is padded with -1, so that there are as many tokens as were
  scheduled; the padding is counted. Requests that are unknown, finished, without draft or without placeholders are
  left alone.
\<close>

theorem drafts_fit_placeholders:
  assumes "accepts_prefixes G" "distinct (map fst pairs)"
  shows "fitted X G rs pairs out (update_draft_token_ids_in_output X G rs pairs out) q
    \<and> map_option length (fst (update_draft_token_ids_in_output X G rs pairs out) q) = map_option length (fst out q)"
proof -
  have f: "fitted X G rs pairs out (update_draft_token_ids_in_output X G rs pairs out) q" by (rule drafts_fitted[OF assms])
  then show ?thesis using kept_draft_length[OF assms(1)]
    by (auto simp: fitted_def Let_def split: option.splits if_splits)
qed

section \<open>Blocks that failed to load\<close>

text \<open>The scan of one request after \<open>m\<close> of its blocks.\<close>

definition scan_inv :: "int \<Rightarrow> int set \<Rightarrow> bool \<Rightarrow> int list \<Rightarrow> block_scan \<Rightarrow> nat \<Rightarrow> block_scan \<Rightarrow> bool" where
  "scan_inv bsz invalid evict ids sc0 m sc \<longleftrightarrow>
     is_affected sc = (\<exists>i < m. ids ! i \<in> invalid)
     \<and> marked_invalid_block_ids sc = marked_invalid_block_ids sc0 \<union> {b \<in> invalid. \<exists>i < m. ids ! i = b}
     \<and> (if marked_invalid_block sc
        then \<exists>i < m. ids ! i \<in> invalid \<and> ids ! i \<notin> marked_invalid_block_ids sc0
          \<and> (\<forall>j < i. ids ! j \<in> invalid \<longrightarrow> ids ! j \<in> marked_invalid_block_ids sc0) \<and> scan_computed sc = int i * bsz
          \<and> blocks_to_evict sc = (if evict then blocks_to_evict sc0 \<union> set (drop i ids) else blocks_to_evict sc0)
        else scan_computed sc = scan_computed sc0 \<and> blocks_to_evict sc = blocks_to_evict sc0
          \<and> (\<forall>j < m. ids ! j \<in> invalid \<longrightarrow> ids ! j \<in> marked_invalid_block_ids sc0))"

lemma scan_block_invalid:
  assumes "b \<in> invalid"
  shows "is_affected (scan_block bsz n invalid evict ids (m, b) sc)"
    "marked_invalid_block_ids (scan_block bsz n invalid evict ids (m, b) sc) = insert b (marked_invalid_block_ids sc)"
    "marked_invalid_block (scan_block bsz n invalid evict ids (m, b) sc)
       = (marked_invalid_block sc \<or> b \<notin> marked_invalid_block_ids sc)"
    "scan_computed (scan_block bsz n invalid evict ids (m, b) sc)
       = (if marked_invalid_block sc \<or> b \<in> marked_invalid_block_ids sc then scan_computed sc else int m * bsz)"
    "blocks_to_evict (scan_block bsz n invalid evict ids (m, b) sc)
       = (if marked_invalid_block sc \<or> b \<in> marked_invalid_block_ids sc \<or> \<not> evict then blocks_to_evict sc
          else blocks_to_evict sc \<union> set (drop m ids))"
  using assms by (auto simp: scan_block_def Let_def)

lemma scan_block_valid: "b \<notin> invalid \<Longrightarrow> scan_block bsz n invalid evict ids (m, b) sc = sc"
  by (simp add: scan_block_def)

lemma scan_inv_step:
  assumes "scan_inv bsz invalid evict ids sc0 m sc"
  shows "scan_inv bsz invalid evict ids sc0 (Suc m) (scan_block bsz n invalid evict ids (m, ids ! m) sc)"
proof (cases "ids ! m \<in> invalid")
  case False
  then have "{b \<in> invalid. \<exists>i < Suc m. ids ! i = b} = {b \<in> invalid. \<exists>i < m. ids ! i = b}"
    "(\<exists>i < Suc m. ids ! i \<in> invalid) = (\<exists>i < m. ids ! i \<in> invalid)"
    by (auto simp: less_Suc_eq)
  then show ?thesis
    using assms False unfolding scan_block_valid[OF False] scan_inv_def by (auto simp: less_Suc_eq split: if_splits)
next
  case inv: True
  let ?sc = "scan_block bsz n invalid evict ids (m, ids ! m) sc"
  note f = scan_block_invalid[OF inv, of bsz n evict ids m sc]
  have marks: "marked_invalid_block_ids sc = marked_invalid_block_ids sc0 \<union> {b \<in> invalid. \<exists>i < m. ids ! i = b}"
    using assms by (simp add: scan_inv_def)
  have "marked_invalid_block_ids ?sc = marked_invalid_block_ids sc0 \<union> {b \<in> invalid. \<exists>i < Suc m. ids ! i = b}"
    unfolding f(2) marks using inv by (auto simp: less_Suc_eq)
  moreover have "is_affected ?sc = (\<exists>i < Suc m. ids ! i \<in> invalid)" using f(1) inv by auto
  moreover have "if marked_invalid_block ?sc
        then \<exists>i < Suc m. ids ! i \<in> invalid \<and> ids ! i \<notin> marked_invalid_block_ids sc0
          \<and> (\<forall>j < i. ids ! j \<in> invalid \<longrightarrow> ids ! j \<in> marked_invalid_block_ids sc0) \<and> scan_computed ?sc = int i * bsz
          \<and> blocks_to_evict ?sc = (if evict then blocks_to_evict sc0 \<union> set (drop i ids) else blocks_to_evict sc0)
        else scan_computed ?sc = scan_computed sc0 \<and> blocks_to_evict ?sc = blocks_to_evict sc0
          \<and> (\<forall>j < Suc m. ids ! j \<in> invalid \<longrightarrow> ids ! j \<in> marked_invalid_block_ids sc0)"
  proof (cases "marked_invalid_block sc")
    case True
    then obtain i where i: "i < m" "ids ! i \<in> invalid \<and> ids ! i \<notin> marked_invalid_block_ids sc0
          \<and> (\<forall>j < i. ids ! j \<in> invalid \<longrightarrow> ids ! j \<in> marked_invalid_block_ids sc0) \<and> scan_computed sc = int i * bsz
          \<and> blocks_to_evict sc = (if evict then blocks_to_evict sc0 \<union> set (drop i ids) else blocks_to_evict sc0)"
      using assms unfolding scan_inv_def by auto
    have same: "marked_invalid_block ?sc" "scan_computed ?sc = scan_computed sc" "blocks_to_evict ?sc = blocks_to_evict sc"
      using True f(3-5) by simp_all
    show ?thesis unfolding same(2,3) if_P[OF same(1)] using i less_SucI[OF i(1)] by blast
  next
    case False
    then have g: "scan_computed sc = scan_computed sc0" "blocks_to_evict sc = blocks_to_evict sc0"
      "\<forall>j < m. ids ! j \<in> invalid \<longrightarrow> ids ! j \<in> marked_invalid_block_ids sc0"
      using assms by (auto simp: scan_inv_def)
    have eq: "marked_invalid_block_ids sc = marked_invalid_block_ids sc0" using marks g(3) by auto
    show ?thesis
    proof (cases "ids ! m \<in> marked_invalid_block_ids sc0")
      case True
      then show ?thesis using False g f(3-5) unfolding eq by (auto simp: less_Suc_eq)
    next
      case new: False
      then show ?thesis using False g f(3-5) inv unfolding eq by (auto intro!: exI[of _ m])
    qed
  qed
  ultimately show ?thesis unfolding scan_inv_def by blast
qed

lemma scan_inv_fold:
  assumes "\<not> is_affected sc0" "\<not> marked_invalid_block sc0"
  shows "scan_inv bsz invalid evict ids sc0 m (fold (scan_block bsz n invalid evict ids) (map (\<lambda>i. (i, ids ! i)) [0..<m]) sc0)"
  by (induction m) (use assms scan_inv_step in \<open>auto simp: scan_inv_def[of _ _ _ _ _ 0]\<close>)

lemma zip_upt_nth: "zip [0..<m] xs = map (\<lambda>i. (i, xs ! i)) [0..<min m (length xs)]"
  by (intro nth_equalityI) auto

lemma computed_blocks:
  assumes "0 < bsz"
  shows "i < nat ((n + bsz - 1) div bsz) \<longleftrightarrow> int i * bsz < n"
proof -
  let ?x = "n + bsz - 1"
  have "int i < ?x div bsz \<longleftrightarrow> (int i + 1) * bsz \<le> ?x"
  proof
    assume "int i < ?x div bsz"
    then have "(int i + 1) * bsz \<le> ?x div bsz * bsz" using assms by (intro mult_right_mono) auto
    also have "\<dots> \<le> ?x" using assms pos_mod_sign[OF assms, of ?x] div_mult_mod_eq[of ?x bsz] by linarith
    finally show "(int i + 1) * bsz \<le> ?x" .
  next
    assume "(int i + 1) * bsz \<le> ?x"
    from zdiv_mono1[OF this assms] show "int i < ?x div bsz" using assms by simp
  qed
  then show ?thesis by (auto simp: algebra_simps)
qed

text \<open>The blocks of a request and its computed tokens before and after.\<close>

abbreviation blocks_of :: "('c, 'h, 'e) coordinator \<Rightarrow> ('c, 'x, 'q, 'h) sched_state \<Rightarrow> string \<Rightarrow> int list" where
  "blocks_of K s q \<equiv> hd (table_block_ids K q (kv_manager s))"

definition computed_in :: "('c, 'x, 'q, 'h) sched_state \<Rightarrow> string \<Rightarrow> int" where
  "computed_in s q = (case requests s q of None \<Rightarrow> 0 | Some r \<Rightarrow> num_computed_tokens r)"

definition settled_tokens :: "(string \<Rightarrow> int option) \<Rightarrow> ('c, 'x, 'q, 'h) sched_state \<Rightarrow> string \<Rightarrow> int" where
  "settled_tokens nst s q = computed_in s q - (case nst q of None \<Rightarrow> 0 | Some k \<Rightarrow> k)"

text \<open>What holds after the requests \<open>D\<close>, from the store \<open>s0\<close>.\<close>

definition recompute_inv ::
  "('c, 'h, 'e) coordinator \<Rightarrow> int \<Rightarrow> int set \<Rightarrow> (string \<Rightarrow> int option) \<Rightarrow> bool \<Rightarrow> ('c, 'x, 'q, 'h) sched_state \<Rightarrow> string set
   \<Rightarrow> string list \<times> block_scan \<Rightarrow> ('c, 'x, 'q, 'h) sched_state \<Rightarrow> bool" where
  "recompute_inv K bsz invalid nst evict s0 D acc s \<longleftrightarrow> kv_manager s = kv_manager s0 \<and> set (fst acc) \<subseteq> D
     \<and> (\<forall>b \<in> marked_invalid_block_ids (snd acc). \<exists>p \<in> D. \<exists>j < length (blocks_of K s0 p).
          blocks_of K s0 p ! j = b \<and> computed_in s p \<le> int j * bsz \<and> (evict \<longrightarrow> b \<in> blocks_to_evict (snd acc)))
     \<and> (\<forall>q \<in> D. (\<forall>i < length (blocks_of K s0 q). int i * bsz < settled_tokens nst s0 q \<longrightarrow> blocks_of K s0 q ! i \<in> invalid \<longrightarrow>
            blocks_of K s0 q ! i \<in> marked_invalid_block_ids (snd acc) \<and> q \<in> set (fst acc))
          \<and> computed_in s q \<le> computed_in s0 q
          \<and> (q \<in> set (fst acc) \<longrightarrow> (\<exists>i < length (blocks_of K s0 q). int i * bsz < settled_tokens nst s0 q \<and> blocks_of K s0 q ! i \<in> invalid)))
     \<and> (\<forall>q. q \<notin> set (fst acc) \<longrightarrow> requests s q = requests s0 q)"

text \<open>One request.\<close>

lemma scan_request_ok:
  fixes ids :: "int list"
  assumes "0 < bsz" "n \<le> computed" "sc' = scan_request bsz computed n invalid evict ids sc"
  defines "hit i \<equiv> i < length ids \<and> int i * bsz < n \<and> ids ! i \<in> invalid"
  shows "is_affected sc' = (\<exists>i. hit i)"
    and "marked_invalid_block_ids sc' = marked_invalid_block_ids sc \<union> {b. \<exists>i. hit i \<and> ids ! i = b}"
    and "scan_computed sc' \<le> computed" "\<not> is_affected sc' \<Longrightarrow> scan_computed sc' = computed"
    and "blocks_to_evict sc \<subseteq> blocks_to_evict sc'"
    and "hit i \<Longrightarrow> ids ! i \<notin> marked_invalid_block_ids sc \<Longrightarrow>
      scan_computed sc' \<le> int i * bsz \<and> (evict \<longrightarrow> ids ! i \<in> blocks_to_evict sc')"
proof -
  let ?sc0 = "sc\<lparr> is_affected := False, marked_invalid_block := False, scan_computed := computed \<rparr>"
  define m where "m = min (nat ((n + bsz - 1) div bsz)) (length ids)"
  have hit: "hit i \<longleftrightarrow> i < m \<and> ids ! i \<in> invalid" for i
    using computed_blocks[OF assms(1)] by (auto simp: hit_def m_def)
  define sc1 where "sc1 = fold (scan_block bsz n invalid evict ids) (zip [0..<nat ((n + bsz - 1) div bsz)] ids) ?sc0"
  have inv: "scan_inv bsz invalid evict ids ?sc0 m sc1"
    unfolding sc1_def zip_upt_nth m_def[symmetric] by (rule scan_inv_fold) simp_all
  have sc': "sc' = (if is_affected sc1 \<and> \<not> marked_invalid_block sc1
      then sc1\<lparr> total_affected_tokens := total_affected_tokens sc1 + (scan_computed sc1 - n), scan_computed := n \<rparr> else sc1)"
    using assms(3) by (simp add: scan_request_def Let_def sc1_def)
  show "is_affected sc' = (\<exists>i. hit i)" "marked_invalid_block_ids sc' = marked_invalid_block_ids sc \<union> {b. \<exists>i. hit i \<and> ids ! i = b}"
    using inv unfolding sc' hit by (auto simp: scan_inv_def)
  have le: "scan_computed sc1 \<le> computed \<and> (marked_invalid_block sc1 \<longrightarrow> scan_computed sc1 \<le> n)"
  proof (cases "marked_invalid_block sc1")
    case True
    then obtain i where "i < m" "ids ! i \<in> invalid" "scan_computed sc1 = int i * bsz" using inv by (auto simp: scan_inv_def)
    moreover from this have "int i * bsz < n" using hit hit_def by blast
    ultimately show ?thesis using assms(2) by simp
  qed (use inv in \<open>simp add: scan_inv_def\<close>)
  then show "scan_computed sc' \<le> computed" unfolding sc' using assms(2) by auto
  show "scan_computed sc' = computed" if "\<not> is_affected sc'"
  proof -
    have "\<not> is_affected sc1" using that unfolding sc' by (simp split: if_splits)
    moreover from this have "\<not> marked_invalid_block sc1" using inv by (auto simp: scan_inv_def split: if_splits)
    ultimately show ?thesis using inv unfolding sc' by (simp add: scan_inv_def)
  qed
  show "blocks_to_evict sc \<subseteq> blocks_to_evict sc'"
    using inv unfolding sc' by (cases "marked_invalid_block sc1") (auto simp: scan_inv_def)
  assume i: "hit i" "ids ! i \<notin> marked_invalid_block_ids sc"
  have m1: "marked_invalid_block sc1"
    using inv i hit by (auto simp: scan_inv_def split: if_splits)
  then obtain j where j: "ids ! j \<notin> marked_invalid_block_ids sc" "\<forall>k < j. ids ! k \<in> invalid \<longrightarrow> ids ! k \<in> marked_invalid_block_ids sc"
    "scan_computed sc1 = int j * bsz" "blocks_to_evict sc1 = (if evict then blocks_to_evict sc \<union> set (drop j ids) else blocks_to_evict sc)"
    using inv by (auto simp: scan_inv_def)
  have "j \<le> i" using i j(2) hit by (metis not_le)
  then have "int j * bsz \<le> int i * bsz" using assms(1) by (intro mult_right_mono) auto
  moreover have lt: "i < length ids" using i(1) unfolding hit_def by simp
  have "drop j ids ! (i - j) \<in> set (drop j ids)" using \<open>j \<le> i\<close> lt by (intro nth_mem) simp
  then have "ids ! i \<in> set (drop j ids)" using \<open>j \<le> i\<close> lt by simp
  ultimately show "scan_computed sc' \<le> int i * bsz \<and> (evict \<longrightarrow> ids ! i \<in> blocks_to_evict sc')"
    using j(3,4) m1 unfolding sc' by auto
qed

lemma recompute_inv_step:
  assumes "recompute_inv K bsz invalid nst evict s0 D acc s" "q \<notin> D" "requests s q = Some r" "0 < bsz"
    and "case nst q of None \<Rightarrow> True | Some k \<Rightarrow> 0 \<le> k"
    and "sc = scan_request bsz (num_computed_tokens r) (num_computed_tokens r - (case nst q of None \<Rightarrow> 0 | Some k \<Rightarrow> k))
          invalid evict (blocks_of K s q) (snd acc)"
  shows "recompute_inv K bsz invalid nst evict s0 (insert q D) (if is_affected sc then (fst acc @ [q], sc) else (fst acc, sc))
    (s\<lparr> requests := (requests s)(q \<mapsto> r\<lparr> num_computed_tokens := scan_computed sc \<rparr>) \<rparr>)"
proof -
  let ?ids = "blocks_of K s0 q" and ?n = "settled_tokens nst s0 q" and ?s' = "s\<lparr> requests := (requests s)(q \<mapsto> r\<lparr> num_computed_tokens := scan_computed sc \<rparr>) \<rparr>"
  have inv: "kv_manager s = kv_manager s0" "set (fst acc) \<subseteq> D" "\<forall>q. q \<notin> set (fst acc) \<longrightarrow> requests s q = requests s0 q"
    using assms(1) by (auto simp: recompute_inv_def)
  have q: "q \<notin> set (fst acc)" using inv(2) assms(2) by blast
  then have r0: "requests s0 q = Some r" using inv(3) assms(3) by metis
  then have c: "computed_in s0 q = num_computed_tokens r" "?n = num_computed_tokens r - (case nst q of None \<Rightarrow> 0 | Some k \<Rightarrow> k)"
    by (simp_all add: computed_in_def settled_tokens_def)
  have n: "?n \<le> num_computed_tokens r" using assms(5) c by (auto split: option.splits)
  have "sc = scan_request bsz (num_computed_tokens r) ?n invalid evict ?ids (snd acc)" using assms(6) inv(1) c by simp
  note f = scan_request_ok[OF assms(4) n this]
  have c': "computed_in ?s' p = (if p = q then scan_computed sc else computed_in s p)" for p
    by (simp add: computed_in_def)
  have marks: "\<exists>p \<in> insert q D. \<exists>j < length (blocks_of K s0 p). blocks_of K s0 p ! j = b \<and> computed_in ?s' p \<le> int j * bsz
      \<and> (evict \<longrightarrow> b \<in> blocks_to_evict sc)" if b: "b \<in> marked_invalid_block_ids sc" for b
  proof (cases "b \<in> marked_invalid_block_ids (snd acc)")
    case True
    then obtain p j where "p \<in> D" "j < length (blocks_of K s0 p)" "blocks_of K s0 p ! j = b" "computed_in s p \<le> int j * bsz"
      "evict \<longrightarrow> b \<in> blocks_to_evict (snd acc)"
      using assms(1) unfolding recompute_inv_def by blast
    moreover from this have "p \<noteq> q" using assms(2) by blast
    ultimately show ?thesis using f(5) c' by (intro bexI[of _ p] exI[of _ j]) auto
  next
    case False
    then obtain i where "i < length ?ids" "int i * bsz < ?n" "?ids ! i \<in> invalid" "?ids ! i = b" using b f(2) by auto
    then show ?thesis using f(6)[of i] False c' by (intro bexI[of _ q] exI[of _ i]) auto
  qed
  have old: "\<forall>p \<in> D. (\<forall>i < length (blocks_of K s0 p). int i * bsz < settled_tokens nst s0 p \<longrightarrow> blocks_of K s0 p ! i \<in> invalid \<longrightarrow>
            blocks_of K s0 p ! i \<in> marked_invalid_block_ids sc \<and> p \<in> set (fst acc))
          \<and> computed_in ?s' p \<le> computed_in s0 p
          \<and> (p \<in> set (fst acc) \<longrightarrow> (\<exists>i < length (blocks_of K s0 p). int i * bsz < settled_tokens nst s0 p \<and> blocks_of K s0 p ! i \<in> invalid))"
    using assms(1,2) f(2) c' unfolding recompute_inv_def by auto
  have new: "\<forall>i < length ?ids. int i * bsz < ?n \<longrightarrow> ?ids ! i \<in> invalid \<longrightarrow> ?ids ! i \<in> marked_invalid_block_ids sc \<and> is_affected sc"
    "is_affected sc \<longrightarrow> (\<exists>i < length ?ids. int i * bsz < ?n \<and> ?ids ! i \<in> invalid)" "computed_in ?s' q \<le> computed_in s0 q"
    using f(1-3) c c' by auto
  have same: "requests ?s' p = requests s0 p" if "p \<notin> set (fst acc)" "p = q \<longrightarrow> \<not> is_affected sc" for p
    using that inv(3) f(4) r0 by auto
  show ?thesis
  proof (cases "is_affected sc")
    case True
    then show ?thesis using marks old new same inv(1,2) q unfolding recompute_inv_def by auto
  next
    case False
    then show ?thesis using marks old new same inv(1,2) q unfolding recompute_inv_def by auto
  qed
qed

lemma recompute_inv_loop:
  assumes "update_requests_with_invalid_blocks K bsz invalid nst evict qs acc s = Inr (acc', s')"
    and "recompute_inv K bsz invalid nst evict s0 D acc s" "distinct qs" "set qs \<inter> D = {}" "0 < bsz"
    and "\<forall>q k. nst q = Some k \<longrightarrow> 0 \<le> k"
  shows "recompute_inv K bsz invalid nst evict s0 (D \<union> set qs) acc' s'"
  using assms(1-4)
proof (induction qs arbitrary: acc s D)
  case (Cons q qs)
  obtain r where r: "requests s q = Some r"
    using Cons.prems(1) by (auto simp: lookup_request_def res_bind_eq_Inr split: option.splits)
  define sc where "sc = scan_request bsz (num_computed_tokens r) (num_computed_tokens r - (case nst q of None \<Rightarrow> 0 | Some k \<Rightarrow> k))
      invalid evict (blocks_of K s q) (snd acc)"
  have "case nst q of None \<Rightarrow> True | Some k \<Rightarrow> 0 \<le> k" using assms(6) by (auto split: option.splits)
  then have inv: "recompute_inv K bsz invalid nst evict s0 (insert q D) (if is_affected sc then (fst acc @ [q], sc) else (fst acc, sc))
      (s\<lparr> requests := (requests s)(q \<mapsto> r\<lparr> num_computed_tokens := scan_computed sc \<rparr>) \<rparr>)"
    using recompute_inv_step[OF Cons.prems(2) _ r assms(5)] Cons.prems(4) sc_def by auto
  have "update_requests_with_invalid_blocks K bsz invalid nst evict qs (if is_affected sc then (fst acc @ [q], sc) else (fst acc, sc))
      (s\<lparr> requests := (requests s)(q \<mapsto> r\<lparr> num_computed_tokens := scan_computed sc \<rparr>) \<rparr>) = Inr (acc', s')"
    unfolding sc_def using Cons.prems(1) r assms(5)
    by (simp add: lookup_request_def require_bind_eq_Inr Let_def split del: if_split)
  from Cons.IH[OF this inv] show ?case using Cons.prems(3,4) by auto
qed (use assms in simp)

text \<open>
  C37. Every block that failed to load is computed again. When the scan of a list of requests returns, each invalid
  block among the settled computed blocks of a request is covered: the request is reported, and it or another
  scanned request restarts at or before that block, which is evicted where asked. Nobody's computed tokens grow, and requests
  without such blocks are left as they were.
\<close>

theorem invalid_blocks_are_computed_again:
  assumes "update_requests_with_invalid_blocks K bsz invalid nst evict qs ([], scan_start) s = Inr ((affected, sc), s')"
    and "distinct qs" "0 < bsz" "\<forall>q k. nst q = Some k \<longrightarrow> 0 \<le> k"
  shows "(\<forall>q \<in> set qs. \<forall>i < length (blocks_of K s q). int i * bsz < settled_tokens nst s q \<longrightarrow> blocks_of K s q ! i \<in> invalid \<longrightarrow>
        q \<in> set affected \<and> (\<exists>p \<in> set qs. \<exists>j < length (blocks_of K s p). blocks_of K s p ! j = blocks_of K s q ! i
          \<and> computed_in s' p \<le> int j * bsz) \<and> (evict \<longrightarrow> blocks_of K s q ! i \<in> blocks_to_evict sc))
    \<and> (\<forall>q \<in> set qs. computed_in s' q \<le> computed_in s q)
    \<and> (\<forall>q \<in> set affected. \<exists>i < length (blocks_of K s q). int i * bsz < settled_tokens nst s q \<and> blocks_of K s q ! i \<in> invalid)
    \<and> (\<forall>q. q \<notin> set affected \<longrightarrow> requests s' q = requests s q)"
proof -
  have "recompute_inv K bsz invalid nst evict s {} ([], scan_start) s"
    by (simp add: recompute_inv_def scan_start_def)
  from recompute_inv_loop[OF assms(1) this assms(2) _ assms(3,4)]
  have inv: "recompute_inv K bsz invalid nst evict s (set qs) (affected, sc) s'" by simp
  then show ?thesis unfolding recompute_inv_def by (simp add: subset_iff) metis
qed

section \<open>A concrete engine\<close>

text \<open>Requests of a prompt of three tokens and two outputs, of which four tokens are computed.\<close>

definition life_request :: "string \<Rightarrow> request_status \<Rightarrow> int \<Rightarrow> nat sched_request" where
  "life_request q st flight = (run_request q 1 False 4 5 0)\<lparr> status := st, num_prompt_tokens := 3,
     num_in_flight_tokens := flight, num_stale_output_tokens := (if st = PREEMPTED then flight else 0) \<rparr>"

definition life_session :: "bool \<Rightarrow> session" where
  "life_session stream = \<lparr> resumable = stream, streaming_queue = (if stream then Some [] else None),
     all_token_ids = [1, 2, 3, 8, 9], output_token_ids = [8, 9], prompt_token_ids = Some [1, 2, 3],
     sampling_params = 0, client_index = 0 \<rparr>"

text \<open>The running, waiting and skipped requests, and which of them are streams.\<close>

definition life_start :: "nat sched_request list \<Rightarrow> nat sched_request list \<Rightarrow> nat sched_request list \<Rightarrow> string list \<Rightarrow> int
    \<Rightarrow> (run_pool, nat set, nat sched_request list, nat, unit) life_state" where
  "life_start runs ws ks streams n =
     (let rs = runs @ ws @ ks
      in \<lparr> wait = wait_demo\<lparr> run := (run wait_demo)\<lparr> sched := (run_sched [] rs)\<lparr> waiting_queue := ws \<rparr>,
               running_ids := map request_id runs \<rparr>, skipped_queue := ks \<rparr>,
           streaming_inputs = n,
           sessions = (\<lambda>q. if q \<in> request_id ` set rs then Some (life_session (q \<in> set streams)) else None),
           finished_req_ids_dict = Some (\<lambda>_. None), prev_step_scheduled_req_ids = {}, connector_stats_reset = False \<rparr>)"

definition life_other :: "(nat sched_request list, nat, unit, unit) life_ext" where
  "life_other = \<lparr> queue_add = (\<lambda>r x. x @ [r]), queue_remove = (\<lambda>S. filter (\<lambda>r. request_id r \<notin> S)),
     queue_iter = map request_id, remove_all = (\<lambda>xs S. filter (\<lambda>q. q \<notin> S) xs),
     update_of = (\<lambda>r ss. map_option (\<lambda>p. \<lparr> upd_mm_features = [], upd_prompt_token_ids = p, upd_arrival_time = 0,
        upd_sampling_params = 0 \<rparr>) (prompt_token_ids ss)),
     hash_blocks = (\<lambda>ss hs. hs), has_connector = False, supports_hma = False, on_new_request = (\<lambda>r k. k),
     request_finished = (\<lambda>r ids k. ((False, None), k)), request_finished_all_groups = (\<lambda>r ids k. ((False, None), k)),
     update_connector_output = (\<lambda>k. k), reset_cache = (\<lambda>k. (None, k)), ec_request_finished = None \<rparr>"

definition life_states :: "(nat set, nat sched_request list, nat) sched_ext" where
  "life_states = run_ext\<lparr> status_is_finished :=
     (\<lambda>st. st \<in> {FINISHED_STOPPED, FINISHED_LENGTH_CAPPED, FINISHED_ABORTED, FINISHED_ERROR}) \<rparr>"

text \<open>A running stream, a waiting request, and a paused stream.\<close>

definition life_demo :: "(run_pool, nat set, nat sched_request list, nat, unit) life_state" where
  "life_demo = life_start [life_request ''r'' RUNNING 1] [life_request ''w'' WAITING 0]
     [life_request ''p'' WAITING_FOR_STREAMING_REQ 0] [''p'', ''r''] 1"

definition life_chunk :: stream_update where
  "life_chunk = \<lparr> upd_mm_features = [], upd_prompt_token_ids = [5, 6], upd_arrival_time = 1, upd_sampling_params = 0 \<rparr>"

theorem chunk_keeps_computed_tokens_witness:
  "\<exists>r' l' ss'. update_request_as_session life_other ''p'' life_chunk life_demo = Inr (r', l') \<and> sessions l' ''p'' = Some ss'
     \<and> all_token_ids ss' = [1, 2, 3, 8, 5, 6] \<and> streaming_inputs l' = 0"
proof -
  have "requests (store life_demo) ''p'' = Some (life_request ''p'' WAITING_FOR_STREAMING_REQ 0)"
    "sessions life_demo ''p'' = Some (life_session True)" "streaming_inputs life_demo = 1"
    by (simp_all add: life_demo_def life_start_def life_request_def run_sched_def run_request_def Let_def)
  moreover have "session_ok (life_request ''p'' WAITING_FOR_STREAMING_REQ 0) (life_session True)"
    by (simp add: session_ok_def life_request_def life_session_def run_request_def)
  ultimately show ?thesis
    using chunk_keeps_computed_tokens[of life_demo "''p''" _ _ life_other life_chunk]
    by (fastforce simp: life_request_def life_session_def run_request_def life_chunk_def)
qed

text \<open>A grammar that takes two tokens of every draft.\<close>

definition short_grammar :: "nat grammar_ext" where
  "short_grammar = \<lparr> should_advance = (\<lambda>r. True), validate_tokens = (\<lambda>r. take 2) \<rparr>"

theorem drafts_fit_placeholders_witness:
  "fst (update_draft_token_ids_in_output life_states short_grammar (requests (store life_demo)) [(''r'', [4, 5, 6, 7])]
       (\<lambda>q. if q = ''r'' then Some [- 1, - 1, - 1] else None, \<lambda>_. None)) ''r'' = Some [4, 5, - 1]
   \<and> snd (update_draft_token_ids_in_output life_states short_grammar (requests (store life_demo)) [(''r'', [4, 5, 6, 7])]
       (\<lambda>q. if q = ''r'' then Some [- 1, - 1, - 1] else None, \<lambda>_. None)) ''r'' = Some 1"
proof -
  have "accepts_prefixes short_grammar" by (auto simp: accepts_prefixes_def short_grammar_def)
  moreover have "requests (store life_demo) ''r'' = Some (life_request ''r'' RUNNING 1)"
    by (simp add: life_demo_def life_start_def life_request_def run_sched_def run_request_def Let_def)
  ultimately show ?thesis
    using drafts_fit_placeholders[of short_grammar "[(''r'', [4, 5, 6, 7])]" life_states "requests (store life_demo)"
      "(\<lambda>q. if q = ''r'' then Some [- 1, - 1, - 1] else None, \<lambda>_. None)" "''r''"]
    by (simp add: fitted_def kept_draft_def short_grammar_def life_request_def life_states_def run_request_def Let_def)
qed

text \<open>The tables of the requests are two blocks; the second of them failed to load.\<close>

definition two_block_coord :: "(run_pool, nat, unit) coordinator" where
  "two_block_coord = run_coord\<lparr> coord_get_blocks := (\<lambda>q c. [[demo_block 1, demo_block 2]]) \<rparr>"

abbreviation block_scan_demo where
  "block_scan_demo \<equiv> update_requests_with_invalid_blocks two_block_coord 2 {2} (\<lambda>_. None) True [''r''] ([], scan_start) (store life_demo)"

theorem invalid_blocks_are_computed_again_witness:
  "\<exists>affected sc s'. block_scan_demo = Inr ((affected, sc), s') \<and> ''r'' \<in> set affected \<and> computed_in s' ''r'' \<le> 4 \<and> 2 \<in> blocks_to_evict sc"
proof -
  have "case block_scan_demo of Inr _ \<Rightarrow> True | Inl _ \<Rightarrow> False" by code_simp
  then obtain affected sc s' where run: "block_scan_demo = Inr ((affected, sc), s')"
    by (auto split: sum.splits)
  have ids: "blocks_of two_block_coord (store life_demo) ''r'' = [1, 2]" by code_simp
  have n: "computed_in (store life_demo) ''r'' = 4" "settled_tokens (\<lambda>_. None) (store life_demo) ''r'' = 4" by code_simp+
  note t = invalid_blocks_are_computed_again[OF run]
  show ?thesis using t ids n run by fastforce
qed

end
