(* ===== verification/Sched_Output.thy ===== *)
theory Sched_Output
  imports Sched_Transfer Sched_Encoder
begin

text \<open>
  \<^verbatim>\<open>update_from_output\<close> of \<^verbatim>\<open>v1/core/sched/scheduler.py\<close> as a whole: for every scheduled request the share of the
  output, drafts, stop checks, grammar, release, and the reply to its client; then the queues, failed requests,
  finished transfers and the ids to report. Appending a token, the stop conditions and the grammars belong to other
  modules. Log probabilities, routed experts, events and statistics of a reply are left out.
\<close>

section \<open>Replies\<close>

record 'h reply_ext =
  append_output_token_ids :: "int \<Rightarrow> 'h sched_request \<times> session \<Rightarrow> 'h sched_request \<times> session"
  check_stop :: "int \<Rightarrow> 'h sched_request \<times> session \<Rightarrow> bool \<times> 'h sched_request \<times> session"
  advances_on :: "'h sched_request \<Rightarrow> int list \<Rightarrow> bool"
  trim_reasoning :: "'h sched_request \<Rightarrow> int list \<Rightarrow> int list"
  accept_tokens :: "'h sched_request \<Rightarrow> int list \<Rightarrow> bool"
  get_finished_reason :: "request_status \<Rightarrow> int option"
  is_pooling :: "'h sched_request \<Rightarrow> bool"
  iterate :: "string set \<Rightarrow> string list"

record step_share = output_share +
  pooler_output :: "int option"
  has_prompt_logprobs :: bool

record 'p engine_output =
  out_request_id :: string
  out_new_token_ids :: "int list"
  out_finish_reason :: "int option"
  out_pooling :: "int option"
  out_kv_params :: "'p option"
  out_ec_params :: "'p option"

text \<open>The local variables of the loop: replies with the client each goes to, and who stopped.\<close>

record 'p reply_acc =
  replies :: "(int \<times> 'p engine_output) list"
  stopped_running_reqs :: "string set"
  stopped_preempted_reqs :: "string set"
  reply_stats :: step_stats

text \<open>\<^verbatim>\<open>_update_request_with_output\<close>: the tokens up to the one that stops the request.\<close>

fun update_request_with_output ::
  "'h reply_ext \<Rightarrow> int \<Rightarrow> int list \<Rightarrow> int list \<Rightarrow> 'h sched_request \<times> session
   \<Rightarrow> int list \<times> bool \<times> 'h sched_request \<times> session" where
  "update_request_with_output A max_len [] kept rs = (kept, False, rs)"
| "update_request_with_output A max_len (t # ts) kept rs =
     (let (stopped, rs') = check_stop A max_len (append_output_token_ids A t rs)
      in if stopped then (kept @ [t], True, rs') else update_request_with_output A max_len ts (kept @ [t]) rs')"

definition stop_check ::
  "'h reply_ext \<Rightarrow> int \<Rightarrow> step_share \<Rightarrow> 'h sched_request \<times> session \<Rightarrow> int list \<times> bool \<times> 'h sched_request \<times> session" where
  "stop_check A max_len out rs =
     (if generated_token_ids out \<noteq> [] then update_request_with_output A max_len (generated_token_ids out) [] rs
      else if is_pooling A (fst rs) \<and> pooler_output out \<noteq> None
      then ([], True, (fst rs)\<lparr> status := FINISHED_STOPPED \<rparr>, snd rs)
      else ([], False, rs))"

definition advance_grammar ::
  "'h reply_ext \<Rightarrow> ('q, 'k, 'h) waiting_ext \<Rightarrow> int list \<Rightarrow> bool \<Rightarrow> 'h sched_request \<times> session
   \<Rightarrow> (bool \<times> 'h sched_request \<times> session) res" where
  "advance_grammar A V new stopped rs =
     (if new = [] \<or> \<not> advances_on A (fst rs) new then Inr (stopped, rs)
      else res_bind (require (grammar_of V (fst rs) = GrammarReady) AssertionError) (\<lambda>_.
        let ts = trim_reasoning A (fst rs) new in
        if ts \<noteq> [] \<and> \<not> accept_tokens A (fst rs) ts
        then Inr (True, (fst rs)\<lparr> status := FINISHED_ERROR \<rparr>, (snd rs)\<lparr> resumable := False \<rparr>)
        else Inr (stopped, rs)))"

text \<open>What becomes of a stopped request; the result are the parameters for its reply.\<close>

definition settle_stopped ::
  "(int \<Rightarrow> int \<Rightarrow> int) \<Rightarrow> ('c, 'h, 'e) coordinator \<Rightarrow> ('x, 'q, 'h) sched_ext \<Rightarrow> ('q, 'h, 'k, 'p) life_ext \<Rightarrow> string
   \<Rightarrow> ('c, 'x, 'q, 'h, 'k) life_state \<Rightarrow> (('p option \<times> 'p option) \<times> ('c, 'x, 'q, 'h, 'k) life_state) res" where
  "settle_stopped cd K X Y q l =
     res_bind (handle_stopped_request Y q l) (\<lambda>(finished, l1).
       if finished then free_request cd K X Y q False l1 else Inr ((None, None), l1))"

text \<open>The part of the body for a request whose share is neither failed, finished, dropped nor missing.\<close>

definition reply_to_request ::
  "(int \<Rightarrow> int \<Rightarrow> int) \<Rightarrow> ('c, 'h, 'e) coordinator \<Rightarrow> ('x, 'q, 'h) sched_ext \<Rightarrow> ('x, 'h) encoder_ext \<Rightarrow> ('q, 'h, 'k, 'p) life_ext
   \<Rightarrow> ('q, 'k, 'h) waiting_ext \<Rightarrow> 'h reply_ext \<Rightarrow> running_config \<Rightarrow> bool \<Rightarrow> string \<Rightarrow> step_share \<Rightarrow> 'h sched_request
   \<Rightarrow> ('c, 'x, 'q, 'h, 'k) life_state \<Rightarrow> 'p reply_acc \<Rightarrow> (('c, 'x, 'q, 'h, 'k) life_state \<times> 'p reply_acc) res" where
  "reply_to_request cd K X E Y V A C routed q out r l acc =
     res_bind (lookup_session l q) (\<lambda>ss.
     res_bind (if has_encoder_inputs r then free_encoder_inputs E (encoder_cfg C) r (encoder_cache (store l))
               else Inr (encoder_cache (store l))) (\<lambda>x.
       let (new, stopped0, rs) = stop_check A (max_model_len C) out (r, ss)
       in res_bind (advance_grammar A V new stopped0 rs) (\<lambda>(stopped, r1, ss1).
         let l1 = put_session q ss1 (put_req q r1 (with_store (\<lambda>s. s\<lparr> encoder_cache := x,
               re_block_ids := (if routed \<and> new \<noteq> [] then (re_block_ids s)(q := None) else re_block_ids s) \<rparr>) l));
             emit = (new \<noteq> [] \<or> pooler_output out \<noteq> None \<or> stopped)
         in res_bind (if stopped then settle_stopped cd K X Y q l1 else Inr ((None, None), l1)) (\<lambda>((kv, ec), l2).
            res_bind (require (emit \<or> \<not> has_prompt_logprobs out) AssertionError) (\<lambda>_.
              Inr (l2, acc\<lparr>
                replies := (if emit then replies acc @ [(client_index ss1, \<lparr> out_request_id = q, out_new_token_ids = new,
                     out_finish_reason = (if stopped then get_finished_reason A (status r1) else None),
                     out_pooling = pooler_output out, out_kv_params = kv, out_ec_params = ec \<rparr>)] else replies acc),
                stopped_running_reqs := (if stopped \<and> status r = RUNNING then insert q (stopped_running_reqs acc)
                                         else stopped_running_reqs acc),
                stopped_preempted_reqs := (if stopped \<and> status r \<noteq> RUNNING then insert q (stopped_preempted_reqs acc)
                                           else stopped_preempted_reqs acc) \<rparr>))))))"

text \<open>The body of the loop; \<^verbatim>\<open>continue\<close> leaves the drained request.\<close>

definition output_one ::
  "(int \<Rightarrow> int \<Rightarrow> int) \<Rightarrow> ('c, 'h, 'e) coordinator \<Rightarrow> ('x, 'q, 'h) sched_ext \<Rightarrow> ('x, 'h) encoder_ext \<Rightarrow> ('q, 'h, 'k, 'p) life_ext
   \<Rightarrow> ('q, 'k, 'h) waiting_ext \<Rightarrow> 'h reply_ext \<Rightarrow> running_config \<Rightarrow> sched_params \<Rightarrow> bool \<Rightarrow> string \<Rightarrow> step_share
   \<Rightarrow> ('c, 'x, 'q, 'h, 'k) life_state \<times> 'p reply_acc \<Rightarrow> (('c, 'x, 'q, 'h, 'k) life_state \<times> 'p reply_acc) res" where
  "output_one cd K X E Y V A C P routed q out = (\<lambda>(l, acc).
     res_bind (require (0 < num_tokens_scheduled out) AssertionError) (\<lambda>_.
     case requests (store l) q of
       None \<Rightarrow> Inr (l, acc)
     | Some r \<Rightarrow>
         res_bind (drain_output (num_tokens_scheduled out) r) (\<lambda>(stale, r1).
           if kv_load_failed out \<or> status_is_finished X (status r1) \<or> stale \<and> drop_stale_output r1 \<or> \<not> in_runner_batch out
           then Inr (put_req q r1 l, acc)
           else let (r2, st2) = verify_drafts P (output_share.truncate out) stale r1 (reply_stats acc)
                in reply_to_request cd K X E Y V A C routed q out r2 (put_req q r2 l) (acc\<lparr> reply_stats := st2 \<rparr>))))"

fun output_loop ::
  "(int \<Rightarrow> int \<Rightarrow> int) \<Rightarrow> ('c, 'h, 'e) coordinator \<Rightarrow> ('x, 'q, 'h) sched_ext \<Rightarrow> ('x, 'h) encoder_ext \<Rightarrow> ('q, 'h, 'k, 'p) life_ext
   \<Rightarrow> ('q, 'k, 'h) waiting_ext \<Rightarrow> 'h reply_ext \<Rightarrow> running_config \<Rightarrow> sched_params \<Rightarrow> bool \<Rightarrow> (string \<times> step_share) list
   \<Rightarrow> ('c, 'x, 'q, 'h, 'k) life_state \<times> 'p reply_acc \<Rightarrow> (('c, 'x, 'q, 'h, 'k) life_state \<times> 'p reply_acc) res" where
  "output_loop cd K X E Y V A C P routed [] la = Inr la"
| "output_loop cd K X E Y V A C P routed ((q, out) # rest) la =
     res_bind (output_one cd K X E Y V A C P routed q out la) (output_loop cd K X E Y V A C P routed rest)"

section \<open>The whole update\<close>

text \<open>The stopped requests leave the queues.\<close>

definition remove_stopped ::
  "('q, 'h, 'k, 'p) life_ext \<Rightarrow> 'p reply_acc \<Rightarrow> ('c, 'x, 'q, 'h, 'k) life_state \<Rightarrow> ('c, 'x, 'q, 'h, 'k) life_state" where
  "remove_stopped Y acc l =
     (let l1 = (if stopped_running_reqs acc \<noteq> {} then set_running (remove_all Y (running_queue l) (stopped_running_reqs acc)) l else l)
      in if stopped_preempted_reqs acc \<noteq> {} then dequeue_requests Y (stopped_preempted_reqs acc) l1 else l1)"

text \<open>Requests whose grammar did not compile or whose blocks could not be loaded end with an error.\<close>

definition fail_requests ::
  "(int \<Rightarrow> int \<Rightarrow> int) \<Rightarrow> ('c, 'h, 'e) coordinator \<Rightarrow> ('x, 'q, 'h) sched_ext \<Rightarrow> ('q, 'h, 'k, 'p) life_ext \<Rightarrow> 'h reply_ext \<Rightarrow> string set
   \<Rightarrow> ('c, 'x, 'q, 'h, 'k) life_state \<Rightarrow> ((int \<times> 'p engine_output) list \<times> ('c, 'x, 'q, 'h, 'k) life_state) res" where
  "fail_requests cd K X Y A failed l =
     (let errors = grammar_compile_errors (wait l) \<union> failed; l1 = l\<lparr> wait := (wait l)\<lparr> grammar_compile_errors := {} \<rparr> \<rparr> in
      if errors = {} then Inr ([], l1)
      else res_bind (finish_requests cd K X Y FINISHED_ERROR (iterate A errors) l1) (\<lambda>(qs, l2).
        res_bind (map_res (\<lambda>q. res_bind (lookup_session l1 q) (\<lambda>ss. Inr (client_index ss,
            \<lparr> out_request_id = q, out_new_token_ids = [], out_finish_reason = get_finished_reason A FINISHED_ERROR,
              out_pooling = None, out_kv_params = None, out_ec_params = None \<rparr>))) qs) (\<lambda>outs. Inr (outs, l2))))"

text \<open>Blocks whose fence has passed go back to the pool.\<close>

definition return_drained ::
  "('c, 'h, 'e) coordinator \<Rightarrow> int \<Rightarrow> ('c, 'x, 'q, 'h) sched_state \<Rightarrow> ('c, 'x, 'q, 'h) sched_state" where
  "return_drained K n = apply_fence K (process_fence n)"

text \<open>The ids of finished requests, reported once to each client.\<close>

definition report_finished ::
  "('c, 'x, 'q, 'h, 'k) life_state \<Rightarrow> (int \<Rightarrow> string set option) \<times> ('c, 'x, 'q, 'h, 'k) life_state" where
  "report_finished l =
     (case finished_req_ids_dict l of
        None \<Rightarrow> (\<lambda>_. None, l)
      | Some d \<Rightarrow> (d, l\<lparr> finished_req_ids_dict := Some (\<lambda>_. None) \<rparr>))"

record runner_output =
  shares :: "(string \<times> step_share) list"
  output_total_tokens :: int
  kv_output :: "(int set \<times> string list \<times> string list) option"

definition num_scheduled :: "runner_output \<Rightarrow> string \<Rightarrow> int option" where
  "num_scheduled ro q = map_option num_tokens_scheduled (map_of (shares ro) q)"

definition update_from_output ::
  "(int \<Rightarrow> int \<Rightarrow> int) \<Rightarrow> ('c, 'h, 'e) coordinator \<Rightarrow> ('x, 'q, 'h) sched_ext \<Rightarrow> ('x, 'h) encoder_ext \<Rightarrow> ('q, 'h, 'k, 'p) life_ext
   \<Rightarrow> ('q, 'k, 'h) waiting_ext \<Rightarrow> 'h reply_ext \<Rightarrow> running_config \<Rightarrow> sched_params \<Rightarrow> bool \<Rightarrow> bool \<Rightarrow> int \<Rightarrow> controller option
   \<Rightarrow> runner_output \<Rightarrow> ('c, 'x, 'q, 'h, 'k) life_state
   \<Rightarrow> ((int \<times> 'p engine_output) list \<times> (int \<Rightarrow> string set option) \<times> controller option \<times> ('c, 'x, 'q, 'h, 'k) life_state) res" where
  "update_from_output cd K X E Y V A C P routed recompute bsz ctrl ro l =
     (let l0 = with_store (return_drained K (output_total_tokens ro)) l in
      res_bind (case kv_output ro of
          Some (invalid, _, _) \<Rightarrow> if invalid \<noteq> {} then handle_invalid_blocks K Y recompute bsz invalid (num_scheduled ro) l0 else Inr ({}, l0)
        | None \<Rightarrow> Inr ({}, l0)) (\<lambda>(failed, l1).
      res_bind (output_loop cd K X E Y V A C P routed
          (map (\<lambda>(q, out). (q, out\<lparr> kv_load_failed := q \<in> failed \<rparr>)) (shares ro))
          (l1, \<lparr> replies = [], stopped_running_reqs = {}, stopped_preempted_reqs = {},
                 reply_stats = step_stats_init (mtp_num_positions P) \<rparr>)) (\<lambda>(l2, acc).
      let (ctrl', observed) = (case ctrl of None \<Rightarrow> (None, Inr None)
            | Some c \<Rightarrow> let (c', u) = observe_step c (reply_stats acc) in (Some c', u)) in
      res_bind observed (\<lambda>_.
      res_bind (fail_requests cd K X Y A (if recompute then {} else failed) (remove_stopped Y acc l2)) (\<lambda>(errors, l3).
      res_bind (case kv_output ro of
          Some (_, recving, sending) \<Rightarrow> update_from_kv_xfer_finished K X Y recving sending l3
        | None \<Rightarrow> Inr l3) (\<lambda>l4.
        let l5 = l4\<lparr> wait := put_kv (snd (take_events K (kv_manager (store l4)))) (wait l4) \<rparr>;
            (finished, l6) = report_finished l5
        in Inr (replies acc @ errors, finished, ctrl', l6)))))))"

end
