(* ===== verification/Sched_Life_Props.thy ===== *)
theory Sched_Life_Props
  imports Sched_Transfer_Props Sched_Output
begin

text \<open>
  Properties of the life of a request: every request that is alive is in exactly one queue that fits its status, the
  paused sessions are counted exactly, and adding, stopping and finishing requests keep it so.
\<close>

section \<open>Where requests are\<close>

text \<open>The queue classes by the ids they hold, and the list helper.\<close>

definition queue_laws :: "('q \<Rightarrow> string list) \<Rightarrow> ('q, 'h, 'k, 'p) life_ext \<Rightarrow> bool" where
  "queue_laws ids Y \<longleftrightarrow>
     (\<forall>r x. set (ids (queue_add Y r x)) = insert (request_id r) (set (ids x))
        \<and> distinct (ids (queue_add Y r x)) = (request_id r \<notin> set (ids x) \<and> distinct (ids x)))
     \<and> (\<forall>S x. ids (queue_remove Y S x) = filter (\<lambda>q. q \<notin> S) (ids x))
     \<and> (\<forall>S xs. remove_all Y xs S = filter (\<lambda>q. q \<notin> S) xs)"

definition finished_states :: "('x, 'q, 'h) sched_ext \<Rightarrow> bool" where
  "finished_states X \<longleftrightarrow> (\<forall>st. status_is_finished X st =
     (st \<in> {FINISHED_STOPPED, FINISHED_LENGTH_CAPPED, FINISHED_ABORTED, FINISHED_ERROR}))"

abbreviation queued :: "('q \<Rightarrow> string list) \<Rightarrow> ('c, 'x, 'q, 'h, 'k) life_state \<Rightarrow> queue_side \<Rightarrow> string list" where
  "queued ids l side \<equiv> ids (side_queue side (wait l))"

definition paused :: "('q \<Rightarrow> string list) \<Rightarrow> ('c, 'x, 'q, 'h, 'k) life_state \<Rightarrow> string set" where
  "paused ids l = {q \<in> set (queued ids l Waiting) \<union> set (queued ids l Skipped). status_of l q = Some WAITING_FOR_STREAMING_REQ}"

text \<open>A status with which a request may be taken from the waiting queue at once: no event has to be waited for.\<close>

definition unblocked :: "('c, 'x, 'q, 'h, 'k) life_state \<Rightarrow> string \<Rightarrow> bool" where
  "unblocked l q \<longleftrightarrow> status_of l q \<notin>
     {Some WAITING_FOR_STRUCTURED_OUTPUT_GRAMMAR, Some WAITING_FOR_REMOTE_KVS, Some WAITING_FOR_STREAMING_REQ}"

text \<open>Every request that is alive is in exactly one queue: running, ready, or with the skipped ones.\<close>

definition life_ok :: "('q \<Rightarrow> string list) \<Rightarrow> ('x, 'q, 'h) sched_ext \<Rightarrow> ('c, 'x, 'q, 'h, 'k) life_state \<Rightarrow> bool" where
  "life_ok ids X l \<longleftrightarrow>
     distinct (running_queue l) \<and> distinct (queued ids l Waiting) \<and> distinct (queued ids l Skipped)
     \<and> set (queued ids l Waiting) \<inter> set (queued ids l Skipped) = {}
     \<and> (\<forall>q. q \<in> set (running_queue l) \<longleftrightarrow> status_of l q = Some RUNNING)
     \<and> (\<forall>q. q \<in> set (queued ids l Waiting) \<union> set (queued ids l Skipped) \<longleftrightarrow> alive X l q \<and> status_of l q \<noteq> Some RUNNING)
     \<and> (\<forall>q \<in> set (queued ids l Waiting). unblocked l q)
     \<and> (\<forall>q r. requests (store l) q = Some r \<longrightarrow> request_id r = q \<and> sessions l q \<noteq> None)
     \<and> streaming_inputs l = int (card (paused ids l))"

lemma alive_iff: "alive X l q \<longleftrightarrow> (\<exists>st. status_of l q = Some st \<and> \<not> status_is_finished X st)"
  by (auto simp: alive_def status_of_def split: option.splits)

lemma store_updates [simp]:
  "requests (store (with_store f l)) = requests (f (store l))"
  "side_queue Skipped (wait (with_store f l)) = side_queue Skipped (wait l)"
  "side_queue Waiting (wait (with_store f l)) = waiting_queue (f (store l))"
  "running_queue (with_store f l) = running_queue l" "sessions (with_store f l) = sessions l"
  "streaming_inputs (with_store f l) = streaming_inputs l"
  by (simp_all add: with_store_def with_sched_def side_queue_def)

lemma release_queue [simp]: "waiting_queue (release_request_blocks K r s) = waiting_queue s"
  by (simp add: release_request_blocks_def Let_def split: prod.splits)

lemma release_store [simp]: "requests (release_request_blocks K r s) = requests s"
  by (simp add: release_request_blocks_def Let_def split: prod.splits)

lemma waiting_side: "side_queue Waiting w = waiting_queue (sched_of w)" "side_queue Skipped w = skipped_queue w"
  by (simp_all add: side_queue_def)

text \<open>What freeing a request may change of the places.\<close>

definition frees :: "string \<Rightarrow> ('c, 'x, 'q, 'h, 'k) life_state \<Rightarrow> ('c, 'x, 'q, 'h, 'k) life_state \<Rightarrow> bool" where
  "frees q l l' \<longleftrightarrow> running_queue l' = running_queue l \<and> waiting_queue (store l') = waiting_queue (store l)
     \<and> skipped_queue (wait l') = skipped_queue (wait l) \<and> streaming_inputs l' = streaming_inputs l
     \<and> (\<forall>p. p \<noteq> q \<longrightarrow> requests (store l') p = requests (store l) p \<and> sessions l' p = sessions l p)
     \<and> (requests (store l') q = None \<or> requests (store l') q = requests (store l) q \<and> sessions l' q = sessions l q)"

lemma frees_refl [simp]: "frees q l l"
  by (simp add: frees_def)

lemma connector_finished_frees:
  assumes "connector_finished cd K Y r l = Inr (out, l')"
  shows "frees q l l' \<and> requests (store l') = requests (store l) \<and> sessions l' = sessions l"
proof (cases "has_connector Y")
  case True
  let ?m = "remove_skipped_blocks K (request_id r) (max 0 (num_computed_tokens r - num_in_flight_tokens r))
              (Some (num_prompt_tokens r)) (kv_manager (store l))"
  obtain k where "l' = l\<lparr> wait := (put_kv ?m (wait l))\<lparr> connector_state := k \<rparr> \<rparr>"
    using assms True by (auto simp: connector_finished_def Let_def res_bind_eq_Inr)
  then show ?thesis by (simp add: frees_def put_kv_def with_sched_def)
qed (use assms in \<open>simp add: connector_finished_def\<close>)

lemma free_blocks_frees:
  assumes "free_blocks_of K X q l = Inr l'"
  shows "frees q l l' \<and> requests (store l') q = None"
proof -
  obtain r where "l' = (with_store (\<lambda>s. s\<lparr> requests := (requests s)(q := None) \<rparr>) (with_store (release_request_blocks K r) l))
      \<lparr> sessions := (sessions l)(q := None) \<rparr>"
    using assms by (auto simp: free_blocks_of_def Let_def res_bind_eq_Inr)
  then show ?thesis by (simp add: frees_def with_store_def with_sched_def)
qed

lemma frees_trans: "frees q l l1 \<Longrightarrow> frees q l1 l2 \<Longrightarrow> frees q l l2"
  by (auto simp: frees_def)

lemma free_request_frees:
  assumes "free_request cd K X Y q delay l = Inr (out, l')"
  shows "frees q l l'"
proof -
  obtain r ss where r: "lookup_request (store l) q = Inr r" "lookup_session l q = Inr ss" "status_is_finished X (status r)"
    using assms by (auto simp: free_request_def res_bind_eq_Inr require_def split: if_splits)
  let ?l1 = "with_store (\<lambda>s. s\<lparr> inflight_prefills := inflight_prefills s - {q} \<rparr>) l"
  obtain held kv l2 where c: "connector_finished cd K Y r ?l1 = Inr ((held, kv), l2)"
    using assms r by (auto simp: free_request_def res_bind_eq_Inr Let_def)
  define l4 where "l4 = (with_store (\<lambda>s. s\<lparr> encoder_cache := encoder_cache_free X r (encoder_cache s),
                                     finished_req_ids := insert q (finished_req_ids s) \<rparr>) l2)
      \<lparr> finished_req_ids_dict := (case finished_req_ids_dict l2 of None \<Rightarrow> None
               | Some d \<Rightarrow> Some (d(client_index ss \<mapsto>
                   insert q (case d (client_index ss) of None \<Rightarrow> {} | Some ids \<Rightarrow> ids)))) \<rparr>"
  have "l' = l4 \<or> free_blocks_of K X q l4 = Inr l'"
    using assms r c by (auto simp: free_request_def res_bind_eq_Inr Let_def l4_def with_store_def split: if_splits option.splits prod.splits)
  then have f4: "frees q l4 l'" by (auto dest: free_blocks_frees)
  have f1: "frees q l ?l1" by (simp add: frees_def with_store_def with_sched_def)
  have f2: "frees q ?l1 l2" using connector_finished_frees[OF c] by blast
  have f3: "frees q l2 l4" by (simp add: frees_def l4_def with_store_def with_sched_def)
  show ?thesis by (rule frees_trans[OF f1 frees_trans[OF f2 frees_trans[OF f3 f4]]])
qed

text \<open>It returns when the connector takes all groups.\<close>

lemma free_request_returns:
  assumes "has_connector Y \<longrightarrow> supports_hma Y" "requests (store l) q = Some r" "status_is_finished X (status r)" "sessions l q \<noteq> None"
  shows "\<exists>out l'. free_request cd K X Y q delay l = Inr (out, l')"
proof -
  obtain ss where ss: "lookup_session l q = Inr ss" using assms(4) by (auto simp: lookup_session_def)
  have r: "lookup_request (store l) q = Inr r" using assms(2) by (simp add: lookup_request_def)
  let ?l1 = "with_store (\<lambda>s. s\<lparr> inflight_prefills := inflight_prefills s - {q} \<rparr>) l"
  have "\<exists>out l2. connector_finished cd K Y r ?l1 = Inr (out, l2)"
    using assms(1) by (cases "has_connector Y") (auto simp: connector_finished_def Let_def split_beta)
  then obtain held kv l2 where c: "connector_finished cd K Y r ?l1 = Inr ((held, kv), l2)" by auto
  have "requests (store l2) q = Some r" using connector_finished_frees[OF c] assms(2) by simp
  then show ?thesis using r ss assms(3) c
    by (auto simp: free_request_def free_blocks_of_def lookup_request_def Let_def with_store_def with_sched_def split_beta)
qed

section \<open>Finishing requests\<close>

definition registered :: "('c, 'x, 'q, 'h, 'k) life_state \<Rightarrow> bool" where
  "registered l \<longleftrightarrow> (\<forall>q r. requests (store l) q = Some r \<longrightarrow> request_id r = q \<and> sessions l q \<noteq> None)"

text \<open>Only the requests of \<open>D\<close> change, and nothing moves.\<close>

definition keeps :: "string set \<Rightarrow> ('c, 'x, 'q, 'h, 'k) life_state \<Rightarrow> ('c, 'x, 'q, 'h, 'k) life_state \<Rightarrow> bool" where
  "keeps D l l' \<longleftrightarrow> running_queue l' = running_queue l \<and> (\<forall>side. side_queue side (wait l') = side_queue side (wait l))
     \<and> streaming_inputs l' = streaming_inputs l
     \<and> (\<forall>p. p \<notin> D \<longrightarrow> requests (store l') p = requests (store l) p \<and> sessions l' p = sessions l p)"

lemma keeps_trans: "keeps D l l1 \<Longrightarrow> keeps D' l1 l2 \<Longrightarrow> keeps (D \<union> D') l l2"
  by (simp add: keeps_def)

lemma all_sides: "(\<forall>side. P side) \<longleftrightarrow> P Waiting \<and> P Skipped"
  by (metis queue_side.exhaust)

lemma frees_keeps: "frees q l l' \<Longrightarrow> keeps {q} l l'"
  by (auto simp: frees_def keeps_def all_sides waiting_side)

definition takes_all_groups :: "('q, 'h, 'k, 'p) life_ext \<Rightarrow> bool" where
  "takes_all_groups Y \<longleftrightarrow> (has_connector Y \<longrightarrow> supports_hma Y)"

lemma finish_one_ok:
  assumes "takes_all_groups Y" "status_is_finished X st" "requests (store l) q = Some r" "registered l"
  shows "\<exists>l'. finish_one cd K X Y st q l = Inr l' \<and> keeps {q} l l' \<and> \<not> alive X l' q \<and> registered l'"
proof -
  define l1 where "l1 = (if status r = WAITING_FOR_REMOTE_KVS then l\<lparr> wait := (wait l)\<lparr> finished_recving := finished_recving (wait l) - {q},
                                                     failed_recving := failed_recving (wait l) - {q} \<rparr> \<rparr> else l)"
  define l2 where "l2 = put_req q (r\<lparr> status := st \<rparr>) l1"
  have l1: "requests (store l1) = requests (store l)" "sessions l1 = sessions l" "running_queue l1 = running_queue l"
    "streaming_inputs l1 = streaming_inputs l" "waiting_queue (store l1) = waiting_queue (store l)"
    "skipped_queue (wait l1) = skipped_queue (wait l)"
    by (simp_all add: l1_def)
  have q: "request_id r = q" "sessions l q \<noteq> None" using assms(3,4) by (auto simp: registered_def)
  have l2: "requests (store l2) = (requests (store l))(q \<mapsto> r\<lparr> status := st \<rparr>)" "sessions l2 = sessions l"
    using l1 by (simp_all add: l2_def)
  have k2: "keeps {q} l l2"
    using l1 by (simp add: keeps_def all_sides l2_def put_req_def side_queue_def with_store_def with_sched_def)
  have "\<exists>out l'. free_request cd K X Y q (status r = WAITING_FOR_REMOTE_KVS \<and> q \<notin> finished_recving (wait l)) l2 = Inr (out, l')"
    by (rule free_request_returns[where r = "r\<lparr> status := st \<rparr>"]) (use assms(1,2) l2 q(2) in \<open>simp_all add: takes_all_groups_def\<close>)
  then obtain out l' where f: "free_request cd K X Y q (status r = WAITING_FOR_REMOTE_KVS \<and> q \<notin> finished_recving (wait l)) l2 = Inr (out, l')"
    by blast
  have fr: "frees q l2 l'" using free_request_frees[OF f] .
  have "finish_one cd K X Y st q l = Inr l'"
    using f assms(3) by (simp add: finish_one_def lookup_request_def l1_def[symmetric] l2_def[symmetric])
  moreover have "keeps {q} l l'" using keeps_trans[OF k2 frees_keeps[OF fr]] by simp
  moreover have "\<not> alive X l' q" using fr l2 assms(2) by (auto simp: frees_def alive_def)
  moreover have "registered l'"
    unfolding registered_def
  proof (intro allI impI)
    fix p r' assume p: "requests (store l') p = Some r'"
    show "request_id r' = p \<and> sessions l' p \<noteq> None"
    proof (cases "p = q")
      case True
      then show ?thesis using p fr l2 q by (auto simp: frees_def)
    next
      case False
      then have "requests (store l) p = Some r'" "sessions l' p = sessions l p" using p fr l2 by (auto simp: frees_def)
      then show ?thesis using assms(4) by (auto simp: registered_def)
    qed
  qed
  ultimately show ?thesis by blast
qed

lemma finish_each_ok:
  assumes "takes_all_groups Y" "status_is_finished X st"
  shows "distinct qs \<Longrightarrow> \<forall>q \<in> set qs. requests (store l) q \<noteq> None \<Longrightarrow> registered l \<Longrightarrow>
    \<exists>l'. finish_each cd K X Y st qs l = Inr l' \<and> keeps (set qs) l l' \<and> (\<forall>q \<in> set qs. \<not> alive X l' q) \<and> registered l'"
proof (induction qs arbitrary: l)
  case Nil
  then show ?case by (simp add: keeps_def)
next
  case (Cons q qs)
  obtain r where "requests (store l) q = Some r" using Cons.prems(2) by auto
  then obtain l1 where l1: "finish_one cd K X Y st q l = Inr l1" "keeps {q} l l1" "\<not> alive X l1 q" "registered l1"
    using finish_one_ok[OF assms _ Cons.prems(3)] by blast
  have "\<forall>p \<in> set qs. requests (store l1) p \<noteq> None" using l1(2) Cons.prems(1,2) by (auto simp: keeps_def)
  then obtain l2 where l2: "finish_each cd K X Y st qs l1 = Inr l2" "keeps (set qs) l1 l2" "\<forall>p \<in> set qs. \<not> alive X l2 p" "registered l2"
    using Cons.IH[of l1] Cons.prems(1) l1(4) by auto
  have "\<not> alive X l2 q" using l2(2) l1(3) Cons.prems(1) by (simp add: keeps_def alive_def)
  then show ?case using l1(1) l2 keeps_trans[OF l1(2) l2(2)] by auto
qed

text \<open>The first pass takes the requests out of their queues.\<close>

lemma queue_removal:
  assumes "queue_laws ids Y"
  shows "queued ids (dequeue_requests Y S l) side = filter (\<lambda>q. q \<notin> S) (queued ids l side)"
    "running_queue (dequeue_requests Y S l) = running_queue l" "requests (store (dequeue_requests Y S l)) = requests (store l)"
    "sessions (dequeue_requests Y S l) = sessions l" "streaming_inputs (dequeue_requests Y S l) = streaming_inputs l"
  using assms by (cases side)
    (auto simp: dequeue_requests_def put_queue_def side_queue_def with_sched_def queue_laws_def)

lemma set_running_simps [simp]:
  "running_queue (set_running xs l) = xs" "requests (store (set_running xs l)) = requests (store l)"
  "sessions (set_running xs l) = sessions l" "streaming_inputs (set_running xs l) = streaming_inputs l"
  "side_queue side (wait (set_running xs l)) = side_queue side (wait l)"
  by (cases side; simp add: set_running_def side_queue_def)+

lemma status_of_cong: "requests (store l') q = requests (store l) q \<Longrightarrow> status_of l' q = status_of l q \<and> alive X l' q = alive X l q"
  by (simp add: status_of_def alive_def)

lemma life_ok_registered: "life_ok ids X l \<Longrightarrow> registered l"
  by (simp add: life_ok_def registered_def)

lemma withdraw_ok:
  assumes "queue_laws ids Y" "life_ok ids X l" "\<forall>q \<in> set valid. alive X l q" "distinct valid"
  shows "running_queue (withdraw Y valid l) = filter (\<lambda>q. q \<notin> set valid) (running_queue l)"
    "queued ids (withdraw Y valid l) side = filter (\<lambda>q. q \<notin> set valid) (queued ids l side)"
    "requests (store (withdraw Y valid l)) = requests (store l)" "sessions (withdraw Y valid l) = sessions l"
    "streaming_inputs (withdraw Y valid l) = streaming_inputs l - int (card (paused ids l \<inter> set valid))"
proof -
  define R where "R = {q \<in> set valid. status_of l q = Some RUNNING}"
  define S where "S = set valid - R"
  have places: "\<forall>q. q \<in> set (running_queue l) \<longleftrightarrow> status_of l q = Some RUNNING"
    "\<forall>q. q \<in> set (queued ids l Waiting) \<union> set (queued ids l Skipped) \<longleftrightarrow> alive X l q \<and> status_of l q \<noteq> Some RUNNING"
    using assms(2) by (auto simp: life_ok_def)
  have run: "filter (\<lambda>q. q \<notin> R) (running_queue l) = filter (\<lambda>q. q \<notin> set valid) (running_queue l)"
    using places(1) by (intro filter_cong) (auto simp: R_def)
  have nr: "\<forall>q \<in> set (queued ids l side). status_of l q \<noteq> Some RUNNING"
    using places(2) by (cases side; blast)
  have que: "filter (\<lambda>q. q \<notin> S) (queued ids l side) = filter (\<lambda>q. q \<notin> set valid) (queued ids l side)"
    using nr by (intro filter_cong) (auto simp: R_def S_def)
  have w: "withdraw Y valid l = (let l1 = l\<lparr> streaming_inputs := streaming_inputs l
            - int (length (filter (\<lambda>q. status_of l q = Some WAITING_FOR_STREAMING_REQ) valid)) \<rparr>;
          l2 = (if R \<noteq> {} then set_running (remove_all Y (running_queue l1) R) l1 else l1)
      in if S \<noteq> {} then dequeue_requests Y S l2 else l2)"
    by (simp only: withdraw_def Let_def R_def S_def)
  have ra: "remove_all Y xs S = filter (\<lambda>q. q \<notin> S) xs" for xs S
    using assms(1) by (simp add: queue_laws_def)
  show "running_queue (withdraw Y valid l) = filter (\<lambda>q. q \<notin> set valid) (running_queue l)"
    unfolding w run[symmetric] by (cases "R = {}"; cases "S = {}"; simp add: Let_def ra queue_removal[OF assms(1)])
  show "queued ids (withdraw Y valid l) side = filter (\<lambda>q. q \<notin> set valid) (queued ids l side)"
    unfolding w que[symmetric] by (cases "R = {}"; cases "S = {}"; simp add: Let_def queue_removal[OF assms(1)])
  show "requests (store (withdraw Y valid l)) = requests (store l)"
    unfolding w by (cases "R = {}"; cases "S = {}"; simp add: Let_def queue_removal[OF assms(1)])
  show "sessions (withdraw Y valid l) = sessions l"
    unfolding w by (cases "R = {}"; cases "S = {}"; simp add: Let_def queue_removal[OF assms(1)])
  have "set (filter (\<lambda>q. status_of l q = Some WAITING_FOR_STREAMING_REQ) valid) = paused ids l \<inter> set valid"
    using places(2) assms(3) by (auto simp: paused_def)
  then have "length (filter (\<lambda>q. status_of l q = Some WAITING_FOR_STREAMING_REQ) valid) = card (paused ids l \<inter> set valid)"
    using distinct_card[of "filter (\<lambda>q. status_of l q = Some WAITING_FOR_STREAMING_REQ) valid"] assms(4) by simp
  then show "streaming_inputs (withdraw Y valid l) = streaming_inputs l - int (card (paused ids l \<inter> set valid))"
    unfolding w by (cases "R = {}"; cases "S = {}"; simp add: Let_def queue_removal[OF assms(1)])
qed

lemma paused_finite [simp]: "finite (paused ids l)"
  by (simp add: paused_def)

text \<open>From a withdrawn state whose requests of \<open>D\<close> are dead, the places are right again.\<close>

lemma life_ok_finished:
  assumes "queue_laws ids Y" "finished_states X" "life_ok ids X l" "\<forall>q \<in> set valid. alive X l q" "distinct valid"
    and "keeps (set valid) (withdraw Y valid l) l'" "\<forall>q \<in> set valid. \<not> alive X l' q" "registered l'"
  shows "life_ok ids X l'"
proof -
  note w = withdraw_ok[OF assms(1,3-5)]
  let ?D = "set valid"
  have run: "running_queue l' = filter (\<lambda>q. q \<notin> ?D) (running_queue l)" using assms(6) w(1) by (simp add: keeps_def)
  have que: "queued ids l' side = filter (\<lambda>q. q \<notin> ?D) (queued ids l side)" for side
    using assms(6) w(2)[of side] by (simp add: keeps_def)
  have same: "status_of l' q = status_of l q" "alive X l' q = alive X l q" if "q \<notin> ?D" for q
    using that assms(6) w(3) status_of_cong[of l' q l X] by (simp_all add: keeps_def)
  have dead: "status_of l' q \<noteq> Some RUNNING" if "q \<in> ?D" for q
    using that assms(2,7) by (auto simp: alive_iff finished_states_def)
  have places: "\<forall>q. q \<in> set (running_queue l) \<longleftrightarrow> status_of l q = Some RUNNING"
    "\<forall>q. q \<in> set (queued ids l Waiting) \<union> set (queued ids l Skipped) \<longleftrightarrow> alive X l q \<and> status_of l q \<noteq> Some RUNNING"
    "distinct (running_queue l)" "distinct (queued ids l Waiting)" "distinct (queued ids l Skipped)"
    "set (queued ids l Waiting) \<inter> set (queued ids l Skipped) = {}" "streaming_inputs l = int (card (paused ids l))"
    "\<forall>q \<in> set (queued ids l Waiting). unblocked l q"
    using assms(3) by (auto simp: life_ok_def)
  have "paused ids l' = paused ids l - ?D" using same by (auto simp: paused_def que)
  then have "card (paused ids l') = card (paused ids l) - card (paused ids l \<inter> ?D)" by (simp add: card_Diff_subset_Int)
  moreover have "card (paused ids l \<inter> ?D) \<le> card (paused ids l)" by (intro card_mono) auto
  ultimately have "streaming_inputs l' = int (card (paused ids l'))"
    using assms(6) w(5) places(7) by (simp add: keeps_def of_nat_diff)
  moreover have "q \<in> set (running_queue l') \<longleftrightarrow> status_of l' q = Some RUNNING" for q
    using places(1) same(1) dead by (cases "q \<in> ?D") (auto simp: run)
  moreover have "q \<in> set (queued ids l' Waiting) \<union> set (queued ids l' Skipped) \<longleftrightarrow> alive X l' q \<and> status_of l' q \<noteq> Some RUNNING" for q
    using places(2) same assms(7) by (cases "q \<in> ?D") (auto simp: que)
  moreover have "set (queued ids l' Waiting) \<inter> set (queued ids l' Skipped) = {}" using places(6) by (auto simp: que)
  moreover have "\<forall>q \<in> set (queued ids l' Waiting). unblocked l' q" using places(8) same(1) by (auto simp: que unblocked_def)
  ultimately show ?thesis
    unfolding life_ok_def using assms(8) places(3-5) by (simp add: run que registered_def)
qed

lemma finish_requests_ok:
  assumes "queue_laws ids Y" "finished_states X" "takes_all_groups Y" "life_ok ids X l" "distinct qs" "status_is_finished X st"
  shows "\<exists>l'. finish_requests cd K X Y st qs l = Inr (filter (alive X l) qs, l') \<and> life_ok ids X l'
    \<and> (\<forall>q \<in> set qs. \<not> alive X l' q)
    \<and> (\<forall>q. q \<notin> set qs \<longrightarrow> requests (store l') q = requests (store l) q \<and> sessions l' q = sessions l q)
    \<and> running_queue l' = filter (\<lambda>q. q \<notin> set qs) (running_queue l)
    \<and> (\<forall>side. queued ids l' side = filter (\<lambda>q. q \<notin> set qs) (queued ids l side))"
proof -
  define valid where "valid = filter (alive X l) qs"
  have v: "\<forall>q \<in> set valid. alive X l q" "distinct valid" using assms(5) by (auto simp: valid_def)
  note w = withdraw_ok[OF assms(1,4) v]
  have "registered (withdraw Y valid l)" using life_ok_registered[OF assms(4)] w(3,4) by (simp add: registered_def)
  moreover have "\<forall>q \<in> set valid. requests (store (withdraw Y valid l)) q \<noteq> None"
    using v(1) w(3) by (auto simp: alive_def split: option.splits)
  ultimately obtain l' where l': "finish_each cd K X Y st valid (withdraw Y valid l) = Inr l'"
    "keeps (set valid) (withdraw Y valid l) l'" "\<forall>q \<in> set valid. \<not> alive X l' q" "registered l'"
    using finish_each_ok[OF assms(3,6) v(2)] by blast
  have ok: "life_ok ids X l'" using life_ok_finished[OF assms(1,2,4) v l'(2-4)] .
  have same: "requests (store l') q = requests (store l) q" "sessions l' q = sessions l q" if "q \<notin> set valid" for q
    using that l'(2) w(3,4) by (simp_all add: keeps_def)
  have "\<not> alive X l' q" if "q \<in> set qs" for q
  proof (cases "q \<in> set valid")
    case False
    then show ?thesis using that same(1)[OF False] by (simp add: valid_def alive_def)
  qed (use l'(3) in blast)
  moreover have gone: "q \<in> set valid \<longleftrightarrow> q \<in> set qs" if "q \<in> set (running_queue l) \<or> q \<in> set (queued ids l side)" for q side
  proof -
    have "alive X l q"
      using that assms(2,4) by (cases side) (auto simp: life_ok_def alive_iff finished_states_def)
    then show ?thesis by (simp add: valid_def)
  qed
  have "running_queue l' = filter (\<lambda>q. q \<notin> set qs) (running_queue l)"
    using l'(2) w(1) gone by (auto simp: keeps_def intro: filter_cong)
  moreover have "queued ids l' side = filter (\<lambda>q. q \<notin> set qs) (queued ids l side)" for side
    using l'(2) w(2)[of side] gone[of _ side] by (auto simp: keeps_def intro: filter_cong)
  moreover have "finish_requests cd K X Y st qs l = Inr (valid, l')"
    using assms(6) l'(1) by (simp add: finish_requests_def valid_def[symmetric] Let_def)
  moreover have "q \<notin> set valid" if "q \<notin> set qs" for q using that by (simp add: valid_def)
  ultimately show ?thesis using ok same unfolding valid_def[symmetric] by blast
qed

section \<open>Stopping requests\<close>

text \<open>
  While outputs are processed, stopped requests are still in their old queue: \<open>S\<close> in the running one, \<open>Q\<close> in a
  waiting one.
\<close>

definition mid_ok ::
  "('q \<Rightarrow> string list) \<Rightarrow> ('x, 'q, 'h) sched_ext \<Rightarrow> string set \<Rightarrow> string set \<Rightarrow> ('c, 'x, 'q, 'h, 'k) life_state \<Rightarrow> bool" where
  "mid_ok ids X S Q l \<longleftrightarrow>
     distinct (running_queue l) \<and> (\<forall>side. distinct (queued ids l side))
     \<and> set (queued ids l Waiting) \<inter> set (queued ids l Skipped) = {}
     \<and> (\<forall>q. q \<in> set (running_queue l) \<longleftrightarrow> status_of l q = Some RUNNING \<or> q \<in> S) \<and> (\<forall>q \<in> S. status_of l q \<noteq> Some RUNNING)
     \<and> (\<forall>q. q \<in> set (queued ids l Waiting) \<union> set (queued ids l Skipped) \<longleftrightarrow>
           alive X l q \<and> status_of l q \<noteq> Some RUNNING \<or> q \<in> Q) \<and> (\<forall>q \<in> Q. \<not> alive X l q)
     \<and> (\<forall>q \<in> set (queued ids l Waiting). unblocked l q) \<and> registered l \<and> streaming_inputs l = int (card (paused ids l))"

lemma mid_okI:
  assumes "distinct (running_queue l)" "\<And>side. distinct (queued ids l side)"
    "set (queued ids l Waiting) \<inter> set (queued ids l Skipped) = {}"
    "\<And>q. q \<in> set (running_queue l) \<longleftrightarrow> status_of l q = Some RUNNING \<or> q \<in> S" "\<And>q. q \<in> S \<Longrightarrow> status_of l q \<noteq> Some RUNNING"
    "\<And>q. q \<in> set (queued ids l Waiting) \<union> set (queued ids l Skipped) \<longleftrightarrow> alive X l q \<and> status_of l q \<noteq> Some RUNNING \<or> q \<in> Q"
    "\<And>q. q \<in> Q \<Longrightarrow> \<not> alive X l q" "\<And>q. q \<in> set (queued ids l Waiting) \<Longrightarrow> unblocked l q" "registered l" "streaming_inputs l = int (card (paused ids l))"
  shows "mid_ok ids X S Q l"
  using assms unfolding mid_ok_def by blast

lemma mid_ok_start: "life_ok ids X l \<longleftrightarrow> mid_ok ids X {} {} l"
  by (auto simp: life_ok_def mid_ok_def registered_def all_sides)

lemma enqueue_simps:
  assumes "queue_laws ids Y"
  defines "to \<equiv> \<lambda>r. if is_blocked_waiting_status (status r) then Skipped else Waiting"
  shows "set (queued ids (enqueue_waiting_request Y r l) side) =
      (if side = to r then insert (request_id r) (set (queued ids l side)) else set (queued ids l side))"
    "distinct (queued ids (enqueue_waiting_request Y r l) side) =
      (distinct (queued ids l side) \<and> (side = to r \<longrightarrow> request_id r \<notin> set (queued ids l side)))"
    "running_queue (enqueue_waiting_request Y r l) = running_queue l"
    "requests (store (enqueue_waiting_request Y r l)) = requests (store l)"
    "sessions (enqueue_waiting_request Y r l) = sessions l"
    "streaming_inputs (enqueue_waiting_request Y r l) = streaming_inputs l"
  using assms(1) unfolding to_def
  by (cases side; auto simp: enqueue_waiting_request_def Let_def put_queue_def side_queue_def with_sched_def queue_laws_def)+

text \<open>A request that was in no waiting queue is enqueued with its new status.\<close>

lemma mid_ok_enqueue:
  assumes "queue_laws ids Y" "mid_ok ids X S Q l" "q \<notin> Q" "alive X l q \<longrightarrow> status_of l q = Some RUNNING"
    and "requests (store l1) = (requests (store l))(q \<mapsto> r)" "request_id r = q" "status r \<noteq> RUNNING" "\<not> status_is_finished X (status r)"
    and "sessions l1 q \<noteq> None" "\<forall>p. p \<noteq> q \<longrightarrow> sessions l1 p = sessions l p"
    and "running_queue l1 = running_queue l" "\<forall>side. side_queue side (wait l1) = side_queue side (wait l)"
    and "streaming_inputs l1 = streaming_inputs l + (if status r = WAITING_FOR_STREAMING_REQ then 1 else 0)"
  shows "mid_ok ids X (if q \<in> set (running_queue l) then insert q S else S) Q (enqueue_waiting_request Y r l1)"
proof -
  let ?l' = "enqueue_waiting_request Y r l1"
  let ?to = "if is_blocked_waiting_status (status r) then Skipped else Waiting"
  note e = enqueue_simps[OF assms(1), where r = r and l = l1]
  have st: "status_of ?l' p = (if p = q then Some (status r) else status_of l p)"
    "alive X ?l' p = (p = q \<or> alive X l p)" for p
    using assms(5,8) e(4) by (auto simp: status_of_def alive_def)
  have que: "set (queued ids ?l' side) = (if side = ?to then insert q (set (queued ids l side)) else set (queued ids l side))" for side
    using e(1)[where side = side] assms(6,12) by simp
  have inv: "\<forall>q. q \<in> set (queued ids l Waiting) \<union> set (queued ids l Skipped) \<longleftrightarrow>
           alive X l q \<and> status_of l q \<noteq> Some RUNNING \<or> q \<in> Q" "\<forall>q \<in> Q. \<not> alive X l q"
    "\<forall>q. q \<in> set (running_queue l) \<longleftrightarrow> status_of l q = Some RUNNING \<or> q \<in> S" "\<forall>q \<in> S. status_of l q \<noteq> Some RUNNING"
    "streaming_inputs l = int (card (paused ids l))" "registered l" "\<forall>q \<in> set (queued ids l Waiting). unblocked l q"
    using assms(2) by (auto simp: mid_ok_def)
  have new: "q \<notin> set (queued ids l side)" for side
    using inv(1) assms(3,4) by (cases side) auto
  have "paused ids ?l' = (if status r = WAITING_FOR_STREAMING_REQ then insert q (paused ids l) else paused ids l)"
    using new st(1) unfolding paused_def que by (auto split: if_splits)
  moreover have "q \<notin> paused ids l" using new by (auto simp: paused_def)
  ultimately have streaming: "streaming_inputs ?l' = int (card (paused ids ?l'))"
    using e(6) assms(13) inv(5) by simp
  have dist: "distinct (running_queue l)" "\<And>side. distinct (queued ids l side)"
    "set (queued ids l Waiting) \<inter> set (queued ids l Skipped) = {}" using assms(2) by (auto simp: mid_ok_def)
  show ?thesis
  proof (rule mid_okI)
    show "distinct (queued ids ?l' side)" for side using dist(2) assms(6,12) e(2)[where side = side] new by simp
    show "set (queued ids ?l' Waiting) \<inter> set (queued ids ?l' Skipped) = {}" using dist(3) new unfolding que by auto
    show "p \<in> set (queued ids ?l' Waiting) \<union> set (queued ids ?l' Skipped) \<longleftrightarrow>
        alive X ?l' p \<and> status_of ?l' p \<noteq> Some RUNNING \<or> p \<in> Q" for p
      using inv(1) st assms(7) unfolding que by (cases "p = q") auto
    show "p \<in> Q \<Longrightarrow> \<not> alive X ?l' p" for p using inv(2) st(2) assms(3) by auto
    show "unblocked ?l' p" if p: "p \<in> set (queued ids ?l' Waiting)" for p
    proof (cases "p = q")
      case True
      then have "\<not> is_blocked_waiting_status (status r)" using p new unfolding que by (auto split: if_splits)
      then show ?thesis using True st(1) by (auto simp: unblocked_def is_blocked_waiting_status_def)
    next
      case False
      then show ?thesis using p inv(7) st(1) unfolding que by (auto simp: unblocked_def split: if_splits)
    qed
    show "registered ?l'" using inv(6) e(4,5) assms(5,6,9,10) by (auto simp: registered_def split: if_splits)
    show "p \<in> set (running_queue ?l') \<longleftrightarrow> status_of ?l' p = Some RUNNING \<or>
        p \<in> (if q \<in> set (running_queue l) then insert q S else S)" for p
      using inv(3,4) st(1)[of p] e(3) assms(7,11) by (cases "p = q") auto
    show "p \<in> (if q \<in> set (running_queue l) then insert q S else S) \<Longrightarrow> status_of ?l' p \<noteq> Some RUNNING" for p
      using inv(4) st(1)[of p] assms(7) by (cases "p = q") (auto split: if_splits)
  qed (use dist(1) assms(11) e(3) streaming in simp_all)
qed

text \<open>A request that is dead, or only changed in other fields.\<close>

lemma mid_ok_dead:
  assumes "mid_ok ids X S Q l" "keeps {q} l l'" "\<not> alive X l' q" "registered l'" "finished_states X"
    and "status_of l q = Some RUNNING \<or> alive X l q \<and> status_of l q \<noteq> Some WAITING_FOR_STREAMING_REQ"
  shows "mid_ok ids X (if status_of l q = Some RUNNING then insert q S else S)
    (if status_of l q = Some RUNNING then Q else insert q Q) l'"
proof -
  have st: "status_of l' p = status_of l p" "alive X l' p = alive X l p" if "p \<noteq> q" for p
    using that assms(2) status_of_cong[of l' p l X] by (simp_all add: keeps_def)
  have dead: "status_of l' q \<noteq> Some RUNNING" "status_of l' q \<noteq> Some WAITING_FOR_STREAMING_REQ"
    using assms(3,5) by (auto simp: alive_iff finished_states_def)
  have k: "running_queue l' = running_queue l" "\<forall>side. side_queue side (wait l') = side_queue side (wait l)"
    "streaming_inputs l' = streaming_inputs l" using assms(2) by (simp_all add: keeps_def)
  have inv: "\<forall>q. q \<in> set (queued ids l Waiting) \<union> set (queued ids l Skipped) \<longleftrightarrow>
           alive X l q \<and> status_of l q \<noteq> Some RUNNING \<or> q \<in> Q" "\<forall>q \<in> Q. \<not> alive X l q"
    "\<forall>q. q \<in> set (running_queue l) \<longleftrightarrow> status_of l q = Some RUNNING \<or> q \<in> S" "\<forall>q \<in> S. status_of l q \<noteq> Some RUNNING"
    using assms(1) by (auto simp: mid_ok_def)
  have "status_of l' p = Some WAITING_FOR_STREAMING_REQ \<longleftrightarrow> status_of l p = Some WAITING_FOR_STREAMING_REQ" for p
    using st(1) dead(2) assms(6) by (cases "p = q") auto
  then have paused: "paused ids l' = paused ids l" using k(2) by (simp add: paused_def)
  have rest: "distinct (running_queue l)" "\<And>side. distinct (queued ids l side)"
    "set (queued ids l Waiting) \<inter> set (queued ids l Skipped) = {}" "streaming_inputs l = int (card (paused ids l))"
    "\<forall>q \<in> set (queued ids l Waiting). unblocked l q"
    using assms(1) by (auto simp: mid_ok_def)
  show ?thesis
  proof (rule mid_okI)
    show "unblocked l' p" if "p \<in> set (queued ids l' Waiting)" for p
    proof (cases "p = q")
      case True
      then show ?thesis using assms(3,5) by (auto simp: unblocked_def alive_iff finished_states_def)
    next
      case False
      then show ?thesis using that rest(5) st(1)[OF False] k(2) by (simp add: unblocked_def)
    qed
    show "p \<in> set (queued ids l' Waiting) \<union> set (queued ids l' Skipped) \<longleftrightarrow>
        alive X l' p \<and> status_of l' p \<noteq> Some RUNNING \<or> p \<in> (if status_of l q = Some RUNNING then Q else insert q Q)" for p
      using inv(1,2) st[of p] assms(3,6) k(2) by (cases "p = q") auto
    show "p \<in> set (running_queue l') \<longleftrightarrow> status_of l' p = Some RUNNING \<or>
        p \<in> (if status_of l q = Some RUNNING then insert q S else S)" for p
      using inv(3) st(1)[of p] dead(1) k(1) by (cases "p = q") auto
    show "p \<in> (if status_of l q = Some RUNNING then insert q S else S) \<Longrightarrow> status_of l' p \<noteq> Some RUNNING" for p
      using inv(4) st(1)[of p] dead(1) by (cases "p = q") (auto split: if_splits)
    show "p \<in> (if status_of l q = Some RUNNING then Q else insert q Q) \<Longrightarrow> \<not> alive X l' p" for p
      using inv(2) st(2)[of p] assms(3) by (cases "p = q") (auto split: if_splits)
  qed (use rest k paused assms(4) in simp_all)
qed

lemma mid_ok_same_status:
  assumes "mid_ok ids X S Q l" "keeps {q} l l'" "registered l'" "status_of l' q = status_of l q"
  shows "mid_ok ids X S Q l'"
proof -
  have st: "status_of l' = status_of l"
    using assms(2,4) status_of_cong[of l' _ l X] by (auto simp: keeps_def fun_eq_iff) metis
  then have al: "alive X l' = alive X l" by (auto simp: alive_iff fun_eq_iff)
  show ?thesis using assms(1-3) st al by (simp add: mid_ok_def paused_def keeps_def unblocked_def)
qed

text \<open>A paused session that gets its next chunk stays where it is.\<close>

lemma life_ok_resumed:
  assumes "life_ok ids X l" "finished_states X" "status_of l q = Some WAITING_FOR_STREAMING_REQ"
    and "requests (store l') = (requests (store l))(q \<mapsto> r)" "request_id r = q" "status r = WAITING"
    and "sessions l' q \<noteq> None" "\<forall>p. p \<noteq> q \<longrightarrow> sessions l' p = sessions l p" "running_queue l' = running_queue l"
    and "\<forall>side. side_queue side (wait l') = side_queue side (wait l)" "streaming_inputs l' = streaming_inputs l - 1"
  shows "life_ok ids X l'"
proof -
  have inv: "mid_ok ids X {} {} l" using assms(1) by (simp add: mid_ok_start)
  then have places: "\<forall>q. q \<in> set (running_queue l) \<longleftrightarrow> status_of l q = Some RUNNING"
    "\<forall>q. q \<in> set (queued ids l Waiting) \<union> set (queued ids l Skipped) \<longleftrightarrow> alive X l q \<and> status_of l q \<noteq> Some RUNNING"
    "distinct (running_queue l)" "\<And>side. distinct (queued ids l side)" "registered l"
    "set (queued ids l Waiting) \<inter> set (queued ids l Skipped) = {}" "streaming_inputs l = int (card (paused ids l))"
    "\<forall>q \<in> set (queued ids l Waiting). unblocked l q"
    by (auto simp: mid_ok_def)
  have st: "status_of l' p = (if p = q then Some WAITING else status_of l p)" for p
    using assms(4,6) by (simp add: status_of_def)
  have al: "alive X l' p = alive X l p" for p using st[of p] assms(2,3) by (auto simp: alive_iff finished_states_def)
  have "alive X l q" using assms(2,3) by (simp add: alive_iff finished_states_def)
  then have "q \<in> paused ids l" using places(2) assms(3) by (auto simp: paused_def)
  moreover have "paused ids l' = paused ids l - {q}" using st assms(10) by (auto simp: paused_def)
  moreover have "0 < card (paused ids l)" using \<open>q \<in> paused ids l\<close> card_gt_0_iff[of "paused ids l"] by auto
  ultimately have streaming: "streaming_inputs l' = int (card (paused ids l'))"
    using assms(11) places(7) by (simp add: of_nat_diff)
  have "mid_ok ids X {} {} l'"
  proof (rule mid_okI)
    show "p \<in> set (running_queue l') \<longleftrightarrow> status_of l' p = Some RUNNING \<or> p \<in> {}" for p
      using places(1) st[of p] assms(3,9) by (cases "p = q") auto
    show "p \<in> set (queued ids l' Waiting) \<union> set (queued ids l' Skipped) \<longleftrightarrow>
        alive X l' p \<and> status_of l' p \<noteq> Some RUNNING \<or> p \<in> {}" for p
      using places(2) st[of p] al[of p] assms(3,10) by (cases "p = q") auto
    show "unblocked l' p" if "p \<in> set (queued ids l' Waiting)" for p
      using that places(8) st[of p] assms(10) by (auto simp: unblocked_def)
    show "registered l'" using places(5) assms(4,5,7,8) by (auto simp: registered_def split: if_splits)
  qed (use places assms(9,10) streaming in simp_all)
  then show ?thesis by (simp add: mid_ok_start)
qed

text \<open>The state of a chunk taken up.\<close>

lemma update_request_as_session_frame:
  assumes "update_request_as_session Y q u l = Inr (r', l')"
  shows "\<exists>r. requests (store l) q = Some r \<and> status r' = WAITING \<and> request_id r' = request_id r
    \<and> requests (store l') = (requests (store l))(q \<mapsto> r') \<and> sessions l' q \<noteq> None
    \<and> (\<forall>p. p \<noteq> q \<longrightarrow> sessions l' p = sessions l p) \<and> running_queue l' = running_queue l
    \<and> (\<forall>side. side_queue side (wait l') = side_queue side (wait l))
    \<and> streaming_inputs l' = streaming_inputs l - (if status r = WAITING_FOR_STREAMING_REQ then 1 else 0)"
    "\<And>r0 ss0. requests (store l) q = Some r0 \<Longrightarrow> sessions l q = Some ss0 \<Longrightarrow>
      map_option all_token_ids (sessions l' q) = Some (take (nat (num_computed_tokens r0)) (all_token_ids ss0) @ upd_prompt_token_ids u)"
proof -
  obtain r ss ss' where r: "lookup_request (store l) q = Inr r" "lookup_session l q = Inr ss" "session_tokens r u ss = Inr ss'"
    using assms unfolding update_request_as_session_def Let_def res_bind_eq_Inr by auto
  have l': "r' = session_request Y u ss ss' r" "l' = (put_req q r' (put_session q ss' l))\<lparr> streaming_inputs :=
            streaming_inputs l - (if status r = WAITING_FOR_STREAMING_REQ then 1 else 0) \<rparr>"
    using assms r unfolding update_request_as_session_def Let_def by (auto split del: if_split)
  have here: "requests (store l) q = Some r" "sessions l q = Some ss"
    using r(1,2) by (simp_all add: lookup_request_def lookup_session_def split: option.splits)
  moreover have "status r' = WAITING" "request_id r' = request_id r" using l'(1) by (simp_all add: session_request_def)
  moreover have "requests (store l') = (requests (store l))(q \<mapsto> r')" "sessions l' = (sessions l)(q \<mapsto> ss')"
    "running_queue l' = running_queue l" "\<forall>side. side_queue side (wait l') = side_queue side (wait l)"
    "streaming_inputs l' = streaming_inputs l - (if status r = WAITING_FOR_STREAMING_REQ then 1 else 0)"
    unfolding l'(2) by (simp_all add: put_req_def put_session_def with_store_def with_sched_def side_queue_def all_sides)
  ultimately show "\<exists>r. requests (store l) q = Some r \<and> status r' = WAITING \<and> request_id r' = request_id r
    \<and> requests (store l') = (requests (store l))(q \<mapsto> r') \<and> sessions l' q \<noteq> None
    \<and> (\<forall>p. p \<noteq> q \<longrightarrow> sessions l' p = sessions l p) \<and> running_queue l' = running_queue l
    \<and> (\<forall>side. side_queue side (wait l') = side_queue side (wait l))
    \<and> streaming_inputs l' = streaming_inputs l - (if status r = WAITING_FOR_STREAMING_REQ then 1 else 0)" by auto
  have "sessions l' q = Some ss'" unfolding l'(2) by (simp add: put_req_def put_session_def with_store_def)
  moreover have "all_token_ids ss' = take (nat (num_computed_tokens r)) (all_token_ids ss) @ upd_prompt_token_ids u"
    using r(3) by (auto simp: session_tokens_def split: option.splits)
  ultimately show "map_option all_token_ids (sessions l' q)
      = Some (take (nat (num_computed_tokens r0)) (all_token_ids ss0) @ upd_prompt_token_ids u)"
    if "requests (store l) q = Some r0" "sessions l q = Some ss0" for r0 ss0
    using that here by simp
qed

lemma life_same:
  assumes "life_ok ids X l" "running_queue l' = running_queue l" "\<forall>side. side_queue side (wait l') = side_queue side (wait l)"
    and "streaming_inputs l' = streaming_inputs l" "registered l'" "\<And>q. status_of l' q = status_of l q"
  shows "life_ok ids X l'"
proof -
  have st: "status_of l' = status_of l" using assms(6) by (simp add: fun_eq_iff)
  then have al: "alive X l' = alive X l" by (auto simp: alive_iff fun_eq_iff)
  show ?thesis using assms(1-5) st al by (simp add: mid_ok_start mid_ok_def paused_def unblocked_def)
qed

section \<open>Adding requests\<close>

text \<open>A streaming session that the next chunk can be added to.\<close>

definition takes_chunks :: "('c, 'x, 'q, 'h, 'k) life_state \<Rightarrow> string \<Rightarrow> bool" where
  "takes_chunks l q \<longleftrightarrow> (case sessions l q of None \<Rightarrow> False
     | Some ss \<Rightarrow> streaming_queue ss \<noteq> None \<and> prompt_token_ids ss \<noteq> None)"

text \<open>
  What adding a request does to its own session, to the queues and to the count of paused sessions: a new request is
  stored and put into the queue of its status; a known one that is not paused keeps the chunk for later; a paused one
  goes on with the chunk where it is, or leaves its queue when the stream is over.
\<close>

definition add_effect ::
  "('q \<Rightarrow> string list) \<Rightarrow> ('x, 'q, 'h) sched_ext \<Rightarrow> ('q, 'h, 'k, 'p) life_ext \<Rightarrow> 'h sched_request \<Rightarrow> session
   \<Rightarrow> ('c, 'x, 'q, 'h, 'k) life_state \<Rightarrow> ('c, 'x, 'q, 'h, 'k) life_state \<Rightarrow> bool" where
  "add_effect ids X Y r ss l l' \<longleftrightarrow>
     (let q = request_id r;
          moves = (\<lambda>side f. set (queued ids l' side) = f (set (queued ids l side)));
          stay = (\<forall>side. queued ids l' side = queued ids l side)
      in running_queue l' = running_queue l
       \<and> (case requests (store l) q of
            None \<Rightarrow> requests (store l') q = Some r
              \<and> sessions l' q = Some (if resumable ss then ss\<lparr> streaming_queue := Some [] \<rparr> else ss)
              \<and> moves (if status r = WAITING then Waiting else Skipped) (insert q)
              \<and> moves (if status r = WAITING then Skipped else Waiting) id
              \<and> streaming_inputs l' = streaming_inputs l
          | Some old \<Rightarrow>
              if status old \<noteq> WAITING_FOR_STREAMING_REQ
              then requests (store l') q = Some old \<and> stay \<and> streaming_inputs l' = streaming_inputs l
                \<and> (\<exists>os us. sessions l q = Some os \<and> streaming_queue os = Some us
                     \<and> sessions l' q = Some (os\<lparr> streaming_queue := Some (us @ [update_of Y r ss]) \<rparr>))
              else streaming_inputs l' = streaming_inputs l - 1
                \<and> (case update_of Y r ss of
                     Some u \<Rightarrow> status_of l' q = Some WAITING \<and> stay
                       \<and> map_option all_token_ids (sessions l' q)
                         = map_option (\<lambda>os. take (nat (num_computed_tokens old)) (all_token_ids os) @ upd_prompt_token_ids u) (sessions l q)
                   | None \<Rightarrow> \<not> alive X l' q \<and> (\<forall>side. moves side (\<lambda>qs. qs - {q})))))"

lemma add_fresh:
  assumes "queue_laws ids Y" "life_ok ids X l" "requests (store l) (request_id r) = None" "finished_states X"
    and "status r \<in> {WAITING, WAITING_FOR_STRUCTURED_OUTPUT_GRAMMAR}"
  shows "\<exists>l'. add_request cd K X Y r ss l = Inr l' \<and> life_ok ids X l' \<and> add_effect ids X Y r ss l l'
    \<and> (\<forall>q. q \<noteq> request_id r \<longrightarrow> requests (store l') q = requests (store l) q \<and> sessions l' q = sessions l q)"
proof -
  let ?q = "request_id r"
  let ?ss = "if resumable ss then ss\<lparr> streaming_queue := Some [] \<rparr> else ss"
  have "\<not> status_is_finished X WAITING" "\<not> status_is_finished X WAITING_FOR_STRUCTURED_OUTPUT_GRAMMAR"
    using assms(4) by (simp_all add: finished_states_def)
  then have st: "status r \<noteq> RUNNING" "\<not> status_is_finished X (status r)" "status r \<noteq> WAITING_FOR_STREAMING_REQ"
    using assms(5) by (elim insertE emptyE; simp)+
  define l1 where "l1 = put_session ?q ?ss (put_req ?q r l)"
  define l2 where "l2 = enqueue_waiting_request Y r l1"
  have e: "put_session ?q ?ss (put_req ?q r (enqueue_waiting_request Y r l)) = l2"
    by (cases "is_blocked_waiting_status (status r)")
      (simp_all add: l1_def l2_def put_session_def put_req_def with_store_def with_sched_def enqueue_waiting_request_def put_queue_def
        side_queue_def)
  have dead: "\<not> alive X l ?q" using assms(3) by (simp add: alive_def)
  have l1: "requests (store l1) = (requests (store l))(?q \<mapsto> r)" "sessions l1 ?q \<noteq> None" "\<forall>p. p \<noteq> ?q \<longrightarrow> sessions l1 p = sessions l p"
    "running_queue l1 = running_queue l" "\<forall>side. side_queue side (wait l1) = side_queue side (wait l)"
    "streaming_inputs l1 = streaming_inputs l + (if status r = WAITING_FOR_STREAMING_REQ then 1 else 0)"
    and ss1: "sessions l1 = (sessions l)(?q \<mapsto> ?ss)"
    using st(3) by (simp_all add: l1_def put_session_def put_req_def with_store_def with_sched_def side_queue_def all_sides)
  have "?q \<notin> set (running_queue l)" using assms(2,3) by (auto simp: life_ok_def status_of_def)
  then have ok: "life_ok ids X l2"
    using mid_ok_enqueue[OF assms(1) assms(2)[unfolded mid_ok_start] _ _ l1(1) refl st(1,2) l1(2-6)] dead
    by (simp add: mid_ok_start l2_def)
  note q2 = enqueue_simps[OF assms(1), where r = r and l = l1, folded l2_def]
  define l3 where "l3 = (if has_connector Y then l2\<lparr> wait := (wait l2)
      \<lparr> connector_state := on_new_request Y r (connector_state (wait l2)) \<rparr> \<rparr> else l2)"
  have same: "requests (store l3) = requests (store l2)" "sessions l3 = sessions l2" "running_queue l3 = running_queue l2"
    "streaming_inputs l3 = streaming_inputs l2" "\<forall>side. side_queue side (wait l3) = side_queue side (wait l2)"
    by (simp_all add: l3_def all_sides waiting_side)
  have "life_ok ids X l3"
    by (rule life_same[OF ok same(3,5,4)]) (use ok same in \<open>simp_all add: status_of_def life_ok_def registered_def\<close>)
  moreover have "add_request cd K X Y r ss l = Inr l3"
    using assms(3) unfolding add_request_def Let_def e l3_def by simp
  moreover have "set (queued ids l3 side) = (if (side = Waiting) = (status r = WAITING) then insert ?q (set (queued ids l side))
      else set (queued ids l side))" for side
    using q2(1)[of side] same(5) l1(5) assms(5) by (cases side) (auto simp: is_blocked_waiting_status_def)
  then have "add_effect ids X Y r ss l l3"
    using assms(3) same q2 l1 ss1 st(3) by (simp add: add_effect_def Let_def)
  ultimately show ?thesis using same q2(4,5) l1(1) ss1 by (intro exI[of _ l3]) simp
qed

lemma add_chunk:
  assumes "queue_laws ids Y" "finished_states X" "takes_all_groups Y" "life_ok ids X l" "requests (store l) (request_id r) = Some old"
    and "takes_chunks l (request_id r)"
  shows "\<exists>l'. add_request cd K X Y r ss l = Inr l' \<and> life_ok ids X l' \<and> add_effect ids X Y r ss l l'
    \<and> (\<forall>q. q \<noteq> request_id r \<longrightarrow> requests (store l') q = requests (store l) q \<and> sessions l' q = sessions l q)"
proof -
  let ?q = "request_id r"
  obtain os us p where os: "sessions l ?q = Some os" "streaming_queue os = Some us" "prompt_token_ids os = Some p"
    using assms(6) by (auto simp: takes_chunks_def split: option.splits)
  have os': "lookup_session l ?q = Inr os" using os(1) by (simp add: lookup_session_def)
  have reg: "registered l" using life_ok_registered[OF assms(4)] .
  consider (queued) "status old \<noteq> WAITING_FOR_STREAMING_REQ"
    | (chunk) upd where "status old = WAITING_FOR_STREAMING_REQ" "update_of Y r ss = Some upd"
    | (last) "status old = WAITING_FOR_STREAMING_REQ" "update_of Y r ss = None"
    by (cases "update_of Y r ss") auto
  then show ?thesis
  proof cases
    case queued
    let ?l' = "put_session ?q (os\<lparr> streaming_queue := Some (us @ [update_of Y r ss]) \<rparr>) l"
    have "add_request cd K X Y r ss l = Inr ?l'" using queued os os' assms(5) by (simp add: add_request_def Let_def)
    moreover have "life_ok ids X ?l'"
      by (rule life_same[OF assms(4)]) (use reg in \<open>auto simp: put_session_def status_of_def registered_def\<close>)
    moreover have "add_effect ids X Y r ss l ?l'"
      using queued os assms(5) by (simp add: add_effect_def Let_def put_session_def)
    ultimately show ?thesis by (intro exI[of _ ?l']) (simp add: put_session_def)
  next
    case chunk
    obtain r' l' where u: "update_request_as_session Y ?q upd l = Inr (r', l')"
      using assms(5) os os' by (auto simp: update_request_as_session_def lookup_request_def session_tokens_def Let_def)
    note f = update_request_as_session_frame(1)[OF u]
    have "request_id old = ?q" using reg assms(5) by (simp add: registered_def)
    then have "life_ok ids X l'"
      using life_ok_resumed[OF assms(4,2), where q = ?q and l' = l' and r = r'] f assms(5) chunk(1) by (auto simp: status_of_def)
    moreover have "add_request cd K X Y r ss l = Inr l'" using u chunk os' assms(5) by (simp add: add_request_def Let_def)
    moreover have "add_effect ids X Y r ss l l'"
      using f chunk os assms(5) update_request_as_session_frame(2)[OF u assms(5) os(1)]
      by (auto simp: add_effect_def Let_def status_of_def)
    ultimately show ?thesis using f by (intro exI[of _ l']) auto
  next
    case last
    have "status_is_finished X FINISHED_ABORTED" using assms(2) by (simp add: finished_states_def)
    then obtain l' where l': "finish_requests cd K X Y FINISHED_ABORTED [?q] l = Inr (filter (alive X l) [?q], l')" "life_ok ids X l'"
      "\<forall>q \<in> set [?q]. \<not> alive X l' q"
      "\<forall>q. q \<notin> set [?q] \<longrightarrow> requests (store l') q = requests (store l) q \<and> sessions l' q = sessions l q"
      "running_queue l' = filter (\<lambda>q. q \<notin> set [?q]) (running_queue l)"
      "\<forall>side. queued ids l' side = filter (\<lambda>q. q \<notin> set [?q]) (queued ids l side)"
      using finish_requests_ok[OF assms(1-4), where qs = "[?q]" and st = FINISHED_ABORTED and cd = cd and K = K] by auto
    have add: "add_request cd K X Y r ss l = Inr l'" using last os' assms(5) l'(1) by (simp add: add_request_def Let_def del: filter.simps)
    have st: "status_of l ?q = Some WAITING_FOR_STREAMING_REQ" using last(1) assms(5) by (simp add: status_of_def)
    have "?q \<notin> set (running_queue l)" using assms(4) st by (simp add: life_ok_def)
    then have run: "running_queue l' = running_queue l" using l'(5) by (auto simp: filter_id_conv)
    have "alive X l ?q" using st assms(2) by (simp add: alive_iff finished_states_def)
    then have here: "?q \<in> paused ids l" using assms(4) st by (auto simp: life_ok_def paused_def)
    have "paused ids l' = paused ids l - {?q}"
      using l'(4,6) by (auto simp: paused_def status_of_def)
    then have "card (paused ids l) = Suc (card (paused ids l'))" using here card_Suc_Diff1[of "paused ids l" ?q] by simp
    then have "streaming_inputs l' = streaming_inputs l - 1" using assms(4) l'(2) by (simp add: life_ok_def)
    then have "add_effect ids X Y r ss l l'"
      using last assms(5) l'(3,6) run by (auto simp: add_effect_def Let_def)
    then show ?thesis using add l'(2,4) by (intro exI[of _ l']) simp
  qed
qed

section \<open>Counts\<close>

lemma count_unfinished:
  assumes "life_ok ids X l" "finished_states X"
  shows "int (length (queued ids l Waiting)) + int (length (queued ids l Skipped)) - streaming_inputs l + int (length (running_queue l))
    = int (card {q. alive X l q \<and> status_of l q \<noteq> Some WAITING_FOR_STREAMING_REQ})"
    (is "_ = int (card ?A)")
proof -
  let ?W = "set (queued ids l Waiting)" and ?S = "set (queued ids l Skipped)" and ?R = "set (running_queue l)"
  have inv: "distinct (running_queue l)" "distinct (queued ids l Waiting)" "distinct (queued ids l Skipped)" "?W \<inter> ?S = {}"
    "\<forall>q. q \<in> ?R \<longleftrightarrow> status_of l q = Some RUNNING"
    "\<forall>q. q \<in> ?W \<union> ?S \<longleftrightarrow> alive X l q \<and> status_of l q \<noteq> Some RUNNING" "streaming_inputs l = int (card (paused ids l))"
    using assms(1) by (auto simp: life_ok_def)
  have pw: "paused ids l \<subseteq> ?W \<union> ?S" by (auto simp: paused_def)
  have "length (queued ids l Waiting) + length (queued ids l Skipped) = card (?W \<union> ?S)"
    using inv(2-4) by (simp add: card_Un_disjoint distinct_card)
  moreover have "card (?W \<union> ?S - paused ids l) = card (?W \<union> ?S) - card (paused ids l)"
    using pw by (intro card_Diff_subset) simp_all
  moreover have "card (paused ids l) \<le> card (?W \<union> ?S)" using pw by (intro card_mono) simp_all
  moreover have "card (?R \<union> (?W \<union> ?S - paused ids l)) = card ?R + card (?W \<union> ?S - paused ids l)"
    using inv(5,6) by (intro card_Un_disjoint) auto
  moreover have "?R \<union> (?W \<union> ?S - paused ids l) = ?A"
    using inv(5,6) assms(2) by (auto simp: paused_def alive_iff finished_states_def)
  ultimately show ?thesis using inv(7) distinct_card[OF inv(1)] by (simp add: of_nat_diff)
qed

end
