(* ===== verification/Sched_Output_Props.thy ===== *)
theory Sched_Output_Props
  imports Sched_Life_Props
begin

text \<open>
  Processing the outputs of a step keeps every request in its place: the requests that stop stay in their old queue
  until the loop is over, and the whole of \<^verbatim>\<open>update_from_output\<close> restores the invariant of the queues.
\<close>

section \<open>Stop checks\<close>

text \<open>Appending a token keeps the status; a stop makes the request finished, and only a stop changes the status.\<close>

definition reply_laws :: "'h reply_ext \<Rightarrow> ('x, 'q, 'h) sched_ext \<Rightarrow> bool" where
  "reply_laws A X \<longleftrightarrow>
     (\<forall>t r ss r' ss'. append_output_token_ids A t (r, ss) = (r', ss') \<longrightarrow>
        request_id r' = request_id r \<and> status r' = status r \<and> resumable ss' = resumable ss)
     \<and> (\<forall>n r ss b r' ss'. check_stop A n (r, ss) = (b, r', ss') \<longrightarrow> request_id r' = request_id r \<and> resumable ss' = resumable ss
        \<and> (if b then status_is_finished X (status r') else status r' = status r))"

text \<open>What checking for a stop may change.\<close>

definition stop_step :: "('x, 'q, 'h) sched_ext \<Rightarrow> bool \<Rightarrow> 'h sched_request \<times> session \<Rightarrow> 'h sched_request \<times> session \<Rightarrow> bool" where
  "stop_step X b rs rs' \<longleftrightarrow> request_id (fst rs') = request_id (fst rs) \<and> (resumable (snd rs') \<longrightarrow> resumable (snd rs))
     \<and> (if b then status_is_finished X (status (fst rs')) else status (fst rs') = status (fst rs))"

lemma update_with_output_stops:
  assumes "reply_laws A X"
  shows "update_request_with_output A n ts toks rs = (new, b, rs') \<Longrightarrow> stop_step X b rs rs'"
proof (induction ts arbitrary: toks rs)
  case Nil
  then show ?case by (simp add: stop_step_def)
next
  case (Cons t ts)
  obtain r1 ss1 where a: "append_output_token_ids A t (fst rs, snd rs) = (r1, ss1)" by (cases "append_output_token_ids A t (fst rs, snd rs)")
  obtain b2 r2 ss2 where c: "check_stop A n (r1, ss1) = (b2, r2, ss2)" by (cases "check_stop A n (r1, ss1)") auto
  have s: "request_id r1 = request_id (fst rs)" "status r1 = status (fst rs)" "resumable ss1 = resumable (snd rs)"
    "request_id r2 = request_id r1" "resumable ss2 = resumable ss1" "if b2 then status_is_finished X (status r2) else status r2 = status r1"
    using assms a c unfolding reply_laws_def by blast+
  show ?case
  proof (cases b2)
    case True
    then show ?thesis using Cons.prems a c s by (auto simp: stop_step_def)
  next
    case False
    then have "stop_step X b (r2, ss2) rs'" using Cons.prems a c by (intro Cons.IH[where toks = "toks @ [t]"]) simp
    then show ?thesis using s False by (simp add: stop_step_def)
  qed
qed

lemma stop_check_stops:
  assumes "reply_laws A X" "finished_states X" "stop_check A n out rs = (new, b, rs')"
  shows "stop_step X b rs rs'"
proof (cases "generated_token_ids out \<noteq> []")
  case True
  then show ?thesis using assms(3) update_with_output_stops[OF assms(1)] by (simp add: stop_check_def)
next
  case False
  have fin: "status_is_finished X FINISHED_STOPPED" using assms(2) by (simp add: finished_states_def)
  show ?thesis
  proof (cases "is_pooling A (fst rs) \<and> pooler_output out \<noteq> None")
    case True
    then have "b" "rs' = ((fst rs)\<lparr> status := FINISHED_STOPPED \<rparr>, snd rs)"
      using assms(3) False unfolding stop_check_def by simp_all
    then show ?thesis using fin by (simp add: stop_step_def)
  next
    case no: False
    then have "stop_check A n out rs = ([], False, rs)" using False unfolding stop_check_def by (simp only: if_False simp_thms)
    then show ?thesis using assms(3) by (simp add: stop_step_def)
  qed
qed

lemma advance_grammar_stops:
  assumes "finished_states X" "advance_grammar A V new b0 rs1 = Inr (b, rs2)" "stop_step X b0 rs rs1"
  shows "stop_step X b rs rs2"
proof -
  have fin: "status_is_finished X FINISHED_ERROR" using assms(1) by (simp add: finished_states_def)
  consider "b = b0" "rs2 = rs1" | "b" "rs2 = ((fst rs1)\<lparr> status := FINISHED_ERROR \<rparr>, (snd rs1)\<lparr> resumable := False \<rparr>)"
    using assms(2) by (auto simp: advance_grammar_def Let_def res_bind_eq_Inr split: if_splits)
  then show ?thesis
  proof cases
    case 1
    then show ?thesis using assms(3) by simp
  next
    case 2
    then show ?thesis using assms(3) fin by (simp add: stop_step_def)
  qed
qed

section \<open>One stopped request\<close>

lemma handle_stopped_chunk:
  assumes "lookup_request (store l) q = Inr r" "lookup_session l q = Inr ss" "resumable ss"
    and "streaming_queue ss = Some (Some upd # rest)" "handle_stopped_request Y q l = Inr (fin, l')"
  shows "\<exists>r' l3. update_request_as_session Y q upd (put_session q (ss\<lparr> streaming_queue := Some rest \<rparr>) l) = Inr (r', l3)
    \<and> l' = enqueue_waiting_request Y r' l3"
proof -
  let ?u = "update_request_as_session Y q upd (put_session q (ss\<lparr> streaming_queue := Some rest \<rparr>) l)"
  have "handle_stopped_request Y q l = res_bind ?u (\<lambda>(r', l2). Inr (False, enqueue_waiting_request Y r' l2))"
    using assms(3,4) by (simp add: handle_stopped_request_def assms(1,2) Let_def)
  then show ?thesis using assms(5) by (cases ?u) (auto split: prod.splits)
qed

lemma settle_stopped_ok:
  fixes l l1 l2 :: "('c, 'x, 'q, 'h, 'k) life_state"
  assumes "queue_laws ids Y" "finished_states X" "mid_ok ids X S Q l" "requests (store l) q = Some r0" "\<not> status_is_finished X (status r0)"
    and "requests (store l1) = (requests (store l))(q \<mapsto> r1)" "request_id r1 = q" "status_is_finished X (status r1)"
    and "sessions l1 q = Some ss1" "\<forall>p. p \<noteq> q \<longrightarrow> sessions l1 p = sessions l p"
    and "running_queue l1 = running_queue l" "\<forall>side. side_queue side (wait l1) = side_queue side (wait l)"
    and "streaming_inputs l1 = streaming_inputs l"
    and "status r0 \<noteq> RUNNING \<longrightarrow> \<not> resumable ss1 \<and> status r0 \<noteq> WAITING_FOR_STREAMING_REQ"
    and "settle_stopped cd K X Y q l1 = Inr (out, l2)"
  shows "mid_ok ids X (if status r0 = RUNNING then insert q S else S) (if status r0 = RUNNING then Q else insert q Q) l2
    \<and> (\<forall>p. p \<noteq> q \<longrightarrow> requests (store l2) p = requests (store l) p \<and> sessions l2 p = sessions l p)"
proof -
  have k1: "keeps {q} l l1" using assms(6,10-13) by (simp add: keeps_def)
  have reg: "registered l" using assms(3) by (simp add: mid_ok_def)
  have r1: "lookup_request (store l1) q = Inr r1" "lookup_session l1 q = Inr ss1"
    using assms(6,9) by (simp_all add: lookup_request_def lookup_session_def)
  have st0: "status_of l q = Some (status r0)" "alive X l q" using assms(4,5) by (simp_all add: status_of_def alive_def)
  obtain fin l1' where h: "handle_stopped_request Y q l1 = Inr (fin, l1')"
    using assms(15) by (auto simp: settle_stopped_def res_bind_eq_Inr)
  show ?thesis
  proof (cases fin)
    case True
    then have f: "free_request cd K X Y q False l1' = Inr (out, l2)" using assms(15) h by (simp add: settle_stopped_def)
    have "l1' = l1 \<or> (\<exists>ss. l1' = put_session q ss l1)"
      using h True r1 by (auto simp: handle_stopped_request_def Let_def res_bind_eq_Inr split: if_splits option.splits list.splits)
    then have l1': "keeps {q} l l1'" "requests (store l1') = requests (store l1)" "sessions l1' q \<noteq> None"
      using k1 assms(9) by (auto simp: keeps_def put_session_def)
    have fr: "frees q l1' l2" using free_request_frees[OF f] .
    have k2: "keeps {q} l l2" using keeps_trans[OF l1'(1) frees_keeps[OF fr]] by simp
    have dead: "\<not> alive X l2 q" using fr l1'(2) assms(6,8) by (auto simp: frees_def alive_def)
    have "registered l2"
      unfolding registered_def
    proof (intro allI impI)
      fix p r assume p: "requests (store l2) p = Some r"
      show "request_id r = p \<and> sessions l2 p \<noteq> None"
      proof (cases "p = q")
        case True
        then show ?thesis using p fr l1'(2,3) assms(6,7) by (auto simp: frees_def)
      next
        case False
        then show ?thesis using p k2 reg by (auto simp: keeps_def registered_def)
      qed
    qed
    then have "mid_ok ids X (if status r0 = RUNNING then insert q S else S) (if status r0 = RUNNING then Q else insert q Q) l2"
      using mid_ok_dead[OF assms(3) k2 dead _ assms(2)] st0 assms(14) by auto
    then show ?thesis using k2 by (simp add: keeps_def)
  next
    case False
    then have l2: "l2 = l1'" using assms(15) h by (simp add: settle_stopped_def)
    have "resumable ss1"
    proof (rule ccontr)
      assume "\<not> resumable ss1"
      then show False using h False r1 by (simp add: handle_stopped_request_def)
    qed
    then have running: "status r0 = RUNNING" using assms(14) by blast
    have inq: "q \<in> set (running_queue l)" "q \<notin> Q" using assms(3) running st0 by (auto simp: mid_ok_def)
    have "\<exists>l3 r'. l1' = enqueue_waiting_request Y r' l3 \<and> requests (store l3) = (requests (store l))(q \<mapsto> r') \<and> request_id r' = q
        \<and> status r' \<in> {WAITING, WAITING_FOR_STREAMING_REQ} \<and> sessions l3 q \<noteq> None \<and> (\<forall>p. p \<noteq> q \<longrightarrow> sessions l3 p = sessions l p)
        \<and> running_queue l3 = running_queue l \<and> (\<forall>side. side_queue side (wait l3) = side_queue side (wait l))
        \<and> streaming_inputs l3 = streaming_inputs l + (if status r' = WAITING_FOR_STREAMING_REQ then 1 else 0)"
    proof (cases "\<exists>upd rest. streaming_queue ss1 = Some (Some upd # rest)")
      case True
      then obtain upd rest where u: "streaming_queue ss1 = Some (Some upd # rest)" by blast
      let ?l = "put_session q (ss1\<lparr> streaming_queue := Some rest \<rparr>) l1"
      obtain r' l3 where s: "update_request_as_session Y q upd ?l = Inr (r', l3)" "l1' = enqueue_waiting_request Y r' l3"
        using handle_stopped_chunk[OF r1 \<open>resumable ss1\<close> u h] by (elim exE conjE)
      have "\<not> status_is_finished X WAITING_FOR_STREAMING_REQ" using assms(2) by (simp add: finished_states_def)
      then have nostream: "status r1 \<noteq> WAITING_FOR_STREAMING_REQ" using assms(8) by metis
      have reqs: "requests (store ?l) = requests (store l1)" by (simp add: put_session_def)
      obtain r where r: "requests (store ?l) q = Some r" "status r' = WAITING" "request_id r' = request_id r"
          "requests (store l3) = (requests (store ?l))(q \<mapsto> r')" "sessions l3 q \<noteq> None"
          "\<forall>p. p \<noteq> q \<longrightarrow> sessions l3 p = sessions ?l p" "running_queue l3 = running_queue ?l"
          "\<forall>side. side_queue side (wait l3) = side_queue side (wait ?l)"
          "streaming_inputs l3 = streaming_inputs ?l - (if status r = WAITING_FOR_STREAMING_REQ then 1 else 0)"
        using update_request_as_session_frame[OF s(1)] by blast
      have "r = r1" using r(1) assms(6) reqs by simp
      moreover have "requests (store l3) = (requests (store l))(q \<mapsto> r')" using r(4) reqs assms(6) by simp
      moreover have "\<forall>p. p \<noteq> q \<longrightarrow> sessions l3 p = sessions l p" using r(6) assms(10) by (simp add: put_session_def)
      moreover have "running_queue l3 = running_queue l" "\<forall>side. side_queue side (wait l3) = side_queue side (wait l)"
        using r(7,8) assms(11,12) by (simp_all add: put_session_def)
      moreover have "streaming_inputs l3 = streaming_inputs l" using r(9) calculation(1) nostream assms(13) by (simp add: put_session_def)
      ultimately show ?thesis using s(2) r(2,3,5) assms(7) by (intro exI[of _ l3] exI[of _ r']) simp
    next
      case no: False
      let ?r = "r1\<lparr> status := WAITING_FOR_STREAMING_REQ \<rparr>"
      let ?l = "(put_req q ?r l1)\<lparr> streaming_inputs := streaming_inputs l1 + 1 \<rparr>"
      have "l1' = enqueue_waiting_request Y ?r ?l"
        using h r1 no False \<open>resumable ss1\<close>
        by (cases "streaming_queue ss1") (auto simp: handle_stopped_request_def Let_def split: list.splits option.splits)
      moreover have "requests (store ?l) = (requests (store l))(q \<mapsto> ?r)" using assms(6) by simp
      ultimately show ?thesis using assms(7,9-13)
        by (intro exI[of _ ?l] exI[of _ ?r]) (simp add: put_req_def with_store_def with_sched_def side_queue_def all_sides)
    qed
    then obtain l3 r' where e: "l1' = enqueue_waiting_request Y r' l3" "requests (store l3) = (requests (store l))(q \<mapsto> r')"
        "request_id r' = q" "status r' \<in> {WAITING, WAITING_FOR_STREAMING_REQ}" "sessions l3 q \<noteq> None"
        "\<forall>p. p \<noteq> q \<longrightarrow> sessions l3 p = sessions l p" "running_queue l3 = running_queue l"
        "\<forall>side. side_queue side (wait l3) = side_queue side (wait l)"
        "streaming_inputs l3 = streaming_inputs l + (if status r' = WAITING_FOR_STREAMING_REQ then 1 else 0)" by blast
    have "\<not> status_is_finished X WAITING" "\<not> status_is_finished X WAITING_FOR_STREAMING_REQ"
      using assms(2) by (simp_all add: finished_states_def)
    then have "status r' \<noteq> RUNNING" "\<not> status_is_finished X (status r')" using e(4) by (elim insertE; simp)+
    then have "mid_ok ids X (insert q S) Q l2"
      using mid_ok_enqueue[OF assms(1,3) inq(2) _ e(2,3) _ _ e(5-9)] st0 running inq(1) l2 e(1) by simp
    then show ?thesis using running l2 e(1,2,6) enqueue_simps(4,5)[OF assms(1), where r = r' and l = l3] by simp
  qed
qed

section \<open>The loop over the outputs\<close>

text \<open>The session of a request whose tokens end it: by its stop conditions, or because its grammar rejects them.\<close>

definition reply_stops ::
  "'h reply_ext \<Rightarrow> ('q, 'k, 'h) waiting_ext \<Rightarrow> running_config \<Rightarrow> step_share \<Rightarrow> 'h sched_request \<Rightarrow> session \<Rightarrow> session option" where
  "reply_stops A V C out r ss =
     (let (new, b0, rs) = stop_check A (max_model_len C) out (r, ss)
      in case advance_grammar A V new b0 rs of
           Inl _ \<Rightarrow> None
         | Inr (b, r1, ss1) \<Rightarrow> if b then Some ss1 else None)"

text \<open>The same for a share of the output, which is passed over when it failed, was dropped or is missing.\<close>

definition share_stops ::
  "('x, 'q, 'h) sched_ext \<Rightarrow> 'h reply_ext \<Rightarrow> ('q, 'k, 'h) waiting_ext \<Rightarrow> running_config \<Rightarrow> sched_params \<Rightarrow> step_share
   \<Rightarrow> 'h sched_request \<Rightarrow> session \<Rightarrow> session option" where
  "share_stops X A V C P out r ss =
     (case drain_output (num_tokens_scheduled out) r of
        Inl _ \<Rightarrow> None
      | Inr (stale, r1) \<Rightarrow>
          if kv_load_failed out \<or> status_is_finished X (status r1) \<or> stale \<and> drop_stale_output r1 \<or> \<not> in_runner_batch out then None
          else reply_stops A V C out
            (fst (verify_drafts P (output_share.truncate out) stale r1 (step_stats_init (mtp_num_positions P)))) ss)"

text \<open>If the share stops the request, then it is running, or it is neither paused nor a stream.\<close>

definition stops_cleanly ::
  "('x, 'q, 'h) sched_ext \<Rightarrow> 'h reply_ext \<Rightarrow> ('q, 'k, 'h) waiting_ext \<Rightarrow> running_config \<Rightarrow> sched_params
   \<Rightarrow> ('c, 'x, 'q, 'h, 'k) life_state \<Rightarrow> string \<Rightarrow> step_share \<Rightarrow> bool" where
  "stops_cleanly X A V C P l q out \<longleftrightarrow>
     (case (requests (store l) q, sessions l q) of
        (Some r, Some ss) \<Rightarrow> (case share_stops X A V C P out r ss of
            None \<Rightarrow> True
          | Some ss1 \<Rightarrow> status r = RUNNING \<or> status r \<noteq> WAITING_FOR_STREAMING_REQ \<and> \<not> resumable ss1)
      | _ \<Rightarrow> True)"

lemma verify_fst: "fst (verify_drafts P out b r st) = fst (verify_drafts P out b r st')"
  by (simp add: verify_drafts_def Let_def)

abbreviation loop_ok :: "('q \<Rightarrow> string list) \<Rightarrow> ('x, 'q, 'h) sched_ext \<Rightarrow> 'p reply_acc \<Rightarrow> ('c, 'x, 'q, 'h, 'k) life_state \<Rightarrow> bool" where
  "loop_ok ids X acc \<equiv> mid_ok ids X (stopped_running_reqs acc) (stopped_preempted_reqs acc)"

definition others_same :: "string \<Rightarrow> ('c, 'x, 'q, 'h, 'k) life_state \<Rightarrow> ('c, 'x, 'q, 'h, 'k) life_state \<Rightarrow> bool" where
  "others_same q l l' \<longleftrightarrow> (\<forall>p. p \<noteq> q \<longrightarrow> requests (store l') p = requests (store l) p \<and> sessions l' p = sessions l p)"

lemma stops_cleanly_cong:
  assumes "requests (store l1) p = requests (store l) p" "sessions l1 p = sessions l p"
  shows "stops_cleanly X A V C P l1 p out \<longleftrightarrow> stops_cleanly X A V C P l p out"
  by (simp add: stops_cleanly_def assms)

lemma put_req_same_status:
  assumes "mid_ok ids X S Q l" "requests (store l) q = Some r" "request_id r' = request_id r" "status r' = status r"
  shows "mid_ok ids X S Q (put_req q r' l)" "others_same q l (put_req q r' l)"
proof -
  have reg: "registered l" using assms(1) by (simp add: mid_ok_def)
  have k: "keeps {q} l (put_req q r' l)"
    by (simp add: keeps_def all_sides put_req_def side_queue_def with_store_def with_sched_def)
  show "mid_ok ids X S Q (put_req q r' l)"
    by (rule mid_ok_same_status[OF assms(1) k])
      (use reg assms(2-4) in \<open>auto simp: registered_def put_req_def status_of_def\<close>)
  show "others_same q l (put_req q r' l)" using k by (simp add: keeps_def others_same_def)
qed

lemma reply_to_request_ok:
  fixes l l' :: "('c, 'x, 'q, 'h, 'k) life_state"
  assumes "queue_laws ids Y" "finished_states X" "reply_laws A X" "loop_ok ids X acc l" "requests (store l) q = Some r"
    and "\<not> status_is_finished X (status r)"
    and "\<And>ss ss1. sessions l q = Some ss \<Longrightarrow> reply_stops A V C out r ss = Some ss1 \<Longrightarrow>
      status r = RUNNING \<or> status r \<noteq> WAITING_FOR_STREAMING_REQ \<and> \<not> resumable ss1"
    and "reply_to_request cd K X E Y V A C routed q out r l acc = Inr (l', acc')"
  shows "loop_ok ids X acc' l' \<and> others_same q l l'"
proof -
  obtain ss x where ss: "lookup_session l q = Inr ss"
    and x: "(if has_encoder_inputs r then free_encoder_inputs E (encoder_cfg C) r (encoder_cache (store l))
               else Inr (encoder_cache (store l))) = Inr x"
    using assms(8) unfolding reply_to_request_def res_bind_eq_Inr by blast
  obtain new b0 rs where sc: "stop_check A (max_model_len C) out (r, ss) = (new, b0, rs)" by (metis prod_cases3)
  obtain b r1 ss1 where ag: "advance_grammar A V new b0 rs = Inr (b, r1, ss1)"
    using assms(8) by (auto simp: reply_to_request_def ss x sc Let_def res_bind_eq_Inr simp del: if_split_asm split del: if_split)
  have step: "stop_step X b (r, ss) (r1, ss1)"
    using advance_grammar_stops[OF assms(2) ag stop_check_stops[OF assms(3,2) sc]] .
  define l1 where "l1 = put_session q ss1 (put_req q r1 (with_store (\<lambda>s. s\<lparr> encoder_cache := x,
     re_block_ids := (if routed \<and> new \<noteq> [] then (re_block_ids s)(q := None) else re_block_ids s) \<rparr>) l))"
  obtain out2 where st: "(if b then settle_stopped cd K X Y q l1 else Inr ((None, None), l1)) = Inr (out2, l')"
    and acc: "stopped_running_reqs acc' = (if b \<and> status r = RUNNING then insert q (stopped_running_reqs acc) else stopped_running_reqs acc)"
      "stopped_preempted_reqs acc' = (if b \<and> status r \<noteq> RUNNING then insert q (stopped_preempted_reqs acc) else stopped_preempted_reqs acc)"
    using assms(8) unfolding reply_to_request_def ss x sc res_bind_simps Let_def prod.case ag l1_def[symmetric] res_bind_eq_Inr
    by (auto simp: res_bind_eq_Inr split del: if_split)
  have reg: "registered l" using assms(4) by (simp add: mid_ok_def)
  have id: "request_id r = q" using reg assms(5) by (simp add: registered_def)
  have l1: "requests (store l1) = (requests (store l))(q \<mapsto> r1)" "sessions l1 = (sessions l)(q \<mapsto> ss1)"
    "running_queue l1 = running_queue l" "\<forall>side. side_queue side (wait l1) = side_queue side (wait l)"
    "streaming_inputs l1 = streaming_inputs l"
    by (simp_all add: l1_def put_session_def put_req_def with_store_def with_sched_def all_sides side_queue_def)
  have id1: "request_id r1 = q" using step id by (simp add: stop_step_def)
  show ?thesis
  proof (cases b)
    case True
    have fin: "status_is_finished X (status r1)" using step True by (simp add: stop_step_def)
    have clean: "status r \<noteq> RUNNING \<longrightarrow> \<not> resumable ss1 \<and> status r \<noteq> WAITING_FOR_STREAMING_REQ"
      using assms(7)[of ss ss1] ss sc ag True by (auto simp: reply_stops_def lookup_session_def split: option.splits)
    have s: "settle_stopped cd K X Y q l1 = Inr (out2, l')" using st True by simp
    have "sessions l1 q = Some ss1" "\<forall>p. p \<noteq> q \<longrightarrow> sessions l1 p = sessions l p" using l1(2) by simp_all
    from settle_stopped_ok[OF assms(1,2,4-6) l1(1) id1 fin this l1(3-5) clean s]
    show ?thesis using acc True by (simp add: others_same_def split: if_splits)
  next
    case False
    then have "status r1 = status r" "l' = l1" using step st by (simp_all add: stop_step_def)
    moreover have "keeps {q} l l1" using l1 by (simp add: keeps_def)
    moreover have "registered l1" using reg l1(1,2) id1 by (auto simp: registered_def)
    moreover have "status_of l1 q = status_of l q" using l1(1) \<open>status r1 = status r\<close> assms(5) by (simp add: status_of_def)
    ultimately show ?thesis using mid_ok_same_status[OF assms(4), where q = q and l' = l1] acc False l1(1,2)
      by (simp add: others_same_def)
  qed
qed

lemma drain_keeps:
  assumes "drain_output n r = Inr (b, r')"
  shows "request_id r' = request_id r \<and> status r' = status r"
  using assms by (auto simp: drain_output_def Let_def res_bind_eq_Inr require_def split: if_splits)

lemma verify_keeps:
  assumes "verify_drafts P out b r st = (r', st')"
  shows "request_id r' = request_id r \<and> status r' = status r"
  using assms by (auto simp: verify_drafts_def Let_def split: if_splits)

lemma others_same_trans: "others_same q l l1 \<Longrightarrow> others_same q l1 l2 \<Longrightarrow> others_same q l l2"
  by (simp add: others_same_def)

lemma output_one_ok:
  fixes l l' :: "('c, 'x, 'q, 'h, 'k) life_state"
  assumes "queue_laws ids Y" "finished_states X" "reply_laws A X" "loop_ok ids X acc l" "stops_cleanly X A V C P l q out"
    and "output_one cd K X E Y V A C P routed q out (l, acc) = Inr (l', acc')"
  shows "loop_ok ids X acc' l' \<and> others_same q l l'"
proof (cases "requests (store l) q")
  case None
  then have "l' = l" "acc' = acc" using assms(6) by (auto simp: output_one_def require_bind_eq_Inr)
  then show ?thesis using assms(4) by (simp add: others_same_def)
next
  case (Some r)
  obtain stale r1 where d: "drain_output (num_tokens_scheduled out) r = Inr (stale, r1)"
    using assms(6) Some by (auto simp: output_one_def require_bind_eq_Inr res_bind_eq_Inr)
  note keep1 = drain_keeps[OF d]
  show ?thesis
  proof (cases "kv_load_failed out \<or> status_is_finished X (status r1) \<or> stale \<and> drop_stale_output r1 \<or> \<not> in_runner_batch out")
    case True
    then have "l' = put_req q r1 l" "acc' = acc" using assms(6) Some d by (simp_all add: output_one_def require_bind_eq_Inr)
    then show ?thesis using put_req_same_status[OF assms(4) Some] keep1 by simp
  next
    case False
    obtain r2 st2 where v: "verify_drafts P (output_share.truncate out) stale r1 (reply_stats acc) = (r2, st2)"
      by (cases "verify_drafts P (output_share.truncate out) stale r1 (reply_stats acc)")
    have keep2: "request_id r2 = request_id r" "status r2 = status r" using verify_keeps[OF v] keep1 by simp_all
    let ?l = "put_req q r2 l"
    note p = put_req_same_status[OF assms(4) Some keep2]
    have rr: "reply_to_request cd K X E Y V A C routed q out r2 ?l (acc\<lparr> reply_stats := st2 \<rparr>) = Inr (l', acc')"
      using assms(6) Some d v False by (simp add: output_one_def require_bind_eq_Inr)
    have l: "requests (store ?l) q = Some r2" by (simp add: put_req_def)
    have nf: "\<not> status_is_finished X (status r2)" using False keep1 keep2(2) by simp
    have ss: "sessions ?l = sessions l" by (simp add: put_req_def with_store_def)
    have r2: "r2 = fst (verify_drafts P (output_share.truncate out) stale r1 (step_stats_init (mtp_num_positions P)))"
      using arg_cong[OF v, of fst] verify_fst by (metis fst_conv)
    have clean: "status r2 = RUNNING \<or> status r2 \<noteq> WAITING_FOR_STREAMING_REQ \<and> \<not> resumable ss1"
      if "sessions ?l q = Some ss" "reply_stops A V C out r2 ss = Some ss1" for ss ss1
    proof -
      have "share_stops X A V C P out r ss = Some ss1" using that(2) d False r2 by (simp add: share_stops_def)
      then show ?thesis using assms(5) Some that(1) ss keep2(2) by (simp add: stops_cleanly_def)
    qed
    have "loop_ok ids X acc' l' \<and> others_same q ?l l'"
      by (rule reply_to_request_ok[OF assms(1-3) _ l nf clean rr]) (use p(1) in simp)
    then show ?thesis using others_same_trans[OF p(2)] by blast
  qed
qed

lemma output_loop_ok:
  assumes "queue_laws ids Y" "finished_states X" "reply_laws A X"
  shows "loop_ok ids X (snd la) (fst la) \<Longrightarrow> distinct (map fst outs) \<Longrightarrow> \<forall>(q, out) \<in> set outs. stops_cleanly X A V C P (fst la) q out \<Longrightarrow>
    output_loop cd K X E Y V A C P routed outs la = Inr la' \<Longrightarrow> loop_ok ids X (snd la') (fst la')"
proof (induction outs arbitrary: la)
  case (Cons o1 outs)
  obtain q out where o1: "o1 = (q, out)" by (cases o1)
  obtain l acc where la: "la = (l, acc)" by (cases la)
  obtain l1 acc1 where one: "output_one cd K X E Y V A C P routed q out (l, acc) = Inr (l1, acc1)"
    and rest: "output_loop cd K X E Y V A C P routed outs (l1, acc1) = Inr la'"
    using Cons.prems(4) o1 la by (auto simp: res_bind_eq_Inr)
  have s: "loop_ok ids X acc1 l1 \<and> others_same q l l1"
    by (rule output_one_ok[OF assms _ _ one]) (use Cons.prems(1,3) o1 la in auto)
  have "\<forall>(p, out') \<in> set outs. stops_cleanly X A V C P l1 p out'"
  proof safe
    fix p out' assume p: "(p, out') \<in> set outs"
    then have "p \<noteq> q" using Cons.prems(2) o1 by (auto simp: rev_image_eqI)
    then have "requests (store l1) p = requests (store l) p" "sessions l1 p = sessions l p" using s by (simp_all add: others_same_def)
    moreover have "stops_cleanly X A V C P l p out'" using Cons.prems(3) p la by auto
    ultimately show "stops_cleanly X A V C P l1 p out'" using stops_cleanly_cong by blast
  qed
  then show ?case using s rest Cons.prems(2) by (intro Cons.IH[where la = "(l1, acc1)"]) simp_all
qed simp

lemma remove_stopped_ok:
  assumes "queue_laws ids Y" "finished_states X" "loop_ok ids X acc l"
  shows "life_ok ids X (remove_stopped Y acc l)"
proof -
  let ?S = "stopped_running_reqs acc" and ?Q = "stopped_preempted_reqs acc" and ?l' = "remove_stopped Y acc l"
  have ra: "remove_all Y xs U = filter (\<lambda>q. q \<notin> U) xs" for xs U using assms(1) by (simp add: queue_laws_def)
  have l': "running_queue ?l' = filter (\<lambda>q. q \<notin> ?S) (running_queue l)"
    "queued ids ?l' side = filter (\<lambda>q. q \<notin> ?Q) (queued ids l side)"
    "requests (store ?l') = requests (store l)" "sessions ?l' = sessions l" "streaming_inputs ?l' = streaming_inputs l" for side
    by (cases "?S = {}"; cases "?Q = {}"; simp add: remove_stopped_def Let_def ra queue_removal[OF assms(1)])+
  have st: "status_of ?l' q = status_of l q" "alive X ?l' q = alive X l q" for q
    using l'(3) by (simp_all add: status_of_def alive_def)
  have inv: "\<forall>q. q \<in> set (queued ids l Waiting) \<union> set (queued ids l Skipped) \<longleftrightarrow>
           alive X l q \<and> status_of l q \<noteq> Some RUNNING \<or> q \<in> ?Q" "\<forall>q \<in> ?Q. \<not> alive X l q"
    "\<forall>q. q \<in> set (running_queue l) \<longleftrightarrow> status_of l q = Some RUNNING \<or> q \<in> ?S" "\<forall>q \<in> ?S. status_of l q \<noteq> Some RUNNING"
    "streaming_inputs l = int (card (paused ids l))" "registered l" "distinct (running_queue l)" "\<And>side. distinct (queued ids l side)"
    "set (queued ids l Waiting) \<inter> set (queued ids l Skipped) = {}" "\<forall>q \<in> set (queued ids l Waiting). unblocked l q"
    using assms(3) unfolding mid_ok_def by blast+
  have "\<not> alive X l q \<Longrightarrow> status_of l q \<noteq> Some WAITING_FOR_STREAMING_REQ" for q
    using assms(2) by (auto simp: alive_iff finished_states_def)
  then have "paused ids ?l' = paused ids l" using l'(2) st inv(2) by (auto simp: paused_def)
  have "mid_ok ids X {} {} ?l'"
  proof (rule mid_okI)
    show "q \<in> set (running_queue ?l') \<longleftrightarrow> status_of ?l' q = Some RUNNING \<or> q \<in> {}" for q
      unfolding l' st using inv(3,4) by auto
    show "q \<in> set (queued ids ?l' Waiting) \<union> set (queued ids ?l' Skipped) \<longleftrightarrow>
        alive X ?l' q \<and> status_of ?l' q \<noteq> Some RUNNING \<or> q \<in> {}" for q
      unfolding l' st using inv(1,2) by auto
    show "unblocked ?l' q" if "q \<in> set (queued ids ?l' Waiting)" for q
      using that inv(10) by (simp add: l'(2) unblocked_def st)
    show "registered ?l'" using inv(6) l'(3,4) by (simp add: registered_def)
  qed (use inv(5,7-9) \<open>paused ids ?l' = paused ids l\<close> in \<open>auto simp: l'\<close>)
  then show ?thesis by (simp add: mid_ok_start)
qed

section \<open>The other steps\<close>

text \<open>Nothing moves and no request changes its id or status.\<close>

definition same_places :: "('c, 'x, 'q, 'h, 'k) life_state \<Rightarrow> ('c, 'x, 'q, 'h, 'k) life_state \<Rightarrow> bool" where
  "same_places l l' \<longleftrightarrow> running_queue l' = running_queue l \<and> (\<forall>side. side_queue side (wait l') = side_queue side (wait l))
     \<and> streaming_inputs l' = streaming_inputs l \<and> sessions l' = sessions l
     \<and> (\<forall>q. map_option (\<lambda>r. (request_id r, status r)) (requests (store l') q)
           = map_option (\<lambda>r. (request_id r, status r)) (requests (store l) q))"

lemma same_places_status:
  fixes l l' :: "('c, 'x, 'q, 'h, 'k) life_state"
  assumes "same_places l l'"
  shows "status_of l' q = status_of l q"
proof -
  have "status_of k q = map_option snd (map_option (\<lambda>r. (request_id r, status r)) (requests (store k) q))"
    for k :: "('c, 'x, 'q, 'h, 'k) life_state"
    by (simp add: status_of_def option.map_comp comp_def)
  then show ?thesis using assms by (simp add: same_places_def)
qed

lemma same_places_life_ok:
  assumes "life_ok ids X l" "same_places l l'"
  shows "life_ok ids X l'"
proof (rule life_same[OF assms(1)])
  show "registered l'"
    unfolding registered_def
  proof (intro allI impI)
    fix q r assume "requests (store l') q = Some r"
    moreover have "map_option (\<lambda>r. (request_id r, status r)) (requests (store l') q)
        = map_option (\<lambda>r. (request_id r, status r)) (requests (store l) q)" using assms(2) by (simp add: same_places_def)
    ultimately obtain r0 where "requests (store l) q = Some r0" "request_id r = request_id r0" by (cases "requests (store l) q") auto
    then show "request_id r = q \<and> sessions l' q \<noteq> None"
      using life_ok_registered[OF assms(1)] assms(2) by (simp add: registered_def same_places_def)
  qed
qed (use assms(2) same_places_status[OF assms(2)] in \<open>simp_all add: same_places_def\<close>)

lemma same_places_trans: "same_places l l1 \<Longrightarrow> same_places l1 l2 \<Longrightarrow> same_places l l2"
  by (simp add: same_places_def)

lemma same_places_store:
  assumes "waiting_queue (f (store l)) = waiting_queue (store l)"
    "\<And>q. map_option (\<lambda>r. (request_id r, status r)) (requests (f (store l)) q) = map_option (\<lambda>r. (request_id r, status r)) (requests (store l) q)"
  shows "same_places l (with_store f l)"
  using assms by (simp add: same_places_def all_sides waiting_side with_store_def with_sched_def)

lemma return_drained_same: "same_places l (with_store (return_drained K n) l)"
  by (rule same_places_store) (simp_all add: return_drained_def apply_fence_def Let_def)

lemma invalid_scan_same:
  "update_requests_with_invalid_blocks K bsz invalid nst evict qs acc s = Inr (acc', s') \<Longrightarrow>
     waiting_queue s' = waiting_queue s
     \<and> (\<forall>q. map_option (\<lambda>r. (request_id r, status r)) (requests s' q) = map_option (\<lambda>r. (request_id r, status r)) (requests s q))"
proof (induction qs arbitrary: acc s)
  case (Cons q qs)
  obtain r where r: "requests s q = Some r" using Cons.prems by (auto simp: res_bind_eq_Inr lookup_request_def split: option.splits)
  obtain n acc1 where "update_requests_with_invalid_blocks K bsz invalid nst evict qs acc1
      (s\<lparr> requests := (requests s)(q \<mapsto> r\<lparr> num_computed_tokens := n \<rparr>) \<rparr>) = Inr (acc', s')"
    using Cons.prems r by (auto simp: res_bind_eq_Inr lookup_request_def Let_def split: if_splits)
  from Cons.IH[OF this] show ?case using r by auto
qed simp

lemma handle_invalid_same:
  assumes "handle_invalid_blocks K Y recompute bsz invalid nst l = Inr (failed, l')"
  shows "same_places l l'"
proof -
  let ?loading = "filter (\<lambda>q. status_of l q = Some WAITING_FOR_REMOTE_KVS) (queue_iter Y (side_queue Skipped (wait l)))"
  obtain a s1 where a: "update_requests_with_invalid_blocks K bsz invalid nst False ?loading ([], scan_start) (store l) = Inr (a, s1)"
    using assms by (auto simp: handle_invalid_blocks_def Let_def res_bind_eq_Inr)
  obtain b s2 where b: "update_requests_with_invalid_blocks K bsz invalid nst True (running_queue l) ([], scan_start) s1 = Inr (b, s2)"
    using assms a by (auto simp: handle_invalid_blocks_def Let_def res_bind_eq_Inr)
  have "waiting_queue s2 = waiting_queue (store l)"
    "\<And>q. map_option (\<lambda>r. (request_id r, status r)) (requests s2 q) = map_option (\<lambda>r. (request_id r, status r)) (requests (store l) q)"
    using invalid_scan_same[OF a] invalid_scan_same[OF b] by simp_all
  then have "same_places l (with_store (\<lambda>_. s2) l)" by (intro same_places_store) simp_all
  moreover have "same_places (with_store (\<lambda>_. s2) l) l'"
    using assms a b by (auto simp: handle_invalid_blocks_def Let_def same_places_def all_sides waiting_side put_kv_def with_sched_def
        split: if_splits)
  ultimately show ?thesis by (rule same_places_trans)
qed

text \<open>A request that has ended is removed for good.\<close>

lemma life_ok_forget:
  assumes "life_ok ids X l" "frees q l l'" "\<not> alive X l q" "finished_states X"
  shows "life_ok ids X l'"
proof -
  have dead: "status_of l q \<noteq> Some RUNNING" "status_of l q \<noteq> Some WAITING_FOR_STREAMING_REQ"
    using assms(3,4) by (auto simp: alive_iff finished_states_def)
  have k: "running_queue l' = running_queue l" "\<forall>side. side_queue side (wait l') = side_queue side (wait l)"
    "streaming_inputs l' = streaming_inputs l"
    using assms(2) by (auto simp: frees_def all_sides waiting_side)
  have here: "requests (store l') p = requests (store l) p \<or> p = q \<and> requests (store l') q = None" for p
    using assms(2) by (auto simp: frees_def)
  have al: "alive X l' p = alive X l p" for p using here[of p] assms(3) by (auto simp: alive_def)
  have st: "status_of l' p = Some st \<longleftrightarrow> status_of l p = Some st" if "st \<in> {RUNNING, WAITING_FOR_STREAMING_REQ}" for p st
  proof (cases "requests (store l') p = requests (store l) p")
    case True
    then show ?thesis by (simp add: status_of_def)
  next
    case False
    then have "p = q" "requests (store l') q = None" using here[of p] by auto
    then have "status_of l' p = None" by (simp add: status_of_def)
    then show ?thesis using dead that \<open>p = q\<close> by auto
  qed
  have reg: "registered l'"
    unfolding registered_def
  proof (intro allI impI)
    fix p r assume p: "requests (store l') p = Some r"
    have "requests (store l') p = requests (store l) p" using here[of p] p by auto
    moreover have "sessions l' p = sessions l p" using assms(2) p unfolding frees_def by (cases "p = q") simp_all
    moreover from calculation have "requests (store l) p = Some r" using p by simp
    then have "request_id r = p \<and> sessions l p \<noteq> None" using life_ok_registered[OF assms(1)] unfolding registered_def by blast
    ultimately show "request_id r = p \<and> sessions l' p \<noteq> None" by simp
  qed
  have st1: "status_of l' p = Some RUNNING \<longleftrightarrow> status_of l p = Some RUNNING" for p by (rule st) simp
  have st2: "status_of l' p = Some WAITING_FOR_STREAMING_REQ \<longleftrightarrow> status_of l p = Some WAITING_FOR_STREAMING_REQ" for p
    by (rule st) simp
  have "status_of l' p = status_of l p \<or> status_of l' p = None" for p using here[of p] by (auto simp: status_of_def)
  then have un: "unblocked l p \<Longrightarrow> unblocked l' p" for p unfolding unblocked_def by (metis empty_iff insertE option.distinct(1))
  then have "(\<forall>p \<in> set (queued ids l Waiting). unblocked l p) \<Longrightarrow> \<forall>p \<in> set (queued ids l Waiting). unblocked l' p" by blast
  moreover have "paused ids l' = paused ids l" by (simp only: paused_def k(2)[rule_format] st2)
  ultimately show ?thesis
    using assms(1) reg unfolding mid_ok_start mid_ok_def by (simp only: k(1,3) k(2)[rule_format] al st1) simp
qed

lemma receive_finished_ok:
  assumes "finished_states X"
  shows "life_ok ids X l \<Longrightarrow> receive_finished K X qs l = Inr l' \<Longrightarrow> life_ok ids X l'"
proof (induction qs arbitrary: l)
  case (Cons q qs)
  obtain r where r: "requests (store l) q = Some r" using Cons.prems(2) by (cases "requests (store l) q") auto
  obtain l1 where one: "(if status r = WAITING_FOR_REMOTE_KVS
        then Inr (l\<lparr> wait := (wait l)\<lparr> finished_recving := insert q (finished_recving (wait l)) \<rparr> \<rparr>)
        else if status_is_finished X (status r) then free_blocks_of K X q l else Inl AssertionError) = Inr l1"
    and rest: "receive_finished K X qs l1 = Inr l'"
    using Cons.prems(2) r by (auto simp: res_bind_eq_Inr split del: if_split)
  have "life_ok ids X l1"
  proof (cases "status r = WAITING_FOR_REMOTE_KVS")
    case True
    then have "same_places l l1" using one by (auto simp: same_places_def all_sides waiting_side)
    then show ?thesis using Cons.prems(1) same_places_life_ok by blast
  next
    case False
    then have f: "status_is_finished X (status r)" "free_blocks_of K X q l = Inr l1" using one by (auto split: if_splits)
    have "frees q l l1" using free_blocks_frees[OF f(2)] by blast
    then show ?thesis using life_ok_forget[OF Cons.prems(1) _ _ assms] f(1) r by (simp add: alive_def)
  qed
  then show ?case using rest Cons.IH by blast
qed simp

lemma send_finished_ok:
  assumes "finished_states X"
  shows "life_ok ids X l \<Longrightarrow> send_finished K X qs l = Inr l' \<Longrightarrow> life_ok ids X l'"
proof (induction qs arbitrary: l)
  case (Cons q qs)
  obtain r where r: "requests (store l) q = Some r" using Cons.prems(2) by (cases "requests (store l) q") auto
  obtain l1 where one: "free_blocks_of K X q l = Inr l1" and rest: "send_finished K X qs l1 = Inr l'"
    using Cons.prems(2) r by (auto simp: res_bind_eq_Inr)
  have "status_is_finished X (status r)" using one r by (auto simp: free_blocks_of_def lookup_request_def res_bind_eq_Inr require_def split: if_splits)
  moreover have "frees q l l1" using free_blocks_frees[OF one] by blast
  ultimately have "life_ok ids X l1" using life_ok_forget[OF Cons.prems(1) _ _ assms] r by (simp add: alive_def)
  then show ?case using rest Cons.IH by blast
qed simp

lemma kv_xfer_ok:
  assumes "finished_states X" "life_ok ids X l" "update_from_kv_xfer_finished K X Y recving sending l = Inr l'"
  shows "life_ok ids X l'"
proof -
  define l1 where "l1 = (if has_connector Y
          then l\<lparr> wait := (wait l)\<lparr> connector_state := update_connector_output Y (connector_state (wait l)) \<rparr> \<rparr> else l)"
  have "same_places l l1" by (simp add: l1_def same_places_def all_sides waiting_side)
  then have ok: "life_ok ids X l1" using assms(2) same_places_life_ok by blast
  obtain l2 where "receive_finished K X recving l1 = Inr l2" "send_finished K X sending l2 = Inr l'"
    using assms(3) by (auto simp: update_from_kv_xfer_finished_def l1_def[symmetric] Let_def res_bind_eq_Inr)
  then show ?thesis using receive_finished_ok[OF assms(1) ok] send_finished_ok[OF assms(1)] by blast
qed

lemma fail_requests_ok:
  assumes "queue_laws ids Y" "finished_states X" "takes_all_groups Y" "life_ok ids X l"
    and "\<And>U. distinct (iterate A U)" "fail_requests cd K X Y A failed l = Inr (outs, l')"
  shows "life_ok ids X l'"
proof -
  let ?l1 = "l\<lparr> wait := (wait l)\<lparr> grammar_compile_errors := {} \<rparr> \<rparr>"
  let ?e = "grammar_compile_errors (wait l) \<union> failed"
  have "same_places l ?l1" by (simp add: same_places_def all_sides waiting_side)
  then have ok: "life_ok ids X ?l1" using assms(4) same_places_life_ok by blast
  show ?thesis
  proof (cases "?e = {}")
    case True
    then show ?thesis using assms(6) ok by (simp add: fail_requests_def Let_def)
  next
    case False
    obtain qs where f: "finish_requests cd K X Y FINISHED_ERROR (iterate A ?e) ?l1 = Inr (qs, l')"
      using assms(6) unfolding fail_requests_def Let_def if_not_P[OF False] by (auto simp: res_bind_eq_Inr)
    have "status_is_finished X FINISHED_ERROR" using assms(2) by (simp add: finished_states_def)
    from finish_requests_ok[OF assms(1-3) ok assms(5)[of ?e] this, where cd = cd and K = K]
    show ?thesis unfolding f by (elim exE conjE) simp
  qed
qed

lemma report_finished_same: "same_places l (snd (report_finished l))"
  by (simp add: report_finished_def same_places_def split: option.splits)

text \<open>The state with the blocks taken back that failed to load, and the requests that are passed over for them.\<close>

definition kv_failures ::
  "('c, 'h, 'e) coordinator \<Rightarrow> ('q, 'h, 'k, 'p) life_ext \<Rightarrow> bool \<Rightarrow> int \<Rightarrow> runner_output \<Rightarrow> ('c, 'x, 'q, 'h, 'k) life_state
   \<Rightarrow> (string set \<times> ('c, 'x, 'q, 'h, 'k) life_state) res" where
  "kv_failures K Y recompute bsz ro l =
     (let l0 = with_store (return_drained K (output_total_tokens ro)) l in
      case kv_output ro of
        Some (invalid, _, _) \<Rightarrow> if invalid \<noteq> {} then handle_invalid_blocks K Y recompute bsz invalid (num_scheduled ro) l0 else Inr ({}, l0)
      | None \<Rightarrow> Inr ({}, l0))"

text \<open>No stream is stopped by its share of the output while it is not running.\<close>

definition outputs_stop_cleanly ::
  "('c, 'h, 'e) coordinator \<Rightarrow> ('x, 'q, 'h) sched_ext \<Rightarrow> ('q, 'h, 'k, 'p) life_ext \<Rightarrow> ('q, 'k, 'h) waiting_ext \<Rightarrow> 'h reply_ext
   \<Rightarrow> running_config \<Rightarrow> sched_params \<Rightarrow> bool \<Rightarrow> int \<Rightarrow> runner_output \<Rightarrow> ('c, 'x, 'q, 'h, 'k) life_state \<Rightarrow> bool" where
  "outputs_stop_cleanly K X Y V A C P recompute bsz ro l \<longleftrightarrow>
     (case kv_failures K Y recompute bsz ro l of
        Inl _ \<Rightarrow> True
      | Inr (failed, l1) \<Rightarrow> \<forall>(q, out) \<in> set (shares ro). stops_cleanly X A V C P l1 q (out\<lparr> kv_load_failed := q \<in> failed \<rparr>))"

lemma update_from_output_ok:
  fixes l l' :: "('c, 'x, 'q, 'h, 'k) life_state"
  assumes "queue_laws ids Y" "finished_states X" "takes_all_groups Y" "reply_laws A X" "\<And>U. distinct (iterate A U)"
    and "life_ok ids X l" "distinct (map fst (shares ro))" "outputs_stop_cleanly K X Y V A C P recompute bsz ro l"
    and "update_from_output cd K X E Y V A C P routed recompute bsz ctrl ro l = Inr (outs, finished, ctrl', l')"
  shows "life_ok ids X l'"
proof -
  let ?l0 = "with_store (return_drained K (output_total_tokens ro)) l"
  obtain failed l1 where a: "(case kv_output ro of
          Some (invalid, _, _) \<Rightarrow> if invalid \<noteq> {} then handle_invalid_blocks K Y recompute bsz invalid (num_scheduled ro) ?l0 else Inr ({}, ?l0)
        | None \<Rightarrow> Inr ({}, ?l0)) = Inr (failed, l1)"
    using assms(9) unfolding update_from_output_def Let_def res_bind_eq_Inr by (auto split del: if_split)
  let ?outs = "map (\<lambda>(q, out). (q, out\<lparr> kv_load_failed := q \<in> failed \<rparr>)) (shares ro)"
  let ?acc = "\<lparr> replies = [], stopped_running_reqs = {}, stopped_preempted_reqs = {},
                 reply_stats = step_stats_init (mtp_num_positions P) \<rparr>"
  obtain l2 acc where b: "output_loop cd K X E Y V A C P routed ?outs (l1, ?acc) = Inr (l2, acc)"
    using assms(9) unfolding update_from_output_def Let_def a res_bind_simps prod.case
    by (cases "output_loop cd K X E Y V A C P routed ?outs (l1, ?acc)") auto
  obtain c1 u where u: "(case ctrl of None \<Rightarrow> (None, Inr None)
            | Some c \<Rightarrow> let (c', u) = observe_step c (reply_stats acc) in (Some c', u)) = (c1, u)" by fastforce
  let ?errs = "fail_requests cd K X Y A (if recompute then {} else failed) (remove_stopped Y acc l2)"
  obtain errors l3 where c: "?errs = Inr (errors, l3)"
    using assms(9) unfolding update_from_output_def Let_def a res_bind_simps prod.case b u[unfolded Let_def]
    by (cases ?errs) (auto simp: res_bind_eq_Inr)
  obtain l4 where d: "(case kv_output ro of
          Some (_, recving, sending) \<Rightarrow> update_from_kv_xfer_finished K X Y recving sending l3
        | None \<Rightarrow> Inr l3) = Inr l4"
    and l': "l' = snd (report_finished (l4\<lparr> wait := put_kv (snd (take_events K (kv_manager (store l4)))) (wait l4) \<rparr>))"
    using assms(9) unfolding update_from_output_def Let_def a res_bind_simps prod.case b u[unfolded Let_def] c
    by (auto simp: res_bind_eq_Inr split_beta)
  have "same_places l0 l0" for l0 :: "('c, 'x, 'q, 'h, 'k) life_state" by (simp add: same_places_def)
  then have "same_places ?l0 l1"
    using a handle_invalid_same[where l = ?l0 and l' = l1] by (auto split: option.splits prod.splits if_splits)
  then have s1: "same_places l l1" using same_places_trans return_drained_same by blast
  have start: "loop_ok ids X (snd (l1, ?acc)) (fst (l1, ?acc))"
    using same_places_life_ok[OF assms(6) s1] by (simp add: mid_ok_start)
  have fst_outs: "map fst ?outs = map fst (shares ro)" by (simp add: comp_def split_beta)
  then have names: "distinct (map fst ?outs)" using assms(7) by (simp only:)
  have "kv_failures K Y recompute bsz ro l = Inr (failed, l1)" using a by (simp add: kv_failures_def Let_def)
  then have clean: "\<forall>(q, out) \<in> set ?outs. stops_cleanly X A V C P (fst (l1, ?acc)) q out"
    using assms(8) by (auto simp: outputs_stop_cleanly_def)
  have "loop_ok ids X acc l2" using output_loop_ok[OF assms(1,2,4) start names clean b] by simp
  then have "life_ok ids X (remove_stopped Y acc l2)" by (rule remove_stopped_ok[OF assms(1,2)])
  from fail_requests_ok[OF assms(1-3) this assms(5) c] have l3: "life_ok ids X l3" .
  have l4: "life_ok ids X l4"
    using d l3 kv_xfer_ok[OF assms(2) l3] by (auto split: option.splits prod.splits)
  have "same_places l4 (l4\<lparr> wait := put_kv (snd (take_events K (kv_manager (store l4)))) (wait l4) \<rparr>)"
    by (simp add: same_places_def all_sides waiting_side put_kv_def with_sched_def)
  then show ?thesis unfolding l' using same_places_life_ok[OF l4] same_places_trans report_finished_same by blast
qed

section \<open>The life of a request\<close>

text \<open>
  C34. Finishing requests always succeeds and leaves no trace in the queues. With the queue classes and statuses of
  the code, the call returns the named requests that were alive; every named request has ended, is in no queue
  and counts as paused no more, and every other request is untouched and keeps its place and its order.
\<close>

theorem finish_requests_ends:
  assumes "queue_laws ids Y" "finished_states X" "takes_all_groups Y" "life_ok ids X l" "distinct qs" "status_is_finished X st"
  shows "\<exists>l'. finish_requests cd K X Y st qs l = Inr (filter (alive X l) qs, l') \<and> life_ok ids X l'
    \<and> (\<forall>q \<in> set qs. \<not> alive X l' q)
    \<and> (\<forall>q. q \<notin> set qs \<longrightarrow> requests (store l') q = requests (store l) q \<and> sessions l' q = sessions l q)
    \<and> running_queue l' = filter (\<lambda>q. q \<notin> set qs) (running_queue l)
    \<and> (\<forall>side. queued ids l' side = filter (\<lambda>q. q \<notin> set qs) (queued ids l side))"
  by (rule finish_requests_ok[OF assms])

text \<open>
  C35. Adding a request does what its case asks for, and keeps every request in one queue that fits its status. A new
  request is stored and enqueued: with the waiting ones, or with the skipped ones if its grammar has to be compiled
  first. The next chunk of a stream is kept for later, or it resumes the paused request where it is, or it ends it.
  Other requests are untouched, and the paused ones are counted exactly.
\<close>

theorem add_request_keeps_places:
  assumes "queue_laws ids Y" "finished_states X" "takes_all_groups Y" "life_ok ids X l"
    and "case requests (store l) (request_id r) of
        None \<Rightarrow> status r \<in> {WAITING, WAITING_FOR_STRUCTURED_OUTPUT_GRAMMAR} | Some _ \<Rightarrow> takes_chunks l (request_id r)"
  shows "\<exists>l'. add_request cd K X Y r ss l = Inr l' \<and> life_ok ids X l' \<and> add_effect ids X Y r ss l l'
    \<and> (\<forall>q. q \<noteq> request_id r \<longrightarrow> requests (store l') q = requests (store l) q \<and> sessions l' q = sessions l q)"
proof (cases "requests (store l) (request_id r)")
  case None
  then show ?thesis using add_fresh[OF assms(1,4) None assms(2)] assms(5) by simp
next
  case (Some old)
  then show ?thesis using add_chunk[OF assms(1-4) Some] assms(5) by simp
qed

text \<open>
  C32. Processing the outputs of a step keeps every request in its place. Whatever stops, resumes, fails or is
  transferred while \<^verbatim>\<open>update_from_output\<close> runs, every request that is alive afterwards is in exactly one queue,
  which fits its status, and the paused ones are counted exactly, if no output stops a request that is then
  paused, or that is a stream and not running (as after a preemption).
\<close>

theorem outputs_keep_places:
  assumes "queue_laws ids Y" "finished_states X" "takes_all_groups Y" "reply_laws A X" "\<And>U. distinct (iterate A U)"
    and "life_ok ids X l" "distinct (map fst (shares ro))" "outputs_stop_cleanly K X Y V A C P recompute bsz ro l"
    and "update_from_output cd K X E Y V A C P routed recompute bsz ctrl ro l = Inr (outs, finished, ctrl', l')"
  shows "life_ok ids X l'"
  by (rule update_from_output_ok[OF assms])

text \<open>
  C36. The count of unfinished requests is exact. While every request is in its place, the count that keeps the engine
  stepping is the number of requests that are alive and not waiting for the next chunk of their stream.
\<close>

theorem unfinished_count_is_exact:
  assumes "life_ok ids X l" "finished_states X" "\<forall>x. queue_len V x = length (ids x)"
  shows "get_num_unfinished_requests V UNPAUSED l = int (card {q. alive X l q \<and> status_of l q \<noteq> Some WAITING_FOR_STREAMING_REQ})
    \<and> get_num_unfinished_requests V PAUSED_NEW l = int (card {q. status_of l q = Some RUNNING})"
proof
  show "get_num_unfinished_requests V UNPAUSED l = int (card {q. alive X l q \<and> status_of l q \<noteq> Some WAITING_FOR_STREAMING_REQ})"
    using count_unfinished[OF assms(1,2)] assms(3) by (simp add: get_num_unfinished_requests_def)
  have "set (running_queue l) = {q. status_of l q = Some RUNNING}" "distinct (running_queue l)"
    using assms(1) by (auto simp: life_ok_def)
  then show "get_num_unfinished_requests V PAUSED_NEW l = int (card {q. status_of l q = Some RUNNING})"
    using distinct_card[of "running_queue l"] by (simp add: get_num_unfinished_requests_def)
qed

section \<open>A concrete step\<close>

abbreviation names :: "nat sched_request list \<Rightarrow> string list" where
  "names \<equiv> map request_id"

lemma life_demo_laws: "queue_laws names life_other" "finished_states life_states" "takes_all_groups life_other"
  by (auto simp: queue_laws_def life_other_def finished_states_def life_states_def takes_all_groups_def filter_map comp_def)

lemma life_start_simps:
  "running_queue (life_start runs ws ks streams n) = names runs" "queued names (life_start runs ws ks streams n) Waiting = names ws"
  "queued names (life_start runs ws ks streams n) Skipped = names ks" "streaming_inputs (life_start runs ws ks streams n) = n"
  "requests (store (life_start runs ws ks streams n)) = map_of (map (\<lambda>r. (request_id r, r)) (runs @ ws @ ks))"
  by (simp_all add: life_start_def Let_def run_sched_def waiting_side)

lemma life_demo_ok: "life_ok names life_states life_demo"
proof -
  have w: "\<forall>q \<in> set (queued names life_demo Waiting). unblocked life_demo q" by code_simp
  have s: "status_of life_demo q = (if q = ''r'' then Some RUNNING else if q = ''w'' then Some WAITING
      else if q = ''p'' then Some WAITING_FOR_STREAMING_REQ else None)" for q
    by (simp add: status_of_def life_demo_def life_start_simps life_request_def run_request_def)
  have q: "running_queue life_demo = [''r'']" "queued names life_demo Waiting = [''w'']" "queued names life_demo Skipped = [''p'']"
    "streaming_inputs life_demo = 1"
    by (simp_all add: life_demo_def life_start_simps life_request_def run_request_def)
  have a: "alive life_states life_demo p \<longleftrightarrow> p \<in> {''r'', ''w'', ''p''}" for p
    by (auto simp: alive_iff s life_states_def split: if_splits)
  have "requests (store life_demo) = [''r'' \<mapsto> life_request ''r'' RUNNING 1, ''w'' \<mapsto> life_request ''w'' WAITING 0,
      ''p'' \<mapsto> life_request ''p'' WAITING_FOR_STREAMING_REQ 0]"
    by (auto simp: life_demo_def life_start_simps life_request_def run_request_def)
  moreover have "sessions life_demo = (\<lambda>q. if q \<in> {''r'', ''w'', ''p''} then Some (life_session (q \<noteq> ''w'')) else None)"
    by (auto simp: life_demo_def life_start_def Let_def life_request_def run_request_def)
  ultimately have "registered life_demo"
    by (auto simp: registered_def life_request_def run_request_def split: if_splits)
  moreover have "paused names life_demo = {''p''}" by (auto simp: paused_def q s)
  ultimately show ?thesis using w by (auto simp: life_ok_def q s a registered_def)
qed

theorem finish_requests_ends_witness:
  "\<exists>l'. finish_requests cdiv_ref run_coord life_states life_other FINISHED_ABORTED [''r'', ''p'', ''z''] life_demo
      = Inr ([''r'', ''p''], l') \<and> life_ok names life_states l' \<and> queued names l' Skipped = []"
proof -
  have "status_is_finished life_states FINISHED_ABORTED" by (simp add: life_states_def)
  moreover have "filter (alive life_states life_demo) [''r'', ''p'', ''z''] = [''r'', ''p'']" by code_simp
  moreover have "queued names life_demo Skipped = [''p'']"
    by (simp add: life_demo_def life_start_simps life_request_def run_request_def)
  moreover obtain l' where "finish_requests cdiv_ref run_coord life_states life_other FINISHED_ABORTED [''r'', ''p'', ''z''] life_demo
      = Inr (filter (alive life_states life_demo) [''r'', ''p'', ''z''], l')" "life_ok names life_states l'"
    "queued names l' Skipped = filter (\<lambda>q. q \<notin> set [''r'', ''p'', ''z'']) (queued names life_demo Skipped)"
    using finish_requests_ends[OF life_demo_laws life_demo_ok _ calculation(1), of "[''r'', ''p'', ''z'']" cdiv_ref run_coord]
    by auto
  ultimately show ?thesis by simp
qed

theorem add_request_keeps_places_witness:
  "(\<exists>l'. add_request cdiv_ref run_coord life_states life_other (life_request ''p'' WAITING 0) (life_session True) life_demo = Inr l'
      \<and> life_ok names life_states l' \<and> add_effect names life_states life_other (life_request ''p'' WAITING 0) (life_session True) life_demo l')
   \<and> (\<exists>l'. add_request cdiv_ref run_coord life_states life_other (life_request ''n'' WAITING 0) (life_session True) life_demo = Inr l'
      \<and> life_ok names life_states l' \<and> set (queued names l' Waiting) = {''n'', ''w''} \<and> set (queued names l' Skipped) = {''p''})"
proof -
  have reqs: "requests (store life_demo) ''p'' = Some (life_request ''p'' WAITING_FOR_STREAMING_REQ 0)"
    "requests (store life_demo) ''n'' = None"
    and ids: "request_id (life_request ''p'' WAITING 0) = ''p''" "request_id (life_request ''n'' WAITING 0) = ''n''"
      "status (life_request ''n'' WAITING 0) = WAITING"
    and queues: "queued names life_demo Waiting = [''w'']" "queued names life_demo Skipped = [''p'']"
    by (simp_all add: life_demo_def life_start_simps life_request_def run_request_def)
  have sets: "set (queued names life_demo Waiting) = {''w''}" "set (queued names life_demo Skipped) = {''p''}"
    unfolding queues by simp_all
  have "takes_chunks life_demo ''p''"
    by (simp add: takes_chunks_def life_demo_def life_start_def Let_def life_request_def run_request_def life_session_def)
  then have "\<exists>l'. add_request cdiv_ref run_coord life_states life_other (life_request ''p'' WAITING 0) (life_session True) life_demo = Inr l'
      \<and> life_ok names life_states l' \<and> add_effect names life_states life_other (life_request ''p'' WAITING 0) (life_session True) life_demo l'"
    using add_request_keeps_places[OF life_demo_laws life_demo_ok, of "life_request ''p'' WAITING 0" cdiv_ref run_coord "life_session True"]
      reqs ids by auto
  moreover obtain l' where
    "add_request cdiv_ref run_coord life_states life_other (life_request ''n'' WAITING 0) (life_session True) life_demo = Inr l'"
    "life_ok names life_states l'" "add_effect names life_states life_other (life_request ''n'' WAITING 0) (life_session True) life_demo l'"
    using add_request_keeps_places[OF life_demo_laws life_demo_ok, of "life_request ''n'' WAITING 0" cdiv_ref run_coord "life_session True"]
      reqs ids by auto
  moreover from this(3) have "set (queued names l' Waiting) = {''n'', ''w''}" "set (queued names l' Skipped) = {''p''}"
    using reqs ids sets by (simp_all add: add_effect_def Let_def)
  ultimately show ?thesis by blast
qed

theorem unfinished_count_is_exact_witness:
  "get_num_unfinished_requests wait_ext UNPAUSED life_demo
     = int (card {q. alive life_states life_demo q \<and> status_of life_demo q \<noteq> Some WAITING_FOR_STREAMING_REQ})"
  by (rule unfinished_count_is_exact[OF life_demo_ok life_demo_laws(2), THEN conjunct1]) (simp add: wait_ext_def)

text \<open>A request stops at the token 0, and every token is appended.\<close>

definition life_reply :: "nat reply_ext" where
  "life_reply = \<lparr> append_output_token_ids = (\<lambda>t (r, ss). (r\<lparr> num_tokens := num_tokens r + 1 \<rparr>,
       ss\<lparr> all_token_ids := all_token_ids ss @ [t], output_token_ids := output_token_ids ss @ [t] \<rparr>)),
     check_stop = (\<lambda>n (r, ss). if last (all_token_ids ss) = 0 then (True, r\<lparr> status := FINISHED_STOPPED \<rparr>, ss) else (False, r, ss)),
     advances_on = (\<lambda>r ts. False), trim_reasoning = (\<lambda>r ts. ts), accept_tokens = (\<lambda>r ts. True),
     get_finished_reason = (\<lambda>st. Some 0), is_pooling = (\<lambda>r. False), iterate = (\<lambda>S. []) \<rparr>"

definition life_share :: "int list \<Rightarrow> step_share" where
  "life_share ts = \<lparr> num_tokens_scheduled = 1, kv_load_failed = False, in_runner_batch = True, generated_token_ids = ts,
     scheduled_spec_token_ids = [], pooler_output = None, has_prompt_logprobs = False \<rparr>"

definition life_output :: "string \<Rightarrow> runner_output" where
  "life_output q = \<lparr> shares = [(q, life_share [7, 0])], output_total_tokens = 1, kv_output = None \<rparr>"

abbreviation life_step where
  "life_step q l \<equiv> update_from_output cdiv_ref run_coord life_states demo_encoder life_other wait_ext life_reply (run_config FCFS)
     demo_params False False 16 None (life_output q) l"

lemma life_reply_laws: "reply_laws life_reply life_states"
  by (auto simp: reply_laws_def life_reply_def life_states_def split: if_splits)

theorem outputs_keep_places_witness:
  "\<exists>outs f c l'. life_step ''r'' life_demo = Inr (outs, f, c, l') \<and> life_ok names life_states l'"
proof -
  have "case life_step ''r'' life_demo of Inr _ \<Rightarrow> True | Inl _ \<Rightarrow> False" by code_simp
  then obtain outs f c l' where run: "life_step ''r'' life_demo = Inr (outs, f, c, l')" by (auto split: sum.splits)
  have "outputs_stop_cleanly run_coord life_states life_other wait_ext life_reply (run_config FCFS) demo_params False 16
      (life_output ''r'') life_demo" by code_simp
  then have "life_ok names life_states l'"
    by (intro outputs_keep_places[OF life_demo_laws life_reply_laws _ life_demo_ok _ _ run])
      (simp_all add: life_reply_def life_output_def)
  then show ?thesis using run by blast
qed

section \<open>Streams that are lost\<close>






end
