(* ===== verification/Sched_Step.thy ===== *)
theory Sched_Step
  imports Sched_Life
begin

text \<open>
  The end of \<^verbatim>\<open>schedule()\<close> in \<^verbatim>\<open>v1/core/sched/scheduler.py\<close>: what the workers are told about the new and the cached
  requests, the blocks to copy and to zero, the depth of the step, and the state it leaves; then the whole call.
  Encoder statistics, metadata of the encoder cache and of the encoder connector are left out.
\<close>

section \<open>What the workers are told\<close>

record new_request_data =
  new_req_id :: string
  new_block_ids :: "int list list"
  prefill_token_ids :: "int list option"

record cached_request_data =
  cached_req_ids :: "string list"
  resumed_req_ids :: "string set"
  cached_new_token_ids :: "int list list"
  cached_all_token_ids :: "(string \<times> int list) list"
  cached_new_block_ids :: "int list list option list"
  cached_num_computed_tokens :: "int list"
  cached_num_output_tokens :: "int list"

record scheduler_output =
  scheduled_new_requests :: "new_request_data list"
  scheduled_cached_reqs :: cached_request_data
  out_num_scheduled_tokens :: "(string \<times> int) list"
  out_total_num_scheduled_tokens :: int
  out_spec_decode_tokens :: "string \<Rightarrow> int list option"
  out_encoder_inputs :: "string \<Rightarrow> nat list option"
  out_num_common_prefix_blocks :: "int list"
  out_preempted_req_ids :: "string set"
  out_finished_req_ids :: "string set"
  out_free_encoder_mm_hashes :: "string list"
  out_new_block_ids_to_zero :: "int list option"
  out_block_copies :: "(int \<times> int) list option"
  out_partial_tail_offloads :: offloads
  out_num_spec_tokens :: int
  out_has_structured_output :: bool

text \<open>
  The settings of this part, and the functions of the coordinator, the encoder cache and the connector that only it
  calls. \<open>attn_gid\<close> is the attention group of the routed experts, when they are returned.
\<close>

record ('c, 'x, 'k) step_ext =
  use_v2_model_runner :: bool
  sends_sampled_tokens :: bool
  takes_partial_tails :: bool
  static_num_spec_tokens :: int
  dynamic_sd_lookup :: "int list option"
  attn_gid :: "nat option"
  get_num_common_prefix_blocks :: "string \<Rightarrow> 'c \<Rightarrow> int list"
  get_freed_mm_hashes :: "'x \<Rightarrow> string list \<times> 'x"
  build_connector_meta :: "scheduler_output \<Rightarrow> 'k \<Rightarrow> 'k"

text \<open>The blocks given to a request in this step.\<close>

definition step_blocks :: "('c, 'x, 'q, 'h, 'k) life_state \<Rightarrow> string \<Rightarrow> 'h kv_cache_blocks res" where
  "step_blocks l q = (case req_to_new_blocks (run (wait l)) q of None \<Rightarrow> Inl KeyError | Some b \<Rightarrow> Inr b)"

definition new_request_of ::
  "bool \<Rightarrow> ('c, 'x, 'q, 'h, 'k) life_state \<Rightarrow> string \<Rightarrow> new_request_data res" where
  "new_request_of v2 l q =
     res_bind (step_blocks l q) (\<lambda>b.
     res_bind (lookup_session l q) (\<lambda>ss.
       Inr \<lparr> new_req_id = q, new_block_ids = map (map block_id) (blocks b),
             prefill_token_ids = (if v2 then Some (all_token_ids ss) else None) \<rparr>))"

text \<open>What \<^verbatim>\<open>_make_cached_request_data\<close> collects for one request.\<close>

record cached_entry =
  entry_tokens :: "int list"
  entry_all_tokens :: "(string \<times> int list) list"
  entry_blocks :: "int list list option"
  entry_computed :: int
  entry_outputs :: int

definition cached_entry_of ::
  "('c, 'x, 'k) step_ext \<Rightarrow> ('c, 'x, 'q, 'h, 'k) life_state \<Rightarrow> string \<Rightarrow> cached_entry res" where
  "cached_entry_of Z l q =
     res_bind (lookup_request (store l) q) (\<lambda>r.
     res_bind (lookup_session l q) (\<lambda>ss.
     res_bind (if sends_sampled_tokens Z
         then (case num_scheduled_tokens (run (wait l)) q of
                 None \<Rightarrow> Inl KeyError
               | Some n \<Rightarrow>
                   let k = n - (case scheduled_spec_decode_tokens (run (wait l)) q of None \<Rightarrow> 0 | Some ds \<Rightarrow> int (length ds))
                   in Inr (py_slice (num_computed_tokens r) (num_computed_tokens r + k) (all_token_ids ss)))
         else Inr []) (\<lambda>ts.
     res_bind (step_blocks l q) (\<lambda>b.
       Inr \<lparr> entry_tokens = ts,
             entry_all_tokens = (if \<not> use_v2_model_runner Z \<and> q \<notin> prev_step_scheduled_req_ids l then [(q, all_token_ids ss)] else []),
             entry_blocks = get_block_ids True b, entry_computed = num_computed_tokens r,
             entry_outputs = int (length (output_token_ids ss)) + num_output_placeholders r \<rparr>))))"

definition make_cached_request_data ::
  "('c, 'x, 'k) step_ext \<Rightarrow> string list \<Rightarrow> string list \<Rightarrow> ('c, 'x, 'q, 'h, 'k) life_state \<Rightarrow> cached_request_data res" where
  "make_cached_request_data Z running_reqs resumed_reqs l =
     res_bind (map_res (cached_entry_of Z l) (running_reqs @ resumed_reqs)) (\<lambda>es.
       Inr \<lparr> cached_req_ids = running_reqs @ resumed_reqs, resumed_req_ids = set resumed_reqs,
             cached_new_token_ids = (if sends_sampled_tokens Z then map entry_tokens es else []),
             cached_all_token_ids = concat (map entry_all_tokens es), cached_new_block_ids = map entry_blocks es,
             cached_num_computed_tokens = map entry_computed es, cached_num_output_tokens = map entry_outputs es \<rparr>)"

section \<open>Blocks to zero and to copy\<close>

definition get_new_block_ids_to_zero ::
  "('c, 'h, 'e) coordinator \<Rightarrow> waiting_config \<Rightarrow> ('c, 'x, 'q, 'h, 'k) life_state
   \<Rightarrow> int list option \<times> ('c, 'x, 'q, 'h, 'k) life_state" where
  "get_new_block_ids_to_zero K W l =
     (let (ids, m) = take_new_block_ids K (kv_manager (store l)); l1 = l\<lparr> wait := put_kv m (wait l) \<rparr> in
      if \<not> zeroing_needed W then (None, l1)
      else
        let skip = skip_zero_block_ids (wait l1);
            ids' = (if skip \<noteq> {} then filter (\<lambda>b. b \<notin> skip) ids else ids)
        in (if ids' \<noteq> [] then Some ids' else None, l1\<lparr> wait := (wait l1)\<lparr> skip_zero_block_ids := {} \<rparr> \<rparr>))"

definition take_block_copies ::
  "('c, 'h, 'e) coordinator \<Rightarrow> ('c, 'x, 'q, 'h) sched_state \<Rightarrow> (int \<times> int) list option \<times> ('c, 'x, 'q, 'h) sched_state" where
  "take_block_copies K s =
     (let ((copies, retained), m) = take_kv_cache_block_copies K (kv_manager s); s1 = s\<lparr> kv_manager := m \<rparr>
      in if copies = [] then (None, s1)
         else (Some copies, apply_fence K (free_cow_retained_blocks retained (sched_step_seq (fence s1) + 1)) s1))"

text \<open>An empty map stands for the \<^verbatim>\<open>None\<close> of no offloads.\<close>

definition take_tails ::
  "('c, 'h, 'e) coordinator \<Rightarrow> bool \<Rightarrow> ('c, 'x, 'q, 'h) sched_state \<Rightarrow> offloads \<times> ('c, 'x, 'q, 'h) sched_state" where
  "take_tails K takes s =
     (if \<not> takes then (\<lambda>_. None, s)
      else let (offs, m) = take_partial_tail_offloads K (kv_manager s) in (offs, s\<lparr> kv_manager := m \<rparr>))"

section \<open>The output of the step\<close>

text \<open>The token dict in the order running, new, resumed; the order is not observable.\<close>

definition scheduled_list :: "('c, 'x, 'q, 'h, 'k) wait_state \<Rightarrow> string list" where
  "scheduled_list w = scheduled_running_reqs (run w) @ scheduled_new_reqs w @ scheduled_resumed_reqs w"

definition token_items :: "('c, 'x, 'q, 'h, 'k) wait_state \<Rightarrow> (string \<times> int) list" where
  "token_items w = concat (map (\<lambda>q. case num_scheduled_tokens (run w) q of None \<Rightarrow> [] | Some n \<Rightarrow> [(q, n)]) (scheduled_list w))"

definition common_prefix_blocks :: "('c, 'x, 'k) step_ext \<Rightarrow> ('c, 'x, 'q, 'h, 'k) life_state \<Rightarrow> int list" where
  "common_prefix_blocks Z l =
     (case running_queue l of
        [] \<Rightarrow> replicate (length (kv_cache_groups (km_config (kv_manager (store l))))) 0
      | q # _ \<Rightarrow> get_num_common_prefix_blocks Z q (coord (kv_manager (store l))))"

definition with_gate :: "(scheduler \<Rightarrow> scheduler) \<Rightarrow> ('c, 'x, 'q, 'h, 'k) life_state \<Rightarrow> ('c, 'x, 'q, 'h, 'k) life_state" where
  "with_gate f l = l\<lparr> wait := (wait l)\<lparr> run := (run (wait l))\<lparr> gate := f (gate (run (wait l))) \<rparr> \<rparr> \<rparr>"

text \<open>What the step takes from the managers: offloads, copies, ageing of the gate, freed encoder items, blocks to zero.\<close>

definition drain_managers ::
  "('c, 'h, 'e) coordinator \<Rightarrow> waiting_config \<Rightarrow> ('c, 'x, 'k) step_ext \<Rightarrow> step_limits \<Rightarrow> ('c, 'x, 'q, 'h, 'k) life_state
   \<Rightarrow> (offloads \<times> (int \<times> int) list option \<times> string list \<times> int list option) \<times> ('c, 'x, 'q, 'h, 'k) life_state" where
  "drain_managers K W Z L l =
     (let ids = scheduled_ids (wait l);
          l1 = (if use_v2_model_runner Z then l else l\<lparr> prev_step_scheduled_req_ids := ids \<rparr>);
          (tails, s1) = take_tails K (takes_partial_tails Z) (store l1);
          (copies, s2) = take_block_copies K s1;
          l2 = with_gate (\<lambda>g. debit_unused_long_prefill_turns g (selected_long_prefill_ids L) ids (defer_prefills L))
                 (with_store (\<lambda>_. s2) l1);
          (freed, x) = get_freed_mm_hashes Z (encoder_cache (store l2));
          (zero, l3) = get_new_block_ids_to_zero K W (with_store (\<lambda>s. s\<lparr> encoder_cache := x \<rparr>) l2)
      in ((tails, copies, freed, zero), l3))"

text \<open>The connector packs its operations, the fence advances, and the requests advance.\<close>

definition close_step ::
  "('c, 'h, 'e) coordinator \<Rightarrow> ('q, 'k, 'h) waiting_ext \<Rightarrow> ('c, 'x, 'k) step_ext \<Rightarrow> scheduler_output
   \<Rightarrow> ('c, 'x, 'q, 'h, 'k) life_state \<Rightarrow> (scheduler_output \<times> ('c, 'x, 'q, 'h, 'k) life_state) res" where
  "close_step K V Z out l =
     (let l1 = (if connector V = None then l
                else l\<lparr> wait := (wait l)\<lparr> connector_state := build_connector_meta Z out (connector_state (wait l)) \<rparr> \<rparr>);
          l2 = with_store (\<lambda>s. s\<lparr> fence := schedule_fence (out_total_num_scheduled_tokens out) (fence s) \<rparr>) l1
      in res_bind (update_after_schedule K (attn_gid Z) (out_num_scheduled_tokens out) False (store l2)) (\<lambda>(structured, s).
           Inr (out\<lparr> out_has_structured_output := structured \<rparr>, with_store (\<lambda>_. s) l2)))"

definition schedule_output ::
  "('c, 'h, 'e) coordinator \<Rightarrow> ('q, 'k, 'h) waiting_ext \<Rightarrow> waiting_config \<Rightarrow> ('c, 'x, 'k) step_ext \<Rightarrow> int \<Rightarrow> step_limits
   \<Rightarrow> controller option \<Rightarrow> ('c, 'x, 'q, 'h, 'k) life_state \<Rightarrow> (scheduler_output \<times> ('c, 'x, 'q, 'h, 'k) life_state) res" where
  "schedule_output K V W Z max_tokens_per_step L ctrl l =
     (let w = wait l; v2 = use_v2_model_runner Z;
          new = (if v2 then scheduled_new_reqs w @ scheduled_resumed_reqs w else scheduled_new_reqs w);
          resumed = (if v2 then [] else scheduled_resumed_reqs w)
      in res_bind (check_constraints W max_tokens_per_step w) (\<lambda>_.
         res_bind (map_res (new_request_of v2 l) new) (\<lambda>new_data.
         res_bind (make_cached_request_data Z (scheduled_running_reqs (run w)) resumed l) (\<lambda>cached.
         let ((tails, copies, freed, zero), l1) = drain_managers K W Z L l in
         res_bind (num_spec_tokens_to_schedule (static_num_spec_tokens Z) ctrl (dynamic_sd_lookup Z) (card (scheduled_ids w))) (\<lambda>depth.
         close_step K V Z \<lparr> scheduled_new_requests = new_data, scheduled_cached_reqs = cached, out_num_scheduled_tokens = token_items w,
               out_total_num_scheduled_tokens = total_num_scheduled_tokens w,
               out_spec_decode_tokens = scheduled_spec_decode_tokens (run w), out_encoder_inputs = scheduled_encoder_inputs (run w),
               out_num_common_prefix_blocks = common_prefix_blocks Z l, out_preempted_req_ids = reset_preempted_req_ids (store l1),
               out_finished_req_ids = finished_req_ids (store l1), out_free_encoder_mm_hashes = freed,
               out_new_block_ids_to_zero = zero, out_block_copies = copies, out_partial_tail_offloads = tails,
               out_num_spec_tokens = depth, out_has_structured_output = False \<rparr> l1)))))"

section \<open>The whole call\<close>

text \<open>
  The limits of the step are those that the loops compute first. Streams that wait are counted by the state, and
  whether a stream has a chunk is read from its session. The bool of the result is \<^verbatim>\<open>prefill_capacity_bound\<close>.
\<close>

definition no_chunk_waits :: "('c, 'x, 'q, 'h, 'k) life_state \<Rightarrow> 'h sched_request \<Rightarrow> bool" where
  "no_chunk_waits l r = (case sessions l (request_id r) of None \<Rightarrow> True
     | Some ss \<Rightarrow> (case streaming_queue ss of Some (u # us) \<Rightarrow> False | _ \<Rightarrow> True))"

definition schedule ::
  "(int \<Rightarrow> int \<Rightarrow> int) \<Rightarrow> ('c, 'h, 'e) coordinator \<Rightarrow> ('x, 'q, 'h) sched_ext \<Rightarrow> ('x, 'h) encoder_ext \<Rightarrow> ('q, 'h) running_ext
   \<Rightarrow> ('q, 'k, 'h) waiting_ext \<Rightarrow> running_config \<Rightarrow> waiting_config \<Rightarrow> ('c, 'x, 'k) step_ext \<Rightarrow> int \<Rightarrow> nat \<Rightarrow> bool \<Rightarrow> bool
   \<Rightarrow> controller option \<Rightarrow> ('c, 'x, 'q, 'h, 'k) life_state
   \<Rightarrow> (scheduler_output \<times> bool \<times> ('c, 'x, 'q, 'h, 'k) life_state) res option" where
  "schedule cd K X E R V C W Z max_tokens_per_step fuel throttle bound ctrl l =
     (let V' = V\<lparr> streaming_queue_empty := no_chunk_waits l \<rparr>; W' = W\<lparr> num_waiting_for_streaming_input := streaming_inputs l \<rparr>;
          w = wait l
      in case schedule_start K R C max_tokens_per_step throttle bound
               ((gate (run w))\<lparr> skipped_waiting := queued_requests R (skipped_queue w) \<rparr>) (long_prefill_gate_skips (run w))
               (running_ids (run w)) (sched_of w) of
           Inl e \<Rightarrow> Some (Inl e)
         | Inr (L, _) \<Rightarrow>
             (case schedule_loops cd K X E R V' C W' max_tokens_per_step fuel throttle bound w of
                None \<Rightarrow> None
              | Some (Inl e) \<Rightarrow> Some (Inl e)
              | Some (Inr (b, w')) \<Rightarrow>
                  Some (res_bind (schedule_output K V' W' Z max_tokens_per_step L ctrl (l\<lparr> wait := w' \<rparr>)) (\<lambda>(out, l').
                    Inr (out, b, l')))))"

end
