(* ===== verification/Sched_Step_Props.thy ===== *)
theory Sched_Step_Props
  imports Sched_Output_Props Sched_Step
begin

text \<open>
  The output of \<^verbatim>\<open>schedule()\<close> says what the step did: which requests it names, their tokens and positions, and what
  the state keeps of it.
\<close>

section \<open>Token counts\<close>

lemma map_of_items:
  assumes "distinct qs"
  shows "map_of (concat (map (\<lambda>q. case f q of None \<Rightarrow> [] | Some n \<Rightarrow> [(q, n)]) qs)) q = (if q \<in> set qs then f q else None)"
    "distinct (map fst (concat (map (\<lambda>q. case f q of None \<Rightarrow> [] | Some n \<Rightarrow> [(q, n)]) qs)))"
proof -
  have names: "set (map fst (concat (map (\<lambda>q. case f q of None \<Rightarrow> [] | Some n \<Rightarrow> [(q, n)]) qs))) \<subseteq> set qs" for qs
    by (induction qs) (auto split: option.splits)
  show "map_of (concat (map (\<lambda>q. case f q of None \<Rightarrow> [] | Some n \<Rightarrow> [(q, n)]) qs)) q = (if q \<in> set qs then f q else None)"
    using assms by (induction qs) (auto split: option.splits)
  show "distinct (map fst (concat (map (\<lambda>q. case f q of None \<Rightarrow> [] | Some n \<Rightarrow> [(q, n)]) qs)))"
    using assms by (induction qs) (use names in \<open>auto split: option.splits\<close>)
qed

text \<open>Each scheduled request advances by its tokens.\<close>

lemma advance_exact:
  "advance_requests items b s = Inr (b', s') \<Longrightarrow> distinct (map fst items) \<Longrightarrow>
     fence s' = fence s \<and> waiting_queue s' = waiting_queue s
     \<and> (\<forall>q. requests s' q = (case map_of items q of None \<Rightarrow> requests s q
          | Some n \<Rightarrow> map_option (scheduled (fence s) n) (requests s q)))"
proof (induction items arbitrary: b s)
  case (Cons item items)
  obtain q n where item: "item = (q, n)" by (cases item)
  obtain r where r: "requests s q = Some r" using Cons.prems(1) item by (cases "requests s q") auto
  let ?r = "scheduled (fence s) n r"
  let ?s = "s\<lparr> requests := (requests s)(q \<mapsto> ?r),
      inflight_prefills := (if is_prefill_chunk ?r then inflight_prefills s else inflight_prefills s - {request_id ?r}) \<rparr>"
  obtain b1 where rest: "advance_requests items b1 ?s = Inr (b', s')" using Cons.prems(1) item r by (simp add: Let_def)
  have "map_of items q = None" using Cons.prems(2) item by (simp add: map_of_eq_None_iff)
  then show ?case using Cons.IH[OF rest] Cons.prems(2) item r by (auto split: option.splits)
qed simp

section \<open>Frames\<close>

text \<open>What the managers give up does not touch requests and queues.\<close>

definition store_frame :: "('c, 'x, 'q, 'h) sched_state \<Rightarrow> ('c, 'x, 'q, 'h) sched_state \<Rightarrow> bool" where
  "store_frame s s' \<longleftrightarrow> requests s' = requests s \<and> waiting_queue s' = waiting_queue s \<and> finished_req_ids s' = finished_req_ids s
     \<and> reset_preempted_req_ids s' = reset_preempted_req_ids s"

lemma take_frames:
  "store_frame s (snd (take_tails K b s))" "store_frame s (snd (take_block_copies K s))"
  by (simp_all add: store_frame_def take_tails_def take_block_copies_def apply_fence_def Let_def split_beta)

definition life_frame :: "('c, 'x, 'q, 'h, 'k) life_state \<Rightarrow> ('c, 'x, 'q, 'h, 'k) life_state \<Rightarrow> bool" where
  "life_frame l l' \<longleftrightarrow> store_frame (store l) (store l') \<and> running_queue l' = running_queue l
     \<and> (\<forall>side. side_queue side (wait l') = side_queue side (wait l)) \<and> streaming_inputs l' = streaming_inputs l
     \<and> sessions l' = sessions l"

lemma life_frame_trans: "life_frame l l1 \<Longrightarrow> life_frame l1 l2 \<Longrightarrow> life_frame l l2"
  by (simp add: life_frame_def store_frame_def)

lemma life_frame_store: "store_frame (store l) (f (store l)) \<Longrightarrow> life_frame l (with_store f l)"
  by (simp add: life_frame_def store_frame_def with_store_def with_sched_def all_sides waiting_side)

lemma zero_frame: "life_frame l (snd (get_new_block_ids_to_zero K W l))"
  by (simp add: life_frame_def store_frame_def get_new_block_ids_to_zero_def Let_def split_beta all_sides waiting_side put_kv_def
      with_sched_def)

lemma drain_managers_frame: "life_frame l (snd (drain_managers K W Z L l))"
proof -
  define ids where "ids = scheduled_ids (wait l)"
  define l1 where "l1 = (if use_v2_model_runner Z then l else l\<lparr> prev_step_scheduled_req_ids := ids \<rparr>)"
  define s1 where "s1 = snd (take_tails K (takes_partial_tails Z) (store l1))"
  define s2 where "s2 = snd (take_block_copies K s1)"
  define l2 where "l2 = with_gate (\<lambda>g. debit_unused_long_prefill_turns g (selected_long_prefill_ids L) ids (defer_prefills L))
                 (with_store (\<lambda>_. s2) l1)"
  define x where "x = snd (get_freed_mm_hashes Z (encoder_cache (store l2)))"
  define l3 where "l3 = with_store (\<lambda>s. s\<lparr> encoder_cache := x \<rparr>) l2"
  have "snd (drain_managers K W Z L l) = snd (get_new_block_ids_to_zero K W l3)"
    by (simp add: drain_managers_def Let_def split_beta l3_def x_def l2_def s2_def s1_def l1_def ids_def)
  moreover have "life_frame l l1" by (simp add: l1_def life_frame_def store_frame_def)
  moreover have "store_frame (store l1) s2"
    using take_frames unfolding s1_def s2_def store_frame_def by metis
  then have "life_frame l1 (with_store (\<lambda>_. s2) l1)" by (rule life_frame_store)
  moreover have "life_frame (with_store (\<lambda>_. s2) l1) l2"
    by (simp add: l2_def with_gate_def life_frame_def store_frame_def all_sides waiting_side)
  moreover have "life_frame l2 l3" unfolding l3_def by (rule life_frame_store) (simp add: store_frame_def)
  ultimately show ?thesis using zero_frame[of l3 K W] life_frame_trans by metis
qed

section \<open>What the output says\<close>

lemma new_request_id: "new_request_of v2 l q = Inr d \<Longrightarrow> new_req_id d = q"
  by (auto simp: new_request_of_def res_bind_eq_Inr)

lemma cached_entry_computed: "cached_entry_of Z l q = Inr e \<Longrightarrow> entry_computed e = computed_in (store l) q"
  by (cases "requests (store l) q") (auto simp: cached_entry_of_def lookup_request_def computed_in_def res_bind_eq_Inr)

lemma cached_entries_computed:
  "map_res (cached_entry_of Z l) qs = Inr es \<Longrightarrow> map entry_computed es = map (computed_in (store l)) qs"
  by (rule nth_equalityI) (auto simp: map_res_eq_Inr intro: cached_entry_computed)

lemma new_request_ids: "map_res (new_request_of v2 l) qs = Inr ds \<Longrightarrow> map new_req_id ds = qs"
  by (rule nth_equalityI) (auto simp: map_res_eq_Inr intro: new_request_id)

text \<open>The lists of the cached requests run in parallel.\<close>

definition parallel :: "('c, 'x, 'q, 'h) sched_state \<Rightarrow> cached_request_data \<Rightarrow> bool" where
  "parallel s c \<longleftrightarrow> length (cached_new_block_ids c) = length (cached_req_ids c)
     \<and> length (cached_num_output_tokens c) = length (cached_req_ids c)
     \<and> cached_num_computed_tokens c = map (computed_in s) (cached_req_ids c)"

lemma cached_data_parallel:
  assumes "make_cached_request_data Z run_reqs resumed l = Inr c"
  shows "cached_req_ids c = run_reqs @ resumed \<and> resumed_req_ids c = set resumed \<and> parallel (store l) c"
proof -
  obtain es where es: "map_res (cached_entry_of Z l) (run_reqs @ resumed) = Inr es"
    using assms by (auto simp: make_cached_request_data_def res_bind_eq_Inr)
  have c: "cached_req_ids c = run_reqs @ resumed" "resumed_req_ids c = set resumed" "cached_new_block_ids c = map entry_blocks es"
    "cached_num_output_tokens c = map entry_outputs es" "cached_num_computed_tokens c = map entry_computed es"
    using assms es by (auto simp: make_cached_request_data_def)
  have "map entry_computed es = map (computed_in (store l)) (run_reqs @ resumed)" by (rule cached_entries_computed[OF es])
  then show ?thesis using c es by (simp add: parallel_def map_res_eq_Inr)
qed

text \<open>The end of the step advances the requests and reports what has finished.\<close>

lemma close_step_exact:
  assumes "close_step K V Z out0 l = Inr (out, l')" "distinct (map fst (out_num_scheduled_tokens out0))"
  shows "(\<exists>b. out = out0\<lparr> out_has_structured_output := b \<rparr>) \<and> finished_req_ids (store l') = {}
    \<and> (\<forall>q. requests (store l') q = (case map_of (out_num_scheduled_tokens out0) q of None \<Rightarrow> requests (store l) q
         | Some n \<Rightarrow> map_option (scheduled (fence (store l')) n) (requests (store l) q)))
    \<and> running_queue l' = running_queue l \<and> (\<forall>side. side_queue side (wait l') = side_queue side (wait l))
    \<and> streaming_inputs l' = streaming_inputs l \<and> sessions l' = sessions l"
proof -
  define l1 where "l1 = (if connector V = None then l
      else l\<lparr> wait := (wait l)\<lparr> connector_state := build_connector_meta Z out0 (connector_state (wait l)) \<rparr> \<rparr>)"
  define l2 where "l2 = with_store (\<lambda>s. s\<lparr> fence := schedule_fence (out_total_num_scheduled_tokens out0) (fence s) \<rparr>) l1"
  obtain b s where up: "update_after_schedule K (attn_gid Z) (out_num_scheduled_tokens out0) False (store l2) = Inr (b, s)"
    and res: "out = out0\<lparr> out_has_structured_output := b \<rparr>" "l' = with_store (\<lambda>_. s) l2"
    using assms(1) unfolding close_step_def Let_def l1_def[symmetric] l2_def[symmetric] by (auto simp: res_bind_eq_Inr)
  obtain s1 where adv: "advance_requests (out_num_scheduled_tokens out0) False (store l2) = Inr (b, s1)"
    and s: "requests s = requests s1" "fence s = fence s1" "waiting_queue s = waiting_queue s1" "finished_req_ids s = {}"
    using up by (auto simp: update_after_schedule_def res_bind_eq_Inr)
  note ex = advance_exact[OF adv assms(2)]
  have same: "requests (store l2) = requests (store l)" "waiting_queue (store l2) = waiting_queue (store l)"
    "running_queue l2 = running_queue l" "skipped_queue (wait l2) = skipped_queue (wait l)"
    "streaming_inputs l2 = streaming_inputs l" "sessions l2 = sessions l"
    by (simp_all add: l2_def l1_def with_store_def with_sched_def)
  have l': "store l' = s" "running_queue l' = running_queue l2" "skipped_queue (wait l') = skipped_queue (wait l2)"
    "streaming_inputs l' = streaming_inputs l2" "sessions l' = sessions l2"
    unfolding res(2) by (simp_all add: with_store_def with_sched_def)
  have "\<forall>q. requests (store l') q = (case map_of (out_num_scheduled_tokens out0) q of None \<Rightarrow> requests (store l) q
         | Some n \<Rightarrow> map_option (scheduled (fence (store l')) n) (requests (store l) q))"
    unfolding l'(1) s(1,2) conjunct1[OF ex] same(1)[symmetric] using ex by blast
  moreover have "\<forall>side. side_queue side (wait l') = side_queue side (wait l)"
    using l'(1,3) s(3) ex same(2,4) by (simp add: all_sides waiting_side)
  moreover have "finished_req_ids (store l') = {}" using l'(1) s(4) by simp
  ultimately show ?thesis using res(1) l' same by metis
qed

text \<open>
  C33. The output of a step is exact. It names every scheduled request once, as a new or as a cached one; the lists
  of the cached requests run in parallel and carry the positions before the step; the tokens are those of the
  loops and keep the limit; every request advances by its tokens and no other changes; finished requests are
  reported once; and every request stays in its queue with its status.
\<close>

theorem step_output_is_exact:
  assumes "schedule_output K V W Z M L ctrl l = Inr (out, l')" "distinct (scheduled_list (wait l))"
  shows "set (map new_req_id (scheduled_new_requests out) @ cached_req_ids (scheduled_cached_reqs out)) = scheduled_ids (wait l)
    \<and> distinct (map new_req_id (scheduled_new_requests out) @ cached_req_ids (scheduled_cached_reqs out))
    \<and> parallel (store l) (scheduled_cached_reqs out)
    \<and> out_total_num_scheduled_tokens out \<le> M
    \<and> (\<forall>q. map_of (out_num_scheduled_tokens out) q
         = (if q \<in> scheduled_ids (wait l) then num_scheduled_tokens (run (wait l)) q else None))
    \<and> (\<forall>q. requests (store l') q = (case map_of (out_num_scheduled_tokens out) q of None \<Rightarrow> requests (store l) q
         | Some n \<Rightarrow> map_option (scheduled (fence (store l')) n) (requests (store l) q)))
    \<and> (\<forall>q n r. map_of (out_num_scheduled_tokens out) q = Some n \<longrightarrow> requests (store l) q = Some r \<longrightarrow>
         map_option (\<lambda>r'. (num_computed_tokens r', num_in_flight_tokens r')) (requests (store l') q)
           = Some (num_computed_tokens r + n, num_in_flight_tokens r + n))
    \<and> out_finished_req_ids out = finished_req_ids (store l) \<and> finished_req_ids (store l') = {}
    \<and> same_places l l'"
proof -
  let ?w = "wait l" and ?v2 = "use_v2_model_runner Z"
  let ?new = "if ?v2 then scheduled_new_reqs ?w @ scheduled_resumed_reqs ?w else scheduled_new_reqs ?w"
  let ?resumed = "if ?v2 then [] else scheduled_resumed_reqs ?w"
  obtain g l1 where g: "drain_managers K W Z L l = (g, l1)" by (cases "drain_managers K W Z L l")
  obtain tails copies freed zero where "g = (tails, copies, freed, zero)" by (cases g) auto
  then have d: "drain_managers K W Z L l = ((tails, copies, freed, zero), l1)" using g by simp
  obtain new_data where nd: "map_res (new_request_of ?v2 l) ?new = Inr new_data"
    and limit: "check_constraints W M ?w = Inr ()"
    using assms(1) unfolding schedule_output_def Let_def res_bind_eq_Inr by auto
  obtain cached where ca: "make_cached_request_data Z (scheduled_running_reqs (run ?w)) ?resumed l = Inr cached"
    using assms(1) unfolding schedule_output_def Let_def limit nd res_bind_simps res_bind_eq_Inr by blast
  obtain out0 where cl: "close_step K V Z out0 l1 = Inr (out, l')"
    and o: "scheduled_new_requests out0 = new_data" "scheduled_cached_reqs out0 = cached" "out_num_scheduled_tokens out0 = token_items ?w"
      "out_total_num_scheduled_tokens out0 = total_num_scheduled_tokens ?w" "out_finished_req_ids out0 = finished_req_ids (store l1)"
    using assms(1) unfolding schedule_output_def Let_def limit nd ca d res_bind_simps prod.case res_bind_eq_Inr by auto
  have items: "distinct (map fst (token_items ?w))"
    "map_of (token_items ?w) q = (if q \<in> scheduled_ids ?w then num_scheduled_tokens (run ?w) q else None)" for q
    using map_of_items[OF assms(2), of "num_scheduled_tokens (run ?w)"]
    by (simp_all add: token_items_def scheduled_list_def scheduled_ids_def Un_assoc)
  note c = close_step_exact[OF cl, unfolded o(3), OF items(1)]
  obtain b where b: "out = out0\<lparr> out_has_structured_output := b \<rparr>" using c by blast
  have f: "life_frame l l1" using drain_managers_frame[of l K W Z L] d by simp
  note cd = cached_data_parallel[OF ca] and ids = new_request_ids[OF nd]
  have total: "total_num_scheduled_tokens ?w \<le> M"
    using limit by (simp add: check_constraints_def require_bind_eq_Inr)
  have reqs: "requests (store l') q = (case map_of (token_items ?w) q of None \<Rightarrow> requests (store l) q
         | Some n \<Rightarrow> map_option (scheduled (fence (store l')) n) (requests (store l) q))" for q
  proof -
    have "requests (store l1) = requests (store l)" using f by (simp add: life_frame_def store_frame_def)
    then show ?thesis using c by metis
  qed
  have "map_option (\<lambda>r. (request_id r, status r)) (requests (store l') q) = map_option (\<lambda>r. (request_id r, status r)) (requests (store l) q)" for q
    unfolding reqs[of q] by (cases "map_of (token_items ?w) q"; cases "requests (store l) q") (simp_all add: scheduled_def)
  then have "same_places l l'" using c f by (simp add: same_places_def life_frame_def)
  moreover have "set (?new @ scheduled_running_reqs (run ?w) @ ?resumed) = scheduled_ids ?w"
    by (auto simp: scheduled_ids_def)
  moreover have "distinct (?new @ scheduled_running_reqs (run ?w) @ ?resumed)"
    using assms(2) by (auto simp: scheduled_list_def)
  moreover have adv: "map_option (\<lambda>r'. (num_computed_tokens r', num_in_flight_tokens r')) (requests (store l') q)
      = Some (num_computed_tokens r + n, num_in_flight_tokens r + n)"
    if "map_of (token_items ?w) q = Some n" "requests (store l) q = Some r" for q n r
    using that by (simp add: reqs[of q] scheduled_def)
  then have "\<forall>q n r. map_of (out_num_scheduled_tokens out) q = Some n \<longrightarrow> requests (store l) q = Some r \<longrightarrow>
      map_option (\<lambda>r'. (num_computed_tokens r', num_in_flight_tokens r')) (requests (store l') q)
        = Some (num_computed_tokens r + n, num_in_flight_tokens r + n)"
    using b o(3) by (simp del: option.map)
  moreover have "out_finished_req_ids out = finished_req_ids (store l)" using b o(5) f by (simp add: life_frame_def store_frame_def)
  ultimately show ?thesis using b o cd ids total items(2) reqs c by (simp del: map_option_eq_Some)
qed

section \<open>A concrete step\<close>

definition step_settings :: "(run_pool, nat set, unit) step_ext" where
  "step_settings = \<lparr> use_v2_model_runner = False, sends_sampled_tokens = True, takes_partial_tails = False,
     static_num_spec_tokens = 3, dynamic_sd_lookup = None, attn_gid = None, get_num_common_prefix_blocks = (\<lambda>q c. [0]),
     get_freed_mm_hashes = (\<lambda>x. ([], x)), build_connector_meta = (\<lambda>out k. k) \<rparr>"

text \<open>The running stream is scheduled for one token at position four, and a request has finished before.\<close>

definition step_demo :: "(run_pool, nat set, nat sched_request list, nat, unit) life_state" where
  "step_demo = (let w = wait life_demo; st = run w in
     life_demo\<lparr> wait := w\<lparr> run := st\<lparr> scheduled_running_reqs := [''r''], num_scheduled_tokens := [''r'' \<mapsto> 1],
       req_to_new_blocks := [''r'' \<mapsto> EmptyKVCacheBlocks 1], sched := (sched st)\<lparr> finished_req_ids := {''z''} \<rparr> \<rparr> \<rparr> \<rparr>)"

definition step_limits_demo :: step_limits where
  "step_limits_demo = \<lparr> defer_prefills = False, prefill_token_budget = 0, selected_long_prefill_ids = {} \<rparr>"

abbreviation step_run where
  "step_run \<equiv> schedule_output run_coord wait_ext wait_conf step_settings 100 step_limits_demo None step_demo"

theorem step_output_is_exact_witness:
  "\<exists>out l'. step_run = Inr (out, l') \<and> cached_req_ids (scheduled_cached_reqs out) = [''r'']
     \<and> cached_num_computed_tokens (scheduled_cached_reqs out) = [4] \<and> out_finished_req_ids out = {''z''}
     \<and> map_option num_computed_tokens (requests (store l') ''r'') = Some 5"
proof -
  have "case step_run of Inr (out, l') \<Rightarrow> cached_req_ids (scheduled_cached_reqs out) = [''r''] | Inl _ \<Rightarrow> False" by code_simp
  then obtain out l' where run: "step_run = Inr (out, l')" "cached_req_ids (scheduled_cached_reqs out) = [''r'']"
    by (auto split: sum.splits)
  have "distinct (scheduled_list (wait step_demo))" by code_simp
  note t = step_output_is_exact[OF run(1) this]
  have d: "finished_req_ids (store step_demo) = {''z''}" "computed_in (store step_demo) ''r'' = 4" by code_simp+
  have tokens: "map_of (out_num_scheduled_tokens out) ''r'' = Some 1"
  proof -
    have "''r'' \<in> scheduled_ids (wait step_demo)" "num_scheduled_tokens (run (wait step_demo)) ''r'' = Some 1" by code_simp+
    then show ?thesis using t by simp
  qed
  obtain r where r: "requests (store step_demo) ''r'' = Some r" "num_computed_tokens r = 4"
    using d(2) by (cases "requests (store step_demo) ''r''") (simp_all add: computed_in_def)
  have "requests (store l') ''r'' = Some (scheduled (fence (store l')) 1 r)" using t tokens r(1) by simp
  then show ?thesis using t run d r(2) by (simp add: parallel_def scheduled_def)
qed

end
