(* ===== verification/Sched_Places.thy ===== *)
theory Sched_Places
  imports Sched_Step_Props
begin

text \<open>
  Through \<^verbatim>\<open>schedule()\<close> every request that is alive stays in exactly one queue that fits its status: while a request
  is preempted, promoted, set aside or admitted it moves from one queue to another, and nothing is lost.
\<close>

section \<open>Queues and statuses\<close>

text \<open>What the queues depend on: the id and the status of each request.\<close>

type_synonym kinds = "string \<Rightarrow> (string \<times> request_status) option"

definition kinds :: "('c, 'x, 'q, 'h) sched_state \<Rightarrow> kinds" where
  "kinds s = (\<lambda>q. map_option (\<lambda>r. (request_id r, status r)) (requests s q))"

text \<open>Running requests in \<open>ids\<close>, the others that are alive in \<open>out\<close>, each once.\<close>

definition tidy :: "('x, 'q, 'h) sched_ext \<Rightarrow> string list \<Rightarrow> string list \<Rightarrow> kinds \<Rightarrow> bool" where
  "tidy X ids out k \<longleftrightarrow> distinct ids \<and> distinct out \<and> (\<forall>q i st. k q = Some (i, st) \<longrightarrow> i = q)
     \<and> (\<forall>q. q \<in> set ids \<longleftrightarrow> k q = Some (q, RUNNING))
     \<and> (\<forall>q. q \<in> set out \<longleftrightarrow> (\<exists>st. k q = Some (q, st) \<and> st \<noteq> RUNNING \<and> \<not> status_is_finished X st))"

text \<open>Known requests stay known, and none starts or ends to be paused.\<close>

definition steady :: "kinds \<Rightarrow> kinds \<Rightarrow> bool" where
  "steady k k' \<longleftrightarrow> (\<forall>q. (k' q = None \<longleftrightarrow> k q = None)
     \<and> (k' q = Some (q, WAITING_FOR_STREAMING_REQ) \<longleftrightarrow> k q = Some (q, WAITING_FOR_STREAMING_REQ)))"

text \<open>Requests of the waiting queue wait for nothing.\<close>

definition startable :: "kinds \<Rightarrow> string list \<Rightarrow> bool" where
  "startable k qs \<longleftrightarrow> (\<forall>q \<in> set qs. map_option snd (k q) \<notin>
     {Some WAITING_FOR_STRUCTURED_OUTPUT_GRAMMAR, Some WAITING_FOR_REMOTE_KVS, Some WAITING_FOR_STREAMING_REQ})"

lemma startable_update:
  assumes "startable k qs" "st \<in> {WAITING, PREEMPTED, RUNNING} \<or> q \<notin> set qs'" "set qs' \<subseteq> insert q (set qs)"
  shows "startable (k(q \<mapsto> (i, st))) qs'"
  unfolding startable_def
proof
  fix p assume p: "p \<in> set qs'"
  show "map_option snd ((k(q \<mapsto> (i, st))) p) \<notin>
     {Some WAITING_FOR_STRUCTURED_OUTPUT_GRAMMAR, Some WAITING_FOR_REMOTE_KVS, Some WAITING_FOR_STREAMING_REQ}"
  proof (cases "p = q")
    case True
    then show ?thesis using p assms(2) by auto
  next
    case False
    then have "p \<in> set qs" using p assms(3) by auto
    then have "map_option snd (k p) \<notin>
     {Some WAITING_FOR_STRUCTURED_OUTPUT_GRAMMAR, Some WAITING_FOR_REMOTE_KVS, Some WAITING_FOR_STREAMING_REQ}"
      using assms(1) unfolding startable_def by (rule bspec[rotated])
    then show ?thesis using False by simp
  qed
qed

lemma startable_subset: "startable k qs \<Longrightarrow> set qs' \<subseteq> set qs \<Longrightarrow> startable k qs'"
  by (auto simp: startable_def)

lemma steady_refl [simp]: "steady k k"
  by (simp add: steady_def)

lemma steady_None: "steady k k' \<Longrightarrow> k' q = None \<longleftrightarrow> k q = None"
  unfolding steady_def by (drule spec[of _ q], erule conjunct1)

lemma tidy_mset: "tidy X ids out k \<Longrightarrow> mset out' = mset out \<Longrightarrow> tidy X ids out' k"
  using mset_eq_setD[of out' out] mset_eq_imp_distinct_iff[of out' out] by (simp add: tidy_def)

text \<open>The moves: a running request goes out, one that is out changes its status, and one that is out goes in.\<close>

lemma tidy_preempt:
  assumes "tidy X ids out k" "p \<in> set ids" "\<not> status_is_finished X PREEMPTED" "mset ids = add_mset p (mset ids')" "mset out' = add_mset p (mset out)"
  shows "tidy X ids' out' (k(p \<mapsto> (p, PREEMPTED)))"
proof -
  have d: "distinct (p # ids')" "set ids = insert p (set ids')"
    using assms(1,4) mset_eq_imp_distinct_iff[of ids "p # ids'"] mset_eq_setD[of ids "p # ids'"] by (simp_all add: tidy_def)
  have "p \<notin> set out" using assms(1,2) by (auto simp: tidy_def)
  then have o: "distinct out'" "set out' = insert p (set out)"
    using assms(1,5) mset_eq_imp_distinct_iff[of out' "p # out"] mset_eq_setD[of out' "p # out"] by (simp_all add: tidy_def)
  have t: "\<And>q i st. k q = Some (i, st) \<Longrightarrow> i = q" "\<And>q. q \<in> set ids \<longleftrightarrow> k q = Some (q, RUNNING)"
    "\<And>q. q \<in> set out \<longleftrightarrow> (\<exists>st. k q = Some (q, st) \<and> st \<noteq> RUNNING \<and> \<not> status_is_finished X st)"
    using assms(1) unfolding tidy_def by blast+
  have "q \<in> set ids' \<longleftrightarrow> (k(p \<mapsto> (p, PREEMPTED))) q = Some (q, RUNNING)" for q
    using d t(2)[of q] by (cases "q = p") auto
  moreover have "q \<in> set out' \<longleftrightarrow> (\<exists>st. (k(p \<mapsto> (p, PREEMPTED))) q = Some (q, st) \<and> st \<noteq> RUNNING \<and> \<not> status_is_finished X st)" for q
    using o(2) t(3)[of q] assms(3) by (cases "q = p") auto
  ultimately show ?thesis using d(1) o(1) t(1) by (auto simp: tidy_def)
qed

lemma tidy_change:
  assumes "tidy X ids out k" "q \<in> set out" "st \<noteq> RUNNING" "\<not> status_is_finished X st"
  shows "tidy X ids out (k(q \<mapsto> (q, st)))"
proof -
  have t: "\<And>q i st. k q = Some (i, st) \<Longrightarrow> i = q" "\<And>q. q \<in> set ids \<longleftrightarrow> k q = Some (q, RUNNING)"
    "\<And>q. q \<in> set out \<longleftrightarrow> (\<exists>st. k q = Some (q, st) \<and> st \<noteq> RUNNING \<and> \<not> status_is_finished X st)" "distinct ids" "distinct out"
    using assms(1) unfolding tidy_def by blast+
  have "p \<in> set ids \<longleftrightarrow> (k(q \<mapsto> (q, st))) p = Some (p, RUNNING)" for p
    using t(2)[of p] t(3)[of q] assms(2,3) by (cases "p = q") auto
  moreover have "p \<in> set out \<longleftrightarrow> (\<exists>st'. (k(q \<mapsto> (q, st))) p = Some (p, st') \<and> st' \<noteq> RUNNING \<and> \<not> status_is_finished X st')" for p
    using t(3)[of p] assms(2-4) by (cases "p = q") auto
  ultimately show ?thesis using t(1,4,5) by (auto simp: tidy_def)
qed

lemma tidy_admit:
  assumes "tidy X ids out k" "mset out = add_mset q (mset out')"
  shows "tidy X (ids @ [q]) out' (k(q \<mapsto> (q, RUNNING)))"
proof -
  have t: "\<And>q i st. k q = Some (i, st) \<Longrightarrow> i = q" "\<And>q. q \<in> set ids \<longleftrightarrow> k q = Some (q, RUNNING)"
    "\<And>q. q \<in> set out \<longleftrightarrow> (\<exists>st. k q = Some (q, st) \<and> st \<noteq> RUNNING \<and> \<not> status_is_finished X st)" "distinct ids" "distinct out"
    using assms(1) unfolding tidy_def by blast+
  have o: "distinct (q # out')" "set out = insert q (set out')"
    using assms(2) t(5) mset_eq_imp_distinct_iff[of out "q # out'"] mset_eq_setD[of out "q # out'"] by simp_all
  have "q \<notin> set ids" using t(2)[of q] t(3)[of q] o(2) by auto
  moreover have "p \<in> set (ids @ [q]) \<longleftrightarrow> (k(q \<mapsto> (q, RUNNING))) p = Some (p, RUNNING)" for p
    using t(2)[of p] by (cases "p = q") auto
  moreover have "p \<in> set out' \<longleftrightarrow> (\<exists>st'. (k(q \<mapsto> (q, RUNNING))) p = Some (p, st') \<and> st' \<noteq> RUNNING \<and> \<not> status_is_finished X st')" for p
    using t(3)[of p] o by (cases "p = q") auto
  ultimately show ?thesis using t(1,4) o(1) by (auto simp: tidy_def)
qed

lemma steady_update:
  assumes "steady b k" "k q = Some (q, st)" "st \<noteq> WAITING_FOR_STREAMING_REQ" "st' \<noteq> WAITING_FOR_STREAMING_REQ"
  shows "steady b (k(q \<mapsto> (q, st')))"
  unfolding steady_def
proof
  fix p
  have "(k p = None \<longleftrightarrow> b p = None) \<and> (k p = Some (p, WAITING_FOR_STREAMING_REQ) \<longleftrightarrow> b p = Some (p, WAITING_FOR_STREAMING_REQ))"
    using assms(1) by (simp add: steady_def)
  then show "((k(q \<mapsto> (q, st'))) p = None \<longleftrightarrow> b p = None)
      \<and> ((k(q \<mapsto> (q, st'))) p = Some (p, WAITING_FOR_STREAMING_REQ) \<longleftrightarrow> b p = Some (p, WAITING_FOR_STREAMING_REQ))"
    using assms(2-4) by (cases "p = q") auto
qed

lemma live_states:
  assumes "finished_states X"
  shows "\<not> status_is_finished X WAITING" "\<not> status_is_finished X PREEMPTED" "\<not> status_is_finished X RUNNING"
    "\<not> status_is_finished X WAITING_FOR_REMOTE_KVS" "\<not> status_is_finished X WAITING_FOR_STREAMING_REQ"
  using assms by (simp_all add: finished_states_def)

text \<open>The queue classes by the ids they hold, in any order: prepending, peeking and popping, and joining.\<close>

definition loop_queue_laws :: "('q \<Rightarrow> string list) \<Rightarrow> ('x, 'q, 'h) sched_ext \<Rightarrow> ('q, 'k, 'h) waiting_ext \<Rightarrow> bool" where
  "loop_queue_laws ids X V \<longleftrightarrow>
     (\<forall>r x. mset (ids (prepend_request X r x)) = add_mset (request_id r) (mset (ids x)))
     \<and> (\<forall>x. queue_len V x = length (ids x))
     \<and> (\<forall>x. ids x \<noteq> [] \<longrightarrow> mset (ids x) = add_mset (peek_request V x) (mset (ids (snd (pop_request V x)))))
     \<and> (\<forall>x y. mset (ids (prepend_requests V x y)) = mset (ids x) + mset (ids y))
     \<and> ids (create_request_queue V) = []"

section \<open>The running loop\<close>

text \<open>\<open>k\<close> is what the step started with, \<open>rest\<close> the requests outside the waiting queue.\<close>

definition run_places ::
  "('q \<Rightarrow> string list) \<Rightarrow> ('x, 'q, 'h) sched_ext \<Rightarrow> kinds \<Rightarrow> string list \<Rightarrow> ('c, 'x, 'q, 'h) run_state \<Rightarrow> bool" where
  "run_places ids X k rest st \<longleftrightarrow>
     tidy X (running_ids st) (ids (waiting_queue (sched st)) @ rest) (kinds (sched st)) \<and> steady k (kinds (sched st))
     \<and> startable (kinds (sched st)) (ids (waiting_queue (sched st)))"

lemma kinds_same: "requests s' = requests s \<Longrightarrow> kinds s' = kinds s"
  by (simp add: kinds_def fun_eq_iff)

lemma kinds_update: "requests s' = (requests s)(q \<mapsto> r) \<Longrightarrow> kinds s' = (kinds s)(q \<mapsto> (request_id r, status r))"
  by (simp add: kinds_def fun_eq_iff)

lemma kinds_at: "requests s q = Some r \<Longrightarrow> kinds s q = Some (request_id r, status r)"
  by (simp add: kinds_def)

lemma kinds_again:
  assumes "requests s' = (requests s)(q \<mapsto> r')" "requests s q = Some r" "request_id r' = request_id r" "status r' = status r"
  shows "kinds s' = kinds s"
  using assms by (auto simp: kinds_def fun_eq_iff)

lemma run_places_cong:
  assumes "run_places ids X k rest st" "running_ids st' = running_ids st" "waiting_queue (sched st') = waiting_queue (sched st)"
    "kinds (sched st') = kinds (sched st)"
  shows "run_places ids X k rest st'"
  using assms by (simp add: run_places_def)

lemma run_places_updates [simp]:
  "run_places ids X k rest (st\<lparr> sched := (sched st)\<lparr> encoder_cache := x \<rparr> \<rparr>) = run_places ids X k rest st"
  "run_places ids X k rest (st\<lparr> sched := (sched st)\<lparr> kv_manager := m \<rparr> \<rparr>) = run_places ids X k rest st"
  "run_places ids X k rest (st\<lparr> gate_skipped_running := i, long_prefill_gate_skips := j \<rparr>) = run_places ids X k rest st"
  "run_places ids X k rest (next_request st) = run_places ids X k rest st"
  by (simp_all add: run_places_def next_request_def kinds_def)

lemma tidy_ids: "tidy X xs out (kinds s) \<Longrightarrow> requests s q = Some r \<Longrightarrow> request_id r = q"
  using kinds_at[of s q r] by (simp add: tidy_def)

lemma preempt_victim_places:
  assumes "run_places ids X k rest st" "loop_queue_laws ids X V" "finished_states X"
    and "preempt_victim K X R C st = Inr (p, st')"
  shows "run_places ids X k rest st'" "q \<noteq> p \<longrightarrow> requests (sched st') q = requests (sched st) q"
proof -
  have t: "tidy X (running_ids st) (ids (waiting_queue (sched st)) @ rest) (kinds (sched st))" "steady k (kinds (sched st))"
    "startable (kinds (sched st)) (ids (waiting_queue (sched st)))"
    using assms(1) by (simp_all add: run_places_def)
  obtain st1 r s where v: "take_victim R C st = Inr (p, st1)" and r: "lookup_request (sched st1) p = Inr r"
    and s: "preempt_request K X r (requires_kv_delivery C) (sched st1) = Inr s"
    and st': "st' = st1\<lparr> sched := s, preempted_reqs := preempted_reqs st1 @ [p] \<rparr>"
    using assms(4) by (auto simp: preempt_victim_def res_bind_eq_Inr)
  have vp: "victim C st = Inr p"
    using v by (cases "sched_policy C") (auto simp: take_victim_def Let_def res_simps split: if_splits)
  have p: "p \<in> set (running_ids st)" using vp by (rule victim_mem)
  have d: "distinct (running_ids st)" using t(1) by (simp add: tidy_def)
  have st1: "sched st1 = sched st" "running_ids st1 = remove1 p (running_ids st)"
    using v vp remove1_last[OF d] p by (cases "sched_policy C";
      auto simp: take_victim_def unschedule_def victim_def res_simps Let_def split: option.splits if_splits)+
  have r': "requests (sched st) p = Some r" using r st1(1) by (auto simp: lookup_request_def split: option.splits)
  have rid: "request_id r = p" using tidy_ids[OF t(1) r'] .
  have k: "kinds (sched st) p = Some (p, RUNNING)" using t(1) p by (simp add: tidy_def)
  have s': "requests s = (requests (sched st))(p \<mapsto> preempted (requires_kv_delivery C) r)"
    "waiting_queue s = prepend_request X (preempted (requires_kv_delivery C) r) (waiting_queue (sched st))"
    using s rid st1(1) by (auto simp: preempt_request_def Let_def require_bind_eq_Inr)
  have idp: "request_id (preempted (requires_kv_delivery C) r) = p" using rid by (simp add: preempted_def)
  have ks: "kinds s = (kinds (sched st))(p \<mapsto> (p, PREEMPTED))" using kinds_update[OF s'(1)] idp by simp
  have fin: "\<not> status_is_finished X PREEMPTED" using assms(3) by (simp add: finished_states_def)
  have "tidy X (remove1 p (running_ids st)) (ids (waiting_queue s) @ rest) ((kinds (sched st))(p \<mapsto> (p, PREEMPTED)))"
    by (rule tidy_preempt[OF t(1) p fin]) (use p assms(2) idp s'(2) in \<open>simp_all add: loop_queue_laws_def\<close>)
  moreover have "steady k ((kinds (sched st))(p \<mapsto> (p, PREEMPTED)))"
    by (rule steady_update[OF t(2) k]) simp_all
  moreover have "mset (ids (waiting_queue s)) = add_mset p (mset (ids (waiting_queue (sched st))))"
    using assms(2) idp s'(2) by (simp add: loop_queue_laws_def)
  then have "set (ids (waiting_queue s)) \<subseteq> insert p (set (ids (waiting_queue (sched st))))"
    using mset_eq_setD[of "ids (waiting_queue s)" "p # ids (waiting_queue (sched st))"] by simp
  then have "startable (kinds s) (ids (waiting_queue s))" unfolding ks using t(3) by (intro startable_update) simp_all
  ultimately show "run_places ids X k rest st'" using st' st1 ks by (simp add: run_places_def)
  show "q \<noteq> p \<longrightarrow> requests (sched st') q = requests (sched st) q" using st' s'(1) by simp
qed

lemma run_step_places:
  fixes st st' :: "('c, 'x, 'q, 'h) run_state"
  assumes "run_places ids X k rest st" "loop_queue_laws ids X V" "finished_states X" "run_step K X E R C L st = Inr (go_on, st')"
  shows "run_places ids X k rest st'"
proof -
  let ?I = "\<lambda>q r st. run_places ids X k rest st \<and> requests (sched st) q = Some r"
  have al: "if b = None then run_places ids X k rest st2 else ?I q r st2"
    if "allocate_or_preempt K X R C q r n (st\<lparr> sched := (sched st)\<lparr> encoder_cache := x \<rparr> \<rparr>) = Inr (b, st2)"
      "lookup_request (sched st) q = Inr r" for q r n x b st2
    using that(1)
  proof (rule allocate_or_preempt_keeps[where I = "?I q r"])
    have "requests (sched st) q = Some r" using that(2) by (auto simp: lookup_request_def split: option.splits)
    then show "?I q r (st\<lparr> sched := (sched st)\<lparr> encoder_cache := x \<rparr> \<rparr>)"
      using assms(1) by simp
  next
    fix st :: "('c, 'x, 'q, 'h) run_state" and m assume "?I q r st"
    then show "?I q r (st\<lparr> sched := (sched st)\<lparr> kv_manager := m \<rparr> \<rparr>)"
      by simp
  qed (use preempt_victim_places[OF _ assms(2,3)] in metis)+
  show ?thesis using assms(4)
  proof (cases rule: run_step_cases)
    case (given q r n a b st2)
    have I: "?I q r st2" using al[OF given(7) given(3)] by simp
    have "kinds (sched st') = kinds (sched st2)"
      unfolding given(8)
      by (rule kinds_again[OF _ conjunct2[OF I], where r' = "if spec_token_ids r \<noteq> [] then r\<lparr> spec_token_ids := [] \<rparr> else r"]) simp_all
    moreover have "running_ids st' = running_ids st2" "waiting_queue (sched st') = waiting_queue (sched st2)"
      unfolding given(8) commit_running_def Let_def by simp_all
    ultimately show ?thesis using run_places_cong[OF conjunct1[OF I]] by blast
  next
    case (own q r n a)
    then show ?thesis using al[OF own(6) own(3)] by simp
  qed (use assms(1) in simp_all)
qed

lemma running_loop_places:
  assumes "loop_queue_laws ids X V" "finished_states X"
  shows "run_places ids X k rest st \<Longrightarrow> running_loop K X E R C L st = Inr st' \<Longrightarrow> run_places ids X k rest st'"
proof (induction "nat (distance st)" arbitrary: st rule: less_induct)
  case less
  show ?case
  proof (cases "req_index st < int (length (running_ids st)) \<and> 0 < token_budget st")
    case True
    then obtain go_on st1 where s: "run_step K X E R C L st = Inr (go_on, st1)"
      "(if go_on then running_loop K X E R C L st1 else Inr st1) = Inr st'"
      using less.prems(2) by (subst (asm) running_loop.simps) (auto split: sum.splits)
    have I1: "run_places ids X k rest st1" using run_step_places[OF less.prems(1) assms s(1)] .
    show ?thesis
    proof (cases go_on)
      case True
      then have "run_step K X E R C L st = Inr (True, st1)" using s(1) by simp
      then have "nat (distance st1) < nat (distance st)"
        using run_step_distance \<open>req_index st < _ \<and> _\<close> by (fastforce simp: distance_def)
      then show ?thesis using less.hyps[OF _ I1] s(2) True by simp
    qed (use s(2) I1 in simp)
  next
    case False
    then show ?thesis using less.prems by (subst (asm) running_loop.simps) auto
  qed
qed

section \<open>The admission loop\<close>

text \<open>The ids outside the running queue.\<close>

definition out_of :: "('q \<Rightarrow> string list) \<Rightarrow> ('c, 'x, 'q, 'h, 'k) wait_state \<Rightarrow> string list" where
  "out_of ids w = ids (waiting_queue (sched_of w)) @ ids (skipped_queue w) @ ids (step_skipped w)"

definition wait_places ::
  "('q \<Rightarrow> string list) \<Rightarrow> ('x, 'q, 'h) sched_ext \<Rightarrow> kinds \<Rightarrow> ('c, 'x, 'q, 'h, 'k) wait_state \<Rightarrow> bool" where
  "wait_places ids X k w \<longleftrightarrow> tidy X (running_ids (run w)) (out_of ids w) (kinds (sched_of w)) \<and> steady k (kinds (sched_of w))
     \<and> startable (kinds (sched_of w)) (ids (waiting_queue (sched_of w)))"

text \<open>A step that moves nothing and keeps ids and statuses.\<close>

definition calm :: "('c, 'x, 'q, 'h, 'k) wait_state \<Rightarrow> ('c, 'x, 'q, 'h, 'k) wait_state \<Rightarrow> bool" where
  "calm w w' \<longleftrightarrow> running_ids (run w') = running_ids (run w) \<and> kinds (sched_of w') = kinds (sched_of w)
     \<and> (\<forall>side. side_queue side w' = side_queue side w) \<and> step_skipped w' = step_skipped w"

lemma calm_refl [simp]: "calm w w"
  by (simp add: calm_def)

lemma calm_trans: "calm w w1 \<Longrightarrow> calm w1 w2 \<Longrightarrow> calm w w2"
  by (simp add: calm_def)

lemma calm_places: "calm w w' \<Longrightarrow> wait_places ids X k w \<Longrightarrow> wait_places ids X k w'"
  by (simp add: calm_def wait_places_def out_of_def all_sides waiting_side)

lemma calm_fields:
  assumes "calm w w'"
  shows "kinds (sched_of w') = kinds (sched_of w)" "side_queue side w' = side_queue side w" "out_of ids w' = out_of ids w"
proof -
  show "kinds (sched_of w') = kinds (sched_of w)" "side_queue side w' = side_queue side w" using assms by (simp_all add: calm_def)
  show "out_of ids w' = out_of ids w" using assms by (simp add: calm_def out_of_def all_sides waiting_side)
qed

lemma calm_steps:
  assumes "calm w w1"
  shows "calm w (put_kv m w1)" "calm w (put_encoder_cache x w1)" "calm w (w1\<lparr> connector_state := c \<rparr>)"
    "calm w (w1\<lparr> finished_recving := a \<rparr>)" "calm w (w1\<lparr> failed_recving := a \<rparr>)" "calm w (w1\<lparr> grammar_compile_errors := a \<rparr>)"
    "calm w (w1\<lparr> skip_zero_block_ids := z \<rparr>)" "calm w (w1\<lparr> connector_state := c, connector_hits := hs \<rparr>)"
    "calm w (w1\<lparr> prefill_stats_set := ps \<rparr>)"
  using assms by (simp_all add: calm_def all_sides waiting_side put_kv_def put_encoder_cache_def with_sched_def kinds_def)

lemma put_request_fields [simp]:
  "running_ids (run (put_request q r w)) = running_ids (run w)" "waiting_queue (sched_of (put_request q r w)) = waiting_queue (sched_of w)"
  "skipped_queue (put_request q r w) = skipped_queue w" "step_skipped (put_request q r w) = step_skipped w"
  "kinds (sched_of (put_request q r w)) = (kinds (sched_of w))(q \<mapsto> (request_id r, status r))"
  by (simp_all add: put_request_def with_sched_def kinds_def fun_eq_iff)

text \<open>\<open>same_kind\<close>: the request \<open>r\<close> read from the store under \<open>q\<close>, or one that differs in other fields.\<close>

definition same_kind :: "('c, 'x, 'q, 'h, 'k) wait_state \<Rightarrow> string \<Rightarrow> 'h sched_request \<Rightarrow> bool" where
  "same_kind w q r \<longleftrightarrow> kinds (sched_of w) q = Some (request_id r, status r)"

lemma same_kind_calm: "calm w w' \<Longrightarrow> same_kind w' q r = same_kind w q r"
  by (simp add: calm_def same_kind_def)

lemma same_kind_updates [simp]:
  "same_kind w q (r\<lparr> shared_prefix_boundary := n \<rparr>) = same_kind w q r" "same_kind w q (r\<lparr> num_computed_tokens := n \<rparr>) = same_kind w q r"
  by (simp_all add: same_kind_def)

lemma calm_put_request: "calm w w1 \<Longrightarrow> same_kind w q r \<Longrightarrow> calm w (put_request q r w1)"
  by (auto simp: calm_def same_kind_def all_sides waiting_side)

lemmas calm_intros = calm_steps calm_put_request calm_refl

lemma lookup_kind: "lookup_request (sched_of w) q = Inr r \<Longrightarrow> same_kind w q r"
  by (auto simp: lookup_request_def same_kind_def kinds_def split: option.splits)

lemma calm_lookup_local:
  assumes "lookup_local K W q r w = Inr (b, n, r', w')" "same_kind w q r"
  shows "calm w w' \<and> same_kind w q r'"
  using assms by (auto simp: lookup_local_def Let_def res_simps split: prod.splits intro!: calm_intros)

lemma calm_lookup_connector:
  assumes "lookup_with_connector K cn W q r w = Inr (f, r', w')" "same_kind w q r"
  shows "calm w w' \<and> same_kind w q r'"
proof -
  obtain b n j d m where e: "get_computed_blocks_for_connector K (process_env W) (kv_request.truncate r) (kv_manager (sched_of w))
      = (Inr (b, n, j, d), m)" and nz: "hit_block_size W \<noteq> 0"
    using assms(1) by (auto simp: lookup_with_connector_def Let_def res_simps split: prod.splits if_splits)
  let ?r1 = "r\<lparr> shared_prefix_boundary := j \<rparr>" and ?w1 = "put_request q (r\<lparr> shared_prefix_boundary := j \<rparr>) (put_kv m w)"
  obtain ext as c where g: "get_num_new_matched_tokens cn ?r1 (n - n mod hit_block_size W) (connector_state ?w1) = (ext, as, c)"
    using prod_cases3 by blast
  have w2: "calm w (?w1\<lparr> connector_state := c \<rparr>)" using assms(2) by (intro calm_intros) simp
  have local: "calm w w3 \<and> same_kind w q r3" if "lookup_local K W q ?r1 (?w1\<lparr> connector_state := c \<rparr>) = Inr (b3, n3, r3, w3)" for b3 n3 r3 w3
    using calm_lookup_local[OF that] assms(2) same_kind_calm[OF w2] calm_trans[OF w2] by simp
  show ?thesis
    using assms w2 e nz g
    by (auto simp: lookup_with_connector_def Let_def res_simps split: prod.splits if_splits option.splits dest!: local)
qed

lemma calm_find_computed:
  assumes "find_computed K E V W q r w = Inr (f, r', w')" "same_kind w q r"
  shows "calm w w' \<and> same_kind w q r'"
proof (cases "num_computed_tokens r \<noteq> 0")
  case False
  define found where "found = (case connector V of Some cn \<Rightarrow> lookup_with_connector K cn W q r w
    | None \<Rightarrow> res_bind (lookup_local K W q r w) (\<lambda>(b, n, r', w').
        Inr (Some \<lparr> prefix_blocks = b, local_tokens = n, external_tokens = 0, load_kv_async = False,
                    connector_query = None, did_lookup = True \<rparr>, r', w')))"
  have a: "calm w w1 \<and> same_kind w q r1" if "found = Inr (f1, r1, w1)" for f1 r1 w1
    using that assms(2) unfolding found_def
    by (auto simp: res_simps split: option.splits dest!: calm_lookup_local calm_lookup_connector)
  obtain f1 r1 w1 where f1: "found = Inr (f1, r1, w1)"
    using assms(1) False unfolding find_computed_def found_def[symmetric] by (auto simp: res_simps)
  have "r' = r1 \<and> (w' = w1 \<or> (\<exists>ps. w' = w1\<lparr> prefill_stats_set := ps \<rparr>))"
    using assms(1) False unfolding find_computed_def found_def[symmetric] f1
    by (auto simp: res_simps Let_def split: option.splits if_splits)
  then show ?thesis using a[OF f1] by (auto intro!: calm_intros)
qed (use assms in \<open>auto simp: find_computed_def\<close>)

lemma calm_grant_tokens: "grant_tokens E C W L r p w = Inr (ad, w') \<Longrightarrow> calm w w'"
  by (auto simp: grant_tokens_def Let_def res_simps split: if_splits option.splits prod.splits intro!: calm_intros)

lemma calm_after_alloc:
  assumes "after_alloc K V W q r p w = Inr w'"
  shows "calm w w'"
proof -
  define w1 where "w1 = (case connector V of
            None \<Rightarrow> w
          | Some cn \<Rightarrow>
              w\<lparr> connector_state := connector_update_after_alloc cn r (get_blocks K q (kv_manager (sched_of w)))
                   (external_tokens p) (connector_state w),
                 connector_hits := connector_hits w @ (case connector_query p of None \<Rightarrow> []
                   | Some (n, h) \<Rightarrow> if counts_connector_hits W \<and> n \<noteq> 0 then [(n, h, 0 < num_preemptions r)] else []) \<rparr>)"
  have w1: "calm w w1" unfolding w1_def by (cases "connector V") (auto intro: calm_intros)
  have "w' = w1 \<or> (\<exists>m. w' = put_kv m w1)"
    using assms unfolding after_alloc_def w1_def[symmetric] Let_def by (auto simp: res_bind_eq_Inr split: if_splits)
  then show ?thesis using w1 calm_steps(1) by blast
qed

text \<open>A promoted request leaves its blocked status where it is.\<close>

lemma promote_places:
  assumes "try_promote_blocked_waiting_request K V W q r w = Inr (ready, w')" "same_kind w q r" "request_id r = q"
    and "wait_places ids X k w" "finished_states X" "q \<in> set (out_of ids w)"
  shows "wait_places ids X k w' \<and> (\<forall>side. side_queue side w' = side_queue side w)
    \<and> (ready \<longrightarrow> kinds (sched_of w') q = Some (q, WAITING) \<or> kinds (sched_of w') q = Some (q, PREEMPTED))"
proof -
  have kq: "kinds (sched_of w) q = Some (q, status r)" using assms(2,3) by (simp add: same_kind_def)
  have move: "wait_places ids X k (put_request q r' w1) \<and> (\<forall>side. side_queue side (put_request q r' w1) = side_queue side w)"
    if c: "calm w w1" and r': "request_id r' = q" "status r' = WAITING \<or> status r' = PREEMPTED"
      and blocked: "status r \<noteq> WAITING_FOR_STREAMING_REQ" for r' w1
  proof -
    have w1: "tidy X (running_ids (run w1)) (out_of ids w1) (kinds (sched_of w1))" "steady k (kinds (sched_of w1))"
      "startable (kinds (sched_of w1)) (ids (waiting_queue (sched_of w1)))"
      using calm_places[OF c assms(4)] by (simp_all add: wait_places_def)
    have q1: "kinds (sched_of w1) q = Some (q, status r)" "q \<in> set (out_of ids w1)"
      using kq assms(6) by (simp_all only: calm_fields(1,3)[OF c])
    have st: "status r' \<noteq> RUNNING" "status r' \<noteq> WAITING_FOR_STREAMING_REQ" "\<not> status_is_finished X (status r')"
      using r'(2) live_states[OF assms(5)] by (elim disjE; simp)+
    have "out_of ids (put_request q r' w1) = out_of ids w1" by (simp add: out_of_def)
    moreover have "\<forall>side. side_queue side (put_request q r' w1) = side_queue side w"
      using c by (simp add: calm_def all_sides waiting_side)
    moreover have "startable ((kinds (sched_of w1))(q \<mapsto> (q, status r'))) (ids (waiting_queue (sched_of w1)))"
      using r'(2) by (intro startable_update[OF w1(3)]) auto
    ultimately show ?thesis
      using tidy_change[OF w1(1) q1(2) st(1,3)] steady_update[OF w1(2) q1(1) blocked st(2)] r'(1) by (simp add: wait_places_def)
  qed
  have up: "calm w w1 \<and> request_id r1 = q"
    if u: "update_waiting_for_remote_kv K V W q r w = Inr (r1, w1)" for r1 w1
  proof (cases "q \<in> failed_recving w")
    case True
    obtain m' where "r1 = r" "w1 = (put_kv m' w)\<lparr> failed_recving := failed_recving w - {q},
        finished_recving := finished_recving w - {q} \<rparr>"
      using u True by (auto simp: update_waiting_for_remote_kv_def Let_def res_simps put_kv_def with_sched_def
          split: if_splits prod.splits)
    then show ?thesis using assms(3) calm_steps(4)[OF calm_steps(5)[OF calm_steps(1)[OF calm_refl]]] by simp
  next
    case False
    obtain m' r' where r': "r' = r \<or> r' = r\<lparr> num_computed_tokens := num_tokens r - 1 \<rparr>"
      and w1: "r1 = r'" "w1 = (put_request q r' (put_kv m' w))\<lparr> finished_recving := finished_recving w - {q} \<rparr>"
      using u False by (auto simp: update_waiting_for_remote_kv_def Let_def res_simps put_kv_def put_request_def with_sched_def
          split: if_splits)
    have "same_kind w q r'" "request_id r' = q" using r' assms(2,3) by auto
    then show ?thesis using w1 calm_steps(4)[OF calm_put_request[OF calm_steps(1)[OF calm_refl]]] by simp
  qed
  consider (kv) "status r = WAITING_FOR_REMOTE_KVS" | (grammar) "status r = WAITING_FOR_STRUCTURED_OUTPUT_GRAMMAR"
    | (paused) "status r \<noteq> WAITING_FOR_REMOTE_KVS" "status r \<noteq> WAITING_FOR_STRUCTURED_OUTPUT_GRAMMAR" by blast
  then show ?thesis
  proof cases
    case kv
    show ?thesis
    proof (cases "q \<in> finished_recving w")
      case True
      have "res_bind (update_waiting_for_remote_kv K V W q r w) (\<lambda>(r', w').
          Inr (True, put_request q (r'\<lparr> status := (if num_preemptions r' \<noteq> 0 then PREEMPTED else WAITING) \<rparr>) w'))
        = Inr (ready, w')"
        using assms(1) True kv by (simp add: try_promote_blocked_waiting_request_def)
      then obtain r1 w1 where u: "update_waiting_for_remote_kv K V W q r w = Inr (r1, w1)"
        and w': "w' = put_request q (r1\<lparr> status := (if num_preemptions r1 \<noteq> 0 then PREEMPTED else WAITING) \<rparr>) w1"
        unfolding res_bind_eq_Inr by auto
      show ?thesis unfolding w' using move[of w1 "r1\<lparr> status := (if num_preemptions r1 \<noteq> 0 then PREEMPTED else WAITING) \<rparr>"]
        using up[OF u] kv by simp
    next
      case False
      then show ?thesis using assms(1,4) kv by (simp add: try_promote_blocked_waiting_request_def)
    qed
  next
    case grammar
    show ?thesis
    proof (cases "grammar_of V r")
      case GrammarReady
      then have "w' = put_request q (r\<lparr> status := WAITING \<rparr>) w"
        using assms(1) grammar by (simp add: try_promote_blocked_waiting_request_def)
      then show ?thesis using move[of w "r\<lparr> status := WAITING \<rparr>"] assms(3) grammar by simp
    next
      case GrammarFailed
      then have "\<not> ready" "w' = w\<lparr> grammar_compile_errors := insert q (grammar_compile_errors w) \<rparr>"
        using assms(1) grammar by (simp_all add: try_promote_blocked_waiting_request_def)
      moreover have "calm w (w\<lparr> grammar_compile_errors := insert q (grammar_compile_errors w) \<rparr>)" by (intro calm_intros)
      ultimately show ?thesis using calm_places assms(4) unfolding calm_def by blast
    qed (use assms(1,4) grammar in \<open>simp add: try_promote_blocked_waiting_request_def\<close>)
  next
    case paused
    then show ?thesis using assms(1,4)
      by (simp add: try_promote_blocked_waiting_request_def require_bind_eq_Inr split: if_splits)
  qed
qed

text \<open>Taking the first request of a queue.\<close>

lemma popped:
  assumes "loop_queue_laws ids X V" "ids (side_queue side w) \<noteq> []"
  shows "mset (out_of ids w) = add_mset (peek_request V (side_queue side w))
    (mset (out_of ids (put_queue side (snd (pop_request V (side_queue side w))) w)))"
proof -
  have "mset (ids (side_queue side w)) = add_mset (peek_request V (side_queue side w)) (mset (ids (snd (pop_request V (side_queue side w)))))"
    using assms by (simp add: loop_queue_laws_def)
  then show ?thesis by (cases side) (simp_all add: out_of_def put_queue_def waiting_side with_sched_def)
qed

lemma put_queue_fields [simp]:
  "running_ids (run (put_queue side x w)) = running_ids (run w)" "kinds (sched_of (put_queue side x w)) = kinds (sched_of w)"
  "step_skipped (put_queue side x w) = step_skipped w"
  by (cases side; simp add: put_queue_def with_sched_def kinds_def)+

lemma popped_startable:
  assumes "loop_queue_laws ids X V" "ids (side_queue side w) \<noteq> []" "startable k (ids (waiting_queue (sched_of w)))"
  shows "startable k (ids (waiting_queue (sched_of (put_queue side (snd (pop_request V (side_queue side w))) w))))"
proof -
  let ?w = "put_queue side (snd (pop_request V (side_queue side w))) w"
  have "mset (ids (side_queue side w)) = add_mset (peek_request V (side_queue side w)) (mset (ids (snd (pop_request V (side_queue side w)))))"
    using assms(1,2) by (simp add: loop_queue_laws_def)
  then have "set (ids (snd (pop_request V (side_queue side w)))) \<subseteq> set (ids (side_queue side w))"
    by (metis set_mset_mset set_mset_add_mset_insert subset_insertI)
  then have "set (ids (waiting_queue (sched_of ?w))) \<subseteq> set (ids (waiting_queue (sched_of w)))"
    by (cases side) (simp_all add: put_queue_def waiting_side with_sched_def)
  then show ?thesis by (rule startable_subset[OF assms(3)])
qed

lemma set_aside_places:
  assumes "loop_queue_laws ids X V" "ids (side_queue side w) \<noteq> []" "wait_places ids X k w"
    and "request_id r = peek_request V (side_queue side w)"
  shows "wait_places ids X k (set_aside X V side r w)"
proof -
  let ?w = "put_queue side (snd (pop_request V (side_queue side w))) w"
  have f: "set_aside X V side r w = ?w\<lparr> step_skipped := prepend_request X r (step_skipped ?w) \<rparr>" by (simp add: set_aside_def Let_def)
  have "mset (ids (prepend_request X r (step_skipped ?w))) = add_mset (request_id r) (mset (ids (step_skipped ?w)))"
    using assms(1) by (simp add: loop_queue_laws_def)
  then have m: "mset (out_of ids (set_aside X V side r w)) = mset (out_of ids w)"
    using popped[OF assms(1,2)] assms(4) unfolding f by (simp add: out_of_def)
  have "tidy X (running_ids (run w)) (out_of ids w) (kinds (sched_of w))" using assms(3) by (simp add: wait_places_def)
  moreover have "startable (kinds (sched_of w)) (ids (waiting_queue (sched_of ?w)))"
    using assms(3) by (intro popped_startable[OF assms(1,2)]) (simp add: wait_places_def)
  ultimately show ?thesis using assms(3) tidy_mset[OF _ m] by (simp add: wait_places_def f)
qed

text \<open>An admitted request goes to the running queue, or to those set aside while its blocks are loaded.\<close>

lemma admit_running_places:
  assumes "admit_running K E V W q r p ad w = Inr w'" "tidy X (running_ids (run w)) out (kinds (sched_of w))"
    and "steady k (kinds (sched_of w))" "same_kind w q r" "request_id r = q" "mset out = add_mset q (mset (out_of ids w))"
    and "startable (kinds (sched_of w)) (ids (waiting_queue (sched_of w)))"
  shows "wait_places ids X k w'"
proof -
  have st: "status r = WAITING \<or> status r = PREEMPTED" and run: "run w' = book_admission K E W q r p ad (run w)"
    and same: "skipped_queue w' = skipped_queue w" "step_skipped w' = step_skipped w"
    using assms(1) by (auto simp: admit_running_def require_bind_eq_Inr)
  note f = book_admission_simps[of K E W q r p ad "run w", folded run]
  have wq: "waiting_queue (sched_of w') = waiting_queue (sched_of w)" unfolding run by (simp add: book_admission_def Let_def)
  then have o: "out_of ids w' = out_of ids w" using same by (simp add: out_of_def)
  have k': "kinds (sched_of w') = (kinds (sched_of w))(q \<mapsto> (q, RUNNING))" using kinds_update[OF f(8)] assms(5) by simp
  have kq: "kinds (sched_of w) q = Some (q, status r)" using assms(4,5) by (simp add: same_kind_def)
  have "status r \<noteq> WAITING_FOR_STREAMING_REQ" using st by (elim disjE) simp_all
  then have "steady k (kinds (sched_of w'))" unfolding k' using steady_update[OF assms(3) kq] by simp
  moreover have "startable (kinds (sched_of w')) (ids (waiting_queue (sched_of w')))"
    unfolding k' wq by (rule startable_update[OF assms(7)]) auto
  ultimately show ?thesis using tidy_admit[OF assms(2,6)] f(1) o k' by (simp add: wait_places_def)
qed

lemma admit_loading_places:
  assumes "admit_loading cd K X W q r p w = Inr w'" "tidy X (running_ids (run w)) out (kinds (sched_of w))"
    and "steady k (kinds (sched_of w))" "same_kind w q r" "request_id r = q" "mset out = add_mset q (mset (out_of ids w))"
    and "loop_queue_laws ids X V" "finished_states X" "status r \<noteq> WAITING_FOR_STREAMING_REQ"
    and "startable (kinds (sched_of w)) (ids (waiting_queue (sched_of w)))"
  shows "wait_places ids X k w'"
proof -
  define r1 where "r1 = r\<lparr> status := WAITING_FOR_REMOTE_KVS \<rparr>"
  define r2 where "r2 = r1\<lparr> num_computed_tokens := prefix_tokens r p \<rparr>"
  define w1 where "w1 = with_sched (\<lambda>s. s\<lparr> requests := (requests s)(q \<mapsto> r2), inflight_prefills := insert q (inflight_prefills s) \<rparr>)
      (w\<lparr> step_skipped := prepend_request X r1 (step_skipped w) \<rparr>)"
  have r2: "request_id r2 = q" "status r2 = WAITING_FOR_REMOTE_KVS" "request_id r1 = q" using assms(5) by (simp_all add: r2_def r1_def)
  have "w' = w1 \<or> (\<exists>z. w' = w1\<lparr> skip_zero_block_ids := z \<rparr>)"
    using assms(1) unfolding admit_loading_def Let_def w1_def r2_def r1_def by (auto simp: res_bind_eq_Inr split: if_splits)
  then have c: "calm w1 w'" using calm_steps(7)[OF calm_refl] calm_refl by blast
  have k1: "kinds (sched_of w1) = (kinds (sched_of w))(q \<mapsto> (q, WAITING_FOR_REMOTE_KVS))"
    using r2 by (simp add: w1_def with_sched_def kinds_def fun_eq_iff)
  have kq: "kinds (sched_of w) q = Some (q, status r)" using assms(4,5) by (simp add: same_kind_def)
  have "mset (ids (prepend_request X r1 (step_skipped w))) = add_mset q (mset (ids (step_skipped w)))"
    using assms(7) r2(3) by (simp add: loop_queue_laws_def)
  then have m: "mset (out_of ids w1) = mset out" using assms(6) by (simp add: w1_def with_sched_def out_of_def)
  have "q \<in> set out" using assms(6) by (metis set_mset_mset union_single_eq_member)
  then have "tidy X (running_ids (run w)) out (kinds (sched_of w1))"
    unfolding k1 using assms(8) by (intro tidy_change[OF assms(2)]) (simp_all add: live_states)
  then have "tidy X (running_ids (run w1)) (out_of ids w1) (kinds (sched_of w1))"
    using tidy_mset[OF _ m] by (simp add: w1_def with_sched_def)
  moreover have "steady k (kinds (sched_of w1))" unfolding k1 using steady_update[OF assms(3) kq assms(9)] by simp
  moreover have "startable (kinds (sched_of w1)) (ids (waiting_queue (sched_of w1)))"
  proof -
    have "distinct (q # out_of ids w)"
      using assms(2,6) mset_eq_imp_distinct_iff[of out "q # out_of ids w"] by (simp add: tidy_def)
    then have "q \<notin> set (ids (waiting_queue (sched_of w)))" by (simp add: out_of_def)
    moreover have "waiting_queue (sched_of w1) = waiting_queue (sched_of w)" by (simp add: w1_def with_sched_def)
    ultimately show ?thesis unfolding k1 by (intro startable_update[OF assms(10)]) auto
  qed
  ultimately show ?thesis using calm_places[OF c] by (simp add: wait_places_def)
qed

lemma allocate_and_admit_places:
  assumes "allocate_and_admit cd K X E R V C W side q r p ad w = Inr (go_on, w')"
    and "wait_places ids X k w" "loop_queue_laws ids X V" "finished_states X" "ids (side_queue side w) \<noteq> []"
    and "q = peek_request V (side_queue side w)" "same_kind w q r" "request_id r = q" "status r \<noteq> WAITING_FOR_STREAMING_REQ"
  shows "wait_places ids X k w'"
proof -
  obtain e m where al: "allocate_slots K (kv_request.truncate r) (waiting_slots K R C W r p ad w) (kv_manager (sched_of w)) = (e, m)"
    by fastforce
  let ?w1 = "put_kv m w"
  have c1: "calm w ?w1" by (intro calm_intros)
  obtain b where b: "e = Inr b" using assms(1) al by (cases e) (auto simp: allocate_and_admit_def)
  show ?thesis
  proof (cases b)
    case None
    then have "w' = ?w1 \<or> (\<exists>x. w' = put_encoder_cache x ?w1)"
      using assms(1) al b by (auto simp: allocate_and_admit_def Let_def split: if_splits)
    then show ?thesis using c1 calm_steps(2)[OF c1] calm_places assms(2) by blast
  next
    case (Some b')
    have "res_bind (after_alloc K V W q r p ?w1) (\<lambda>w2.
         res_bind (if load_kv_async p then admit_loading cd K X W q r p (put_queue side (snd (pop_request V (side_queue side w2))) w2)
                   else admit_running K E V W q r p ad (put_queue side (snd (pop_request V (side_queue side w2))) w2))
           (\<lambda>w4. Inr (True, w4))) = Inr (go_on, w')"
      using assms(1) al b Some by (simp add: allocate_and_admit_def Let_def)
    then obtain w2 where w2: "after_alloc K V W q r p ?w1 = Inr w2"
      and fin: "(if load_kv_async p then admit_loading cd K X W q r p (put_queue side (snd (pop_request V (side_queue side w2))) w2)
        else admit_running K E V W q r p ad (put_queue side (snd (pop_request V (side_queue side w2))) w2)) = Inr w'"
      unfolding res_bind_eq_Inr by auto
    let ?w3 = "put_queue side (snd (pop_request V (side_queue side w2))) w2"
    have c2: "calm w w2" using calm_trans[OF c1 calm_after_alloc[OF w2]] .
    have places: "tidy X (running_ids (run ?w3)) (out_of ids w2) (kinds (sched_of ?w3))" "steady k (kinds (sched_of ?w3))"
      and start2: "startable (kinds (sched_of w2)) (ids (waiting_queue (sched_of w2)))"
      using calm_places[OF c2 assms(2)] by (simp_all add: wait_places_def)
    have kind: "same_kind ?w3 q r" using same_kind_calm[OF c2] assms(7) by (simp add: same_kind_def)
    have "ids (side_queue side w2) \<noteq> []" "peek_request V (side_queue side w2) = q"
      using assms(5,6) calm_fields(2)[OF c2, of side] by simp_all
    then have m: "mset (out_of ids w2) = add_mset q (mset (out_of ids ?w3))"
      and start: "startable (kinds (sched_of ?w3)) (ids (waiting_queue (sched_of ?w3)))"
      using popped[OF assms(3)] popped_startable[OF assms(3) _ start2] by (metis, simp)
    show ?thesis
    proof (cases "load_kv_async p")
      case True
      then show ?thesis using admit_loading_places[OF _ places kind assms(8) m assms(3,4,9) start] fin by simp
    next
      case False
      then show ?thesis using admit_running_places[OF _ places kind assms(8) m start] fin by simp
    qed
  qed
qed

lemma ready_places:
  assumes "res_bind (find_computed K E V W q r w) (\<lambda>(f, r1, w2). case f of
              None \<Rightarrow> Inr (True, set_aside X V side r1 w2)
            | Some p \<Rightarrow> res_bind (grant_tokens E C W L r1 p w2) (\<lambda>(ad, w3). case ad of
                None \<Rightarrow> Inr (False, w3)
              | Some a \<Rightarrow> allocate_and_admit cd K X E R V C W side q r1 p a w3)) = Inr (go_on, w')"
    and "wait_places ids X k w" "loop_queue_laws ids X V" "finished_states X" "ids (side_queue side w) \<noteq> []"
    and "q = peek_request V (side_queue side w)" "same_kind w q r" "request_id r = q" "status r \<noteq> WAITING_FOR_STREAMING_REQ"
  shows "wait_places ids X k w'"
proof -
  obtain f r1 w2 where f: "find_computed K E V W q r w = Inr (f, r1, w2)"
    using assms(1) by (auto simp: res_bind_eq_Inr)
  have c2: "calm w w2" "same_kind w q r1" using calm_find_computed[OF f assms(7)] by blast+
  have r1: "request_id r1 = q" "status r1 \<noteq> WAITING_FOR_STREAMING_REQ"
    using c2(2) assms(7-9) by (simp_all add: same_kind_def)
  have side2: "ids (side_queue side w2) \<noteq> []" "q = peek_request V (side_queue side w2)"
    using assms(5,6) calm_fields(2)[OF c2(1), of side] by simp_all
  show ?thesis
  proof (cases f)
    case None
    then have "w' = set_aside X V side r1 w2" using assms(1) f by simp
    then show ?thesis using set_aside_places[OF assms(3) side2(1) calm_places[OF c2(1) assms(2)]] r1(1) side2(2) by metis
  next
    case (Some p)
    obtain ad w3 where g: "grant_tokens E C W L r1 p w2 = Inr (ad, w3)"
      using assms(1) f Some by (auto simp: res_bind_eq_Inr)
    have c3: "calm w w3" using calm_trans[OF c2(1) calm_grant_tokens[OF g]] .
    note p3 = calm_places[OF c3 assms(2)]
    show ?thesis
    proof (cases ad)
      case None
      then show ?thesis using assms(1) f Some g p3 by simp
    next
      case ad: (Some a)
      have al: "allocate_and_admit cd K X E R V C W side q r1 p a w3 = Inr (go_on, w')"
        using assms(1) f Some g ad by simp
      have side3: "ids (side_queue side w3) \<noteq> []" "q = peek_request V (side_queue side w3)" "same_kind w3 q r1"
        using assms(5,6) calm_fields(2)[OF c3, of side] c2(2) same_kind_calm[OF c3] by simp_all
      show ?thesis by (rule allocate_and_admit_places[OF al p3 assms(3,4) side3 r1])
    qed
  qed
qed

lemma waiting_step_places:
  assumes "waiting_step cd K X E R V C W L w = Inr (go_on, w')" "wait_places ids X k w" "loop_queue_laws ids X V" "finished_states X"
  shows "wait_places ids X k w'"
proof (cases "max_running_reqs W \<le> int (length (running_ids (run w))) + num_waiting_for_streaming_input W")
  case True
  then show ?thesis using assms(1,2) by (simp add: waiting_step_def)
next
  case False
  obtain side where side: "select_waiting_queue V C w = Inr (Some side)"
    using assms(1) False by (auto simp: waiting_step_def res_bind_eq_Inr split: option.splits)
  let ?q = "peek_request V (side_queue side w)"
  obtain r0 where r0: "lookup_request (sched_of w) ?q = Inr r0"
    using assms(1) False side by (auto simp: waiting_step_def res_bind_eq_Inr Let_def)
  obtain ready w1 where w1: "(if is_blocked_waiting_status (status r0)
      then try_promote_blocked_waiting_request K V W ?q r0 w else Inr (True, w)) = Inr (ready, w1)"
    using assms(1) False side r0 unfolding waiting_step_def Let_def by (auto simp: res_bind_eq_Inr simp del: if_split_asm)
  obtain r where r: "lookup_request (sched_of w1) ?q = Inr r"
    using assms(1) False side r0 w1 by (auto simp: waiting_step_def res_bind_eq_Inr Let_def)
  have eq: "waiting_step cd K X E R V C W L w =
      (if \<not> ready \<or> 0 < num_stale_output_tokens r \<and> \<not> drop_stale_output r \<or> exceeds_loras V W w1 r
       then Inr (True, set_aside X V side r w1)
       else res_bind (find_computed K E V W ?q r w1) (\<lambda>(f, r1, w2). case f of
              None \<Rightarrow> Inr (True, set_aside X V side r1 w2)
            | Some p \<Rightarrow> res_bind (grant_tokens E C W L r1 p w2) (\<lambda>(ad, w3). case ad of
                None \<Rightarrow> Inr (False, w3)
              | Some a \<Rightarrow> allocate_and_admit cd K X E R V C W side ?q r1 p a w3)))"
    using False side r0 w1 r by (simp add: waiting_step_def Let_def)
  have ne: "ids (side_queue side w) \<noteq> []" using select_nonempty[OF side] assms(3) by (auto simp: loop_queue_laws_def)
  have "mset (out_of ids w) = add_mset ?q (mset (out_of ids (put_queue side (snd (pop_request V (side_queue side w))) w)))"
    by (rule popped[OF assms(3) ne])
  then have qo: "?q \<in> set (out_of ids w)" by (metis set_mset_mset union_single_eq_member)
  have t: "tidy X (running_ids (run w)) (out_of ids w) (kinds (sched_of w))" using assms(2) by (simp add: wait_places_def)
  have kind0: "same_kind w ?q r0" using lookup_kind[OF r0] .
  have id0: "request_id r0 = ?q" using tidy_ids[OF t, of ?q r0] r0 by (auto simp: lookup_request_def split: option.splits)
  have p1: "wait_places ids X k w1" "side_queue side w1 = side_queue side w"
    and open1: "ready \<Longrightarrow> status r0 \<noteq> WAITING_FOR_STREAMING_REQ \<and> w1 = w \<or> kinds (sched_of w1) ?q = Some (?q, WAITING)
      \<or> kinds (sched_of w1) ?q = Some (?q, PREEMPTED)"
  proof -
    have "wait_places ids X k w1 \<and> side_queue side w1 = side_queue side w
      \<and> (ready \<longrightarrow> status r0 \<noteq> WAITING_FOR_STREAMING_REQ \<and> w1 = w \<or> kinds (sched_of w1) ?q = Some (?q, WAITING)
        \<or> kinds (sched_of w1) ?q = Some (?q, PREEMPTED))"
    proof (cases "is_blocked_waiting_status (status r0)")
      case True
      then have "try_promote_blocked_waiting_request K V W ?q r0 w = Inr (ready, w1)" using w1 by simp
      from promote_places[OF this kind0 id0 assms(2,4) qo] show ?thesis by blast
    next
      case False
      then show ?thesis using w1 assms(2) by (simp add: is_blocked_waiting_status_def)
    qed
    then show "wait_places ids X k w1" "side_queue side w1 = side_queue side w"
      "ready \<Longrightarrow> status r0 \<noteq> WAITING_FOR_STREAMING_REQ \<and> w1 = w \<or> kinds (sched_of w1) ?q = Some (?q, WAITING)
      \<or> kinds (sched_of w1) ?q = Some (?q, PREEMPTED)" by blast+
  qed
  have kind: "same_kind w1 ?q r" using lookup_kind[OF r] .
  have t1: "tidy X (running_ids (run w1)) (out_of ids w1) (kinds (sched_of w1))" using p1(1) by (simp add: wait_places_def)
  have id1: "request_id r = ?q" using tidy_ids[OF t1, of ?q r] r by (auto simp: lookup_request_def split: option.splits)
  have side1: "ids (side_queue side w1) \<noteq> []" "?q = peek_request V (side_queue side w1)" using ne p1(2) by simp_all
  show ?thesis
  proof (cases "\<not> ready \<or> 0 < num_stale_output_tokens r \<and> \<not> drop_stale_output r \<or> exceeds_loras V W w1 r")
    case True
    then have "w' = set_aside X V side r w1" using assms(1) eq by simp
    then show ?thesis using set_aside_places[OF assms(3) side1(1) p1(1)] id1 side1(2) by metis
  next
    case go: False
    then have ready by blast
    have "status r \<noteq> WAITING_FOR_STREAMING_REQ"
      using open1[OF \<open>ready\<close>]
    proof (elim disjE conjE)
      assume "status r0 \<noteq> WAITING_FOR_STREAMING_REQ" "w1 = w"
      then show ?thesis using r r0 by simp
    qed (use kind in \<open>simp_all add: same_kind_def\<close>)
    from ready_places[OF _ p1(1) assms(3,4) side1 kind id1 this] show ?thesis
      using assms(1) unfolding eq[unfolded if_not_P[OF go]] by blast
  qed
qed

lemma waiting_loop_places:
  assumes "loop_queue_laws ids X V" "finished_states X"
  shows "wait_places ids X k w \<Longrightarrow> waiting_loop cd K X E R V C W L fuel w = Some (Inr w') \<Longrightarrow> wait_places ids X k w'"
proof (induction fuel arbitrary: w)
  case (Suc fuel)
  show ?case
  proof (cases "(0 < queue_len V (side_queue Waiting w) \<or> 0 < queue_len V (side_queue Skipped w)) \<and> 0 < token_budget (run w)")
    case True
    then obtain go_on w1 where s: "waiting_step cd K X E R V C W L w = Inr (go_on, w1)"
      "(if go_on then waiting_loop cd K X E R V C W L fuel w1 else Some (Inr w1)) = Some (Inr w')"
      using Suc.prems(2) by (auto split: sum.splits)
    then show ?thesis
      using Suc.IH waiting_step_places[OF s(1) Suc.prems(1) assms] by (auto split: if_splits)
  qed (use Suc.prems in auto)
qed simp

section \<open>The whole call\<close>

text \<open>Outside the loop nothing is set aside.\<close>

definition loop_places ::
  "('q \<Rightarrow> string list) \<Rightarrow> ('x, 'q, 'h) sched_ext \<Rightarrow> kinds \<Rightarrow> ('c, 'x, 'q, 'h, 'k) wait_state \<Rightarrow> bool" where
  "loop_places ids X k w \<longleftrightarrow> run_places ids X k (ids (skipped_queue w)) (run w)"

lemma schedule_waiting_places:
  assumes "schedule_waiting cd K X E R V C W L fuel bound w = Some (Inr (b, w'))" "loop_places ids X k w"
    and "loop_queue_laws ids X V" "finished_states X"
  shows "loop_places ids X k w'"
proof (cases "preempted_reqs (run w) = [] \<and> unpaused W")
  case True
  let ?w0 = "w\<lparr> step_skipped := create_request_queue V \<rparr>"
  obtain w1 where w1: "waiting_loop cd K X E R V C W L fuel ?w0 = Some (Inr w1)"
    and w': "w' = (if 0 < queue_len V (step_skipped w1)
      then w1\<lparr> skipped_queue := prepend_requests V (step_skipped w1) (skipped_queue w1) \<rparr> else w1)"
    using assms(1) True by (auto simp: schedule_waiting_def Let_def split: option.splits sum.splits)
  have "wait_places ids X k ?w0"
    using assms(2,3) by (simp add: wait_places_def loop_places_def run_places_def out_of_def loop_queue_laws_def)
  then have p1: "wait_places ids X k w1" by (rule waiting_loop_places[OF assms(3,4) _ w1])
  then have t: "tidy X (running_ids (run w1)) (out_of ids w1) (kinds (sched_of w1))" by (simp add: wait_places_def)
  have "mset (ids (prepend_requests V (step_skipped w1) (skipped_queue w1))) = mset (ids (step_skipped w1)) + mset (ids (skipped_queue w1))"
    "queue_len V (step_skipped w1) = length (ids (step_skipped w1))"
    using assms(3) by (simp_all add: loop_queue_laws_def)
  moreover have "waiting_queue (sched_of w') = waiting_queue (sched_of w1)" unfolding w' by simp
  ultimately have "mset (ids (waiting_queue (sched_of w')) @ ids (skipped_queue w')) = mset (out_of ids w1)"
    unfolding w' out_of_def by simp
  from tidy_mset[OF t this] show ?thesis
    using p1 unfolding w' by (simp add: loop_places_def run_places_def wait_places_def split: if_splits)
next
  case False
  then have "w' = w" using assms(1) unfolding schedule_waiting_def if_not_P[OF False] by simp
  then show ?thesis using assms(2) by simp
qed

lemma schedule_loops_places:
  assumes "schedule_loops cd K X E R V C W M fuel throttle bound w = Some (Inr (b, w'))"
    and "tidy X (running_ids (run w)) (ids (waiting_queue (sched_of w)) @ ids (skipped_queue w)) (kinds (sched_of w))"
    and "startable (kinds (sched_of w)) (ids (waiting_queue (sched_of w)))"
    and "loop_queue_laws ids X V" "finished_states X"
  shows "loop_places ids X (kinds (sched_of w)) w'"
proof -
  obtain L st0 where s0: "schedule_start K R C M throttle bound ((gate (run w))\<lparr> skipped_waiting := queued_requests R (skipped_queue w) \<rparr>)
      (long_prefill_gate_skips (run w)) (running_ids (run w)) (sched_of w) = Inr (L, st0)"
    using assms(1) by (auto simp: schedule_loops_def split: sum.splits)
  obtain st ls where st: "running_loop K X E R C L st0 = Inr st"
    and sw: "schedule_waiting cd K X E R V C W L fuel bound
      (w\<lparr> run := st, scheduled_new_reqs := [], scheduled_resumed_reqs := [], scheduled_loras := ls \<rparr>) = Some (Inr (b, w'))"
    using assms(1) s0 by (auto simp: schedule_loops_def res_bind_eq_Inr split: sum.splits)
  have "running_ids st0 = running_ids (run w)" using s0 by (auto simp: schedule_start_def res_bind_eq_Inr Let_def split_beta)
  moreover have "kinds (sched st0) = kinds (sched_of w)" "waiting_queue (sched st0) = waiting_queue (sched_of w)"
    using schedule_start_sched[OF s0] kinds_same by blast+
  ultimately have "run_places ids X (kinds (sched_of w)) (ids (skipped_queue w)) st0"
    using assms(2,3) by (simp add: run_places_def)
  then have "run_places ids X (kinds (sched_of w)) (ids (skipped_queue w)) st"
    by (rule running_loop_places[OF assms(4,5) _ st])
  then show ?thesis by (intro schedule_waiting_places[OF sw _ assms(4,5)]) (simp add: loop_places_def)
qed

text \<open>What the end of the step leaves alone.\<close>

lemma advance_kinds:
  "advance_requests items b s = Inr (b', s') \<Longrightarrow> kinds s' = kinds s \<and> waiting_queue s' = waiting_queue s"
proof (induction items arbitrary: b s)
  case (Cons item items)
  obtain q n where item: "item = (q, n)" by (cases item)
  obtain r where r: "requests s q = Some r" using Cons.prems(1) item by (cases "requests s q") auto
  let ?r = "scheduled (fence s) n r"
  let ?s = "s\<lparr> requests := (requests s)(q \<mapsto> ?r),
      inflight_prefills := (if is_prefill_chunk ?r then inflight_prefills s else inflight_prefills s - {request_id ?r}) \<rparr>"
  obtain b1 where rest: "advance_requests items b1 ?s = Inr (b', s')" using Cons.prems(1) item r by (simp add: Let_def)
  have "kinds ?s = kinds s" by (rule kinds_again[OF _ r, where r' = ?r]) (simp_all add: scheduled_def)
  then show ?case using Cons.IH[OF rest] by simp
qed simp

lemma close_step_places:
  assumes "close_step K V Z out0 l = Inr (out, l')"
  shows "kinds (store l') = kinds (store l) \<and> waiting_queue (store l') = waiting_queue (store l) \<and> running_queue l' = running_queue l
    \<and> skipped_queue (wait l') = skipped_queue (wait l) \<and> streaming_inputs l' = streaming_inputs l \<and> sessions l' = sessions l"
proof -
  define l1 where "l1 = (if connector V = None then l
      else l\<lparr> wait := (wait l)\<lparr> connector_state := build_connector_meta Z out0 (connector_state (wait l)) \<rparr> \<rparr>)"
  define l2 where "l2 = with_store (\<lambda>s. s\<lparr> fence := schedule_fence (out_total_num_scheduled_tokens out0) (fence s) \<rparr>) l1"
  obtain b s where up: "update_after_schedule K (attn_gid Z) (out_num_scheduled_tokens out0) False (store l2) = Inr (b, s)"
    and l': "l' = with_store (\<lambda>_. s) l2"
    using assms(1) unfolding close_step_def Let_def l1_def[symmetric] l2_def[symmetric] by (auto simp: res_bind_eq_Inr)
  obtain s1 where adv: "advance_requests (out_num_scheduled_tokens out0) False (store l2) = Inr (b, s1)"
    and s: "requests s = requests s1" "waiting_queue s = waiting_queue s1"
    using up by (auto simp: update_after_schedule_def res_bind_eq_Inr)
  have same: "requests (store l2) = requests (store l)" "waiting_queue (store l2) = waiting_queue (store l)"
    "running_queue l2 = running_queue l" "skipped_queue (wait l2) = skipped_queue (wait l)"
    "streaming_inputs l2 = streaming_inputs l" "sessions l2 = sessions l"
    by (simp_all add: l2_def l1_def with_store_def with_sched_def)
  have "store l' = s" "running_queue l' = running_queue l2" "skipped_queue (wait l') = skipped_queue (wait l2)"
    "streaming_inputs l' = streaming_inputs l2" "sessions l' = sessions l2"
    unfolding l' by (simp_all add: with_store_def with_sched_def)
  then show ?thesis using advance_kinds[OF adv] s(2) same kinds_same[OF s(1)] kinds_same[OF same(1)] by simp
qed

lemma schedule_output_places:
  assumes "schedule_output K V W Z M L ctrl l = Inr (out, l')"
  shows "kinds (store l') = kinds (store l) \<and> waiting_queue (store l') = waiting_queue (store l) \<and> running_queue l' = running_queue l
    \<and> skipped_queue (wait l') = skipped_queue (wait l) \<and> streaming_inputs l' = streaming_inputs l \<and> sessions l' = sessions l"
proof -
  obtain tails copies freed zero l1 where d: "drain_managers K W Z L l = ((tails, copies, freed, zero), l1)"
    by (metis prod.collapse)
  obtain out0 where c: "close_step K V Z out0 l1 = Inr (out, l')"
    using assms unfolding schedule_output_def Let_def d by (auto simp: res_bind_eq_Inr)
  have "life_frame l l1" using drain_managers_frame[of l K W Z L] d by simp
  then have f: "requests (store l1) = requests (store l)" "waiting_queue (store l1) = waiting_queue (store l)"
    "running_queue l1 = running_queue l" "skipped_queue (wait l1) = skipped_queue (wait l)"
    "streaming_inputs l1 = streaming_inputs l" "sessions l1 = sessions l"
    by (simp_all add: life_frame_def store_frame_def all_sides waiting_side)
  then show ?thesis using close_step_places[OF c] kinds_same[OF f(1)] by simp
qed

text \<open>The invariant of the whole scheduler in these terms.\<close>

lemma kinds_status: "status_of l q = map_option snd (kinds (store l) q)"
  by (simp add: status_of_def kinds_def option.map_comp comp_def)

lemma life_ok_tidy:
  assumes "life_ok ids X l"
  shows "tidy X (running_queue l) (queued ids l Waiting @ queued ids l Skipped) (kinds (store l))"
proof -
  have id: "i = q" if "kinds (store l) q = Some (i, st)" for q i st
    using that assms by (auto simp: life_ok_def kinds_def)
  then have st: "kinds (store l) q = Some (q, st) \<longleftrightarrow> status_of l q = Some st" for q st
    by (auto simp: kinds_status)
  have "(\<exists>st. status_of l q = Some st \<and> st \<noteq> RUNNING \<and> \<not> status_is_finished X st)
      \<longleftrightarrow> alive X l q \<and> status_of l q \<noteq> Some RUNNING" for q
    by (auto simp: alive_iff)
  then show ?thesis using assms id by (auto simp: tidy_def life_ok_def st)
qed

lemma life_ok_startable: "life_ok ids X l \<Longrightarrow> startable (kinds (store l)) (queued ids l Waiting)"
  by (simp add: startable_def life_ok_def unblocked_def kinds_status)

lemma tidy_paused:
  assumes "tidy X (running_queue l) (queued ids l Waiting @ queued ids l Skipped) (kinds (store l))" "finished_states X"
  shows "paused ids l = {q. kinds (store l) q = Some (q, WAITING_FOR_STREAMING_REQ)}"
proof -
  have id: "kinds (store l) q = Some (q, st) \<longleftrightarrow> status_of l q = Some st" for q st
    using assms(1) by (auto simp: tidy_def kinds_status)
  have "q \<in> set (queued ids l Waiting) \<union> set (queued ids l Skipped)" if "status_of l q = Some WAITING_FOR_STREAMING_REQ" for q
  proof -
    have "kinds (store l) q = Some (q, WAITING_FOR_STREAMING_REQ)" using that id by simp
    then have "q \<in> set (queued ids l Waiting @ queued ids l Skipped)"
      using assms live_states(5)[OF assms(2)] unfolding tidy_def by blast
    then show ?thesis by simp
  qed
  then show ?thesis by (auto simp: paused_def id)
qed

lemma tidy_life_ok:
  assumes "life_ok ids X l" "finished_states X"
    and "tidy X (running_queue l') (queued ids l' Waiting @ queued ids l' Skipped) (kinds (store l'))"
    and "steady (kinds (store l)) (kinds (store l'))" "sessions l' = sessions l" "streaming_inputs l' = streaming_inputs l"
    and "startable (kinds (store l')) (queued ids l' Waiting)"
  shows "life_ok ids X l'"
proof -
  have id: "kinds (store l') q = Some (q, st) \<longleftrightarrow> status_of l' q = Some st" for q st
    using assms(3) by (auto simp: tidy_def kinds_status)
  have out: "q \<in> set (queued ids l' Waiting) \<union> set (queued ids l' Skipped) \<longleftrightarrow> alive X l' q \<and> status_of l' q \<noteq> Some RUNNING" for q
  proof -
    have "q \<in> set (queued ids l' Waiting @ queued ids l' Skipped)
        \<longleftrightarrow> (\<exists>st. kinds (store l') q = Some (q, st) \<and> st \<noteq> RUNNING \<and> \<not> status_is_finished X st)"
      using assms(3) unfolding tidy_def by blast
    then show ?thesis by (auto simp: id alive_iff)
  qed
  have run: "q \<in> set (running_queue l') \<longleftrightarrow> status_of l' q = Some RUNNING" for q
  proof -
    have "q \<in> set (running_queue l') \<longleftrightarrow> kinds (store l') q = Some (q, RUNNING)" using assms(3) unfolding tidy_def by blast
    then show ?thesis by (simp add: id)
  qed
  have reg: "request_id r = q \<and> sessions l' q \<noteq> None" if "requests (store l') q = Some r" for q r
  proof -
    have "kinds (store l') q \<noteq> None" using kinds_at[OF that] by simp
    then have "kinds (store l) q \<noteq> None" using steady_None[OF assms(4)] by simp
    then obtain r0 where "requests (store l) q = Some r0" by (cases "requests (store l) q") (simp_all add: kinds_def)
    then have "sessions l q \<noteq> None" using assms(1) by (simp add: life_ok_def)
    then show ?thesis using tidy_ids[OF assms(3) that] by (simp add: assms(5))
  qed
  have "paused ids l' = paused ids l"
    using tidy_paused[OF assms(3,2)] tidy_paused[OF life_ok_tidy[OF assms(1)] assms(2)] assms(4) by (simp add: steady_def)
  moreover have "distinct (running_queue l')" "distinct (queued ids l' Waiting @ queued ids l' Skipped)"
    using assms(3) unfolding tidy_def by blast+
  moreover have "\<forall>q \<in> set (queued ids l' Waiting). unblocked l' q"
    using assms(7) by (simp add: startable_def unblocked_def kinds_status)
  ultimately show ?thesis using assms(1,6) out run reg by (simp add: life_ok_def)
qed

lemma schedule_places:
  assumes "schedule cd K X E R V C W Z M fuel throttle bound ctrl l = Some (Inr (out, b, l'))"
    and "life_ok ids X l" "loop_queue_laws ids X V" "finished_states X"
  shows "life_ok ids X l' \<and> sessions l' = sessions l \<and> (\<forall>q. requests (store l') q = None \<longleftrightarrow> requests (store l) q = None)"
proof -
  let ?V = "V\<lparr> streaming_queue_empty := no_chunk_waits l \<rparr>" and ?W = "W\<lparr> num_waiting_for_streaming_input := streaming_inputs l \<rparr>"
  obtain L w' where loops: "schedule_loops cd K X E R ?V C ?W M fuel throttle bound (wait l) = Some (Inr (b, w'))"
    and out: "schedule_output K ?V ?W Z M L ctrl (l\<lparr> wait := w' \<rparr>) = Inr (out, l')"
    using assms(1) by (auto simp: schedule_def Let_def res_bind_eq_Inr split: sum.splits option.splits)
  have laws: "loop_queue_laws ids X ?V" using assms(3) by (simp add: loop_queue_laws_def)
  have "loop_places ids X (kinds (store l)) w'"
    using schedule_loops_places[OF loops _ _ laws assms(4)] life_ok_tidy[OF assms(2)] life_ok_startable[OF assms(2)]
    by (simp add: waiting_side)
  then have t: "tidy X (running_queue l') (queued ids l' Waiting @ queued ids l' Skipped) (kinds (store l'))"
    and st: "steady (kinds (store l)) (kinds (store l'))"
    and start: "startable (kinds (store l')) (queued ids l' Waiting)"
    using schedule_output_places[OF out] by (simp_all add: loop_places_def run_places_def waiting_side)
  have same: "sessions l' = sessions l" "streaming_inputs l' = streaming_inputs l"
    using schedule_output_places[OF out] by simp_all
  have "requests (store l') q = None \<longleftrightarrow> requests (store l) q = None" for q
    using st by (simp add: steady_def kinds_def)
  then show ?thesis using tidy_life_ok[OF assms(2,4) t st same start] same(1) by simp
qed

end
