(* ===== verification/Sched_Engine.thy ===== *)
theory Sched_Engine
  imports Sched_Places
begin

text \<open>
  The scheduler as a state machine: the calls that the engine core makes on it, in any order and with any arguments, and
  the invariant of every state that they reach.
\<close>

section \<open>The calls\<close>




section \<open>Draft tokens and resets\<close>





section \<open>Every reachable state\<close>




section \<open>A concrete engine\<close>

















end
