(* ===== verification/Spec2Isabelle.thy ===== *)
theory Spec2Isabelle
  imports Shm_Protocol Shm_Message Kv_Spec_Props Cuda_Graphs_Props Kv_Manager_Props Sched_Prefill_Props Sched_Accept_Props
    Sched_Running_Props Sched_Waiting_Props Sched_Output_Props Sched_Step_Props Sched_Engine
begin

text \<open>
  Verification development for the GLM-5.2 serving kit.

  The kit is a set of Python files mounted over an inference engine. A scheduler decides per step which
  requests run with how many tokens and at which speculative depth; a KV-cache manager gives out blocks whose
  format the KV-cache specifications fix; the worker replays CUDA graphs captured for the shapes that
  can occur; processes of one engine talk through a shared-memory message queue. The development models these
  five parts and how they meet; the tensor code is left out.

  The parts, the theories and the code under \<^verbatim>\<open>src/overlays/\<close>.

  \<^item> \<open>Py_Prelude\<close>: exceptions and results, slices, ceiling division. A Python function that can raise returns
    \<open>py_error + 'a\<close>, and, where the object it leaves behind matters, the new state as well. \<open>Py_Float\<close>: non-negative
    binary64 with round-to-nearest-even, so that \<^verbatim>\<open>/\<close>, \<^verbatim>\<open>+\<close> and \<^verbatim>\<open>>=\<close> on floats are computed as the interpreter does.
  \<^item> \<open>Shm_Layout\<close>, \<open>Shm_Protocol\<close>, \<open>Shm_Message\<close>: \<^verbatim>\<open>vllm/distributed/device_communicators/shm_broadcast.py\<close>. The
    segment with its chunks and flags; \<^verbatim>\<open>acquire_write\<close> and \<^verbatim>\<open>acquire_read\<close> as interleaved steps of one writer and
    any number of readers, where a poll is one step (\<open>Shm_Protocol\<close> says why this loses nothing) and every store and
    every byte of a block is a step of its own; framing, overflow to the socket, and the roles of a process group. The interface
    \<open>ring_memory\<close> holds the read-over-write laws of the segment, interpreted on the byte list.
  \<^item> \<open>Kv_Spec\<close>, \<open>Kv_Spec_Props\<close>: \<^verbatim>\<open>vllm/v1/kv_cache_interface.py\<close>. The spec classes as records that extend one another,
    page sizes, alignment padding, memory budgets, merging, uniform-type groups and the configuration. The interface
    \<open>layer_merge\<close> states what the merge functions share.
  \<^item> \<open>Kv_Manager\<close>, \<open>Kv_Manager_Props\<close>: \<^verbatim>\<open>dspark-ring/kv_cache_manager.py\<close>. Lookup with the ring trim, \<^verbatim>\<open>allocate_slots\<close>,
    release, pinned partial tails, zeroing, copies, block-table views. Coordinator, block pool and
    single-type managers are the record argument \<open>K\<close> of functions on an abstract state.
  \<^item> \<open>Sched_Prefill\<close>, \<open>Sched_Prefill_Props\<close>: the long-prefill gate, the block-aligned split of a chunk and the fence on freed
    blocks of \<^verbatim>\<open>vllm/v1/core/sched/scheduler.py\<close>. \<open>Sched_Accept\<close>, \<open>Sched_Accept_Props\<close>: preemption and requests in
    flight, the feed of the depth controller, the depth of the next step and the instrumentation window of the same file.
  \<^item> \<open>Sched_Encoder\<close>, \<open>Sched_Encoder_Props\<close>: which multimodal inputs a step runs and how many tokens they let through.
    \<open>Sched_Running\<close>, \<open>Sched_Running_Props\<close>: \<^verbatim>\<open>schedule()\<close> of the same file up to the end of the loop over the running
    requests, with its budgets, its skips, allocation with preemption, and the commit. \<open>Sched_Waiting\<close>,
    \<open>Sched_Waiting_Props\<close>: the loop that admits waiting requests, with promotion, prefix lookups, remote hits,
    token counts and allocation, both loops together, and the constraints asserted after them. Requests are kept in
    the store \<open>requests\<close>, queues hold their ids, because the code shares request objects between them.
  \<^item> \<open>Sched_Step\<close>, \<open>Sched_Step_Props\<close>: the end of \<^verbatim>\<open>schedule()\<close> with the output record for the workers, and the whole call.
    \<open>Sched_Life\<close>, \<open>Sched_Transfer\<close>, \<open>Sched_Output\<close>: the life of a request in the same file. Streams and their chunks,
    stopping, finishing and freeing; adding, finished and failed KV transfers, draft tokens, resets, the counts that keep the
    engine stepping; and \<^verbatim>\<open>update_from_output\<close> from the fence on freed blocks to the reports. \<open>Sched_Transfer_Props\<close>: what
    one operation promises. \<open>Sched_Life_Props\<close>, \<open>Sched_Output_Props\<close>: the invariant \<open>life_ok\<close>, which says in which queue
    every request is, kept by adding, finishing and by the update; while outputs are processed it is weakened to \<open>mid_ok\<close>,
    which lets stopped requests stay in their old queue. Tokens and streams of a request are in \<open>sessions\<close>, beside the store.
  \<^item> \<open>Sched_Places\<close>: the invariant through the loops and the end of \<^verbatim>\<open>schedule()\<close>, by the moves between queues
    (\<open>tidy_preempt\<close>, \<open>tidy_change\<close>, \<open>tidy_admit\<close>). \<open>Sched_Engine\<close>: the scheduler as a state machine, \<open>engine_step\<close>, whose
    steps are the calls of the engine core, and the invariant of every state that it reaches.
  \<^item> \<open>Spec_Depth\<close>, \<open>Spec_Depth_Props\<close>: \<^verbatim>\<open>vllm/v1/spec_decode/dynamic/depth_ladder.py\<close> and
    \<^verbatim>\<open>acceptance_length.py\<close>. The interface \<open>depth_selector\<close> is what users of a depth controller rely on.
  \<^item> \<open>Cuda_Graphs\<close>, \<open>Cuda_Graphs_Props\<close>: \<^verbatim>\<open>vllm/v1/worker/gpu/cudagraph_utils.py\<close>. Descriptors, candidate ranges, the
    fail-closed checks, capture as a trace of calls, dispatch and replay.
  \<^item> This theory: the property that joins ladder, controller and graph manager.

  What the lemmas show. For the queue: consumed blocks are the published ones in order under every
  interleaving, writer and reader never meet in a block, nothing deadlocks, and what is enqueued is dequeued. For
  the specs: a merged group keeps the page sizes, padding is the least multiple, budgets and caps suffice. For the KV manager: the trim leaves the ring its window, admission keeps reserve and watermark, pins are
  released exactly once. For the scheduler: the gate keeps its limits and rotates, chunks end where state is kept,
  no block returns before its writers, stale output is recognised exactly, and controller and instrumentation get exact counts; granted
  tokens have their encoder inputs; the running loop returns, keeps its budgets, and its queues and books agree; both
  loops return and meet the constraints asserted after them. Outside them every request that is alive stays in the one
  queue that fits its status, finished ones leave no trace, the unfinished are counted exactly, blocks that failed to load are
  computed again, chunks keep what is computed, drafts fit their placeholders, and the output of a step names what
  was scheduled and nothing else. In whatever order the calls come, no request is lost, with one exception, which is
  stated exactly: a stream stopped while it is preempted. For
  the depth: the parser and the controller stay on the ladder, the float policy is the exact one up to one tie,
  and every selectable depth has a captured graph. Several theorems show where the code departs from its own comments.

  Assumptions and bounds. Shared memory is sequentially consistent. Environment text is Latin-1. Floats
  are finite or positive infinity; the counts whose quotients are taken are at most \<open>2 ^ 999\<close> or \<open>2 ^ 1000\<close>, so that
  no division overflows, and at most \<open>2 ^ 40\<close> where the policy is compared with exact fractions. \<open>good_config\<close>
  collects what the engine guarantees of a graph configuration. The loop over spec classes uses fuel five; the hierarchy is
  at most four links deep. The admission loop has a bound on its passes; one more than there are waiting requests is
  enough, because each pass that goes on takes a request off a queue. What is asked of a parameter (\<open>bounded_hits\<close>, \<open>announced_allocation\<close>, \<open>is_cdiv\<close>,
  \<open>is_round_up\<close>) is the documented behaviour of the module it stands for, and a concrete instance meets it.

  The queue classes are asked to add and remove ids (\<open>queue_laws\<close>), to prepend, pop and join them (\<open>loop_queue_laws\<close>), statuses to tell finished from alive (\<open>finished_states\<close>),
  a stop check to make the request finished (\<open>reply_laws\<close>), and a connector to take all cache groups (\<open>takes_all_groups\<close>).

  Not modelled: statistics, and the encoder metadata in the output of \<^verbatim>\<open>schedule()\<close>; of a reply the log
  probabilities, routed experts, events and statistics; the composition of the depth with the batch-size schedule on the
  graph side, sockets and polling times, logging, and all tensor, kernel, transport and training code, whose meaning
  is fixed outside the repository.
\<close>

section \<open>Adaptive depth and captured graphs\<close>

text \<open>
  C13. Every depth the controller selects runs on a captured FULL graph. The scheduler's controller and
  the CUDA-graph manager parse the same ladder; if the manager is constructed, with adaptation on and a
  separate decode routine, then after any sequence of observations the verification batch of up to
  min(max_num_seqs, 32) requests at the controller's depth is dispatched to a FULL graph that was captured
  and fits it, never to eager execution.
\<close>

theorem scheduled_depth_has_full_graph:
  assumes "CudaGraphManager cfg = Inr mgr0" "good_config cfg" "capture mgr0 = Inr (evs, mgr)"
    and "speculative_config cfg = Some sc" "adaptive_speculative_tokens_window sc = Some w"
    and "1 < decode_query_len cfg" "separate_routine (cudagraph_mode cfg)"
    and "parse_adaptive_spec_depth_ladder (depths_env cfg) (num_speculative_tokens cfg) None = Inr L"
    and "AcceptanceLengthController (num_speculative_tokens cfg) w (Some L) = Inr c0"
    and "1 \<le> n" "n \<le> min (max_num_reqs cfg) 32"
    and "resolve_effective_loras (lora_map mgr) l \<in> set (lora_capture_cases (config mgr))"
    and "q = num_spec_tokens (observe_all c0 os) + (decode_query_len cfg - num_speculative_tokens cfg)"
  shows "desc_mode (dispatch mgr n (q * n) (Some q) l) = CG_FULL
    \<and> run_fullgraph mgr (dispatch mgr n (q * n) (Some q) l) = Inr (dispatch mgr n (q * n) (Some q) l)
    \<and> is_compatible (dispatch mgr n (q * n) (Some q) l) n (q * n) (Some q) (resolve_effective_loras (lora_map mgr) l)"
proof -
  have "depth_ladder c0 = L"
    using assms(9) parse_is_ladder[OF assms(8)] controller_ladder_id
    by (auto simp: AcceptanceLengthController_def Let_def split: if_splits)
  then have "num_spec_tokens (observe_all c0 os) \<in> set L"
    using ctrl.run_depth[of c0 L os] controller_init_inv[OF assms(9)] by (simp add: observe_all_foldl)
  moreover have "uses_acceptance_length_adaptation sc" using assms(5) by (simp add: uses_acceptance_length_adaptation_def)
  ultimately show ?thesis
    using ladder_dispatch[OF assms(1-4) _ assms(6-8) _ assms(10-13)] by (simp add: run_fullgraph_def)
qed

theorem scheduled_depth_has_full_graph_witness:
  "desc_mode (dispatch (snd (captured demo_cfg_graphs)) 2 (3 * 2) (Some 3) 0) = CG_FULL"
proof -
  have "parse_adaptive_spec_depth_ladder (depths_env demo_cfg_graphs) (num_speculative_tokens demo_cfg_graphs) None = Inr [2, 4, 5]"
    by code_simp
  moreover have "AcceptanceLengthController (num_speculative_tokens demo_cfg_graphs) 8 (Some [2, 4, 5]) = Inr (demo_ctrl 2 8)"
    by code_simp
  moreover have "resolve_effective_loras (lora_map (snd (captured demo_cfg_graphs))) 0
      \<in> set (lora_capture_cases (config (snd (captured demo_cfg_graphs))))"
    by code_simp
  moreover have "(3 :: int) = num_spec_tokens (observe_all (demo_ctrl 2 8) [])
      + (decode_query_len demo_cfg_graphs - num_speculative_tokens demo_cfg_graphs)"
    by code_simp
  ultimately show ?thesis
    using scheduled_depth_has_full_graph[OF demo_built demo_good demo_captured, of
        "\<lparr> num_speculative_tokens_per_batch_size = None, adaptive_speculative_tokens_window = Some 8 \<rparr>" 8 "[2, 4, 5]"
        "demo_ctrl 2 8" 2 0 3 "[]"]
    by (simp add: demo_graph_config_def)
qed

end
